(* ===== verification/AC_Prelude.thy ===== *)
theory AC_Prelude
  imports Main
begin

text \<open>
  Shared vocabulary of the development.

  \<^item> Results: a service call returns \<open>api_error + 'a\<close>; \<open>bindE\<close> sequences calls and stops at
    the first error, as an exception does.
  \<^item> Tables: a database table is a list of rows. \<open>upd P f\<close> is \<open>UPDATE .. SET f WHERE P\<close>,
    \<open>rowcount P\<close> the number of rows the statement touches, \<open>sumof P f\<close> is \<open>SUM(f) WHERE P\<close>.
  \<^item> Text: a Python \<open>str\<close> is a list of code points (\<open>pystr\<close>); \<open>utf8_size\<close> is the length of
    its UTF-8 encoding, \<open>py_strip\<close> is \<open>str.strip()\<close>.
\<close>

named_theorems table_simps
named_theorems frame_simps

section \<open>Errors and sequencing\<close>

text \<open>The registered error codes (\<open>ErrorCode\<close>); the string values equal the names.\<close>

datatype error_code =
    INVITATION_INVALID | INVITATION_EXPIRED | INVITATION_CONSUMED | EMAIL_NOT_VERIFIED
  | ACCOUNT_PENDING | ACCOUNT_SUSPENDED | ACCOUNT_DELETING
  | MFA_INVALID | MFA_NOT_CONFIGURED | CSRF_INVALID | SESSION_EXPIRED | INVALID_CREDENTIALS
  | IDEMPOTENCY_CONFLICT
  | QUOTA_DAILY_EXCEEDED | QUOTA_ACTIVE_EXCEEDED | QUOTA_STORAGE_EXCEEDED
  | INPUT_COMMITTED | INPUT_NOT_COMMITTED | FILE_LIMIT_EXCEEDED
  | PROVIDER_NOT_CONFIGURED | CATALOG_ITEM_DISABLED | MODEL_NOT_ALLOWED | KEY_VERSION_REVOKED
  | PROVIDER_DUPLICATE
  | REVISION_NOT_PUBLISHED | REVIEW_PENDING | TOOL_REVOKED | REPORT_INVALID_TARGET
  | REPORT_ALREADY_RESOLVED | ENTITY_IN_USE | ADMIN_REASON_REQUIRED | ADMIN_MFA_REQUIRED
  | FORBIDDEN
  | TASK_NOT_FOUND | TASK_INVALID_TRANSITION | TASK_ROUND_BUSY | FILE_NOT_FOUND
  | TOOL_CALL_REJECTED | MCP_CALL_FAILED | PROMPT_TOO_LARGE

text \<open>
  What a call can raise: an \<open>AgentCraftError\<close> (code, HTTP status, extra headers), an
  \<open>HTTPException\<close> with a literal detail code, a violated unique index or foreign key
  (\<open>IntegrityError\<close>), \<open>NoResultFound\<close> and \<open>MultipleResultsFound\<close> of \<open>scalar_one()\<close>, a failed file operation (\<open>OSError\<close>), an \<open>IndexError\<close>, a \<open>ValueError\<close>, a \<open>KeyError\<close>,
  a statement the database refuses (a trigger or a row-level policy, \<open>DatabaseError\<close>), \<open>ContentTooLarge\<close>,
  the dispatcher's internal \<open>_CandidateDropped\<close>, or the limiter's 429 with its \<open>Retry-After\<close>
  seconds. Message texts are not modelled.
\<close>

datatype api_error =
    AppError error_code nat "(string \<times> string) list"
  | HttpDetail string nat
  | IntegrityError string
  | NoResultFound
  | IndexError
  | ContentTooLarge
  | CandidateDropped
  | ValueError
  | RateLimited int
  | KeyError
  | DatabaseError string
  | MultipleResultsFound
  | OSError

abbreviation app_error :: "error_code \<Rightarrow> nat \<Rightarrow> api_error" where
  "app_error c n \<equiv> AppError c n []"

abbreviation validation_error :: api_error where
  "validation_error \<equiv> HttpDetail ''VALIDATION_ERROR'' 400"

definition bindE :: "'e + 'a \<Rightarrow> ('a \<Rightarrow> 'e + 'b) \<Rightarrow> 'e + 'b" where
  "bindE m f = (case m of Inl e \<Rightarrow> Inl e | Inr x \<Rightarrow> f x)"

lemma bindE_simps [simp]:
  "bindE (Inl e) f = Inl e"
  "bindE (Inr x) f = f x"
  by (simp_all add: bindE_def)

lemma bindE_Inr_iff [simp]: "bindE m f = Inr y \<longleftrightarrow> (\<exists>x. m = Inr x \<and> f x = Inr y)"
  by (cases m) auto

lemma bindE_Inl_iff: "bindE m f = Inl e \<longleftrightarrow> m = Inl e \<or> (\<exists>x. m = Inr x \<and> f x = Inl e)"
  by (cases m) auto

lemma bindE_cong [fundef_cong]:
  "m = m' \<Longrightarrow> (\<And>x. m' = Inr x \<Longrightarrow> f x = f' x) \<Longrightarrow> bindE m f = bindE m' f'"
  by (cases m') auto

text \<open>Run a fallible function over a list, threading the state; stop at the first error.\<close>

fun foldE :: "('x \<Rightarrow> 's \<Rightarrow> 'e + 's) \<Rightarrow> 'x list \<Rightarrow> 's \<Rightarrow> 'e + 's" where
  "foldE f [] s = Inr s"
| "foldE f (x # xs) s = bindE (f x s) (foldE f xs)"

lemma foldE_invariant:
  assumes "foldE f xs s = Inr s'" and "I s"
    and "\<And>x s s'. x \<in> set xs \<Longrightarrow> I s \<Longrightarrow> f x s = Inr s' \<Longrightarrow> I s'"
  shows "I s'"
  using assms by (induction xs arbitrary: s) auto

section \<open>Tables\<close>

definition upd :: "('a \<Rightarrow> bool) \<Rightarrow> ('a \<Rightarrow> 'a) \<Rightarrow> 'a list \<Rightarrow> 'a list" where
  "upd P f xs = map (\<lambda>x. if P x then f x else x) xs"

definition rowcount :: "('a \<Rightarrow> bool) \<Rightarrow> 'a list \<Rightarrow> nat" where
  "rowcount P xs = length (filter P xs)"

definition sumof :: "('a \<Rightarrow> bool) \<Rightarrow> ('a \<Rightarrow> nat) \<Rightarrow> 'a list \<Rightarrow> nat" where
  "sumof P f xs = sum_list (map f (filter P xs))"

lemma upd_Nil [simp]: "upd P f [] = []"
  and upd_Cons [simp]: "upd P f (x # xs) = (if P x then f x else x) # upd P f xs"
  and upd_append [simp]: "upd P f (xs @ ys) = upd P f xs @ upd P f ys"
  by (simp_all add: upd_def)

lemma length_upd [simp]: "length (upd P f xs) = length xs"
  by (simp add: upd_def)

lemma set_upd: "set (upd P f xs) = (\<lambda>x. if P x then f x else x) ` set xs"
  by (simp add: upd_def)

lemma ball_upd [simp]: "(\<forall>x\<in>set (upd P f xs). Q x) \<longleftrightarrow> (\<forall>x\<in>set xs. Q (if P x then f x else x))"
  by (induction xs) auto

lemma bex_upd [simp]: "(\<exists>x\<in>set (upd P f xs). Q x) \<longleftrightarrow> (\<exists>x\<in>set xs. Q (if P x then f x else x))"
  by (induction xs) auto

lemma map_upd [table_simps]: "(\<And>x. P x \<Longrightarrow> g (f x) = g x) \<Longrightarrow> map g (upd P f xs) = map g xs"
  by (simp add: upd_def)

lemma upd_False: "(\<And>x. x \<in> set xs \<Longrightarrow> \<not> P x) \<Longrightarrow> upd P f xs = xs"
  by (induction xs) auto

lemma filter_upd: "filter P (upd Q f xs) = upd Q f (filter (\<lambda>x. P (if Q x then f x else x)) xs)"
  by (induction xs) auto

lemma filter_upd_frame:
  "(\<And>x. x \<in> set xs \<Longrightarrow> Q x \<Longrightarrow> \<not> P x \<and> \<not> P (f x)) \<Longrightarrow> filter P (upd Q f xs) = filter P xs"
  by (induction xs) auto

lemma rowcount_simps [simp]:
  "rowcount P [] = 0"
  "rowcount P (x # xs) = (if P x then Suc (rowcount P xs) else rowcount P xs)"
  "rowcount P (xs @ ys) = rowcount P xs + rowcount P ys"
  by (simp_all add: rowcount_def)

lemma sumof_simps [simp]:
  "sumof P f [] = 0"
  "sumof P f (x # xs) = (if P x then f x + sumof P f xs else sumof P f xs)"
  "sumof P f (xs @ ys) = sumof P f xs + sumof P f ys"
  by (simp_all add: sumof_def)

lemma rowcount_0_iff: "rowcount P xs = 0 \<longleftrightarrow> (\<forall>x\<in>set xs. \<not> P x)"
  by (induction xs) auto

lemma rowcount_pos_iff: "0 < rowcount P xs \<longleftrightarrow> (\<exists>x\<in>set xs. P x)"
  by (induction xs) auto

lemma rowcount_cong: "(\<And>x. x \<in> set xs \<Longrightarrow> P x = Q x) \<Longrightarrow> rowcount P xs = rowcount Q xs"
  by (induction xs) auto

lemma sumof_cong:
  "(\<And>x. x \<in> set xs \<Longrightarrow> P x = Q x) \<Longrightarrow> (\<And>x. x \<in> set xs \<Longrightarrow> P x \<Longrightarrow> f x = g x) \<Longrightarrow>
   sumof P f xs = sumof Q g xs"
  by (induction xs) auto

lemma rowcount_upd: "rowcount P (upd Q f xs) = rowcount (\<lambda>x. P (if Q x then f x else x)) xs"
  by (induction xs) auto

lemma rowcount_upd_frame:
  "(\<And>x. x \<in> set xs \<Longrightarrow> Q x \<Longrightarrow> P (f x) = P x) \<Longrightarrow> rowcount P (upd Q f xs) = rowcount P xs"
  by (induction xs) auto

lemma sumof_upd_frame:
  "(\<And>x. x \<in> set xs \<Longrightarrow> Q x \<Longrightarrow> P (f x) = P x) \<Longrightarrow>
   (\<And>x. x \<in> set xs \<Longrightarrow> Q x \<Longrightarrow> P x \<Longrightarrow> g (f x) = g x) \<Longrightarrow>
   sumof P g (upd Q f xs) = sumof P g xs"
  by (induction xs) auto

lemma sumof_upd:
  "sumof P g (upd Q f xs) = sumof (\<lambda>x. P (if Q x then f x else x)) (\<lambda>x. g (if Q x then f x else x)) xs"
  by (induction xs) auto

lemma rowcount_split: "rowcount P xs = rowcount (\<lambda>x. P x \<and> Q x) xs + rowcount (\<lambda>x. P x \<and> \<not> Q x) xs"
  by (induction xs) auto

lemma sumof_split: "sumof P f xs = sumof (\<lambda>x. P x \<and> Q x) f xs + sumof (\<lambda>x. P x \<and> \<not> Q x) f xs"
  by (induction xs) auto

lemma rowcount_mono: "(\<And>x. x \<in> set xs \<Longrightarrow> P x \<Longrightarrow> Q x) \<Longrightarrow> rowcount P xs \<le> rowcount Q xs"
  by (induction xs) (auto simp: le_SucI)

lemma sumof_mono: "(\<And>x. x \<in> set xs \<Longrightarrow> P x \<Longrightarrow> Q x) \<Longrightarrow> sumof P f xs \<le> sumof Q f xs"
  by (induction xs) (auto simp: trans_le_add2)

lemma sumof_zero: "(\<And>x. x \<in> set xs \<Longrightarrow> P x \<Longrightarrow> f x = 0) \<Longrightarrow> sumof P f xs = 0"
  by (induction xs) auto

text \<open>Rows with a primary key: at most one row has a given key.\<close>

lemma distinct_key:
  "distinct (map k xs) \<Longrightarrow> x \<in> set xs \<Longrightarrow> y \<in> set xs \<Longrightarrow> k x = k y \<Longrightarrow> x = y"
  by (simp add: distinct_map inj_on_def)

lemma find_Some_D: "find P xs = Some x \<Longrightarrow> x \<in> set xs \<and> P x"
  by (auto simp: find_Some_iff)

lemma find_key:
  "distinct (map k xs) \<Longrightarrow> x \<in> set xs \<Longrightarrow> P x \<Longrightarrow> find (\<lambda>y. k y = k x \<and> P y) xs = Some x"
  by (induction xs) (auto simp: image_iff)

lemma filter_key:
  "distinct (map k xs) \<Longrightarrow> x \<in> set xs \<Longrightarrow> filter (\<lambda>y. k y = k x \<and> P y) xs = (if P x then [x] else [])"
  by (induction xs) (auto simp: filter_empty_conv image_iff intro!: filter_False)

lemma rowcount_key:
  "distinct (map k xs) \<Longrightarrow> x \<in> set xs \<Longrightarrow> rowcount (\<lambda>y. k y = k x \<and> P y) xs = (if P x then 1 else 0)"
  by (simp add: rowcount_def filter_key)

section \<open>Text\<close>

type_synonym pystr = "nat list"

definition pystr_of :: "string \<Rightarrow> pystr" where
  "pystr_of s = map of_char s"

text \<open>\<open>str.isspace\<close>: the code points \<open>str.strip()\<close> removes.\<close>

definition py_space :: "nat \<Rightarrow> bool" where
  "py_space c \<longleftrightarrow> (9 \<le> c \<and> c \<le> 13) \<or> (28 \<le> c \<and> c \<le> 32) \<or> c = 133 \<or> c = 160 \<or> c = 5760
     \<or> (8192 \<le> c \<and> c \<le> 8202) \<or> c = 8232 \<or> c = 8233 \<or> c = 8239 \<or> c = 8287 \<or> c = 12288"

definition py_strip :: "pystr \<Rightarrow> pystr" where
  "py_strip s = rev (dropWhile py_space (rev (dropWhile py_space s)))"

lemma dropWhile_rev_Nil: "dropWhile P (rev xs) = [] \<longleftrightarrow> (\<forall>x\<in>set xs. P x)"
  by (simp add: dropWhile_eq_Nil_conv)

lemma py_strip_Nil_iff: "py_strip s = [] \<longleftrightarrow> (\<forall>c\<in>set s. py_space c)"
proof
  assume "py_strip s = []"
  then have "\<forall>c\<in>set (dropWhile py_space s). py_space c"
    unfolding py_strip_def by (simp only: rev_is_Nil_conv dropWhile_rev_Nil)
  then have "dropWhile py_space s = []"
    by (metis hd_dropWhile hd_in_set)
  then show "\<forall>c\<in>set s. py_space c" by (simp add: dropWhile_eq_Nil_conv)
next
  assume "\<forall>c\<in>set s. py_space c"
  then show "py_strip s = []" by (auto simp: py_strip_def dest: set_dropWhileD)
qed

lemma py_strip_idem [simp]: "py_strip (py_strip s) = py_strip s"
proof (cases "py_strip s = []")
  case True
  have "py_strip [] = []" by (simp add: py_strip_def)
  with True show ?thesis by simp
next
  case False
  define m where "m = dropWhile py_space s"
  define w where "w = dropWhile py_space (rev m)"
  have str: "py_strip s = rev w" by (simp add: py_strip_def m_def w_def)
  with False have "w \<noteq> []" by auto
  then have hw: "\<not> py_space (hd w)" by (metis hd_dropWhile w_def)
  have "m \<noteq> []" using \<open>w \<noteq> []\<close> by (auto simp: w_def)
  then have hm: "\<not> py_space (hd m)" by (metis hd_dropWhile m_def)
  have "last w = hd m"
  proof -
    obtain p where "rev m = p @ w" by (metis takeWhile_dropWhile_id w_def)
    then have "last (rev m) = last w" using \<open>w \<noteq> []\<close> by simp
    then show ?thesis using \<open>m \<noteq> []\<close> by (simp add: last_rev)
  qed
  with hm \<open>w \<noteq> []\<close> have "\<not> py_space (hd (rev w))" by (simp add: hd_rev)
  with \<open>w \<noteq> []\<close> have "dropWhile py_space (rev w) = rev w" by (cases "rev w") auto
  moreover from hw \<open>w \<noteq> []\<close> have "dropWhile py_space w = w" by (cases w) auto
  ultimately show ?thesis unfolding str by (simp add: py_strip_def)
qed

text \<open>Bytes of one code point, and of a text, in UTF-8.\<close>

definition utf8_width :: "nat \<Rightarrow> nat" where
  "utf8_width c = (if c < 128 then 1 else if c < 2048 then 2 else if c < 65536 then 3 else 4)"

definition utf8_size :: "pystr \<Rightarrow> nat" where
  "utf8_size s = sum_list (map utf8_width s)"

lemma utf8_size_simps [simp]:
  "utf8_size [] = 0" "utf8_size (c # s) = utf8_width c + utf8_size s"
  "utf8_size (s @ t) = utf8_size s + utf8_size t"
  by (simp_all add: utf8_size_def)

lemma length_le_utf8_size: "length s \<le> utf8_size s"
  by (induction s) (auto simp: utf8_width_def)

section \<open>Identifiers and time\<close>

type_synonym uuid = nat
type_synonym time = int

text \<open>
  A path or body parameter that the code hands to \<open>uuid.UUID(str)\<close>: either the value that
  call returns or a text it rejects (\<open>_parse_id\<close> maps the rejection to 400).
\<close>

datatype raw_id = Malformed pystr | Uuid uuid

fun parse_id :: "raw_id \<Rightarrow> api_error + uuid" where
  "parse_id (Malformed s) = Inl validation_error"
| "parse_id (Uuid u) = Inr u"

lemma parse_id_Inr_iff [simp]: "parse_id r = Inr u \<longleftrightarrow> r = Uuid u"
  by (cases r) auto

section \<open>Transition systems\<close>

text \<open>
  The contract of every state machine of the development: what one step may do, and an
  invariant every step keeps. Clients get the lifting to all reachable states.
\<close>

locale transition_system =
  fixes init :: "'s \<Rightarrow> bool"
    and step :: "'s \<Rightarrow> 's \<Rightarrow> bool"
    and good :: "'s \<Rightarrow> bool"
  assumes good_init: "init s \<Longrightarrow> good s"
    and good_step: "good s \<Longrightarrow> step s t \<Longrightarrow> good t"
begin

lemma good_steps: "step\<^sup>*\<^sup>* s t \<Longrightarrow> good s \<Longrightarrow> good t"
  by (induction rule: rtranclp_induct) (auto intro: good_step)

lemma good_reachable: "init s \<Longrightarrow> step\<^sup>*\<^sup>* s t \<Longrightarrow> good t"
  using good_steps good_init by blast

lemma stable_along:
  assumes "step\<^sup>*\<^sup>* s t" and "good s" and "Q s"
    and "\<And>a b. good a \<Longrightarrow> Q a \<Longrightarrow> step a b \<Longrightarrow> Q b"
  shows "Q t"
  using assms(1)
proof (induction rule: rtranclp_induct)
  case base
  show ?case by (rule assms(3))
next
  case (step b c)
  have "good b" by (rule good_steps [OF step.hyps(1) assms(2)])
  then show ?case using step assms(4) by blast
qed

end

end
