(* ===== verification/Task_State.thy ===== *)
theory Task_State
  imports AC_Prelude
begin

text \<open>
  The task state machine's primitives (\<open>backend/v2/task_state.py\<close>) and the enumerations of the
  task tables (\<open>backend/v2/models/tasking.py\<close>): the table of legal transitions,
  \<open>assert_transition\<close>, the \<open>abort_reason\<close> vocabulary and \<open>PENDING_TERMINAL_VALUES\<close>.
\<close>

section \<open>Enumerations\<close>

datatype status =
  Uploading | Queued | Running | Ready | Completed | Failed | Aborted | Deleted

datatype round_state = RPending | RRunning | RCancelling | RSettled | RFailed | RCancelled

datatype resv_kind = KActive | KRunning | KTaskRoot | KArtifactCopy

datatype resv_state = Held | Consumed | Released

datatype file_state = Staged | Committed | Registered | FDeleted

datatype direction = Input | Output

datatype author = User | Assistant | Tool

datatype event_type =
    EMessageSaved | ERoundQueued | ERoundRunning | ERoundSettled | ERoundFailed
  | ERoundCancelled | EStatusChanged

datatype abort_reason =
    UserCancel | RoundFailed | UploadExpired | ProviderKeyRevoked | ToolRevoked | AdminSuspended

text \<open>Task states and round states are finite, so statements over all of them evaluate.\<close>

instantiation status :: enum
begin
definition "enum_status = [Uploading, Queued, Running, Ready, Completed, Failed, Aborted, Deleted]"
definition "enum_all_status P \<longleftrightarrow> P Uploading \<and> P Queued \<and> P Running \<and> P Ready
   \<and> P Completed \<and> P Failed \<and> P Aborted \<and> P Deleted"
definition "enum_ex_status P \<longleftrightarrow> P Uploading \<or> P Queued \<or> P Running \<or> P Ready
   \<or> P Completed \<or> P Failed \<or> P Aborted \<or> P Deleted"
instance
proof (standard, goal_cases)
  case 1
  have "x \<in> {Uploading, Queued, Running, Ready, Completed, Failed, Aborted, Deleted}" for x
    by (cases x) simp_all
  then show ?case by (auto simp: enum_status_def)
next
  case 2
  show ?case by (simp add: enum_status_def)
next
  case (3 P)
  have "(\<forall>x. P x) \<longleftrightarrow> P Uploading \<and> P Queued \<and> P Running \<and> P Ready
     \<and> P Completed \<and> P Failed \<and> P Aborted \<and> P Deleted"
    by (metis status.exhaust)
  then show ?case unfolding enum_all_status_def by simp
next
  case (4 P)
  have "(\<exists>x. P x) \<longleftrightarrow> P Uploading \<or> P Queued \<or> P Running \<or> P Ready
     \<or> P Completed \<or> P Failed \<or> P Aborted \<or> P Deleted"
    by (metis status.exhaust)
  then show ?case unfolding enum_ex_status_def by simp
qed
end

section \<open>The transition table\<close>

fun valid_transitions :: "status \<Rightarrow> status list" where
  "valid_transitions Uploading = [Queued, Failed, Deleted]"
| "valid_transitions Queued = [Running, Completed, Aborted, Failed, Deleted]"
| "valid_transitions Running = [Ready, Completed, Aborted, Failed, Deleted]"
| "valid_transitions Ready = [Queued, Completed, Aborted, Failed, Deleted]"
| "valid_transitions Completed = [Deleted]"
| "valid_transitions Failed = [Deleted]"
| "valid_transitions Aborted = [Deleted]"
| "valid_transitions Deleted = []"

text \<open>
  \<open>validate_abort_reason\<close> checks a text against the vocabulary; the datatype
  \<open>abort_reason\<close> is that vocabulary, \<open>abort_reason_of\<close> its membership test.
\<close>

definition abort_reason_of :: "string \<Rightarrow> abort_reason option" where
  "abort_reason_of s =
     (if s = ''user_cancel'' then Some UserCancel
      else if s = ''round_failed'' then Some RoundFailed
      else if s = ''upload_expired'' then Some UploadExpired
      else if s = ''provider_key_revoked'' then Some ProviderKeyRevoked
      else if s = ''tool_revoked'' then Some ToolRevoked
      else if s = ''admin_suspended'' then Some AdminSuspended
      else None)"

definition pending_terminal_values :: "status list" where
  "pending_terminal_values = [Completed, Aborted, Deleted]"

definition assert_transition :: "status \<Rightarrow> status \<Rightarrow> api_error + unit" where
  "assert_transition cur nxt =
     (if nxt \<notin> set (valid_transitions cur) then Inl (app_error TASK_INVALID_TRANSITION 409)
      else Inr ())"

definition validate_abort_reason :: "string \<Rightarrow> api_error + unit" where
  "validate_abort_reason s =
     (if abort_reason_of s = None then Inl (app_error TASK_INVALID_TRANSITION 409) else Inr ())"

lemma assert_transition_Inr_iff [simp]:
  "assert_transition a b = Inr x \<longleftrightarrow> b \<in> set (valid_transitions a)"
  by (simp add: assert_transition_def)

lemma assert_transition_Inl_iff [simp]:
  "assert_transition a b = Inl e \<longleftrightarrow>
     b \<notin> set (valid_transitions a) \<and> e = app_error TASK_INVALID_TRANSITION 409"
  by (auto simp: assert_transition_def)

section \<open>Classes of states\<close>

text \<open>\<open>_ACTIVE_ROUND_STATES\<close> (\<open>task_views.py\<close>), the predicate of the partial unique index
  \<open>one_active_round_per_task\<close>.\<close>

fun active_state :: "round_state \<Rightarrow> bool" where
  "active_state RPending = True"
| "active_state RRunning = True"
| "active_state RCancelling = True"
| "active_state _ = False"

text \<open>\<open>_TERMINAL_NON_DELETED\<close> (\<open>task_release.py\<close>) and \<open>_TERMINAL_STATUSES\<close>
  (\<open>task_dispatcher.py\<close>).\<close>

fun terminal_non_deleted :: "status \<Rightarrow> bool" where
  "terminal_non_deleted Completed = True"
| "terminal_non_deleted Failed = True"
| "terminal_non_deleted Aborted = True"
| "terminal_non_deleted _ = False"

definition terminal_status :: "status \<Rightarrow> bool" where
  "terminal_status s \<longleftrightarrow> terminal_non_deleted s \<or> s = Deleted"

lemma terminal_status_simps [simp]:
  "terminal_status Completed" "terminal_status Failed" "terminal_status Aborted"
  "terminal_status Deleted" "\<not> terminal_status Uploading" "\<not> terminal_status Queued"
  "\<not> terminal_status Running" "\<not> terminal_status Ready"
  by (simp_all add: terminal_status_def)

text \<open>A terminal state is left for \<open>Deleted\<close> only, and \<open>Deleted\<close> never.\<close>

lemma terminal_absorbing:
  "terminal_status a \<Longrightarrow> b \<in> set (valid_transitions a) \<Longrightarrow> b = Deleted"
  by (cases a) auto

inductive status_path :: "status \<Rightarrow> status \<Rightarrow> bool" where
  here: "status_path s s"
| there: "b \<in> set (valid_transitions a) \<Longrightarrow> status_path b c \<Longrightarrow> status_path a c"

inductive_cases status_path_Deleted: "status_path Deleted s"

text \<open>From every state the table leads to \<open>Deleted\<close>: no task can be stuck undeletable.\<close>

lemma delete_always_allowed: "s \<noteq> Deleted \<Longrightarrow> Deleted \<in> set (valid_transitions s)"
  by (cases s) auto

end
