(* ===== verification/Task_Store.thy ===== *)
theory Task_Store
  imports Task_State
begin

text \<open>
  The database the task services work on (\<open>backend/v2/models/tasking.py\<close>,
  \<open>backend/v2/models/catalog.py\<close>, row-level security of migration 0001): one record per table
  row, one list (or map, where the user is the primary key) per table, and the SQL primitives
  every service uses: RLS-filtered conditional updates and their row counts, the row lock
  \<open>_lock_task\<close>, the atomic sequence allocation, event rows, and inserts guarded by the partial
  unique indexes.
\<close>

section \<open>Rows\<close>

datatype transport = Stdio | Http

text \<open>A frozen MCP mount: the three keys \<open>{server_id, name, transport_kind}\<close>.\<close>

record mcp_ref =
  mref_server :: uuid
  mref_name :: pystr
  mref_transport :: transport

record task_row =
  t_id :: uuid
  t_owner :: uuid
  t_revision :: uuid
  t_provider :: uuid
  t_catalog :: "uuid option"
  t_model :: pystr
  t_keyver :: int
  t_mcp :: "mcp_ref list option"
  t_initial :: "uuid option"
  t_status :: status
  t_manifest :: "string option"
  t_committed :: "time option"
  t_eseq :: nat
  t_abort :: "abort_reason option"
  t_pending :: "status option"
  t_created :: time

record round_row =
  r_id :: uuid
  r_task :: uuid
  r_owner :: uuid
  r_source :: uuid
  r_state :: round_state
  r_lease_owner :: "string option"
  r_epoch :: nat
  r_expires :: "time option"
  r_attempt :: nat
  r_created :: time

text \<open>The JSON payloads the services write into \<open>task_events.payload_json\<close>.\<close>

datatype payload =
    PMessage uuid nat author                         \<comment> \<open>message_id, event_sequence, author\<close>
  | PStatus status "abort_reason option"             \<comment> \<open>status, reason?\<close>
  | PRound uuid                                      \<comment> \<open>round_id\<close>
  | PRoundAttempt uuid nat                           \<comment> \<open>round_id, attempt\<close>
  | PRoundSettled uuid nat string "(string \<times> nat) list" \<comment> \<open>round_id, attempt, finish_reason, usage\<close>
  | PReason "abort_reason option"                    \<comment> \<open>reason?\<close>
  | PRoundReason uuid abort_reason                   \<comment> \<open>round_id, reason\<close>

record event_row =
  e_task :: uuid
  e_owner :: uuid
  e_seq :: nat
  e_type :: event_type
  e_payload :: payload
  e_message :: "uuid option"
  e_round :: "uuid option"

record message_row =
  m_id :: uuid
  m_task :: uuid
  m_owner :: uuid
  m_seq :: nat
  m_author :: author
  m_content :: pystr

text \<open>\<open>storage_key\<close>: \<open>tasks/<uuid>/<uuid>\<close>, or a text the strict parser refuses.\<close>

datatype storage_key = Key uuid uuid | BadKey pystr

record file_row =
  f_id :: uuid
  f_task :: uuid
  f_owner :: uuid
  f_dir :: direction
  f_name :: pystr
  f_key :: storage_key
  f_sha :: string
  f_size :: nat
  f_state :: file_state
  f_round :: "uuid option"
  f_created :: time

record resv_row =
  v_task :: uuid
  v_user :: uuid
  v_kind :: resv_kind
  v_file :: "uuid option"
  v_bytes :: nat
  v_state :: resv_state

record quota_row =
  q_daily :: nat
  q_active :: nat
  q_running :: nat
  q_storage :: nat

record usage_row =
  u_active :: nat
  u_running :: nat
  u_storage :: nat

record slot_row =
  s_no :: nat
  s_leased :: bool
  s_task :: "uuid option"
  s_until :: "time option"

record revision_row =
  rev_id :: uuid
  rev_published :: bool

record tool_row =
  tool_name :: string
  tool_version :: string
  tool_enabled :: bool

record provider_row =
  p_id :: uuid
  p_user :: uuid
  p_catalog :: "uuid option"
  p_model :: pystr
  p_url :: pystr
  p_cipher :: string
  p_dek :: string
  p_last4 :: pystr
  p_keyver :: int
  p_active :: bool
  p_default :: bool
  p_created :: time

record mcp_server_row =
  ms_id :: uuid
  ms_owner :: uuid
  ms_name :: pystr
  ms_transport :: transport
  ms_enabled :: bool
  ms_url :: "pystr option"

record db =
  tasks :: "task_row list"
  rounds :: "round_row list"
  events :: "event_row list"
  messages :: "message_row list"
  files :: "file_row list"
  resvs :: "resv_row list"
  quotas :: "uuid \<rightharpoonup> quota_row"
  usage :: "uuid \<rightharpoonup> usage_row"
  daily :: "(uuid \<times> int) \<rightharpoonup> nat"
  slots :: "slot_row list"
  pl_used :: nat
  pl_max :: nat
  revisions :: "revision_row list"
  rev_tools :: "(uuid \<times> string \<times> string) list"
  tool_catalog :: "tool_row list"
  providers :: "provider_row list"
  mcp_servers :: "mcp_server_row list"

text \<open>Column defaults of \<open>UserQuota\<close> and \<open>UserQuotaUsage\<close>.\<close>

definition default_quota :: quota_row where
  "default_quota = \<lparr>q_daily = 5, q_active = 3, q_running = 1, q_storage = 1073741824\<rparr>"

definition default_usage :: usage_row where
  "default_usage = \<lparr>u_active = 0, u_running = 0, u_storage = 0\<rparr>"

section \<open>Row-level security\<close>

text \<open>
  \<open>owner_session(u)\<close> runs as the app role with \<open>app.current_owner_id() = u\<close>: on the RLS tables a
  statement sees and changes only the rows whose owner column is \<open>u\<close>. \<open>task_reservations\<close>,
  \<open>user_quota_usage\<close>, \<open>platform_slots\<close> and \<open>platform_storage\<close> carry no policy.
\<close>

definition upd_tasks :: "uuid \<Rightarrow> (task_row \<Rightarrow> bool) \<Rightarrow> (task_row \<Rightarrow> task_row) \<Rightarrow> db \<Rightarrow> db" where
  "upd_tasks me P f d = d\<lparr>tasks := upd (\<lambda>t. t_owner t = me \<and> P t) f (tasks d)\<rparr>"

definition n_tasks :: "uuid \<Rightarrow> (task_row \<Rightarrow> bool) \<Rightarrow> db \<Rightarrow> nat" where
  "n_tasks me P d = rowcount (\<lambda>t. t_owner t = me \<and> P t) (tasks d)"

definition upd_rounds :: "uuid \<Rightarrow> (round_row \<Rightarrow> bool) \<Rightarrow> (round_row \<Rightarrow> round_row) \<Rightarrow> db \<Rightarrow> db" where
  "upd_rounds me P f d = d\<lparr>rounds := upd (\<lambda>r. r_owner r = me \<and> P r) f (rounds d)\<rparr>"

definition sel_rounds :: "uuid \<Rightarrow> (round_row \<Rightarrow> bool) \<Rightarrow> db \<Rightarrow> round_row list" where
  "sel_rounds me P d = filter (\<lambda>r. r_owner r = me \<and> P r) (rounds d)"

definition upd_files :: "uuid \<Rightarrow> (file_row \<Rightarrow> bool) \<Rightarrow> (file_row \<Rightarrow> file_row) \<Rightarrow> db \<Rightarrow> db" where
  "upd_files me P f d = d\<lparr>files := upd (\<lambda>x. f_owner x = me \<and> P x) f (files d)\<rparr>"

definition find_task :: "uuid \<Rightarrow> uuid \<Rightarrow> db \<Rightarrow> task_row option" where
  "find_task me tid d = find (\<lambda>t. t_owner t = me \<and> t_id t = tid) (tasks d)"

lemma find_task_Some_D:
  "find_task me tid d = Some t \<Longrightarrow> t \<in> set (tasks d) \<and> t_owner t = me \<and> t_id t = tid"
  unfolding find_task_def by (drule find_Some_D) simp

text \<open>\<open>_lock_task\<close>: bad identifier 400; absent, foreign (RLS) or deleted: the same 404.\<close>

definition lock_task :: "uuid \<Rightarrow> raw_id \<Rightarrow> db \<Rightarrow> api_error + task_row" where
  "lock_task me task_id d =
     bindE (parse_id task_id) (\<lambda>tid.
     case find_task me tid d of
       None \<Rightarrow> Inl (app_error TASK_NOT_FOUND 404)
     | Some t \<Rightarrow> if t_status t = Deleted then Inl (app_error TASK_NOT_FOUND 404) else Inr t)"

lemma lock_task_Inr_D:
  "lock_task me task_id d = Inr t \<Longrightarrow>
     task_id = Uuid (t_id t) \<and> t \<in> set (tasks d) \<and> t_owner t = me \<and> t_status t \<noteq> Deleted"
  by (auto simp: lock_task_def dest: find_task_Some_D split: option.splits if_splits)

lemma lock_task_Inr_find:
  "lock_task me task_id d = Inr t \<Longrightarrow> find_task me (t_id t) d = Some t"
  by (auto simp: lock_task_def dest: find_task_Some_D split: option.splits if_splits)

section \<open>Events and messages\<close>

text \<open>\<open>_allocate_event_sequence\<close>: bump the counter by \<open>n\<close>, return the first number of the batch.\<close>

definition alloc_seq :: "uuid \<Rightarrow> uuid \<Rightarrow> nat \<Rightarrow> db \<Rightarrow> api_error + nat \<times> db" where
  "alloc_seq me tid n d =
     (case find_task me tid d of
       None \<Rightarrow> Inl NoResultFound
     | Some t \<Rightarrow>
         Inr (t_eseq t + n - n + 1,
              upd_tasks me (\<lambda>x. t_id x = tid) (\<lambda>x. x\<lparr>t_eseq := t_eseq x + n\<rparr>) d))"

definition add_event ::
  "uuid \<Rightarrow> uuid \<Rightarrow> nat \<Rightarrow> event_type \<Rightarrow> payload \<Rightarrow> uuid option \<Rightarrow> uuid option \<Rightarrow> db \<Rightarrow> db" where
  "add_event tid owner seq ty p mid rid d =
     d\<lparr>events := events d @
        [\<lparr>e_task = tid, e_owner = owner, e_seq = seq, e_type = ty, e_payload = p,
          e_message = mid, e_round = rid\<rparr>]\<rparr>"

definition add_message :: "uuid \<Rightarrow> uuid \<Rightarrow> uuid \<Rightarrow> nat \<Rightarrow> author \<Rightarrow> pystr \<Rightarrow> db \<Rightarrow> db" where
  "add_message mid tid owner seq a c d =
     d\<lparr>messages := messages d @
        [\<lparr>m_id = mid, m_task = tid, m_owner = owner, m_seq = seq, m_author = a, m_content = c\<rparr>]\<rparr>"

lemma alloc_seq_Inr_iff:
  "alloc_seq me tid n d = Inr (seq, d') \<longleftrightarrow>
     (\<exists>t. find_task me tid d = Some t \<and> seq = t_eseq t + 1
        \<and> d' = upd_tasks me (\<lambda>x. t_id x = tid) (\<lambda>x. x\<lparr>t_eseq := t_eseq x + n\<rparr>) d)"
  by (auto simp: alloc_seq_def split: option.splits)

section \<open>Reservations and rounds: inserts under the partial unique indexes\<close>

fun live_resv :: "resv_state \<Rightarrow> bool" where
  "live_resv Held = True"
| "live_resv Consumed = True"
| "live_resv Released = False"

fun resv_index :: "resv_kind \<Rightarrow> string" where
  "resv_index KActive = ''one_live_active_reservation''"
| "resv_index KRunning = ''one_live_running_reservation''"
| "resv_index KTaskRoot = ''one_live_task_root_reservation''"
| "resv_index KArtifactCopy = ''one_live_artifact_copy_reservation''"

definition resv_clash :: "resv_row \<Rightarrow> resv_row \<Rightarrow> bool" where
  "resv_clash a b \<longleftrightarrow> v_task a = v_task b \<and> v_kind a = v_kind b
     \<and> live_resv (v_state a) \<and> live_resv (v_state b)
     \<and> (v_kind a = KArtifactCopy \<longrightarrow> v_file a = v_file b \<and> v_file a \<noteq> None)"

definition insert_resv :: "resv_row \<Rightarrow> db \<Rightarrow> api_error + db" where
  "insert_resv v d =
     (if list_ex (resv_clash v) (resvs d) then Inl (IntegrityError (resv_index (v_kind v)))
      else Inr (d\<lparr>resvs := resvs d @ [v]\<rparr>))"

definition insert_round :: "round_row \<Rightarrow> db \<Rightarrow> api_error + db" where
  "insert_round r d =
     (if list_ex (\<lambda>x. r_id x = r_id r) (rounds d) then Inl (IntegrityError ''pk_task_rounds'')
      else if active_state (r_state r)
         \<and> list_ex (\<lambda>x. r_task x = r_task r \<and> active_state (r_state x)) (rounds d)
      then Inl (IntegrityError ''one_active_round_per_task'')
      else if list_ex (\<lambda>x. r_source x = r_source r) (rounds d)
      then Inl (IntegrityError ''round_source_message'')
      else Inr (d\<lparr>rounds := rounds d @ [r]\<rparr>))"

definition insert_task :: "task_row \<Rightarrow> db \<Rightarrow> api_error + db" where
  "insert_task t d =
     (if list_ex (\<lambda>x. t_id x = t_id t) (tasks d) then Inl (IntegrityError ''pk_tasks'')
      else Inr (d\<lparr>tasks := tasks d @ [t]\<rparr>))"

definition new_resv :: "uuid \<Rightarrow> uuid \<Rightarrow> resv_kind \<Rightarrow> uuid option \<Rightarrow> nat \<Rightarrow> resv_row" where
  "new_resv tid user k fid n =
     \<lparr>v_task = tid, v_user = user, v_kind = k, v_file = fid, v_bytes = n, v_state = Held\<rparr>"

definition new_round :: "uuid \<Rightarrow> uuid \<Rightarrow> uuid \<Rightarrow> uuid \<Rightarrow> time \<Rightarrow> round_row" where
  "new_round rid tid owner src now =
     \<lparr>r_id = rid, r_task = tid, r_owner = owner, r_source = src, r_state = RPending,
      r_lease_owner = None, r_epoch = 0, r_expires = None, r_attempt = 0, r_created = now\<rparr>"

section \<open>What the state machine looks at\<close>

definition act_of :: "db \<Rightarrow> uuid \<Rightarrow> round_row list" where
  "act_of d tid = filter (\<lambda>r. r_task r = tid \<and> active_state (r_state r)) (rounds d)"

definition held :: "resv_row \<Rightarrow> bool" where
  "held v \<longleftrightarrow> v_state v = Held"

definition held_task :: "db \<Rightarrow> uuid \<Rightarrow> resv_kind \<Rightarrow> nat" where
  "held_task d tid k = rowcount (\<lambda>v. v_task v = tid \<and> v_kind v = k \<and> held v) (resvs d)"

definition held_user :: "db \<Rightarrow> uuid \<Rightarrow> resv_kind \<Rightarrow> nat" where
  "held_user d u k = rowcount (\<lambda>v. v_user v = u \<and> v_kind v = k \<and> held v) (resvs d)"

definition bytes_user :: "db \<Rightarrow> uuid \<Rightarrow> nat" where
  "bytes_user d u = sumof (\<lambda>v. v_user v = u \<and> held v) v_bytes (resvs d)"

definition bytes_all :: "db \<Rightarrow> nat" where
  "bytes_all d = sumof held v_bytes (resvs d)"

definition leased_to :: "db \<Rightarrow> uuid \<Rightarrow> nat" where
  "leased_to d tid = rowcount (\<lambda>s. s_leased s \<and> s_task s = Some tid) (slots d)"

definition log_of :: "db \<Rightarrow> uuid \<Rightarrow> event_row list" where
  "log_of d tid = filter (\<lambda>e. e_task e = tid) (events d)"

definition msgs_of :: "db \<Rightarrow> uuid \<Rightarrow> message_row list" where
  "msgs_of d tid = filter (\<lambda>m. m_task m = tid) (messages d)"

text \<open>Frame rules: which tables a primitive leaves alone.\<close>

lemma upd_tasks_frame [simp]:
  "tasks (upd_tasks me P f d) = upd (\<lambda>t. t_owner t = me \<and> P t) f (tasks d)"
  "rounds (upd_tasks me P f d) = rounds d" "events (upd_tasks me P f d) = events d"
  "messages (upd_tasks me P f d) = messages d" "files (upd_tasks me P f d) = files d"
  "resvs (upd_tasks me P f d) = resvs d" "usage (upd_tasks me P f d) = usage d"
  "quotas (upd_tasks me P f d) = quotas d" "slots (upd_tasks me P f d) = slots d"
  "pl_used (upd_tasks me P f d) = pl_used d" "pl_max (upd_tasks me P f d) = pl_max d"
  "daily (upd_tasks me P f d) = daily d" "providers (upd_tasks me P f d) = providers d"
  by (simp_all add: upd_tasks_def)

lemma upd_rounds_frame [simp]:
  "rounds (upd_rounds me P f d) = upd (\<lambda>r. r_owner r = me \<and> P r) f (rounds d)"
  "tasks (upd_rounds me P f d) = tasks d" "events (upd_rounds me P f d) = events d"
  "messages (upd_rounds me P f d) = messages d" "files (upd_rounds me P f d) = files d"
  "resvs (upd_rounds me P f d) = resvs d" "usage (upd_rounds me P f d) = usage d"
  "quotas (upd_rounds me P f d) = quotas d" "slots (upd_rounds me P f d) = slots d"
  "pl_used (upd_rounds me P f d) = pl_used d" "pl_max (upd_rounds me P f d) = pl_max d"
  "daily (upd_rounds me P f d) = daily d" "providers (upd_rounds me P f d) = providers d"
  by (simp_all add: upd_rounds_def)

lemma add_event_frame [simp]:
  "tasks (add_event a b c e p m r d) = tasks d" "rounds (add_event a b c e p m r d) = rounds d"
  "messages (add_event a b c e p m r d) = messages d" "files (add_event a b c e p m r d) = files d"
  "resvs (add_event a b c e p m r d) = resvs d" "usage (add_event a b c e p m r d) = usage d"
  "quotas (add_event a b c e p m r d) = quotas d" "slots (add_event a b c e p m r d) = slots d"
  "pl_used (add_event a b c e p m r d) = pl_used d" "pl_max (add_event a b c e p m r d) = pl_max d"
  "daily (add_event a b c e p m r d) = daily d"
  "providers (add_event a b c e p m r d) = providers d"
  by (simp_all add: add_event_def)

lemma add_message_frame [simp]:
  "tasks (add_message i t u s a c d) = tasks d" "rounds (add_message i t u s a c d) = rounds d"
  "events (add_message i t u s a c d) = events d" "files (add_message i t u s a c d) = files d"
  "resvs (add_message i t u s a c d) = resvs d" "usage (add_message i t u s a c d) = usage d"
  "quotas (add_message i t u s a c d) = quotas d" "slots (add_message i t u s a c d) = slots d"
  "pl_used (add_message i t u s a c d) = pl_used d" "pl_max (add_message i t u s a c d) = pl_max d"
  "daily (add_message i t u s a c d) = daily d"
  "providers (add_message i t u s a c d) = providers d"
  by (simp_all add: add_message_def)

lemma upd_files_frame [simp]:
  "files (upd_files me P f d) = upd (\<lambda>x. f_owner x = me \<and> P x) f (files d)"
  "tasks (upd_files me P f d) = tasks d" "rounds (upd_files me P f d) = rounds d"
  "events (upd_files me P f d) = events d" "messages (upd_files me P f d) = messages d"
  "resvs (upd_files me P f d) = resvs d" "usage (upd_files me P f d) = usage d"
  "quotas (upd_files me P f d) = quotas d" "slots (upd_files me P f d) = slots d"
  "pl_used (upd_files me P f d) = pl_used d" "pl_max (upd_files me P f d) = pl_max d"
  "daily (upd_files me P f d) = daily d" "providers (upd_files me P f d) = providers d"
  by (simp_all add: upd_files_def)

end
