(* ===== verification/Task_Streams.thy ===== *)
theory Task_Streams
  imports Task_Store
begin

text \<open>
  The real-time side of a task: frames and the subscriber registry
  (\<open>backend/v2/task_streams.py\<close>), and the SSE mechanism that merges the replayed event log with
  the frames buffered by a subscription (\<open>backend/api/v2/task_sse.py\<close>). Frames of event types
  the executor streams without persisting them are \<open>FTransient\<close>.
\<close>

section \<open>Frames\<close>

datatype frame =
    FMessage "uuid option" "nat option" "author option"   \<comment> \<open>message_id, event_sequence, author\<close>
  | FStatus status "abort_reason option" "nat option"     \<comment> \<open>status, abort_reason, event_sequence\<close>
  | FQueued uuid "nat option" "nat option"                \<comment> \<open>round_id, attempt, event_sequence\<close>
  | FDone string "(string \<times> nat) list"                    \<comment> \<open>finish_reason, usage\<close>
  | FTransient string

fun frame_seq :: "frame \<Rightarrow> nat option" where
  "frame_seq (FMessage _ s _) = s"
| "frame_seq (FStatus _ _ s) = s"
| "frame_seq (FQueued _ _ s) = s"
| "frame_seq (FDone _ _) = None"
| "frame_seq (FTransient _) = None"

definition status_frame :: "nat \<Rightarrow> status \<Rightarrow> abort_reason option \<Rightarrow> frame" where
  "status_frame seq s r = FStatus s r (Some seq)"

definition queued_frame :: "nat \<Rightarrow> uuid \<Rightarrow> frame" where
  "queued_frame seq rid = FQueued rid None (Some seq)"

definition done_frame :: "string \<Rightarrow> frame" where
  "done_frame finish = FDone finish []"

section \<open>The subscriber registry\<close>

record subscription =
  sub_id :: nat
  sub_after :: nat
  sub_queue :: "frame list"

type_synonym registry = "uuid \<rightharpoonup> subscription list"

definition queue_max :: nat where "queue_max = 2000"

definition register :: "uuid \<Rightarrow> nat \<Rightarrow> nat \<Rightarrow> registry \<Rightarrow> registry" where
  "register tid sid after reg =
     reg(tid \<mapsto> (case reg tid of None \<Rightarrow> [] | Some ss \<Rightarrow> ss)
        @ [\<lparr>sub_id = sid, sub_after = after, sub_queue = []\<rparr>])"

definition unsubscribe :: "uuid \<Rightarrow> nat \<Rightarrow> registry \<Rightarrow> registry" where
  "unsubscribe tid sid reg =
     (case reg tid of
        None \<Rightarrow> reg
      | Some [] \<Rightarrow> reg
      | Some ss \<Rightarrow>
          (let rest = filter (\<lambda>s. sub_id s \<noteq> sid) ss
           in if rest = [] then reg(tid := None) else reg(tid \<mapsto> rest)))"

definition offer :: "frame \<Rightarrow> subscription \<Rightarrow> subscription" where
  "offer f s =
     (if (case frame_seq f of Some n \<Rightarrow> n \<le> sub_after s | None \<Rightarrow> False) then s
      else if queue_max \<le> length (sub_queue s) then s
      else s\<lparr>sub_queue := sub_queue s @ [f]\<rparr>)"

definition publish :: "uuid \<Rightarrow> frame \<Rightarrow> registry \<Rightarrow> registry" where
  "publish tid f reg =
     (case reg tid of None \<Rightarrow> reg | Some ss \<Rightarrow> reg(tid \<mapsto> map (offer f) ss))"

text \<open>\<open>publish_runtime_frames\<close>: no registry (executor not wired) means nothing happens.\<close>

definition publish_runtime_frames :: "uuid \<Rightarrow> frame list \<Rightarrow> registry option \<Rightarrow> registry option" where
  "publish_runtime_frames tid fs r = map_option (fold (publish tid) fs) r"

definition queue_of :: "registry \<Rightarrow> uuid \<Rightarrow> nat \<Rightarrow> frame list" where
  "queue_of reg tid sid =
     (case reg tid of None \<Rightarrow> []
      | Some ss \<Rightarrow> (case find (\<lambda>s. sub_id s = sid) ss of None \<Rightarrow> [] | Some s \<Rightarrow> sub_queue s))"

definition registry_ok :: "registry \<Rightarrow> bool" where
  "registry_ok reg \<longleftrightarrow> (\<forall>tid ss. reg tid = Some ss \<longrightarrow> ss \<noteq> []
     \<and> (\<forall>s\<in>set ss. length (sub_queue s) \<le> queue_max
         \<and> (\<forall>f\<in>set (sub_queue s). \<forall>n. frame_seq f = Some n \<longrightarrow> sub_after s < n)))"

lemma offer_keeps [simp]: "sub_id (offer f s) = sub_id s" "sub_after (offer f s) = sub_after s"
  by (simp_all add: offer_def)

lemma registry_ok_register: "registry_ok reg \<Longrightarrow> registry_ok (register tid sid after reg)"
  by (cases "reg tid") (auto simp: registry_ok_def register_def queue_max_def split: if_splits)

lemma registry_ok_unsubscribe: "registry_ok reg \<Longrightarrow> registry_ok (unsubscribe tid sid reg)"
  by (auto simp: registry_ok_def unsubscribe_def Let_def split: if_splits option.splits list.splits)

lemma offer_ok:
  assumes "length (sub_queue s) \<le> queue_max"
    and "\<forall>f\<in>set (sub_queue s). \<forall>n. frame_seq f = Some n \<longrightarrow> sub_after s < n"
  shows "length (sub_queue (offer f s)) \<le> queue_max
    \<and> (\<forall>g\<in>set (sub_queue (offer f s)). \<forall>n. frame_seq g = Some n \<longrightarrow> sub_after s < n)"
  using assms by (auto simp: offer_def split: option.splits)

lemma registry_ok_publish:
  assumes "registry_ok reg"
  shows "registry_ok (publish tid f reg)"
proof (cases "reg tid")
  case None
  then show ?thesis using assms by (simp add: publish_def)
next
  case (Some ss)
  then have "ss \<noteq> []" and "\<forall>s\<in>set ss. length (sub_queue (offer f s)) \<le> queue_max
      \<and> (\<forall>g\<in>set (sub_queue (offer f s)). \<forall>n. frame_seq g = Some n \<longrightarrow> sub_after s < n)"
    using assms offer_ok unfolding registry_ok_def by blast+
  then show ?thesis using assms Some by (simp add: registry_ok_def publish_def)
qed

section \<open>Server-sent events\<close>

text \<open>Reading optional keys of a payload (\<open>p.get(..)\<close>).\<close>

fun pl_message :: "payload \<Rightarrow> (uuid \<times> nat \<times> author) option" where
  "pl_message (PMessage i s a) = Some (i, s, a)"
| "pl_message _ = None"

fun pl_status :: "payload \<Rightarrow> status option" where
  "pl_status (PStatus s _) = Some s"
| "pl_status _ = None"

fun pl_reason :: "payload \<Rightarrow> abort_reason option" where
  "pl_reason (PStatus _ r) = r"
| "pl_reason (PReason r) = r"
| "pl_reason (PRoundReason _ r) = Some r"
| "pl_reason _ = None"

fun pl_round :: "payload \<Rightarrow> (uuid \<times> nat option) option" where
  "pl_round (PRound r) = Some (r, None)"
| "pl_round (PRoundAttempt r a) = Some (r, Some a)"
| "pl_round _ = None"

fun pl_finish :: "payload \<Rightarrow> string \<times> (string \<times> nat) list" where
  "pl_finish (PRoundSettled _ _ f u) = (if f = '''' then ''stop'' else f, u)"
| "pl_finish _ = (''stop'', [])"

text \<open>\<open>_event_frame\<close>: at most one frame per event; \<open>round_running\<close> has none. The status and
  queued payloads of the log always carry their keys, so the other shapes give no frame here.\<close>

fun event_frame :: "nat \<Rightarrow> event_type \<Rightarrow> payload \<Rightarrow> frame option" where
  "event_frame seq EMessageSaved p = Some (case pl_message p of
       Some (i, s, a) \<Rightarrow> FMessage (Some i) (Some s) (Some a)
     | None \<Rightarrow> FMessage None (Some seq) None)"
| "event_frame seq EStatusChanged p = map_option (\<lambda>s. FStatus s (pl_reason p) None) (pl_status p)"
| "event_frame seq ERoundQueued p = map_option (\<lambda>(r, a). FQueued r a None) (pl_round p)"
| "event_frame seq ERoundSettled p = Some (case pl_finish p of (f, u) \<Rightarrow> FDone f u)"
| "event_frame seq ERoundFailed p = Some (FDone ''error'' [])"
| "event_frame seq ERoundCancelled p = Some (FDone ''aborted'' [])"
| "event_frame seq ERoundRunning p = None"

definition replay_frames :: "(nat \<times> event_type \<times> payload) list \<Rightarrow> (nat \<times> frame) list" where
  "replay_frames es =
     List.map_filter (\<lambda>(s, ty, p). map_option (\<lambda>f. (s, f)) (event_frame s ty p)) es"

text \<open>One live frame against the cursor \<open>last_sent\<close>: the body of the real-time loop and of the
  second loop of \<open>_merge_stream_frames\<close>.\<close>

fun live_step :: "(nat option \<times> frame) list \<times> nat \<Rightarrow> frame \<Rightarrow> (nat option \<times> frame) list \<times> nat" where
  "live_step (out, sent) f =
     (case frame_seq f of
        Some s \<Rightarrow> if s \<le> sent then (out, sent) else (out @ [(Some s, f)], s)
      | None \<Rightarrow> (out @ [(None, f)], sent))"

definition merge_stream_frames ::
  "(nat \<times> frame) list \<Rightarrow> frame list \<Rightarrow> nat \<Rightarrow> (nat option \<times> frame) list \<times> nat" where
  "merge_stream_frames replay buffered last_sent =
     (let first = map (\<lambda>(s, f). (Some s, f)) replay;
          sent = (if replay = [] then last_sent else fst (last replay))
      in foldl live_step (first, sent) buffered)"

definition sent_seqs :: "(nat option \<times> frame) list \<Rightarrow> nat list" where
  "sent_seqs out = List.map_filter fst out"

lemma sent_seqs_simps [simp]:
  "sent_seqs [] = []"
  "sent_seqs (x # xs) = (case fst x of Some s \<Rightarrow> s # sent_seqs xs | None \<Rightarrow> sent_seqs xs)"
  "sent_seqs (xs @ ys) = sent_seqs xs @ sent_seqs ys"
  by (simp_all add: sent_seqs_def List.map_filter_simps List.map_filter_def split: option.split)

lemma sent_seqs_replay: "sent_seqs (map (\<lambda>(s, f). (Some s, f)) rs) = map fst rs"
  by (induction rs) auto

lemma live_fold_strict:
  assumes "foldl live_step (out, sent) buf = (out', sent')"
    and "sorted_wrt (<) (sent_seqs out)" and "\<forall>s\<in>set (sent_seqs out). s \<le> sent"
  shows "sorted_wrt (<) (sent_seqs out') \<and> (\<forall>s\<in>set (sent_seqs out'). s \<le> sent') \<and> sent \<le> sent'"
  using assms
proof (induction buf arbitrary: out sent)
  case (Cons f buf)
  show ?case
  proof (cases "frame_seq f")
    case None
    then show ?thesis using Cons by simp
  next
    case (Some s)
    show ?thesis
    proof (cases "s \<le> sent")
      case True
      then show ?thesis using Cons Some by simp
    next
      case False
      have "sorted_wrt (<) (sent_seqs (out @ [(Some s, f)]))"
        using Cons.prems False by (auto simp: sorted_wrt_append)
      moreover have "\<forall>x\<in>set (sent_seqs (out @ [(Some s, f)])). x \<le> s"
        using Cons.prems False by auto
      ultimately show ?thesis
        using Cons.IH [of "out @ [(Some s, f)]" s] Cons.prems(1) Some False by simp
    qed
  qed
qed simp

text \<open>Frames that arrive in sequence order are all sent, apart from the duplicates of the replay.\<close>

definition buffer_seqs :: "frame list \<Rightarrow> nat list" where
  "buffer_seqs fs = List.map_filter frame_seq fs"

lemma buffer_seqs_simps [simp]:
  "buffer_seqs [] = []"
  "buffer_seqs (f # fs) = (case frame_seq f of Some s \<Rightarrow> s # buffer_seqs fs | None \<Rightarrow> buffer_seqs fs)"
  by (simp_all add: buffer_seqs_def List.map_filter_simps split: option.split)

lemma live_fold_complete:
  assumes "sorted_wrt (<) (buffer_seqs buf)"
  shows "sent_seqs (fst (foldl live_step (out, sent) buf)) = sent_seqs out @ filter (\<lambda>s. sent < s) (buffer_seqs buf)"
  using assms
proof (induction buf arbitrary: out sent)
  case (Cons f buf)
  show ?case
  proof (cases "frame_seq f")
    case None
    then show ?thesis using Cons by simp
  next
    case (Some s)
    then have tl: "sorted_wrt (<) (buffer_seqs buf)" "\<forall>x\<in>set (buffer_seqs buf). s < x"
      using Cons.prems by simp_all
    then have "filter (\<lambda>x. s < x) (buffer_seqs buf) = buffer_seqs buf"
      by (simp add: filter_id_conv)
    moreover from tl have "sent < s \<Longrightarrow> filter (\<lambda>x. sent < x) (buffer_seqs buf) = buffer_seqs buf"
      by (auto simp: filter_id_conv)
    ultimately show ?thesis using Cons.IH [OF tl(1)] Some by (cases "s \<le> sent") auto
  qed
qed simp

end
