(* ===== verification/Task_Views.thy ===== *)
theory Task_Views
  imports Task_Streams
begin

text \<open>
  The read side of the task domain (\<open>backend/v2/task_views.py\<close>): the task view, the paged task
  list, the quota views and the two catch-up reads (messages, events). The view's \<open>expert\<close> and
  \<open>provider\<close> display fields (published expert name, upstream host) are not modelled.
\<close>

section \<open>The code\<close>

record round_out =
  ro_id :: uuid
  ro_state :: round_state
  ro_attempt :: nat

record task_view =
  tv_id :: uuid
  tv_status :: status
  tv_abort :: "abort_reason option"
  tv_created :: time
  tv_committed :: bool
  tv_manifest :: "string option"
  tv_eseq :: nat
  tv_active :: "round_out option"
  tv_initial :: "round_out option"
  tv_inputs :: nat
  tv_outputs :: nat
  tv_mcp :: "mcp_ref list"

definition round_out_of :: "round_row \<Rightarrow> round_out" where
  "round_out_of r = \<lparr>ro_id = r_id r, ro_state = r_state r, ro_attempt = r_attempt r\<rparr>"

definition live_file :: "file_row \<Rightarrow> bool" where
  "live_file f \<longleftrightarrow> f_state f \<noteq> FDeleted"

definition view_of :: "uuid \<Rightarrow> db \<Rightarrow> task_row \<Rightarrow> task_view" where
  "view_of me d t =
     (let rs = sel_rounds me (\<lambda>r. r_task r = t_id t) d;
          n = (\<lambda>dir. rowcount (\<lambda>f. f_owner f = me \<and> f_task f = t_id t \<and> live_file f \<and> f_dir f = dir) (files d))
      in \<lparr>tv_id = t_id t, tv_status = t_status t, tv_abort = t_abort t, tv_created = t_created t,
          tv_committed = (t_committed t \<noteq> None), tv_manifest = t_manifest t, tv_eseq = t_eseq t,
          tv_active = map_option round_out_of (find (\<lambda>r. active_state (r_state r)) rs),
          tv_initial = (case t_initial t of None \<Rightarrow> None
             | Some m \<Rightarrow> map_option round_out_of (find (\<lambda>r. r_source r = m) rs)),
          tv_inputs = n Input, tv_outputs = n Output,
          tv_mcp = (case t_mcp t of None \<Rightarrow> [] | Some l \<Rightarrow> l)\<rparr>)"

definition load_task_views :: "uuid \<Rightarrow> uuid list \<Rightarrow> db \<Rightarrow> task_view list" where
  "load_task_views me ids d = List.map_filter (\<lambda>i. map_option (view_of me d) (find_task me i d)) ids"

text \<open>\<open>(await _load_task_views(db, [task_id]))[0]\<close>: an invisible row is an \<open>IndexError\<close>.\<close>

definition load_task_view :: "uuid \<Rightarrow> uuid \<Rightarrow> db \<Rightarrow> api_error + task_view" where
  "load_task_view me tid d =
     (case load_task_views me [tid] d of [] \<Rightarrow> Inl IndexError | v # _ \<Rightarrow> Inr v)"

definition require_live_task :: "uuid \<Rightarrow> raw_id \<Rightarrow> db \<Rightarrow> api_error + uuid" where
  "require_live_task me task_id d =
     bindE (parse_id task_id) (\<lambda>tid.
     if list_ex (\<lambda>t. t_owner t = me \<and> t_id t = tid \<and> t_status t \<noteq> Deleted) (tasks d)
     then Inr tid else Inl (app_error TASK_NOT_FOUND 404))"

definition get_task_view :: "uuid \<Rightarrow> raw_id \<Rightarrow> db \<Rightarrow> api_error + task_view" where
  "get_task_view me task_id d =
     bindE (parse_id task_id) (\<lambda>tid.
     if list_ex (\<lambda>t. t_owner t = me \<and> t_id t = tid \<and> t_status t \<noteq> Deleted) (tasks d)
     then load_task_view me tid d else Inl (app_error TASK_NOT_FOUND 404))"

definition list_page_max :: int where "list_page_max = 100"

text \<open>\<open>ORDER BY created_at DESC, id DESC\<close>: two stable ascending sorts, reversed.\<close>

definition newest_first :: "task_row list \<Rightarrow> task_row list" where
  "newest_first ts = rev (sort_key t_created (sort_key t_id ts))"

definition list_tasks ::
  "uuid \<Rightarrow> int \<Rightarrow> int \<Rightarrow> db \<Rightarrow> api_error + (task_view list \<times> nat \<times> int \<times> int)" where
  "list_tasks me page sz d =
     (if page < 1 \<or> sz < 1 \<or> sz > list_page_max then Inl validation_error
      else
        (let rows = filter (\<lambda>t. t_owner t = me \<and> t_status t \<noteq> Deleted) (tasks d);
             ids = map t_id (take (nat sz) (drop (nat ((page - 1) * sz)) (newest_first rows)))
         in Inr (load_task_views me ids d, length rows, page, sz)))"

text \<open>\<open>usage\<close>: started today, active, running, retained bytes; then the limits.\<close>

definition get_quota_view :: "uuid \<Rightarrow> int \<Rightarrow> db \<Rightarrow> (nat \<times> usage_row) \<times> quota_row" where
  "get_quota_view me today d =
     (((case daily d (me, today) of None \<Rightarrow> 0 | Some n \<Rightarrow> n),
       (case usage d me of None \<Rightarrow> \<lparr>u_active = 0, u_running = 0, u_storage = 0\<rparr> | Some q \<Rightarrow> q)),
      (case quotas d me of None \<Rightarrow> default_quota | Some q \<Rightarrow> q))"

definition list_task_messages ::
  "uuid \<Rightarrow> raw_id \<Rightarrow> nat \<Rightarrow> nat \<Rightarrow> db \<Rightarrow> api_error + (uuid \<times> nat \<times> author \<times> pystr) list" where
  "list_task_messages me task_id after limit d =
     bindE (require_live_task me task_id d) (\<lambda>tid.
     Inr (map (\<lambda>m. (m_id m, m_seq m, m_author m, m_content m))
       (take limit (sort_key m_seq
          (filter (\<lambda>m. m_owner m = me \<and> m_task m = tid \<and> after < m_seq m) (messages d))))))"

definition list_task_events ::
  "uuid \<Rightarrow> raw_id \<Rightarrow> nat \<Rightarrow> nat option \<Rightarrow> db \<Rightarrow>
     api_error + ((status \<times> nat) \<times> (nat \<times> event_type \<times> payload) list)" where
  "list_task_events me task_id after limit d =
     bindE (require_live_task me task_id d) (\<lambda>tid.
     case find_task me tid d of
       None \<Rightarrow> Inl NoResultFound
     | Some t \<Rightarrow>
         (let rows = sort_key e_seq
            (filter (\<lambda>e. e_owner e = me \<and> e_task e = tid \<and> after < e_seq e) (events d));
              rows' = (case limit of None \<Rightarrow> rows | Some n \<Rightarrow> take n rows)
          in Inr ((t_status t, t_eseq t), map (\<lambda>e. (e_seq e, e_type e, e_payload e)) rows')))"

section \<open>Reading back\<close>

lemma load_task_view_find:
  "find_task me tid d = Some t \<Longrightarrow> load_task_view me tid d = Inr (view_of me d t)"
  by (simp add: load_task_view_def load_task_views_def List.map_filter_simps)

lemma load_task_view_Inr [simp]:
  "load_task_view me tid d = Inr v \<longleftrightarrow> (\<exists>t. find_task me tid d = Some t \<and> v = view_of me d t)"
  by (auto simp: load_task_view_def load_task_views_def List.map_filter_simps split: option.splits)

lemma set_newest_first [simp]: "set (newest_first ts) = set ts"
  by (simp add: newest_first_def)

lemma length_newest_first [simp]: "length (newest_first ts) = length ts"
  by (simp add: newest_first_def)

text \<open>Consecutive pages of a list, concatenated, are the list.\<close>

lemma pages_concat:
  assumes "0 < n" and "length xs \<le> k * n"
  shows "concat (map (\<lambda>p. take n (drop (p * n) xs)) [0..<k]) = xs"
  using assms(2)
proof (induction k arbitrary: xs)
  case (Suc k)
  have "[0..<Suc k] = 0 # map Suc [0..<k]" by (simp only: upt_conv_Cons map_Suc_upt zero_less_Suc)
  then have "concat (map (\<lambda>p. take n (drop (p * n) xs)) [0..<Suc k])
      = take n xs @ concat (map (\<lambda>p. take n (drop (p * n) (drop n xs))) [0..<k])"
    by (simp add: o_def add.commute)
  also have "concat (map (\<lambda>p. take n (drop (p * n) (drop n xs))) [0..<k]) = drop n xs"
    by (rule Suc.IH) (use Suc.prems in simp)
  finally show ?case by simp
qed simp

end
