(* ===== verification/Task_Release.thy ===== *)
theory Task_Release
  imports Task_Store
begin

text \<open>
  The symmetric release primitive of the three ledgers (\<open>backend/v2/task_release.py\<close>):
  reservations, per-user counters and storage, platform slots and platform storage. The ledger
  invariant \<open>acct\<close> says that the counters agree with the held reservation rows; \<open>exact\<close> says
  that the stored bytes agree exactly (\<open>acct\<close> alone only that they cover the held bytes).
\<close>

section \<open>The code\<close>

definition release_reservations ::
  "uuid \<Rightarrow> resv_kind list option \<Rightarrow> db \<Rightarrow> (resv_kind \<times> nat) list \<times> db" where
  "release_reservations tid kinds d =
     (let hit = (\<lambda>v. v_task v = tid \<and> v_state v = Held
                  \<and> (case kinds of None \<Rightarrow> True | Some ks \<Rightarrow> v_kind v \<in> set ks))
      in (map (\<lambda>v. (v_kind v, v_bytes v)) (filter hit (resvs d)),
          d\<lparr>resvs := upd hit (\<lambda>v. v\<lparr>v_state := Released\<rparr>) (resvs d)\<rparr>))"

text \<open>Conditional refunds: an account that would go negative is left alone (and logged).\<close>

definition refund_storage :: "uuid \<Rightarrow> nat \<Rightarrow> db \<Rightarrow> db" where
  "refund_storage owner n d =
     (let d1 = (case usage d owner of
                  Some q \<Rightarrow>
                    if n \<le> u_storage q
                    then d\<lparr>usage := (usage d)(owner \<mapsto> q\<lparr>u_storage := u_storage q - n\<rparr>)\<rparr> else d
                | None \<Rightarrow> d)
      in if n \<le> pl_used d1 then d1\<lparr>pl_used := pl_used d1 - n\<rparr> else d1)"

definition free_slot :: "uuid \<Rightarrow> db \<Rightarrow> db" where
  "free_slot tid d =
     d\<lparr>slots := upd (\<lambda>s. s_task s = Some tid \<and> s_leased s)
                  (\<lambda>s. s\<lparr>s_leased := False, s_task := None, s_until := None\<rparr>) (slots d)\<rparr>"

definition dec_running :: "uuid \<Rightarrow> nat \<Rightarrow> db \<Rightarrow> db" where
  "dec_running owner n d =
     (case usage d owner of
        Some q \<Rightarrow> if n \<le> u_running q
          then d\<lparr>usage := (usage d)(owner \<mapsto> q\<lparr>u_running := u_running q - n\<rparr>)\<rparr> else d
      | None \<Rightarrow> d)"

definition dec_active :: "uuid \<Rightarrow> nat \<Rightarrow> db \<Rightarrow> db" where
  "dec_active owner n d =
     (case usage d owner of
        Some q \<Rightarrow> if n \<le> u_active q
          then d\<lparr>usage := (usage d)(owner \<mapsto> q\<lparr>u_active := u_active q - n\<rparr>)\<rparr> else d
      | None \<Rightarrow> d)"

definition apply_release_accounting ::
  "uuid \<Rightarrow> uuid \<Rightarrow> (resv_kind \<times> nat) list \<Rightarrow> bool \<Rightarrow> db \<Rightarrow> db" where
  "apply_release_accounting tid owner released refund d =
     (let running_n = rowcount (\<lambda>(k, _). k = KRunning) released;
          active_n = rowcount (\<lambda>(k, _). k = KActive) released;
          d1 = (if running_n \<noteq> 0 then dec_running owner running_n (free_slot tid d) else d);
          d2 = (if active_n \<noteq> 0 then dec_active owner active_n d1 else d1);
          nbytes = sum_list (map snd released)
      in if refund \<and> 0 < nbytes then refund_storage owner nbytes d2 else d2)"

definition release_task_holdings :: "uuid \<Rightarrow> uuid \<Rightarrow> db \<Rightarrow> db" where
  "release_task_holdings owner tid d =
     (case find_task owner tid d of
        None \<Rightarrow> d
      | Some t \<Rightarrow>
          if t_status t = Deleted
          then (case release_reservations tid None d of
                  (rel, d1) \<Rightarrow> apply_release_accounting tid owner rel True d1)
          else (case release_reservations tid (Some [KRunning]) d of
                  (rel1, d1) \<Rightarrow>
                    (case (if terminal_non_deleted (t_status t)
                           then release_reservations tid (Some [KActive]) d1 else ([], d1)) of
                       (rel2, d2) \<Rightarrow> apply_release_accounting tid owner (rel1 @ rel2) False d2)))"

section \<open>The ledger invariant\<close>

definition acct_user :: "db \<Rightarrow> uuid \<Rightarrow> bool" where
  "acct_user d u \<longleftrightarrow>
     (case usage d u of
        None \<Rightarrow> \<forall>v\<in>set (resvs d). v_user v = u \<longrightarrow> \<not> held v
      | Some q \<Rightarrow> u_active q = held_user d u KActive \<and> u_running q = held_user d u KRunning
                 \<and> bytes_user d u \<le> u_storage q)"

definition zero_bytes :: "db \<Rightarrow> bool" where
  "zero_bytes d \<longleftrightarrow> (\<forall>v\<in>set (resvs d). v_kind v = KActive \<or> v_kind v = KRunning \<longrightarrow> v_bytes v = 0)"

definition acct :: "db \<Rightarrow> bool" where
  "acct d \<longleftrightarrow> (\<forall>u. acct_user d u) \<and> bytes_all d \<le> pl_used d \<and> zero_bytes d"

definition exact :: "db \<Rightarrow> bool" where
  "exact d \<longleftrightarrow> (\<forall>u q. usage d u = Some q \<longrightarrow> u_storage q = bytes_user d u) \<and> pl_used d = bytes_all d"

text \<open>Which kinds a release in a given task state frees.\<close>

fun freed :: "status \<Rightarrow> resv_kind \<Rightarrow> bool" where
  "freed Deleted k = True"
| "freed s KRunning = True"
| "freed s KActive = terminal_non_deleted s"
| "freed s KTaskRoot = False"
| "freed s KArtifactCopy = False"

lemma freed_iff:
  "freed s k \<longleftrightarrow> s = Deleted \<or> k = KRunning \<or> (k = KActive \<and> terminal_non_deleted s)"
  by (cases s; cases k) auto

definition mark_released :: "uuid \<Rightarrow> (resv_kind \<Rightarrow> bool) \<Rightarrow> db \<Rightarrow> db" where
  "mark_released tid K d =
     d\<lparr>resvs := upd (\<lambda>v. v_task v = tid \<and> held v \<and> K (v_kind v)) (\<lambda>v. v\<lparr>v_state := Released\<rparr>) (resvs d)\<rparr>"

definition freed_count :: "db \<Rightarrow> uuid \<Rightarrow> (resv_kind \<Rightarrow> bool) \<Rightarrow> resv_kind \<Rightarrow> nat" where
  "freed_count d tid K k = (if K k then held_task d tid k else 0)"

definition freed_bytes :: "db \<Rightarrow> uuid \<Rightarrow> (resv_kind \<Rightarrow> bool) \<Rightarrow> nat" where
  "freed_bytes d tid K = sumof (\<lambda>v. v_task v = tid \<and> held v \<and> K (v_kind v)) v_bytes (resvs d)"

text \<open>The ledger movements, once the numbers are known.\<close>

definition book_release :: "uuid \<Rightarrow> uuid \<Rightarrow> nat \<Rightarrow> nat \<Rightarrow> nat \<Rightarrow> db \<Rightarrow> db" where
  "book_release tid owner nr na nb d =
     (let d1 = (if nr \<noteq> 0 then dec_running owner nr (free_slot tid d) else d);
          d2 = (if na \<noteq> 0 then dec_active owner na d1 else d1)
      in if 0 < nb then refund_storage owner nb d2 else d2)"

lemma rowcount_map: "rowcount P (map f xs) = rowcount (\<lambda>x. P (f x)) xs"
  by (induction xs) auto

lemma rowcount_filter: "rowcount P (filter Q xs) = rowcount (\<lambda>x. Q x \<and> P x) xs"
  by (induction xs) auto

lemma sum_list_filter: "sum_list (map f (filter Q xs)) = sumof Q f xs"
  by (simp add: sumof_def)

lemma filter_upd_other_kind:
  "k \<noteq> k' \<Longrightarrow>
   filter (\<lambda>v. v_task v = tid \<and> v_state v = Held \<and> v_kind v = k)
     (upd (\<lambda>v. v_task v = tid \<and> v_state v = Held \<and> v_kind v = k') (\<lambda>v. v\<lparr>v_state := Released\<rparr>) xs)
   = filter (\<lambda>v. v_task v = tid \<and> v_state v = Held \<and> v_kind v = k) xs"
  by (rule filter_upd_frame) auto

lemma upd_upd_released:
  "upd (\<lambda>v. v_task v = tid \<and> v_state v = Held \<and> v_kind v = k) (\<lambda>v. v\<lparr>v_state := Released\<rparr>)
     (upd (\<lambda>v. v_task v = tid \<and> v_state v = Held \<and> v_kind v = k') (\<lambda>v. v\<lparr>v_state := Released\<rparr>) xs)
   = upd (\<lambda>v. v_task v = tid \<and> v_state v = Held \<and> (v_kind v = k \<or> v_kind v = k'))
       (\<lambda>v. v\<lparr>v_state := Released\<rparr>) xs"
  by (induction xs) auto

lemma dec_zero [simp]: "dec_running o' 0 d = d" "dec_active o' 0 d = d"
  by (auto simp: dec_running_def dec_active_def fun_upd_idem_iff split: option.splits)

lemma apply_release_accounting_eq:
  "apply_release_accounting tid owner rel refund d =
     book_release tid owner (rowcount (\<lambda>(k, _). k = KRunning) rel)
       (rowcount (\<lambda>(k, _). k = KActive) rel) (if refund then sum_list (map snd rel) else 0) d"
  unfolding apply_release_accounting_def book_release_def Let_def
  by (cases refund) (simp_all only: simp_thms if_True if_False less_irrefl)

lemma rel_rows_count:
  "rowcount (\<lambda>(k, _). k = k0) (map (\<lambda>v. (v_kind v, v_bytes v)) (filter hit xs))
     = rowcount (\<lambda>v. hit v \<and> v_kind v = k0) xs"
  by (induction xs) auto

lemma rel_rows_sum:
  "sum_list (map snd (map (\<lambda>v. (v_kind v, v_bytes v)) (filter hit xs))) = sumof hit v_bytes xs"
  by (induction xs) auto

text \<open>One release is one row update plus the ledger movements of the rows it touched.\<close>

lemma release_Deleted:
  "(case release_reservations tid None d of
      (rel, d1) \<Rightarrow> apply_release_accounting tid owner rel True d1)
   = book_release tid owner (held_task d tid KRunning) (held_task d tid KActive)
       (freed_bytes d tid (\<lambda>_. True)) (mark_released tid (\<lambda>_. True) d)"
  by (simp add: release_reservations_def Let_def apply_release_accounting_eq rel_rows_count
      rel_rows_sum held_task_def held_def freed_bytes_def mark_released_def conj_ac
      del: map_map)

lemma release_Running:
  "(case release_reservations tid (Some [KRunning]) d of
      (rel, d1) \<Rightarrow> apply_release_accounting tid owner (rel @ []) False d1)
   = book_release tid owner (held_task d tid KRunning) 0 0 (mark_released tid (\<lambda>k. k = KRunning) d)"
proof -
  have "rowcount (\<lambda>v. (v_task v = tid \<and> v_state v = Held \<and> v_kind v = KRunning) \<and> v_kind v = KActive)
          (resvs d) = 0"
    by (simp add: rowcount_0_iff)
  then show ?thesis
    by (simp add: release_reservations_def Let_def apply_release_accounting_eq rel_rows_count
        held_task_def held_def mark_released_def conj_ac)
qed

lemma release_Running_Active:
  "(case release_reservations tid (Some [KRunning]) d of
      (rel1, d1) \<Rightarrow>
        (case release_reservations tid (Some [KActive]) d1 of
           (rel2, d2) \<Rightarrow> apply_release_accounting tid owner (rel1 @ rel2) False d2))
   = book_release tid owner (held_task d tid KRunning) (held_task d tid KActive) 0
       (mark_released tid (\<lambda>k. k = KRunning \<or> k = KActive) d)"
proof -
  let ?R = "\<lambda>v. v_task v = tid \<and> v_state v = Held \<and> v_kind v = KRunning"
  let ?A = "\<lambda>v. v_task v = tid \<and> v_state v = Held \<and> v_kind v = KActive"
  let ?xs = "upd ?R (\<lambda>v. v\<lparr>v_state := Released\<rparr>) (resvs d)"
  have z: "rowcount (\<lambda>v. ?R v \<and> v_kind v = KActive) (resvs d) = 0"
    "rowcount (\<lambda>v. ?A v \<and> v_kind v = KRunning) ?xs = 0"
    by (auto simp: rowcount_0_iff)
  have a: "rowcount (\<lambda>v. ?A v \<and> v_kind v = KActive) ?xs
         = rowcount (\<lambda>v. ?A v \<and> v_kind v = KActive) (resvs d)"
    by (rule rowcount_upd_frame) auto
  have m: "(\<lambda>v. v_task v = tid \<and> v_state v = Held \<and> (v_kind v = KActive \<or> v_kind v = KRunning))
      = (\<lambda>v. v_task v = tid \<and> held v \<and> (v_kind v = KRunning \<or> v_kind v = KActive))"
    by (auto simp: held_def fun_eq_iff)
  have h: "rowcount (\<lambda>v. ?R v \<and> v_kind v = KRunning) (resvs d) = held_task d tid KRunning"
    "rowcount (\<lambda>v. ?A v \<and> v_kind v = KActive) (resvs d) = held_task d tid KActive"
    unfolding held_task_def held_def by (rule rowcount_cong; auto)+
  show ?thesis
    unfolding release_reservations_def Let_def apply_release_accounting_eq
    by (simp add: rel_rows_count z [simplified] a [simplified] h [simplified]
        upd_upd_released m mark_released_def del: map_append map_map)
qed

theorem release_task_holdings_eq:
  assumes "find_task owner tid d = Some t"
  shows "release_task_holdings owner tid d =
    (let K = freed (t_status t)
     in book_release tid owner (freed_count d tid K KRunning) (freed_count d tid K KActive)
          (if t_status t = Deleted then freed_bytes d tid K else 0) (mark_released tid K d))"
proof -
  consider "t_status t = Deleted" | "terminal_non_deleted (t_status t)" "t_status t \<noteq> Deleted"
    | "\<not> terminal_non_deleted (t_status t)" "t_status t \<noteq> Deleted"
    by blast
  then show ?thesis
  proof cases
    case 1
    have "freed Deleted = (\<lambda>_. True)" by auto
    with 1 show ?thesis
      by (simp add: assms release_task_holdings_def release_Deleted freed_count_def Let_def)
  next
    case 2
    then have "freed (t_status t) = (\<lambda>k. k = KRunning \<or> k = KActive)"
      by (auto simp: freed_iff fun_eq_iff)
    with 2 show ?thesis
      by (simp add: assms release_task_holdings_def release_Running_Active freed_count_def)
  next
    case 3
    then have "freed (t_status t) = (\<lambda>k. k = KRunning)"
      by (auto simp: freed_iff fun_eq_iff)
    with 3 show ?thesis
      using release_Running [where tid = tid and d = d and owner = owner]
      by (simp add: assms release_task_holdings_def freed_count_def)
  qed
qed

section \<open>Effect on the counters\<close>

definition owns_resvs :: "uuid \<Rightarrow> uuid \<Rightarrow> db \<Rightarrow> bool" where
  "owns_resvs owner tid d \<longleftrightarrow> (\<forall>v\<in>set (resvs d). v_task v = tid \<longrightarrow> v_user v = owner)"

lemma held_user_mark:
  assumes "owns_resvs owner tid d"
  shows "held_user d u k =
    (if u = owner then freed_count d tid K k else 0) + held_user (mark_released tid K d) u k"
proof -
  have "held_user d u k = rowcount (\<lambda>v. (v_user v = u \<and> v_kind v = k \<and> held v) \<and> (v_task v = tid \<and> K k)) (resvs d)
      + rowcount (\<lambda>v. (v_user v = u \<and> v_kind v = k \<and> held v) \<and> \<not> (v_task v = tid \<and> K k)) (resvs d)"
    unfolding held_user_def by (rule rowcount_split)
  moreover have "rowcount (\<lambda>v. (v_user v = u \<and> v_kind v = k \<and> held v) \<and> (v_task v = tid \<and> K k)) (resvs d)
      = (if u = owner then freed_count d tid K k else 0)"
  proof (cases "u = owner \<and> K k")
    case True
    then show ?thesis
      unfolding freed_count_def held_task_def using assms
      by (auto simp: owns_resvs_def intro!: rowcount_cong)
  next
    case False
    then show ?thesis
      using assms by (auto simp: freed_count_def owns_resvs_def rowcount_0_iff)
  qed
  moreover have "rowcount (\<lambda>v. (v_user v = u \<and> v_kind v = k \<and> held v) \<and> \<not> (v_task v = tid \<and> K k)) (resvs d)
      = held_user (mark_released tid K d) u k"
    unfolding held_user_def mark_released_def
    by (auto simp: rowcount_upd held_def intro!: rowcount_cong)
  ultimately show ?thesis by simp
qed

lemma bytes_user_mark:
  assumes "owns_resvs owner tid d"
  shows "bytes_user d u = (if u = owner then freed_bytes d tid K else 0) + bytes_user (mark_released tid K d) u"
proof -
  have "bytes_user d u = sumof (\<lambda>v. (v_user v = u \<and> held v) \<and> (v_task v = tid \<and> K (v_kind v))) v_bytes (resvs d)
      + sumof (\<lambda>v. (v_user v = u \<and> held v) \<and> \<not> (v_task v = tid \<and> K (v_kind v))) v_bytes (resvs d)"
    unfolding bytes_user_def by (rule sumof_split)
  moreover have "sumof (\<lambda>v. (v_user v = u \<and> held v) \<and> (v_task v = tid \<and> K (v_kind v))) v_bytes (resvs d)
      = (if u = owner then freed_bytes d tid K else 0)"
  proof (cases "u = owner")
    case True
    then show ?thesis
      unfolding freed_bytes_def using assms by (auto simp: owns_resvs_def intro!: sumof_cong)
  next
    case False
    then have "sumof (\<lambda>v. (v_user v = u \<and> held v) \<and> (v_task v = tid \<and> K (v_kind v))) v_bytes (resvs d)
        = sumof (\<lambda>_. False) v_bytes (resvs d)"
      using assms by (intro sumof_cong) (auto simp: owns_resvs_def)
    also have "\<dots> = 0" by (rule sumof_zero) simp
    finally show ?thesis using False by simp
  qed
  moreover have "sumof (\<lambda>v. (v_user v = u \<and> held v) \<and> \<not> (v_task v = tid \<and> K (v_kind v))) v_bytes (resvs d)
      = bytes_user (mark_released tid K d) u"
    unfolding bytes_user_def mark_released_def
    by (auto simp: sumof_upd held_def intro!: sumof_cong)
  ultimately show ?thesis by simp
qed

lemma bytes_all_mark: "bytes_all d = freed_bytes d tid K + bytes_all (mark_released tid K d)"
proof -
  have "bytes_all d = sumof (\<lambda>v. held v \<and> (v_task v = tid \<and> K (v_kind v))) v_bytes (resvs d)
      + sumof (\<lambda>v. held v \<and> \<not> (v_task v = tid \<and> K (v_kind v))) v_bytes (resvs d)"
    unfolding bytes_all_def by (rule sumof_split)
  moreover have "sumof (\<lambda>v. held v \<and> (v_task v = tid \<and> K (v_kind v))) v_bytes (resvs d)
      = freed_bytes d tid K"
    unfolding freed_bytes_def by (rule sumof_cong) auto
  moreover have "sumof (\<lambda>v. held v \<and> \<not> (v_task v = tid \<and> K (v_kind v))) v_bytes (resvs d)
      = bytes_all (mark_released tid K d)"
    unfolding bytes_all_def mark_released_def
    by (auto simp: sumof_upd held_def intro!: sumof_cong)
  ultimately show ?thesis by simp
qed

text \<open>When the account covers the amounts, no floor predicate fires.\<close>

definition booked :: "uuid \<Rightarrow> uuid \<Rightarrow> usage_row \<Rightarrow> nat \<Rightarrow> nat \<Rightarrow> nat \<Rightarrow> db \<Rightarrow> db" where
  "booked tid owner q nr na nb d =
     d\<lparr>slots := (if nr \<noteq> 0 then slots (free_slot tid d) else slots d),
       usage := (usage d)(owner \<mapsto> q\<lparr>u_running := u_running q - nr, u_active := u_active q - na,
                                    u_storage := u_storage q - nb\<rparr>),
       pl_used := pl_used d - nb\<rparr>"

lemma dec_running_covered:
  assumes "usage d u = Some q" and "n \<le> u_running q"
  shows "(if n \<noteq> 0 then dec_running u n (free_slot tid d) else d) =
     d\<lparr>usage := (usage d)(u \<mapsto> q\<lparr>u_running := u_running q - n\<rparr>),
       slots := (if n \<noteq> 0 then slots (free_slot tid d) else slots d)\<rparr>"
proof (cases "n = 0")
  case True
  then show ?thesis using fun_upd_idem [where f = "usage d" and x = u, OF assms(1)] by simp
next
  case False
  then show ?thesis using assms by (simp add: dec_running_def free_slot_def)
qed

lemma dec_active_covered:
  assumes "usage d u = Some q" and "n \<le> u_active q"
  shows "(if n \<noteq> 0 then dec_active u n d else d) =
     d\<lparr>usage := (usage d)(u \<mapsto> q\<lparr>u_active := u_active q - n\<rparr>)\<rparr>"
proof (cases "n = 0")
  case True
  then show ?thesis using fun_upd_idem [where f = "usage d" and x = u, OF assms(1)] by simp
next
  case False
  then show ?thesis using assms by (simp add: dec_active_def)
qed

lemma refund_covered:
  assumes "usage d u = Some q" and "n \<le> u_storage q" and "n \<le> pl_used d"
  shows "(if 0 < n then refund_storage u n d else d) =
     d\<lparr>usage := (usage d)(u \<mapsto> q\<lparr>u_storage := u_storage q - n\<rparr>), pl_used := pl_used d - n\<rparr>"
proof (cases "n = 0")
  case True
  then show ?thesis using fun_upd_idem [where f = "usage d" and x = u, OF assms(1)] by simp
next
  case False
  then show ?thesis using assms by (simp add: refund_storage_def)
qed

lemma book_release_covered:
  assumes "usage d owner = Some q" and "nr \<le> u_running q" and "na \<le> u_active q"
    and "nb \<le> u_storage q" and "nb \<le> pl_used d"
  shows "book_release tid owner nr na nb d = booked tid owner q nr na nb d"
proof -
  define d1 where "d1 = d\<lparr>usage := (usage d)(owner \<mapsto> q\<lparr>u_running := u_running q - nr\<rparr>),
       slots := (if nr \<noteq> 0 then slots (free_slot tid d) else slots d)\<rparr>"
  define d2 where "d2 = d1\<lparr>usage := (usage d1)(owner \<mapsto>
       q\<lparr>u_running := u_running q - nr, u_active := u_active q - na\<rparr>)\<rparr>"
  have 1: "(if nr \<noteq> 0 then dec_running owner nr (free_slot tid d) else d) = d1"
    unfolding d1_def by (rule dec_running_covered [OF assms(1,2)])
  have "usage d1 owner = Some (q\<lparr>u_running := u_running q - nr\<rparr>)" by (simp add: d1_def)
  then have 2: "(if na \<noteq> 0 then dec_active owner na d1 else d1) = d2"
    using dec_active_covered [of d1 owner _ na] assms(3) by (simp add: d2_def)
  have "usage d2 owner = Some (q\<lparr>u_running := u_running q - nr, u_active := u_active q - na\<rparr>)"
    by (simp add: d2_def)
  moreover have "pl_used d2 = pl_used d" by (simp add: d2_def d1_def)
  ultimately have "(if 0 < nb then refund_storage owner nb d2 else d2) = booked tid owner q nr na nb d"
    using refund_covered [of d2 owner _ nb] assms(4,5) by (simp add: booked_def d2_def d1_def)
  then show ?thesis unfolding book_release_def Let_def 1 2 .
qed

lemma book_release_0 [simp]: "book_release tid owner 0 0 0 d = d"
  by (simp add: book_release_def)

lemma freed_bytes_zero:
  assumes "zero_bytes d" and "s \<noteq> Deleted"
  shows "freed_bytes d tid (freed s) = 0"
  unfolding freed_bytes_def
  by (rule sumof_zero) (use assms in \<open>auto simp: zero_bytes_def freed_iff\<close>)

lemma mark_released_frame [simp]:
  "tasks (mark_released tid K d) = tasks d" "rounds (mark_released tid K d) = rounds d"
  "events (mark_released tid K d) = events d" "messages (mark_released tid K d) = messages d"
  "files (mark_released tid K d) = files d" "usage (mark_released tid K d) = usage d"
  "quotas (mark_released tid K d) = quotas d" "slots (mark_released tid K d) = slots d"
  "pl_used (mark_released tid K d) = pl_used d" "pl_max (mark_released tid K d) = pl_max d"
  "daily (mark_released tid K d) = daily d" "providers (mark_released tid K d) = providers d"
  by (simp_all add: mark_released_def)

text \<open>
  The effect of a release under the ledger invariant: either the owner holds nothing (no usage
  row) and only row states can change, or the movement is booked in full.
\<close>

definition rel_booking :: "uuid \<Rightarrow> uuid \<Rightarrow> (resv_kind \<Rightarrow> bool) \<Rightarrow> db \<Rightarrow> db" where
  "rel_booking owner tid K d =
     (case usage d owner of
        None \<Rightarrow> mark_released tid K d
      | Some q \<Rightarrow> booked tid owner q (freed_count d tid K KRunning) (freed_count d tid K KActive)
                    (freed_bytes d tid K) (mark_released tid K d))"

lemma held_counts_bounded:
  assumes "acct d" and "owns_resvs owner tid d" and "usage d owner = Some q"
  shows "freed_count d tid K KRunning \<le> u_running q" "freed_count d tid K KActive \<le> u_active q"
    "freed_bytes d tid K \<le> u_storage q" "freed_bytes d tid K \<le> pl_used d"
proof -
  have q: "u_active q = held_user d owner KActive" "u_running q = held_user d owner KRunning"
      "bytes_user d owner \<le> u_storage q" and all: "bytes_all d \<le> pl_used d"
    using assms(1,3) by (auto simp: acct_def acct_user_def split: option.splits dest!: spec [of _ owner])
  show "freed_count d tid K KRunning \<le> u_running q" "freed_count d tid K KActive \<le> u_active q"
    using q held_user_mark [OF assms(2), of owner _ K] by simp_all
  show "freed_bytes d tid K \<le> u_storage q"
    using q(3) bytes_user_mark [OF assms(2), of owner K] by simp
  show "freed_bytes d tid K \<le> pl_used d"
    using all bytes_all_mark [of d tid K] by simp
qed

lemma none_held:
  assumes "acct d" and "owns_resvs owner tid d" and "usage d owner = None"
  shows "held_task d tid k = 0" "freed_count d tid K k = 0" "freed_bytes d tid K = 0"
proof -
  have none: "\<forall>v\<in>set (resvs d). v_user v = owner \<longrightarrow> \<not> held v"
    using assms(1,3) by (auto simp: acct_def acct_user_def split: option.splits dest!: spec [of _ owner])
  show "held_task d tid k = 0"
    using none assms(2) by (auto simp: held_task_def rowcount_0_iff owns_resvs_def)
  then show "freed_count d tid K k = 0" by (simp add: freed_count_def)
  show "freed_bytes d tid K = 0"
    unfolding freed_bytes_def
    by (rule sumof_zero) (use none assms(2) in \<open>auto simp: owns_resvs_def\<close>)
qed

lemma book_release_rel:
  assumes "acct d" and "owns_resvs owner tid d"
  shows "book_release tid owner (freed_count d tid K KRunning) (freed_count d tid K KActive)
           (freed_bytes d tid K) (mark_released tid K d) = rel_booking owner tid K d"
proof (cases "usage d owner")
  case None
  then show ?thesis using none_held [OF assms None] by (simp add: rel_booking_def)
next
  case (Some q)
  then show ?thesis
    using held_counts_bounded [OF assms Some]
    by (simp add: rel_booking_def book_release_covered)
qed

text \<open>The release, as a function of the task's status, under the ledger invariant.\<close>

lemma release_task_holdings_booking:
  assumes "acct d" and "owns_resvs owner tid d" and "find_task owner tid d = Some t"
  shows "release_task_holdings owner tid d = rel_booking owner tid (freed (t_status t)) d"
proof -
  have zb: "zero_bytes d" using assms(1) by (simp add: acct_def)
  have nb: "(if t_status t = Deleted then freed_bytes d tid (freed (t_status t)) else 0)
      = freed_bytes d tid (freed (t_status t))"
    using freed_bytes_zero [OF zb] by auto
  show ?thesis
    unfolding release_task_holdings_eq [OF assms(3)] Let_def nb
    by (rule book_release_rel [OF assms(1,2)])
qed

lemma release_task_holdings_absent:
  "find_task owner tid d = None \<Longrightarrow> release_task_holdings owner tid d = d"
  by (simp add: release_task_holdings_def)

lemma rel_booking_frame [simp]:
  "tasks (rel_booking o' tid K d) = tasks d" "rounds (rel_booking o' tid K d) = rounds d"
  "events (rel_booking o' tid K d) = events d" "messages (rel_booking o' tid K d) = messages d"
  "files (rel_booking o' tid K d) = files d" "quotas (rel_booking o' tid K d) = quotas d"
  "pl_max (rel_booking o' tid K d) = pl_max d" "daily (rel_booking o' tid K d) = daily d"
  "providers (rel_booking o' tid K d) = providers d"
  "resvs (rel_booking o' tid K d) = resvs (mark_released tid K d)"
  by (simp_all add: rel_booking_def booked_def split: option.splits)

lemma held_task_mark:
  "held_task (mark_released tid K d) i k = (if i = tid \<and> K k then 0 else held_task d i k)"
proof (cases "i = tid \<and> K k")
  case True
  then show ?thesis by (auto simp: held_task_def mark_released_def rowcount_upd held_def rowcount_0_iff)
next
  case False
  then have "held_task (mark_released tid K d) i k = held_task d i k"
    unfolding held_task_def mark_released_def
    by (auto simp: rowcount_upd held_def intro!: rowcount_cong)
  with False show ?thesis by (simp only: if_False)
qed

lemma held_task_rel_booking [simp]:
  "held_task (rel_booking o' tid K d) i k = (if i = tid \<and> K k then 0 else held_task d i k)"
  using held_task_mark [of tid K d i k] by (simp add: held_task_def)

lemma zero_bytes_mark: "zero_bytes d \<Longrightarrow> zero_bytes (mark_released tid K d)"
  by (auto simp: zero_bytes_def mark_released_def)

lemma acct_rel_booking:
  assumes "acct d" and "owns_resvs owner tid d"
  shows "acct (rel_booking owner tid K d)"
proof -
  let ?d = "rel_booking owner tid K d" and ?m = "mark_released tid K d"
  have h: "held_user ?d u k = held_user ?m u k" "bytes_user ?d u = bytes_user ?m u"
    "bytes_all ?d = bytes_all ?m" for u k
    by (simp_all add: held_user_def bytes_user_def bytes_all_def)
  have zb: "zero_bytes ?d" using assms(1) zero_bytes_mark [of d tid K] by (simp add: acct_def zero_bytes_def)
  have du: "acct_user d u" for u using assms(1) by (simp add: acct_def)
  have other: "acct_user ?d u" if "u \<noteq> owner" for u
  proof -
    have "usage ?d u = usage d u"
      using that by (simp add: rel_booking_def booked_def split: option.splits)
    moreover have "(\<forall>v\<in>set (resvs ?d). v_user v = u \<longrightarrow> \<not> held v) \<longleftrightarrow>
        (\<forall>v\<in>set (resvs d). v_user v = u \<longrightarrow> \<not> held v)"
      using assms(2) that by (auto simp: mark_released_def held_def owns_resvs_def)
    ultimately show ?thesis
      using du [of u] that held_user_mark [OF assms(2), of u _ K] bytes_user_mark [OF assms(2), of u K]
      by (simp add: acct_user_def h split: option.splits)
  qed
  have own: "acct_user ?d owner"
  proof (cases "usage d owner")
    case None
    then show ?thesis
      using du [of owner]
      by (auto simp: acct_user_def rel_booking_def mark_released_def held_def split: option.splits)
  next
    case (Some q)
    have "usage ?d owner = Some (q\<lparr>u_running := u_running q - freed_count d tid K KRunning,
        u_active := u_active q - freed_count d tid K KActive, u_storage := u_storage q - freed_bytes d tid K\<rparr>)"
      using Some by (simp add: rel_booking_def booked_def)
    then show ?thesis
      using du [of owner] Some held_user_mark [OF assms(2), of owner _ K]
        bytes_user_mark [OF assms(2), of owner K]
      by (simp add: acct_user_def h) linarith
  qed
  have "bytes_all ?d \<le> pl_used ?d"
  proof (cases "usage d owner")
    case None
    then show ?thesis
      using assms(1) bytes_all_mark [of d tid K] by (simp add: acct_def h rel_booking_def)
  next
    case (Some q)
    then have "pl_used ?d = pl_used d - freed_bytes d tid K"
      by (simp add: rel_booking_def booked_def)
    then show ?thesis
      using assms(1) bytes_all_mark [of d tid K] unfolding acct_def h by linarith
  qed
  with zb other own show ?thesis unfolding acct_def by metis
qed

lemma exact_rel_booking:
  assumes "acct d" and "exact d" and "owns_resvs owner tid d"
  shows "exact (rel_booking owner tid K d)"
proof -
  let ?d = "rel_booking owner tid K d" and ?m = "mark_released tid K d"
  have h: "bytes_user ?d u = bytes_user ?m u" "bytes_all ?d = bytes_all ?m" for u
    by (simp_all add: bytes_user_def bytes_all_def)
  note m = bytes_user_mark [OF assms(3), of _ K] bytes_all_mark [of d tid K]
  show ?thesis
  proof (cases "usage d owner")
    case None
    then have z: "freed_bytes d tid K = 0" using none_held [OF assms(1,3)] by blast
    show ?thesis
      using assms(2) None m(2) m(1) z
      by (auto simp: exact_def h rel_booking_def split: if_splits)
  next
    case (Some q)
    have "usage ?d = (usage d)(owner \<mapsto> q\<lparr>u_running := u_running q - freed_count d tid K KRunning,
        u_active := u_active q - freed_count d tid K KActive, u_storage := u_storage q - freed_bytes d tid K\<rparr>)"
      and "pl_used ?d = pl_used d - freed_bytes d tid K"
      using Some by (simp_all add: rel_booking_def booked_def)
    then show ?thesis
      using assms(2) Some m(2) m(1) unfolding exact_def h by simp
  qed
qed

text \<open>A release moves reservations, counters, slots and platform bytes, nothing else.\<close>

lemma booking_frame [simp]:
  "tasks (dec_running me n d) = tasks d" "tasks (dec_active me n d) = tasks d"
  "tasks (refund_storage me n d) = tasks d" "tasks (free_slot i d) = tasks d"
  "rounds (dec_running me n d) = rounds d" "rounds (dec_active me n d) = rounds d"
  "rounds (refund_storage me n d) = rounds d" "rounds (free_slot i d) = rounds d"
  "messages (dec_running me n d) = messages d" "messages (dec_active me n d) = messages d"
  "messages (refund_storage me n d) = messages d" "messages (free_slot i d) = messages d"
  "events (dec_running me n d) = events d" "events (dec_active me n d) = events d"
  "events (refund_storage me n d) = events d" "events (free_slot i d) = events d"
  "files (dec_running me n d) = files d" "files (dec_active me n d) = files d"
  "files (refund_storage me n d) = files d" "files (free_slot i d) = files d"
  by (simp_all add: dec_running_def dec_active_def refund_storage_def free_slot_def Let_def split: option.split)

lemma release_frame [simp]:
  "tasks (release_task_holdings me i d) = tasks d" "rounds (release_task_holdings me i d) = rounds d"
  "messages (release_task_holdings me i d) = messages d" "events (release_task_holdings me i d) = events d"
  "files (release_task_holdings me i d) = files d"
  by (cases "find_task me i d";
      simp add: release_task_holdings_absent release_task_holdings_eq Let_def book_release_def)+

lemma release_slices [simp]:
  "find_task u j (release_task_holdings me i d) = find_task u j d"
  "act_of (release_task_holdings me i d) j = act_of d j"
  "log_of (release_task_holdings me i d) j = log_of d j"
  "msgs_of (release_task_holdings me i d) j = msgs_of d j"
  by (simp_all add: find_task_def act_of_def log_of_def msgs_of_def)

end
