(* ===== verification/Task_Invariants.thy ===== *)
theory Task_Invariants
  imports Task_Release
begin

text \<open>
  The consistency contract of the task tables. \<open>touches me tid\<close> is the footprint of a
  transaction on one task of one owner; \<open>task_good\<close> is what holds of one task (its row, rounds,
  reservations, slot, event log and messages agree); \<open>good\<close> is the conjunction over all tasks
  with the primary keys, the ledger and the slots. A transaction that touches one task keeps
  \<open>good\<close> when it keeps \<open>task_good\<close> of that task and the ledger.
\<close>

section \<open>Slices of the database\<close>

definition task_at :: "db \<Rightarrow> uuid \<Rightarrow> task_row option" where
  "task_at d i = find (\<lambda>t. t_id t = i) (tasks d)"

definition rounds_of :: "db \<Rightarrow> uuid \<Rightarrow> round_row list" where
  "rounds_of d i = filter (\<lambda>r. r_task r = i) (rounds d)"

definition resvs_of :: "db \<Rightarrow> uuid \<Rightarrow> resv_row list" where
  "resvs_of d i = filter (\<lambda>v. v_task v = i) (resvs d)"

definition pkeys :: "db \<Rightarrow> bool" where
  "pkeys d \<longleftrightarrow> distinct (map t_id (tasks d)) \<and> distinct (map r_id (rounds d))"

definition touches :: "uuid \<Rightarrow> uuid \<Rightarrow> db \<Rightarrow> db \<Rightarrow> bool" where
  "touches me tid d d' \<longleftrightarrow>
     filter (\<lambda>t. \<not> (t_id t = tid \<and> t_owner t = me)) (tasks d')
       = filter (\<lambda>t. \<not> (t_id t = tid \<and> t_owner t = me)) (tasks d)
   \<and> filter (\<lambda>r. \<not> (r_task r = tid \<and> r_owner r = me)) (rounds d')
       = filter (\<lambda>r. \<not> (r_task r = tid \<and> r_owner r = me)) (rounds d)
   \<and> filter (\<lambda>e. \<not> (e_task e = tid \<and> e_owner e = me)) (events d')
       = filter (\<lambda>e. \<not> (e_task e = tid \<and> e_owner e = me)) (events d)
   \<and> filter (\<lambda>m. \<not> (m_task m = tid \<and> m_owner m = me)) (messages d')
       = filter (\<lambda>m. \<not> (m_task m = tid \<and> m_owner m = me)) (messages d)
   \<and> filter (\<lambda>f. \<not> (f_task f = tid \<and> f_owner f = me)) (files d')
       = filter (\<lambda>f. \<not> (f_task f = tid \<and> f_owner f = me)) (files d)
   \<and> filter (\<lambda>v. v_task v \<noteq> tid) (resvs d') = filter (\<lambda>v. v_task v \<noteq> tid) (resvs d)
   \<and> (\<forall>i. i \<noteq> tid \<longrightarrow> leased_to d' i = leased_to d i)
   \<and> (\<forall>u. u \<noteq> me \<longrightarrow> usage d' u = usage d u \<and> quotas d' u = quotas d u
             \<and> (\<forall>day. daily d' (u, day) = daily d (u, day)))
   \<and> length (slots d') = length (slots d) \<and> pl_max d' = pl_max d
   \<and> revisions d' = revisions d \<and> rev_tools d' = rev_tools d
   \<and> tool_catalog d' = tool_catalog d \<and> providers d' = providers d
   \<and> mcp_servers d' = mcp_servers d \<and> (pkeys d \<longrightarrow> pkeys d')"

lemma touches_refl [simp]: "touches me tid d d"
  by (simp add: touches_def)

lemma touches_trans [trans]: "touches me tid a b \<Longrightarrow> touches me tid b c \<Longrightarrow> touches me tid a c"
  by (simp add: touches_def)

lemma touches_pkeys: "touches me tid d d' \<Longrightarrow> pkeys d \<Longrightarrow> pkeys d'"
  by (simp add: touches_def)

lemma filter_weaken:
  assumes "filter P xs = filter P ys" and "\<And>x. Q x \<Longrightarrow> P x"
  shows "filter Q xs = filter Q ys"
proof -
  have "filter Q zs = filter Q (filter P zs)" for zs
    using assms(2) by (induction zs) auto
  then show ?thesis using assms(1) by metis
qed

lemma find_filter: "find P xs = (case filter P xs of [] \<Rightarrow> None | x # _ \<Rightarrow> Some x)"
  by (induction xs) auto

lemma touches_other:
  assumes "touches me tid d d'" and "i \<noteq> tid"
  shows "task_at d' i = task_at d i" "rounds_of d' i = rounds_of d i"
    "resvs_of d' i = resvs_of d i" "log_of d' i = log_of d i" "msgs_of d' i = msgs_of d i"
    "leased_to d' i = leased_to d i"
proof -
  note T = assms(1) [unfolded touches_def]
  have "filter (\<lambda>t. t_id t = i) (tasks d') = filter (\<lambda>t. t_id t = i) (tasks d)"
    by (rule filter_weaken [where P = "\<lambda>t. \<not> (t_id t = tid \<and> t_owner t = me)"]) (use T assms(2) in simp_all)
  then show "task_at d' i = task_at d i" by (simp add: task_at_def find_filter)
  show "rounds_of d' i = rounds_of d i" unfolding rounds_of_def
    by (rule filter_weaken [where P = "\<lambda>r. \<not> (r_task r = tid \<and> r_owner r = me)"]) (use T assms(2) in simp_all)
  show "resvs_of d' i = resvs_of d i" unfolding resvs_of_def
    by (rule filter_weaken [where P = "\<lambda>v. v_task v \<noteq> tid"]) (use T assms(2) in simp_all)
  show "log_of d' i = log_of d i" unfolding log_of_def
    by (rule filter_weaken [where P = "\<lambda>e. \<not> (e_task e = tid \<and> e_owner e = me)"]) (use T assms(2) in simp_all)
  show "msgs_of d' i = msgs_of d i" unfolding msgs_of_def
    by (rule filter_weaken [where P = "\<lambda>m. \<not> (m_task m = tid \<and> m_owner m = me)"]) (use T assms(2) in simp_all)
  show "leased_to d' i = leased_to d i" using T assms(2) by blast
qed

section \<open>The invariant of one task\<close>

fun phase_ok :: "status \<Rightarrow> status option \<Rightarrow> round_state list \<Rightarrow> nat \<Rightarrow> nat \<Rightarrow> bool" where
  "phase_ok Uploading p a na nr \<longleftrightarrow> p = None \<and> a = [] \<and> na = 1 \<and> nr = 0"
| "phase_ok Queued p a na nr \<longleftrightarrow> p = None \<and> a = [RPending] \<and> na = 1 \<and> nr = 0"
| "phase_ok Running p a na nr \<longleftrightarrow> na = 1 \<and>
     (p = None \<and> a = [RRunning] \<and> nr = 1
      \<or> (p = Some Completed \<or> p = Some Aborted) \<and> (a = [RCancelling] \<and> nr = 1 \<or> a = [] \<and> nr = 0))"
| "phase_ok Ready p a na nr \<longleftrightarrow> p = None \<and> a = [] \<and> na = 1 \<and> nr = 0"
| "phase_ok Deleted p a na nr \<longleftrightarrow> (p = None \<or> p = Some Deleted) \<and> (a = [] \<or> a = [RCancelling])
     \<and> na = 0 \<and> nr = 0"
| "phase_ok _ p a na nr \<longleftrightarrow> p = None \<and> a = [] \<and> na = 0 \<and> nr = 0"

definition round_ok :: "round_row \<Rightarrow> bool" where
  "round_ok r \<longleftrightarrow> r_attempt r = r_epoch r \<and> r_epoch r \<le> 3
     \<and> (r_state r = RPending \<longrightarrow> r_epoch r < 3 \<and> r_lease_owner r = None)
     \<and> (r_state r = RRunning \<longrightarrow> 1 \<le> r_epoch r \<and> r_lease_owner r \<noteq> None \<and> r_expires r \<noteq> None)"

text \<open>Replaying the log: the status after the last \<open>status_changed\<close> event.\<close>

fun replay_status :: "status \<Rightarrow> event_row list \<Rightarrow> status" where
  "replay_status s [] = s"
| "replay_status s (e # es) =
     replay_status (case e_payload e of PStatus s' _ \<Rightarrow> s' | _ \<Rightarrow> s) es"

lemma replay_status_append [simp]: "replay_status s (xs @ ys) = replay_status (replay_status s xs) ys"
  by (induction xs arbitrary: s) auto

text \<open>The log is gap-free up to the task's counter; a log that was never swept (it starts at 1)
  replays to the task's status; the saved messages are exactly the message rows.\<close>

definition log_ok :: "task_row \<Rightarrow> event_row list \<Rightarrow> message_row list \<Rightarrow> bool" where
  "log_ok t l m \<longleftrightarrow>
     (\<exists>k \<le> t_eseq t. map e_seq l = [Suc k ..< Suc (t_eseq t)]
        \<and> (k = 0 \<longrightarrow> replay_status Uploading l = t_status t))
   \<and> map (\<lambda>m. PMessage (m_id m) (m_seq m) (m_author m)) m
       = map e_payload (filter (\<lambda>e. e_type e = EMessageSaved) l)"

definition owned :: "db \<Rightarrow> uuid \<Rightarrow> uuid \<Rightarrow> bool" where
  "owned d i u \<longleftrightarrow> (\<forall>r\<in>set (rounds_of d i). r_owner r = u) \<and> (\<forall>v\<in>set (resvs_of d i). v_user v = u)
     \<and> (\<forall>e\<in>set (log_of d i). e_owner e = u) \<and> (\<forall>m\<in>set (msgs_of d i). m_owner m = u)"

definition task_good :: "db \<Rightarrow> uuid \<Rightarrow> bool" where
  "task_good d i \<longleftrightarrow>
     (case task_at d i of
        None \<Rightarrow> rounds_of d i = [] \<and> resvs_of d i = [] \<and> log_of d i = [] \<and> msgs_of d i = []
              \<and> leased_to d i = 0
      | Some t \<Rightarrow>
          owned d i (t_owner t)
        \<and> phase_ok (t_status t) (t_pending t) (map r_state (act_of d i))
            (held_task d i KActive) (held_task d i KRunning)
        \<and> leased_to d i = held_task d i KRunning
        \<and> log_ok t (log_of d i) (msgs_of d i)
        \<and> (\<forall>r\<in>set (rounds_of d i). round_ok r)
        \<and> (\<forall>v\<in>set (resvs_of d i). v_state v \<noteq> Consumed)
        \<and> (t_status t = Uploading \<longrightarrow> rounds_of d i = [] \<and> held_task d i KTaskRoot = 0))"

definition slots_wf :: "db \<Rightarrow> bool" where
  "slots_wf d \<longleftrightarrow> distinct (map s_no (slots d)) \<and> (\<forall>s\<in>set (slots d). s_leased s = (s_task s \<noteq> None))"

definition good :: "db \<Rightarrow> bool" where
  "good d \<longleftrightarrow> pkeys d \<and> (\<forall>i. task_good d i) \<and> acct d \<and> slots_wf d"

lemma act_of_rounds_of: "act_of d i = filter (\<lambda>r. active_state (r_state r)) (rounds_of d i)"
  by (simp add: act_of_def rounds_of_def conj_commute)

lemma held_task_resvs_of: "held_task d i k = rowcount (\<lambda>v. v_kind v = k \<and> held v) (resvs_of d i)"
  unfolding held_task_def resvs_of_def rowcount_def by (simp add: conj_ac)

lemma task_good_other:
  assumes "touches me tid d d'" and "i \<noteq> tid"
  shows "task_good d' i = task_good d i"
  using touches_other [OF assms]
  by (simp add: task_good_def owned_def act_of_rounds_of held_task_resvs_of split: option.splits)

lemma goodI:
  assumes "good d" and "touches me tid d d'" and "task_good d' tid" and "acct d'" and "slots_wf d'"
  shows "good d'"
  using assms task_good_other [OF assms(2)] touches_pkeys [OF assms(2)]
  unfolding good_def by metis

section \<open>Footprints of the primitives\<close>

lemma filter_upd_out:
  "(\<And>x. Q x \<Longrightarrow> \<not> P x \<and> \<not> P (f x)) \<Longrightarrow> filter P (upd Q f xs) = filter P xs"
  by (rule filter_upd_frame) auto

lemma map_upd_key: "(\<And>x. k (f x) = k x) \<Longrightarrow> map k (upd P f xs) = map k xs"
  by (simp add: upd_def)

lemma touches_upd_tasks:
  assumes "touches me tid d d0" and "\<And>t. P t \<Longrightarrow> t_id t = tid"
    and "\<And>t. t_id (f t) = t_id t \<and> t_owner (f t) = t_owner t"
  shows "touches me tid d (upd_tasks me P f d0)"
proof -
  have "filter (\<lambda>t. \<not> (t_id t = tid \<and> t_owner t = me)) (upd (\<lambda>t. t_owner t = me \<and> P t) f (tasks d0))
      = filter (\<lambda>t. \<not> (t_id t = tid \<and> t_owner t = me)) (tasks d0)"
    by (rule filter_upd_frame) (use assms(2,3) in auto)
  then have "touches me tid d0 (upd_tasks me P f d0)"
    using assms(3) unfolding touches_def pkeys_def
    by (auto simp: map_upd_key upd_tasks_def leased_to_def)
  then show ?thesis using assms(1) touches_trans by blast
qed

lemma touches_upd_rounds:
  assumes "touches me tid d d0" and "\<And>r. r \<in> set (rounds d0) \<Longrightarrow> r_owner r = me \<Longrightarrow> P r \<Longrightarrow> r_task r = tid"
    and "\<And>r. r_id (f r) = r_id r \<and> r_owner (f r) = r_owner r \<and> r_task (f r) = r_task r"
  shows "touches me tid d (upd_rounds me P f d0)"
proof -
  have "filter (\<lambda>r. \<not> (r_task r = tid \<and> r_owner r = me)) (upd (\<lambda>r. r_owner r = me \<and> P r) f (rounds d0))
      = filter (\<lambda>r. \<not> (r_task r = tid \<and> r_owner r = me)) (rounds d0)"
    by (rule filter_upd_frame) (use assms(2,3) in auto)
  then have "touches me tid d0 (upd_rounds me P f d0)"
    using assms(3) unfolding touches_def pkeys_def
    by (auto simp: map_upd_key upd_rounds_def leased_to_def)
  then show ?thesis using assms(1) touches_trans by blast
qed

lemma touches_add_event:
  assumes "touches me tid d d0"
  shows "touches me tid d (add_event tid me a b c m r d0)"
  by (rule touches_trans [OF assms]) (auto simp: touches_def add_event_def pkeys_def leased_to_def)

lemma touches_add_message:
  assumes "touches me tid d d0"
  shows "touches me tid d (add_message i tid me a b c d0)"
  by (rule touches_trans [OF assms]) (auto simp: touches_def add_message_def pkeys_def leased_to_def)

lemma touches_usage:
  assumes "touches me tid d d0"
  shows "touches me tid d (d0\<lparr>usage := (usage d0)(me \<mapsto> q)\<rparr>)"
  by (rule touches_trans [OF assms]) (auto simp: touches_def pkeys_def leased_to_def)

lemma touches_pl_used:
  assumes "touches me tid d d0"
  shows "touches me tid d (d0\<lparr>pl_used := n\<rparr>)"
  by (rule touches_trans [OF assms]) (auto simp: touches_def pkeys_def leased_to_def)

lemma touches_insert_resv:
  assumes "insert_resv v d0 = Inr d1" and "touches me tid d d0" and "v_task v = tid"
  shows "touches me tid d d1"
  by (rule touches_trans [OF assms(2)])
    (use assms(1,3) in \<open>auto simp: insert_resv_def touches_def pkeys_def leased_to_def split: if_splits\<close>)

lemma touches_insert_round:
  assumes "insert_round r d0 = Inr d1" and "touches me tid d d0" and "r_task r = tid" and "r_owner r = me"
  shows "touches me tid d d1"
  by (rule touches_trans [OF assms(2)])
    (use assms(1,3,4) in \<open>force simp: insert_round_def touches_def pkeys_def leased_to_def list_ex_iff
      split: if_splits\<close>)

lemma touches_insert_task:
  assumes "insert_task t d0 = Inr d1" and "touches me tid d d0" and "t_id t = tid" and "t_owner t = me"
  shows "touches me tid d d1"
  by (rule touches_trans [OF assms(2)])
    (use assms(1,3,4) in \<open>force simp: insert_task_def touches_def pkeys_def leased_to_def list_ex_iff
      split: if_splits\<close>)

lemma leased_free_slot: "leased_to (free_slot tid d) i = (if i = tid then 0 else leased_to d i)"
proof (cases "i = tid")
  case True
  then show ?thesis by (auto simp: leased_to_def free_slot_def rowcount_upd rowcount_0_iff)
next
  case False
  then have "leased_to (free_slot tid d) i = leased_to d i"
    unfolding leased_to_def free_slot_def by (auto simp: rowcount_upd intro!: rowcount_cong)
  with False show ?thesis by (simp only: if_False)
qed

lemma free_slot_ledger [simp]:
  "usage (free_slot tid d) = usage d" "pl_used (free_slot tid d) = pl_used d" "resvs (free_slot tid d) = resvs d"
  by (simp_all add: free_slot_def)

lemma release_task_at [simp]:
  "task_at (release_task_holdings me i d) j = task_at d j"
  "rounds_of (release_task_holdings me i d) j = rounds_of d j"
  by (simp_all add: task_at_def rounds_of_def)

lemma touches_booking_parts:
  "touches me tid d (free_slot tid d)" "touches me tid d (dec_running me n d)"
  "touches me tid d (dec_active me n d)" "touches me tid d (refund_storage me n d)"
  "touches me tid d (mark_released tid K d)"
proof -
  have "\<forall>i. i \<noteq> tid \<longrightarrow> leased_to (free_slot tid d) i = leased_to d i" by (simp add: leased_free_slot)
  then show "touches me tid d (free_slot tid d)"
    by (simp add: touches_def) (simp add: free_slot_def pkeys_def)
  show "touches me tid d (dec_running me n d)"
    by (auto simp: dec_running_def split: option.splits intro: touches_usage)
  show "touches me tid d (dec_active me n d)"
    by (auto simp: dec_active_def split: option.splits intro: touches_usage)
  show "touches me tid d (refund_storage me n d)"
    by (auto simp: refund_storage_def Let_def split: option.splits
        intro!: touches_usage touches_pl_used touches_refl)
  have "filter (\<lambda>v. v_task v \<noteq> tid) (resvs (mark_released tid K d)) = filter (\<lambda>v. v_task v \<noteq> tid) (resvs d)"
    by (simp add: mark_released_def) (rule filter_upd_out, simp)
  then show "touches me tid d (mark_released tid K d)"
    by (simp add: touches_def) (simp add: mark_released_def pkeys_def leased_to_def)
qed

lemma touches_book_release: "touches me tid d (book_release tid me nr na nb d)"
proof -
  have 1: "touches me tid d (if nr \<noteq> 0 then dec_running me nr (free_slot tid d) else d)"
    using touches_booking_parts(1,2) touches_trans by (cases "nr = 0") (simp, fastforce)
  have 2: "touches me tid d (if c then dec_active me na d1 else d1)" if "touches me tid d d1" for c d1
    using that touches_booking_parts(3) touches_trans by (cases c) fastforce+
  have 3: "touches me tid d (if c then refund_storage me nb d1 else d1)" if "touches me tid d d1" for c d1
    using that touches_booking_parts(4) touches_trans by (cases c) fastforce+
  show ?thesis unfolding book_release_def Let_def by (intro 1 2 3)
qed

lemma touches_release:
  assumes "touches me tid d d0"
  shows "touches me tid d (release_task_holdings me tid d0)"
proof (cases "find_task me tid d0")
  case None
  then show ?thesis using assms by (simp add: release_task_holdings_def)
next
  case (Some t)
  then show ?thesis
    unfolding release_task_holdings_eq [OF Some] Let_def
    by (meson assms touches_booking_parts(5) touches_book_release touches_trans)
qed

lemmas touches_intros =
  touches_refl touches_upd_tasks touches_add_event touches_add_message touches_usage touches_pl_used
  touches_release

section \<open>Slices after a primitive\<close>

lemma find_upd:
  "(\<And>x. Q (f x) = Q x) \<Longrightarrow> find Q (upd P f xs) = map_option (\<lambda>x. if P x then f x else x) (find Q xs)"
  by (induction xs) auto

lemma task_at_upd_tasks [simp]:
  "(\<And>t. t_id (f t) = t_id t) \<Longrightarrow>
   task_at (upd_tasks me P f d) i = map_option (\<lambda>t. if t_owner t = me \<and> P t then f t else t) (task_at d i)"
  by (simp add: task_at_def find_upd)

lemma find_task_upd_tasks [simp]:
  "(\<And>t. t_id (f t) = t_id t \<and> t_owner (f t) = t_owner t) \<Longrightarrow>
   find_task u i (upd_tasks me P f d) =
     map_option (\<lambda>t. if t_owner t = me \<and> P t then f t else t) (find_task u i d)"
  by (simp add: find_task_def find_upd)

lemma slices_upd_tasks [simp]:
  "rounds_of (upd_tasks me P f d) i = rounds_of d i" "resvs_of (upd_tasks me P f d) i = resvs_of d i"
  "log_of (upd_tasks me P f d) i = log_of d i" "msgs_of (upd_tasks me P f d) i = msgs_of d i"
  "act_of (upd_tasks me P f d) i = act_of d i" "held_task (upd_tasks me P f d) i k = held_task d i k"
  "leased_to (upd_tasks me P f d) i = leased_to d i"
  by (simp_all add: rounds_of_def resvs_of_def log_of_def msgs_of_def act_of_def held_task_def leased_to_def)

lemma slices_add_event [simp]:
  "task_at (add_event t o' s ty p m r d) i = task_at d i"
  "find_task u i (add_event t o' s ty p m r d) = find_task u i d"
  "rounds_of (add_event t o' s ty p m r d) i = rounds_of d i"
  "resvs_of (add_event t o' s ty p m r d) i = resvs_of d i"
  "log_of (add_event t o' s ty p m r d) i = log_of d i @ (if t = i then
     [\<lparr>e_task = t, e_owner = o', e_seq = s, e_type = ty, e_payload = p, e_message = m, e_round = r\<rparr>] else [])"
  "msgs_of (add_event t o' s ty p m r d) i = msgs_of d i"
  "act_of (add_event t o' s ty p m r d) i = act_of d i"
  "held_task (add_event t o' s ty p m r d) i k = held_task d i k"
  "leased_to (add_event t o' s ty p m r d) i = leased_to d i"
  by (simp_all add: task_at_def find_task_def rounds_of_def resvs_of_def log_of_def msgs_of_def act_of_def
      held_task_def leased_to_def add_event_def)

lemma slices_add_message [simp]:
  "task_at (add_message j t o' s a c d) i = task_at d i"
  "find_task u i (add_message j t o' s a c d) = find_task u i d"
  "rounds_of (add_message j t o' s a c d) i = rounds_of d i"
  "resvs_of (add_message j t o' s a c d) i = resvs_of d i"
  "log_of (add_message j t o' s a c d) i = log_of d i"
  "msgs_of (add_message j t o' s a c d) i = msgs_of d i @ (if t = i then
     [\<lparr>m_id = j, m_task = t, m_owner = o', m_seq = s, m_author = a, m_content = c\<rparr>] else [])"
  "act_of (add_message j t o' s a c d) i = act_of d i"
  "held_task (add_message j t o' s a c d) i k = held_task d i k"
  "leased_to (add_message j t o' s a c d) i = leased_to d i"
  by (simp_all add: task_at_def find_task_def rounds_of_def resvs_of_def log_of_def msgs_of_def act_of_def
      held_task_def leased_to_def add_message_def)

lemma slices_upd_rounds [simp]:
  "task_at (upd_rounds me P f d) i = task_at d i"
  "find_task u i (upd_rounds me P f d) = find_task u i d"
  "resvs_of (upd_rounds me P f d) i = resvs_of d i" "log_of (upd_rounds me P f d) i = log_of d i"
  "msgs_of (upd_rounds me P f d) i = msgs_of d i"
  "held_task (upd_rounds me P f d) i k = held_task d i k"
  "leased_to (upd_rounds me P f d) i = leased_to d i"
  by (simp_all add: task_at_def find_task_def resvs_of_def log_of_def msgs_of_def held_task_def leased_to_def)

lemma filter_upd_key:
  "(\<And>x. k (f x) = k x) \<Longrightarrow> filter (\<lambda>x. k x = i) (upd P f xs) = upd P f (filter (\<lambda>x. k x = i) xs)"
  by (induction xs) auto

lemma rounds_of_upd_rounds [simp]:
  "(\<And>r. r_task (f r) = r_task r) \<Longrightarrow>
   rounds_of (upd_rounds me P f d) i = upd (\<lambda>r. r_owner r = me \<and> P r) f (rounds_of d i)"
  by (simp add: rounds_of_def filter_upd_key)

lemma act_of_upd_rounds:
  assumes "\<And>r. r_task (f r) = r_task r"
    and "\<And>r. r \<in> set (rounds_of d i) \<Longrightarrow> r_owner r = me \<Longrightarrow> P r \<Longrightarrow> active_state (r_state r)"
  shows "act_of (upd_rounds me P f d) i =
     filter (\<lambda>r. active_state (r_state r)) (upd (\<lambda>r. r_owner r = me \<and> P r) f (act_of d i))"
proof -
  have "filter (\<lambda>r. active_state (r_state r)) (upd Q f xs) =
      filter (\<lambda>r. active_state (r_state r)) (upd Q f (filter (\<lambda>r. active_state (r_state r)) xs))"
    if "\<And>r. r \<in> set xs \<Longrightarrow> Q r \<Longrightarrow> active_state (r_state r)" for Q xs
    using that by (induction xs) auto
  from this [of "rounds_of d i" "\<lambda>r. r_owner r = me \<and> P r"] show ?thesis
    using assms by (simp add: act_of_rounds_of)
qed

text \<open>Inserted rows.\<close>

definition add_round :: "round_row \<Rightarrow> db \<Rightarrow> db" where
  "add_round r d = d\<lparr>rounds := rounds d @ [r]\<rparr>"

definition add_resv :: "resv_row \<Rightarrow> db \<Rightarrow> db" where
  "add_resv v d = d\<lparr>resvs := resvs d @ [v]\<rparr>"

definition add_task :: "task_row \<Rightarrow> db \<Rightarrow> db" where
  "add_task t d = d\<lparr>tasks := tasks d @ [t]\<rparr>"

lemma insert_round_Inr: "insert_round r d = Inr d' \<Longrightarrow> d' = add_round r d"
  by (auto simp: insert_round_def add_round_def split: if_splits)

lemma insert_resv_Inr: "insert_resv v d = Inr d' \<Longrightarrow> d' = add_resv v d"
  by (auto simp: insert_resv_def add_resv_def split: if_splits)

lemma insert_task_Inr: "insert_task t d = Inr d' \<Longrightarrow> d' = add_task t d \<and> task_at d (t_id t) = None"
  by (auto simp: insert_task_def add_task_def task_at_def list_ex_iff find_None_iff split: if_splits)

lemma add_round_frame [simp]:
  "tasks (add_round r d) = tasks d" "rounds (add_round r d) = rounds d @ [r]"
  "resvs (add_round r d) = resvs d" "events (add_round r d) = events d"
  "messages (add_round r d) = messages d" "usage (add_round r d) = usage d"
  "quotas (add_round r d) = quotas d" "slots (add_round r d) = slots d"
  "pl_used (add_round r d) = pl_used d" "pl_max (add_round r d) = pl_max d"
  by (simp_all add: add_round_def)

lemma add_resv_frame [simp]:
  "tasks (add_resv v d) = tasks d" "rounds (add_resv v d) = rounds d"
  "resvs (add_resv v d) = resvs d @ [v]" "events (add_resv v d) = events d"
  "messages (add_resv v d) = messages d" "usage (add_resv v d) = usage d"
  "quotas (add_resv v d) = quotas d" "slots (add_resv v d) = slots d"
  "pl_used (add_resv v d) = pl_used d" "pl_max (add_resv v d) = pl_max d"
  by (simp_all add: add_resv_def)

lemma slices_add_round [simp]:
  "task_at (add_round r d) i = task_at d i"
  "find_task u i (add_round r d) = find_task u i d"
  "rounds_of (add_round r d) i = rounds_of d i @ (if r_task r = i then [r] else [])"
  "resvs_of (add_round r d) i = resvs_of d i"
  "log_of (add_round r d) i = log_of d i"
  "msgs_of (add_round r d) i = msgs_of d i"
  "act_of (add_round r d) i = act_of d i @ (if r_task r = i \<and> active_state (r_state r) then [r] else [])"
  "held_task (add_round r d) i k = held_task d i k"
  "leased_to (add_round r d) i = leased_to d i"
  by (simp_all add: task_at_def find_task_def rounds_of_def resvs_of_def log_of_def msgs_of_def act_of_def
      held_task_def leased_to_def)

lemma slices_add_resv [simp]:
  "task_at (add_resv v d) i = task_at d i"
  "find_task u i (add_resv v d) = find_task u i d"
  "rounds_of (add_resv v d) i = rounds_of d i"
  "resvs_of (add_resv v d) i = resvs_of d i @ (if v_task v = i then [v] else [])"
  "log_of (add_resv v d) i = log_of d i"
  "msgs_of (add_resv v d) i = msgs_of d i"
  "act_of (add_resv v d) i = act_of d i"
  "held_task (add_resv v d) i k = held_task d i k + (if v_task v = i \<and> v_kind v = k \<and> held v then 1 else 0)"
  "leased_to (add_resv v d) i = leased_to d i"
  by (simp_all add: task_at_def find_task_def rounds_of_def resvs_of_def log_of_def msgs_of_def act_of_def
      held_task_def leased_to_def)

lemma ledger_add_resv:
  assumes "held v"
  shows "held_user (add_resv v d) u k = held_user d u k + (if v_user v = u \<and> v_kind v = k then 1 else 0)"
    "bytes_user (add_resv v d) u = bytes_user d u + (if v_user v = u then v_bytes v else 0)"
    "bytes_all (add_resv v d) = bytes_all d + v_bytes v"
  using assms by (simp_all add: held_user_def bytes_user_def bytes_all_def)

lemma new_round_simps [simp]:
  "r_task (new_round rid i me src now) = i" "r_owner (new_round rid i me src now) = me"
  "r_state (new_round rid i me src now) = RPending" "round_ok (new_round rid i me src now)"
  "r_id (new_round rid i me src now) = rid" "r_source (new_round rid i me src now) = src"
  by (simp_all add: new_round_def round_ok_def)

lemma slices_upd_files [simp]:
  "task_at (upd_files me P f d) i = task_at d i" "find_task u i (upd_files me P f d) = find_task u i d"
  "rounds_of (upd_files me P f d) i = rounds_of d i" "resvs_of (upd_files me P f d) i = resvs_of d i"
  "log_of (upd_files me P f d) i = log_of d i" "msgs_of (upd_files me P f d) i = msgs_of d i"
  "act_of (upd_files me P f d) i = act_of d i" "held_task (upd_files me P f d) i k = held_task d i k"
  "leased_to (upd_files me P f d) i = leased_to d i"
  by (simp_all add: task_at_def find_task_def rounds_of_def resvs_of_def log_of_def msgs_of_def act_of_def
      held_task_def leased_to_def)

lemma touches_upd_files:
  assumes "touches me tid d d0" and "\<And>x. P x \<Longrightarrow> f_task x = tid"
    and "\<And>x. f_task (f x) = f_task x \<and> f_owner (f x) = f_owner x"
  shows "touches me tid d (upd_files me P f d0)"
proof -
  have "filter (\<lambda>x. \<not> (f_task x = tid \<and> f_owner x = me)) (upd (\<lambda>x. f_owner x = me \<and> P x) f (files d0))
      = filter (\<lambda>x. \<not> (f_task x = tid \<and> f_owner x = me)) (files d0)"
    by (rule filter_upd_frame) (use assms(2,3) in auto)
  then have "touches me tid d0 (upd_files me P f d0)"
    unfolding touches_def pkeys_def by (auto simp: upd_files_def leased_to_def)
  then show ?thesis using assms(1) touches_trans by blast
qed

text \<open>The per-user and platform counters are in no slice.\<close>

lemma slices_usage [simp]:
  "task_at (d\<lparr>usage := U\<rparr>) i = task_at d i" "find_task u i (d\<lparr>usage := U\<rparr>) = find_task u i d"
  "rounds_of (d\<lparr>usage := U\<rparr>) i = rounds_of d i" "resvs_of (d\<lparr>usage := U\<rparr>) i = resvs_of d i"
  "log_of (d\<lparr>usage := U\<rparr>) i = log_of d i" "msgs_of (d\<lparr>usage := U\<rparr>) i = msgs_of d i"
  "act_of (d\<lparr>usage := U\<rparr>) i = act_of d i" "held_task (d\<lparr>usage := U\<rparr>) i k = held_task d i k"
  "leased_to (d\<lparr>usage := U\<rparr>) i = leased_to d i" "held_user (d\<lparr>usage := U\<rparr>) u k = held_user d u k"
  "bytes_user (d\<lparr>usage := U\<rparr>) u = bytes_user d u" "bytes_all (d\<lparr>usage := U\<rparr>) = bytes_all d"
  by (simp_all add: task_at_def find_task_def rounds_of_def resvs_of_def log_of_def msgs_of_def act_of_def
      held_task_def leased_to_def held_user_def bytes_user_def bytes_all_def)

lemma slices_pl_used [simp]:
  "task_at (d\<lparr>pl_used := n\<rparr>) i = task_at d i" "find_task u i (d\<lparr>pl_used := n\<rparr>) = find_task u i d"
  "rounds_of (d\<lparr>pl_used := n\<rparr>) i = rounds_of d i" "resvs_of (d\<lparr>pl_used := n\<rparr>) i = resvs_of d i"
  "log_of (d\<lparr>pl_used := n\<rparr>) i = log_of d i" "msgs_of (d\<lparr>pl_used := n\<rparr>) i = msgs_of d i"
  "act_of (d\<lparr>pl_used := n\<rparr>) i = act_of d i" "held_task (d\<lparr>pl_used := n\<rparr>) i k = held_task d i k"
  "leased_to (d\<lparr>pl_used := n\<rparr>) i = leased_to d i" "held_user (d\<lparr>pl_used := n\<rparr>) u k = held_user d u k"
  "bytes_user (d\<lparr>pl_used := n\<rparr>) u = bytes_user d u" "bytes_all (d\<lparr>pl_used := n\<rparr>) = bytes_all d"
  by (simp_all add: task_at_def find_task_def rounds_of_def resvs_of_def log_of_def msgs_of_def act_of_def
      held_task_def leased_to_def held_user_def bytes_user_def bytes_all_def)

lemma acct_cong:
  assumes "resvs d' = resvs d" and "usage d' = usage d" and "pl_used d' = pl_used d"
  shows "acct d' = acct d"
proof -
  have "acct_user d' u = acct_user d u" for u
    using assms by (simp add: acct_user_def held_user_def bytes_user_def split: option.split)
  then show ?thesis using assms by (simp add: acct_def bytes_all_def zero_bytes_def)
qed

lemma exact_cong:
  "resvs d' = resvs d \<Longrightarrow> usage d' = usage d \<Longrightarrow> pl_used d' = pl_used d \<Longrightarrow> exact d' = exact d"
  by (simp add: exact_def bytes_user_def bytes_all_def)

text \<open>Booking one new held reservation.\<close>

lemma acct_add_resv:
  assumes "acct d" and "held v" and "usage d (v_user v) = Some q"
    and "usage d' = (usage d)(v_user v \<mapsto> q')" and "resvs d' = resvs d @ [v]"
    and "u_active q' = u_active q + (if v_kind v = KActive then 1 else 0)"
    and "u_running q' = u_running q + (if v_kind v = KRunning then 1 else 0)"
    and "u_storage q' = u_storage q + v_bytes v" and "pl_used d' = pl_used d + v_bytes v"
    and "v_kind v = KActive \<or> v_kind v = KRunning \<Longrightarrow> v_bytes v = 0"
  shows "acct d'" "exact d \<Longrightarrow> exact d'"
proof -
  have h: "held_user d' u k = held_user d u k + (if v_user v = u \<and> v_kind v = k then 1 else 0)"
    "bytes_user d' u = bytes_user d u + (if v_user v = u then v_bytes v else 0)"
    "bytes_all d' = bytes_all d + v_bytes v" for u k
    using assms(2,5) by (simp_all add: held_user_def bytes_user_def bytes_all_def)
  have "acct_user d' u" for u
  proof (cases "u = v_user v")
    case True
    have "acct_user d u" using assms(1) by (simp add: acct_def)
    then show ?thesis using True assms(3,4,6-8) by (simp add: acct_user_def h)
  next
    case False
    have "acct_user d u" using assms(1) by (simp add: acct_def)
    then show ?thesis using False assms(4,5) by (auto simp: acct_user_def h split: option.splits)
  qed
  moreover have "bytes_all d' \<le> pl_used d'" using assms(1,9) by (simp add: acct_def h)
  moreover have "zero_bytes d'" using assms(1,5,10) by (auto simp: acct_def zero_bytes_def)
  ultimately show "acct d'" by (simp add: acct_def)
  show "exact d'" if "exact d" using that assms(3,4,8,9) by (auto simp: exact_def h)
qed

lemma task_at_D: "task_at d i = Some t \<Longrightarrow> t \<in> set (tasks d) \<and> t_id t = i"
  unfolding task_at_def by (drule find_Some_D) simp

lemma find_task_task_at:
  assumes "pkeys d"
  shows "find_task me i d = Some t \<longleftrightarrow> task_at d i = Some t \<and> t_owner t = me"
proof
  assume "find_task me i d = Some t"
  then have t: "t \<in> set (tasks d)" "t_id t = i" "t_owner t = me" using find_task_Some_D by auto
  have "distinct (map t_id (tasks d))" using assms by (simp add: pkeys_def)
  from find_key [OF this t(1), of "\<lambda>_. True"] t show "task_at d i = Some t \<and> t_owner t = me"
    by (simp add: task_at_def)
next
  assume "task_at d i = Some t \<and> t_owner t = me"
  then have t: "t \<in> set (tasks d)" "t_id t = i" "t_owner t = me" using task_at_D by auto
  have "distinct (map t_id (tasks d))" using assms by (simp add: pkeys_def)
  from find_key [OF this t(1), of "\<lambda>t. t_owner t = me"] t show "find_task me i d = Some t"
    by (simp add: find_task_def conj_commute)
qed

section \<open>Preserving the invariant\<close>

lemma goodD:
  assumes "good d"
  shows "pkeys d" "task_good d i" "acct d" "slots_wf d"
  using assms by (auto simp: good_def)

lemma good_task:
  assumes "good d" and "task_at d i = Some t"
  shows "owned d i (t_owner t)"
    and "phase_ok (t_status t) (t_pending t) (map r_state (act_of d i))
            (held_task d i KActive) (held_task d i KRunning)"
    and "leased_to d i = held_task d i KRunning"
    and "log_ok t (log_of d i) (msgs_of d i)"
    and "\<And>r. r \<in> set (rounds_of d i) \<Longrightarrow> round_ok r"
    and "\<And>v. v \<in> set (resvs_of d i) \<Longrightarrow> v_state v \<noteq> Consumed"
    and "t_status t = Uploading \<Longrightarrow> rounds_of d i = [] \<and> held_task d i KTaskRoot = 0"
  using goodD(2) [OF assms(1), of i] assms(2) by (auto simp: task_good_def)

lemma owned_owns_resvs: "owned d i u \<Longrightarrow> owns_resvs u i d"
  by (auto simp: owned_def owns_resvs_def resvs_of_def)

text \<open>What a transaction on an existing task has to establish of the task's slice.\<close>

definition slice_ok :: "db \<Rightarrow> uuid \<Rightarrow> uuid \<Rightarrow> task_row \<Rightarrow> bool" where
  "slice_ok d me i t \<longleftrightarrow> task_at d i = Some t \<and> t_owner t = me
     \<and> (\<forall>r\<in>set (rounds_of d i). r_owner r = me \<and> round_ok r)
     \<and> (\<forall>e\<in>set (log_of d i). e_owner e = me) \<and> (\<forall>m\<in>set (msgs_of d i). m_owner m = me)
     \<and> log_ok t (log_of d i) (msgs_of d i)"

lemma good_slice_ok:
  "good d \<Longrightarrow> task_at d i = Some t \<Longrightarrow> t_owner t = me \<Longrightarrow> slice_ok d me i t"
  using good_task [of d i t] by (auto simp: slice_ok_def owned_def)

lemma plain_step:
  assumes "good d" and "touches me tid d d1" and "task_at d tid = Some t"
    and led: "resvs d1 = resvs d" "usage d1 = usage d" "slots d1 = slots d" "pl_used d1 = pl_used d"
    and "slice_ok d1 me tid t1" and "t_owner t = me"
    and "phase_ok (t_status t1) (t_pending t1) (map r_state (act_of d1 tid))
          (held_task d tid KActive) (held_task d tid KRunning)"
    and "t_status t1 = Uploading \<longrightarrow> t_status t = Uploading \<and> rounds_of d1 tid = []"
  shows "good d1"
proof (rule goodI [OF assms(1,2)])
  note g = good_task [OF assms(1,3)]
  have "held_task d1 tid k = held_task d tid k" "leased_to d1 tid = leased_to d tid"
    "resvs_of d1 tid = resvs_of d tid" for k
    using led by (simp_all add: held_task_def leased_to_def resvs_of_def)
  then show "task_good d1 tid"
    using g assms(8-11) by (auto simp: task_good_def slice_ok_def owned_def)
  show "acct d1" using acct_cong [OF led(1,2,4)] assms(1) by (simp add: good_def)
  show "slots_wf d1" using assms(1) led(3) by (simp add: good_def slots_wf_def)
qed

lemma slots_rel_booking:
  assumes "acct d" and "owns_resvs me tid d"
  shows "slots (rel_booking me tid K d) =
     (if freed_count d tid K KRunning \<noteq> 0 then slots (free_slot tid d) else slots d)"
  using none_held [OF assms] 
  by (auto simp: rel_booking_def booked_def free_slot_def split: option.splits)

lemma slices_rel_booking [simp]:
  "task_at (rel_booking o' t K d) i = task_at d i"
  "find_task u i (rel_booking o' t K d) = find_task u i d"
  "rounds_of (rel_booking o' t K d) i = rounds_of d i"
  "log_of (rel_booking o' t K d) i = log_of d i"
  "msgs_of (rel_booking o' t K d) i = msgs_of d i"
  "act_of (rel_booking o' t K d) i = act_of d i"
  by (simp_all add: task_at_def find_task_def rounds_of_def log_of_def msgs_of_def act_of_def)

lemma resvs_of_rel_booking:
  "v \<in> set (resvs_of (rel_booking o' t K d) i) \<Longrightarrow>
     \<exists>w\<in>set (resvs_of d i). v_user v = v_user w \<and> (v_state v = v_state w \<or> v_state v = Released)"
  by (auto simp: resvs_of_def mark_released_def set_upd intro: rev_bexI)

lemma release_step:
  assumes "good d" and "touches me tid d d1" and "task_at d tid = Some t"
    and led: "resvs d1 = resvs d" "usage d1 = usage d" "slots d1 = slots d" "pl_used d1 = pl_used d"
    and "slice_ok d1 me tid t1" and "t_owner t = me"
    and "phase_ok (t_status t1) (t_pending t1) (map r_state (act_of d1 tid))
          (if terminal_status (t_status t1) then 0 else held_task d tid KActive) 0"
    and "t_status t1 \<noteq> Uploading"
  shows "good (release_task_holdings me tid d1)" "touches me tid d (release_task_holdings me tid d1)"
proof -
  let ?K = "freed (t_status t1)"
  let ?d = "rel_booking me tid ?K d1"
  note g = good_task [OF assms(1,3)]
  have pk1: "pkeys d1" using assms(1,2) touches_pkeys by (auto simp: good_def)
  have ft: "find_task me tid d1 = Some t1"
    using assms(8) find_task_task_at [OF pk1] by (simp add: slice_ok_def)
  have a1: "acct d1" using acct_cong [OF led(1,2,4)] assms(1) by (simp add: good_def)
  have o1: "owns_resvs me tid d1"
    using g(1) assms(9) led(1) by (auto simp: owned_def owns_resvs_def resvs_of_def)
  have eq: "release_task_holdings me tid d1 = ?d"
    by (rule release_task_holdings_booking [OF a1 o1 ft])
  show t: "touches me tid d (release_task_holdings me tid d1)"
    by (rule touches_release [OF assms(2)])
  have h1: "held_task d1 tid k = held_task d tid k" for k using led(1) by (simp add: held_task_def)
  have "?K KRunning" by (simp add: freed_iff)
  moreover have "leased_to ?d tid = 0"
  proof (cases "held_task d1 tid KRunning = 0")
    case True
    then have "leased_to d1 tid = 0"
      using g(3) h1 led(3) by (simp add: leased_to_def)
    then show ?thesis
      using slots_rel_booking [OF a1 o1, of ?K] leased_free_slot [of tid d1 tid]
      by (simp add: leased_to_def split: if_splits)
  next
    case False
    then have "slots ?d = slots (free_slot tid d1)"
      using slots_rel_booking [OF a1 o1, of ?K] \<open>?K KRunning\<close> by (simp add: freed_count_def)
    then show ?thesis using leased_free_slot [of tid d1 tid] by (simp add: leased_to_def)
  qed
  moreover have "\<forall>v\<in>set (resvs_of ?d tid). v_user v = me \<and> v_state v \<noteq> Consumed"
  proof
    fix v assume "v \<in> set (resvs_of ?d tid)"
    then obtain w where w: "w \<in> set (resvs_of d1 tid)" "v_user v = v_user w"
        "v_state v = v_state w \<or> v_state v = Released"
      using resvs_of_rel_booking by metis
    from w(1) have "w \<in> set (resvs_of d tid)" by (simp add: resvs_of_def led(1))
    then show "v_user v = me \<and> v_state v \<noteq> Consumed"
      using g(1,6) w assms(9) by (auto simp: owned_def)
  qed
  moreover have "?K KActive = terminal_status (t_status t1)"
    by (auto simp: freed_iff terminal_status_def)
  ultimately have "task_good ?d tid"
    using assms(8,10,11) h1 by (simp add: task_good_def slice_ok_def owned_def split: if_splits)
  moreover have "acct ?d" by (rule acct_rel_booking [OF a1 o1])
  moreover have "slots_wf ?d"
    using assms(1) led(3) slots_rel_booking [OF a1 o1, of ?K]
    by (auto simp: good_def slots_wf_def free_slot_def map_upd_key)
  ultimately show "good (release_task_holdings me tid d1)"
    using goodI [OF assms(1) t] unfolding eq by blast
qed

lemma exact_release:
  assumes "acct d" and "exact d" and "owns_resvs me tid d"
  shows "exact (release_task_holdings me tid d)"
proof (cases "find_task me tid d")
  case None
  then show ?thesis using assms(2) by (simp add: release_task_holdings_def)
next
  case (Some t)
  then show ?thesis
    using release_task_holdings_booking [OF assms(1,3) Some] exact_rel_booking [OF assms] by simp
qed

text \<open>Appending a batch of events keeps the log gap-free.\<close>

lemma log_ok_append:
  assumes "log_ok t l m" and "map e_seq es = [Suc (t_eseq t) ..< Suc (t_eseq t + n)]" and "n = length es"
    and "t_eseq t1 = t_eseq t + n" and "es \<noteq> []"
    and "replay_status (t_status t) es = t_status t1"
    and "map (\<lambda>m. PMessage (m_id m) (m_seq m) (m_author m)) ms
         = map e_payload (filter (\<lambda>e. e_type e = EMessageSaved) es)"
  shows "log_ok t1 (l @ es) (m @ ms)"
proof -
  obtain k where k: "k \<le> t_eseq t" "map e_seq l = [Suc k ..< Suc (t_eseq t)]"
      "k = 0 \<Longrightarrow> replay_status Uploading l = t_status t"
    using assms(1) by (auto simp: log_ok_def)
  have "map e_seq (l @ es) = [Suc k ..< Suc (t_eseq t + n)]"
    using k assms(2) upt_add_eq_append [of "Suc k" "Suc (t_eseq t)" n] by simp
  then show ?thesis
    using assms k(1,3) unfolding log_ok_def by (auto intro!: exI [of _ k])
qed

section \<open>One transaction\<close>

text \<open>What a transaction may do to a task row: the snapshot is frozen, the counter only grows, and
  the status moves along the transition table, or back from running to queued (a requeue).\<close>

definition allowed_flip :: "status \<Rightarrow> status \<Rightarrow> bool" where
  "allowed_flip s s' \<longleftrightarrow> s' = s \<or> s' \<in> set (valid_transitions s) \<or> (s = Running \<and> s' = Queued)"

definition evolves :: "task_row \<Rightarrow> task_row \<Rightarrow> bool" where
  "evolves t t' \<longleftrightarrow> t_id t' = t_id t \<and> t_owner t' = t_owner t \<and> t_revision t' = t_revision t
     \<and> t_provider t' = t_provider t \<and> t_catalog t' = t_catalog t \<and> t_model t' = t_model t
     \<and> t_keyver t' = t_keyver t \<and> t_mcp t' = t_mcp t \<and> t_created t' = t_created t
     \<and> t_eseq t \<le> t_eseq t' \<and> allowed_flip (t_status t) (t_status t')"

text \<open>A task at rest: terminal, or running with no active round left (only the reconciliation ends
  the latter). No transaction wakes it up.\<close>

definition quiet :: "db \<Rightarrow> uuid \<Rightarrow> bool" where
  "quiet d i \<longleftrightarrow> (case task_at d i of None \<Rightarrow> False
     | Some t \<Rightarrow> terminal_status (t_status t) \<or> t_status t = Running \<and> act_of d i = [])"

lemma quiet_other: "touches me tid d d' \<Longrightarrow> i \<noteq> tid \<Longrightarrow> quiet d' i = quiet d i"
  using touches_other [of me tid d d' i] by (simp add: quiet_def act_of_rounds_of split: option.splits)

text \<open>Nobody is charged more than the quota, and the platform not more than it has.\<close>

definition within :: "db \<Rightarrow> bool" where
  "within d \<longleftrightarrow> pl_used d \<le> pl_max d \<and> (\<forall>u q. usage d u = Some q \<longrightarrow>
     (\<exists>Q. quotas d u = Some Q \<and> u_active q \<le> q_active Q \<and> u_running q \<le> q_running Q \<and> u_storage q \<le> q_storage Q))"

lemma within_user:
  assumes "within d" and "usage d u = Some q"
  shows "\<exists>Q. quotas d u = Some Q" and "quotas d u = Some Q \<Longrightarrow>
     u_active q \<le> q_active Q \<and> u_running q \<le> q_running Q \<and> u_storage q \<le> q_storage Q"
  using assms by (auto simp: within_def dest!: spec [of _ u] spec [of _ q])

lemma within_cong:
  "usage d' = usage d \<Longrightarrow> quotas d' = quotas d \<Longrightarrow> pl_used d' = pl_used d \<Longrightarrow> pl_max d' = pl_max d \<Longrightarrow>
   within d' = within d"
  by (simp add: within_def)

lemma within_rel_booking:
  assumes "within d"
  shows "within (rel_booking me tid K d)"
proof (cases "usage d me")
  case None
  then show ?thesis using assms by (simp add: rel_booking_def within_def)
next
  case (Some q)
  then obtain Q where Q: "quotas d me = Some Q" "u_active q \<le> q_active Q" "u_running q \<le> q_running Q"
      "u_storage q \<le> q_storage Q"
    using assms by (auto simp: within_def)
  then show ?thesis using assms Some by (auto simp: rel_booking_def booked_def within_def)
qed

lemma touches_pl_max: "touches me tid d d' \<Longrightarrow> pl_max d' = pl_max d"
  by (simp add: touches_def)

definition ok_step :: "uuid \<Rightarrow> uuid \<Rightarrow> db \<Rightarrow> db \<Rightarrow> bool" where
  "ok_step me tid d d' \<longleftrightarrow> good d' \<and> touches me tid d d' \<and> (exact d \<longrightarrow> exact d')
     \<and> (quiet d tid \<longrightarrow> quiet d' tid) \<and> (within d \<longrightarrow> within d')
     \<and> (\<forall>t. task_at d tid = Some t \<longrightarrow>
          (\<exists>t' es. task_at d' tid = Some t' \<and> evolves t t' \<and> log_of d' tid = log_of d tid @ es))"

lemma evolves_terminal: "evolves t t' \<Longrightarrow> terminal_status (t_status t) \<Longrightarrow> terminal_status (t_status t')"
  by (cases "t_status t") (auto simp: evolves_def allowed_flip_def)

lemma quiet_step:
  assumes "task_at d tid = Some t" and "task_at d' tid = Some t'" and "evolves t t'"
    and "t_status t = Running \<Longrightarrow> act_of d tid = [] \<Longrightarrow>
       terminal_status (t_status t') \<or> t_status t' = Running \<and> act_of d' tid = []"
  shows "quiet d tid \<longrightarrow> quiet d' tid"
  using assms evolves_terminal [OF assms(3)] by (auto simp: quiet_def)

lemma evolves_refl [simp]: "evolves t t"
  by (simp add: evolves_def allowed_flip_def)

lemma ok_step_refl: "good d \<Longrightarrow> ok_step me tid d d"
  by (simp add: ok_step_def)

lemma plain_ok:
  assumes "good d" and "touches me tid d d1" and "task_at d tid = Some t"
    and "resvs d1 = resvs d" "usage d1 = usage d" "slots d1 = slots d" "pl_used d1 = pl_used d"
    and "slice_ok d1 me tid t1" and "t_owner t = me"
    and "phase_ok (t_status t1) (t_pending t1) (map r_state (act_of d1 tid))
          (held_task d tid KActive) (held_task d tid KRunning)"
    and "t_status t1 = Uploading \<longrightarrow> t_status t = Uploading \<and> rounds_of d1 tid = []"
    and "evolves t t1" and "log_of d1 tid = log_of d tid @ es"
    and "t_status t = Running \<Longrightarrow> act_of d tid = [] \<Longrightarrow>
       terminal_status (t_status t1) \<or> t_status t1 = Running \<and> act_of d1 tid = []"
    and "quotas d1 = quotas d"
  shows "ok_step me tid d d1"
proof -
  have at: "task_at d1 tid = Some t1" using assms(8) by (simp add: slice_ok_def)
  show ?thesis
    using plain_step [OF assms(1-11)] exact_cong [OF assms(4,5,7)] assms(2,3,12,13) at
      quiet_step [OF assms(3) at assms(12,14)]
      within_cong [OF assms(5,15,7) touches_pl_max [OF assms(2)]]
    by (auto simp: ok_step_def)
qed

lemma release_ok:
  assumes "good d" and "touches me tid d d1" and "task_at d tid = Some t"
    and led: "resvs d1 = resvs d" "usage d1 = usage d" "slots d1 = slots d" "pl_used d1 = pl_used d"
    and "slice_ok d1 me tid t1" and "t_owner t = me"
    and "phase_ok (t_status t1) (t_pending t1) (map r_state (act_of d1 tid))
          (if terminal_status (t_status t1) then 0 else held_task d tid KActive) 0"
    and "t_status t1 \<noteq> Uploading"
    and "evolves t t1" and "log_of d1 tid = log_of d tid @ es"
    and "t_status t = Running \<Longrightarrow> act_of d tid = [] \<Longrightarrow>
       terminal_status (t_status t1) \<or> t_status t1 = Running \<and> act_of d1 tid = []"
    and "quotas d1 = quotas d"
  shows "ok_step me tid d (release_task_holdings me tid d1)"
proof -
  note r = release_step [OF assms(1-11)]
  have pk1: "pkeys d1" using assms(1,2) touches_pkeys by (auto simp: good_def)
  have ft: "find_task me tid d1 = Some t1"
    using assms(8) find_task_task_at [OF pk1] by (simp add: slice_ok_def)
  have a1: "acct d1" using acct_cong [OF led(1,2,4)] assms(1) by (simp add: good_def)
  have o1: "owns_resvs me tid d1"
    using good_task(1) [OF assms(1,3)] assms(9) led(1)
    by (auto simp: owned_def owns_resvs_def resvs_of_def)
  have eq: "release_task_holdings me tid d1 = rel_booking me tid (freed (t_status t1)) d1"
    by (rule release_task_holdings_booking [OF a1 o1 ft])
  have "exact d \<longrightarrow> exact (release_task_holdings me tid d1)"
    using exact_cong [OF led(1,2,4)] exact_release [OF a1 _ o1] by simp
  moreover have "task_at (release_task_holdings me tid d1) tid = Some t1"
    "log_of (release_task_holdings me tid d1) tid = log_of d tid @ es"
    "act_of (release_task_holdings me tid d1) tid = act_of d1 tid"
    using assms(8,13) by (simp_all add: eq slice_ok_def)
  moreover have "within d \<longrightarrow> within (release_task_holdings me tid d1)"
    using within_cong [OF led(2) assms(15) led(4) touches_pl_max [OF assms(2)]] within_rel_booking
    by (simp add: eq)
  ultimately show ?thesis
    using r assms(3,12) quiet_step [OF assms(3) _ assms(12), of "release_task_holdings me tid d1"] assms(14)
    by (auto simp: ok_step_def)
qed

text \<open>The contract every service call and every system job meets, with what clients get from it.
  \<open>pre\<close> is what a job knows of its (possibly stale) candidate; a service call needs nothing.
  \<open>task_transaction\<close> adds that the task's event log is only appended to.\<close>

definition ok_job :: "uuid \<Rightarrow> uuid \<Rightarrow> db \<Rightarrow> db \<Rightarrow> bool" where
  "ok_job me tid d d' \<longleftrightarrow> good d' \<and> touches me tid d d' \<and> (exact d \<longrightarrow> exact d')
     \<and> (quiet d tid \<longrightarrow> quiet d' tid) \<and> (within d \<longrightarrow> within d')
     \<and> (\<forall>t. task_at d tid = Some t \<longrightarrow> (\<exists>t'. task_at d' tid = Some t' \<and> evolves t t'))"

lemma ok_step_job: "ok_step me tid d d' \<Longrightarrow> ok_job me tid d d'"
  by (auto simp: ok_step_def ok_job_def)

locale job_transaction =
  fixes run :: "'i \<Rightarrow> db \<Rightarrow> api_error + 'o \<times> db"
    and who :: "'i \<Rightarrow> uuid"
    and target :: "'i \<Rightarrow> uuid"
    and pre :: "'i \<Rightarrow> db \<Rightarrow> bool"
  assumes run_ok: "good d \<Longrightarrow> pre i d \<Longrightarrow> run i d = Inr (out, d') \<Longrightarrow> ok_job (who i) (target i) d d'"
begin

lemma keeps_good: "good d \<Longrightarrow> pre i d \<Longrightarrow> run i d = Inr (out, d') \<Longrightarrow> good d'"
  using run_ok by (simp add: ok_job_def)

lemma keeps_exact: "good d \<Longrightarrow> pre i d \<Longrightarrow> exact d \<Longrightarrow> run i d = Inr (out, d') \<Longrightarrow> exact d'"
  using run_ok by (simp add: ok_job_def)

lemma keeps_within: "good d \<Longrightarrow> pre i d \<Longrightarrow> within d \<Longrightarrow> run i d = Inr (out, d') \<Longrightarrow> within d'"
  using run_ok by (simp add: ok_job_def)

lemma keeps_quiet: "good d \<Longrightarrow> pre i d \<Longrightarrow> run i d = Inr (out, d') \<Longrightarrow> quiet d j \<Longrightarrow> quiet d' j"
  using run_ok [of d i out d'] quiet_other [of "who i" "target i" d d' j]
  by (cases "j = target i") (auto simp: ok_job_def)

lemma other_task:
  assumes "good d" and "pre i d" and "run i d = Inr (out, d')" and "j \<noteq> target i"
  shows "task_at d' j = task_at d j" "rounds_of d' j = rounds_of d j" "resvs_of d' j = resvs_of d j"
    "log_of d' j = log_of d j" "msgs_of d' j = msgs_of d j"
proof -
  have "touches (who i) (target i) d d'" using run_ok [OF assms(1-3)] by (simp add: ok_job_def)
  note t = touches_other [OF this assms(4)]
  show "task_at d' j = task_at d j" "rounds_of d' j = rounds_of d j" "resvs_of d' j = resvs_of d j"
    "log_of d' j = log_of d j" "msgs_of d' j = msgs_of d j"
    by (fact t)+
qed

lemma other_owner:
  assumes "good d" and "pre i d" and "run i d = Inr (out, d')" and "u \<noteq> who i"
  shows "filter (\<lambda>t. t_owner t = u) (tasks d') = filter (\<lambda>t. t_owner t = u) (tasks d)"
    "filter (\<lambda>r. r_owner r = u) (rounds d') = filter (\<lambda>r. r_owner r = u) (rounds d)"
    "filter (\<lambda>e. e_owner e = u) (events d') = filter (\<lambda>e. e_owner e = u) (events d)"
    "filter (\<lambda>m. m_owner m = u) (messages d') = filter (\<lambda>m. m_owner m = u) (messages d)"
    "filter (\<lambda>f. f_owner f = u) (files d') = filter (\<lambda>f. f_owner f = u) (files d)"
    "usage d' u = usage d u" "quotas d' u = quotas d u"
proof -
  have T: "touches (who i) (target i) d d'" using run_ok [OF assms(1-3)] by (simp add: ok_job_def)
  note T = T [unfolded touches_def]
  show "filter (\<lambda>t. t_owner t = u) (tasks d') = filter (\<lambda>t. t_owner t = u) (tasks d)"
    by (rule filter_weaken [where P = "\<lambda>t. \<not> (t_id t = target i \<and> t_owner t = who i)"])
      (use T assms(4) in auto)
  show "filter (\<lambda>r. r_owner r = u) (rounds d') = filter (\<lambda>r. r_owner r = u) (rounds d)"
    by (rule filter_weaken [where P = "\<lambda>t. \<not> (r_task t = target i \<and> r_owner t = who i)"])
      (use T assms(4) in auto)
  show "filter (\<lambda>e. e_owner e = u) (events d') = filter (\<lambda>e. e_owner e = u) (events d)"
    by (rule filter_weaken [where P = "\<lambda>t. \<not> (e_task t = target i \<and> e_owner t = who i)"])
      (use T assms(4) in auto)
  show "filter (\<lambda>m. m_owner m = u) (messages d') = filter (\<lambda>m. m_owner m = u) (messages d)"
    by (rule filter_weaken [where P = "\<lambda>t. \<not> (m_task t = target i \<and> m_owner t = who i)"])
      (use T assms(4) in auto)
  show "filter (\<lambda>f. f_owner f = u) (files d') = filter (\<lambda>f. f_owner f = u) (files d)"
    by (rule filter_weaken [where P = "\<lambda>t. \<not> (f_task t = target i \<and> f_owner t = who i)"])
      (use T assms(4) in auto)
  show "usage d' u = usage d u" "quotas d' u = quotas d u" using T assms(4) by blast+
qed

end

locale task_transaction = job_transaction +
  assumes run_appends: "good d \<Longrightarrow> pre i d \<Longrightarrow> run i d = Inr (out, d') \<Longrightarrow>
     task_at d (target i) = Some t \<Longrightarrow> \<exists>es. log_of d' (target i) = log_of d (target i) @ es"
begin

lemma log_only_grows:
  assumes "good d" and "pre i d" and "run i d = Inr (out, d')" and "task_at d j = Some t"
  shows "\<exists>es. log_of d' j = log_of d j @ es"
proof (cases "j = target i")
  case True
  then show ?thesis using run_appends assms by blast
next
  case False
  then show ?thesis using other_task(4) [OF assms(1-3)] by simp
qed

end

lemma task_transactionI:
  assumes "\<And>i d out d'. good d \<Longrightarrow> pre i d \<Longrightarrow> run i d = Inr (out, d') \<Longrightarrow> ok_step (who i) (target i) d d'"
  shows "task_transaction run who target pre"
proof
  fix d i out d' assume "good d" "pre i d" "run i d = Inr (out, d')"
  from assms [OF this] show "ok_job (who i) (target i) d d'" by (rule ok_step_job)
next
  fix d i out d' t assume "good d" "pre i d" "run i d = Inr (out, d')" "task_at d (target i) = Some t"
  with assms [OF this(1-3)] show "\<exists>es. log_of d' (target i) = log_of d (target i) @ es"
    by (auto simp: ok_step_def)
qed

end
