(* ===== verification/Content_Hash.thy ===== *)
theory Content_Hash
  imports AC_Prelude "HOL-Library.Code_Target_Numeral" "HOL-Library.Multiset"
begin

text \<open>
  Canonical JSON (\<open>backend/v2/content_hash.py\<close>): \<open>json.dumps\<close> with sorted keys, compact
  separators and \<open>ensure_ascii=False\<close>. A JSON value is null, a boolean, an integer, a string, an
  array or an object (an association list, the later of two equal keys having been dropped by
  \<open>dict\<close> already); floats are not modelled. SHA-256 is a parameter of the clients.
\<close>

section \<open>The code\<close>

datatype json =
    JNull
  | JBool bool
  | JInt int
  | JStr pystr
  | JArr "json list"
  | JObj "(pystr \<times> json) list"

text \<open>Code points of the ASCII characters the encoder writes.\<close>

definition hex_digit :: "nat \<Rightarrow> nat" where
  "hex_digit n = (if n < 10 then 48 + n else 87 + n)"

text \<open>\<open>ESCAPE\<close>: quote, backslash and the control characters; everything else is copied.\<close>

definition escape_char :: "nat \<Rightarrow> pystr" where
  "escape_char c =
     (if c = 34 then [92, 34]
      else if c = 92 then [92, 92]
      else if c = 10 then [92, 110]
      else if c = 13 then [92, 114]
      else if c = 9 then [92, 116]
      else if c = 12 then [92, 102]
      else if c = 8 then [92, 98]
      else if c < 32 then [92, 117, 48, 48, hex_digit (c div 16), hex_digit (c mod 16)]
      else [c])"

definition encode_str :: "pystr \<Rightarrow> pystr" where
  "encode_str s = 34 # concat (map escape_char s) @ [34]"

fun digits :: "nat \<Rightarrow> pystr" where
  "digits n = (if n < 10 then [48 + n] else digits (n div 10) @ [48 + n mod 10])"

declare digits.simps [simp del]

definition encode_int :: "int \<Rightarrow> pystr" where
  "encode_int i = (if i < 0 then 45 # digits (nat (- i)) else digits (nat i))"

text \<open>\<open>sort_keys=True\<close>: keys in code-point order (\<open>insort_key\<close> inserts stably).\<close>

fun str_le :: "pystr \<Rightarrow> pystr \<Rightarrow> bool" where
  "str_le [] _ = True"
| "str_le (_ # _) [] = False"
| "str_le (x # xs) (y # ys) = (x < y \<or> x = y \<and> str_le xs ys)"

fun insert_field :: "pystr \<times> 'a \<Rightarrow> (pystr \<times> 'a) list \<Rightarrow> (pystr \<times> 'a) list" where
  "insert_field f [] = [f]"
| "insert_field f (g # gs) = (if str_le (fst f) (fst g) then f # g # gs else g # insert_field f gs)"

definition sort_fields :: "(pystr \<times> 'a) list \<Rightarrow> (pystr \<times> 'a) list" where
  "sort_fields fs = foldr insert_field fs []"

fun commas :: "pystr list \<Rightarrow> pystr" where
  "commas [] = []"
| "commas [x] = x"
| "commas (x # y # zs) = x @ 44 # commas (y # zs)"

fun canonical_json :: "json \<Rightarrow> pystr" where
  "canonical_json JNull = [110, 117, 108, 108]"
| "canonical_json (JBool True) = [116, 114, 117, 101]"
| "canonical_json (JBool False) = [102, 97, 108, 115, 101]"
| "canonical_json (JInt i) = encode_int i"
| "canonical_json (JStr s) = encode_str s"
| "canonical_json (JArr xs) = 91 # commas (map canonical_json xs) @ [93]"
| "canonical_json (JObj fs) =
     123 # commas (map (\<lambda>(k, s). encode_str k @ 58 # s)
       (sort_fields (map (\<lambda>(k, v). (k, canonical_json v)) fs))) @ [125]"

definition content_sha256 :: "(pystr \<Rightarrow> string) \<Rightarrow> json \<Rightarrow> string" where
  "content_sha256 sha256 j = sha256 (canonical_json j)"

definition max_content_bytes :: nat where "max_content_bytes = 64 * 1024"

definition assert_content_size :: "json \<Rightarrow> api_error + unit" where
  "assert_content_size j =
     (if utf8_size (canonical_json j) > max_content_bytes then Inl ContentTooLarge else Inr ())"

section \<open>Field order\<close>

text \<open>A value with the fields of every object in key order; what the encoder writes, without sorting.\<close>

fun sorted_json :: "json \<Rightarrow> json" where
  "sorted_json (JArr xs) = JArr (map sorted_json xs)"
| "sorted_json (JObj fs) = JObj (sort_fields (map (\<lambda>(k, v). (k, sorted_json v)) fs))"
| "sorted_json j = j"

fun enc_json :: "json \<Rightarrow> pystr" where
  "enc_json JNull = [110, 117, 108, 108]"
| "enc_json (JBool b) = (if b then [116, 114, 117, 101] else [102, 97, 108, 115, 101])"
| "enc_json (JInt i) = encode_int i"
| "enc_json (JStr s) = encode_str s"
| "enc_json (JArr xs) = 91 # commas (map enc_json xs) @ [93]"
| "enc_json (JObj fs) = 123 # commas (map (\<lambda>(k, v). encode_str k @ 58 # enc_json v) fs) @ [125]"

definition on_value :: "('a \<Rightarrow> 'b) \<Rightarrow> pystr \<times> 'a \<Rightarrow> pystr \<times> 'b" where
  "on_value f p = (fst p, f (snd p))"

lemma insert_field_map: "insert_field (on_value f p) (map (on_value f) fs) = map (on_value f) (insert_field p fs)"
  by (induction fs) (auto simp: on_value_def)

lemma sort_fields_map: "sort_fields (map (on_value f) fs) = map (on_value f) (sort_fields fs)"
  by (induction fs) (auto simp: sort_fields_def insert_field_map)

lemma set_insert_field [simp]: "set (insert_field p fs) = insert p (set fs)"
  by (induction fs) auto

lemma set_sort_fields [simp]: "set (sort_fields fs) = set fs"
  by (induction fs) (auto simp: sort_fields_def)

lemma canonical_enc_json: "canonical_json j = enc_json (sorted_json j)"
proof (induction j)
  case (JBool b)
  then show ?case by (cases b) auto
next
  case (JArr xs)
  then have "map canonical_json xs = map (enc_json \<circ> sorted_json) xs" by (intro map_cong) auto
  then show ?case by (simp only: canonical_json.simps sorted_json.simps enc_json.simps map_map)
next
  case (JObj fs)
  have "map (on_value canonical_json) fs = map (on_value enc_json) (map (on_value sorted_json) fs)"
    using JObj by (auto simp: on_value_def intro!: prod_set_simps)
  then have "sort_fields (map (on_value canonical_json) fs)
      = map (on_value enc_json) (sort_fields (map (on_value sorted_json) fs))"
    by (simp only: sort_fields_map)
  moreover have "(\<lambda>(k, v). (k, canonical_json v)) = on_value canonical_json"
    "(\<lambda>(k, v). (k, sorted_json v)) = on_value sorted_json" by (auto simp: on_value_def)
  moreover have "map (\<lambda>(k, s). encode_str k @ 58 # s) (map (on_value enc_json) gs)
      = map (\<lambda>(k, v). encode_str k @ 58 # enc_json v) gs" for gs
    by (auto simp: on_value_def)
  ultimately show ?case by (simp only: canonical_json.simps sorted_json.simps enc_json.simps)
qed auto

section \<open>The encoding is unambiguous\<close>

definition digits_value :: "pystr \<Rightarrow> nat" where "digits_value s = foldl (\<lambda>a c. a * 10 + (c - 48)) 0 s"

lemma digits_value_digits [simp]: "digits_value (digits n) = n"
proof (induction n rule: digits.induct)
  case (1 n)
  then show ?case by (subst digits.simps) (auto simp: digits_value_def)
qed

lemma digits_digit: "c \<in> set (digits n) \<Longrightarrow> 48 \<le> c \<and> c \<le> 57"
proof (induction n rule: digits.induct)
  case (1 n)
  show ?case
  proof (cases "n < 10")
    case True
    then show ?thesis using 1(2) by (subst (asm) digits.simps) auto
  next
    case False
    then have "c \<in> set (digits (n div 10)) \<or> c = 48 + n mod 10"
      using 1(2) by (subst (asm) digits.simps) auto
    then show ?thesis using 1(1) [OF False] by auto
  qed
qed

lemma digits_Nil [simp]: "digits n \<noteq> []"
  by (subst digits.simps) auto

definition item_end :: "pystr \<Rightarrow> bool" where
  "item_end r \<longleftrightarrow> (case r of [] \<Rightarrow> True | c # _ \<Rightarrow> c \<in> {44, 93, 125})"

lemma item_end_simps [simp]: "item_end []" "item_end (c # r) \<longleftrightarrow> c = 44 \<or> c = 93 \<or> c = 125"
  by (simp_all add: item_end_def)

lemma digits_unique:
  assumes "digits n @ r = digits m @ r'" and "item_end r" and "item_end r'"
  shows "n = m \<and> r = r'"
proof -
  let ?d = "\<lambda>c. 48 \<le> c \<and> c \<le> (57::nat)"
  have t: "takeWhile ?d (digits k @ q) = digits k" if "item_end q" for k q
    using that digits_digit by (cases q) (auto simp: takeWhile_append2)
  have "digits n = digits m" using t [OF assms(2), of n] t [OF assms(3), of m] assms(1) by simp
  moreover from this have "n = m" by (metis digits_value_digits)
  ultimately show ?thesis using assms(1) by simp
qed

lemma digits_hd: "\<exists>c q. digits n = c # q \<and> 48 \<le> c \<and> c \<le> 57"
proof -
  obtain c q where d: "digits n = c # q" using digits_Nil by (cases "digits n") auto
  with digits_digit [of c n] show ?thesis by simp
qed

lemma encode_int_unique:
  assumes "encode_int i @ r = encode_int k @ r'" and "item_end r" and "item_end r'"
  shows "i = k \<and> r = r'"
proof -
  obtain c q c' q' where d: "digits (nat i) = c # q" "48 \<le> c" "digits (nat k) = c' # q'" "48 \<le> c'"
    using digits_hd by metis
  consider "i < 0" "k < 0" | "\<not> i < 0" "\<not> k < 0" | "(i < 0) \<noteq> (k < 0)" by blast
  then show ?thesis
  proof cases
    case 1
    with assms(1) have "digits (nat (- i)) @ r = digits (nat (- k)) @ r'" by (simp add: encode_int_def)
    from digits_unique [OF this assms(2,3)] 1 show ?thesis by (simp add: eq_nat_nat_iff)
  next
    case 2
    with assms(1) have "digits (nat i) @ r = digits (nat k) @ r'" by (simp add: encode_int_def)
    from digits_unique [OF this assms(2,3)] 2 show ?thesis by (simp add: eq_nat_nat_iff)
  next
    case 3
    then have False using assms(1) d by (cases "i < 0") (simp_all add: encode_int_def)
    then show ?thesis ..
  qed
qed

definition specials :: "nat list" where "specials = [0..<32] @ [34, 92]"

definition unescape :: "pystr \<Rightarrow> nat" where
  "unescape e = (if e ! 1 = 117 then 16 * (if e ! 4 < 87 then e ! 4 - 48 else e ! 4 - 87) + (if e ! 5 < 87 then e ! 5 - 48 else e ! 5 - 87)
     else the (map_of [(34, 34), (92, 92), (110, 10), (114, 13), (116, 9), (102, 12), (98, 8)] (e ! 1)))"

lemma escape_specials:
  "list_all (\<lambda>c. unescape (escape_char c) = c
     \<and> length (escape_char c) = (if escape_char c ! 1 = 117 then 6 else 2)) specials"
  by code_simp

lemma escape_plain: "c \<notin> set specials \<Longrightarrow> escape_char c = [c]"
  by (auto simp: escape_char_def specials_def)

lemma escape_special: "c \<in> set specials \<Longrightarrow> \<exists>q. escape_char c = 92 # q"
  by (auto simp: escape_char_def specials_def)

lemma specials_92: "92 \<in> set specials"
  by (simp add: specials_def)

lemma escape_char_unique:
  assumes "escape_char c @ x = escape_char d @ y"
  shows "c = d \<and> x = y"
proof -
  have "c = d"
  proof (cases "c \<in> set specials \<and> d \<in> set specials")
    case True
    then have u: "unescape (escape_char c) = c" "unescape (escape_char d) = d"
      and l: "length (escape_char c) = (if escape_char c ! 1 = 117 then 6 else 2)"
        "length (escape_char d) = (if escape_char d ! 1 = 117 then 6 else 2)"
      using escape_specials unfolding list_all_iff by blast+
    have "(escape_char c @ x) ! 1 = (escape_char d @ y) ! 1" by (simp only: assms)
    then have "escape_char c ! 1 = escape_char d ! 1" using l by (simp add: nth_append split: if_splits)
    then have "length (escape_char c) = length (escape_char d)" using l by simp
    with assms have "escape_char c = escape_char d" by simp
    then show ?thesis using u by metis
  next
    case False
    then show ?thesis using assms escape_plain [of c] escape_plain [of d] escape_special [of c] escape_special [of d] specials_92
      by (cases "c \<in> set specials"; cases "d \<in> set specials") auto
  qed
  with assms show ?thesis by simp
qed

lemma escape_char_hd: "\<exists>e q. escape_char c = e # q \<and> e \<noteq> 34"
  by (auto simp: escape_char_def)

lemma escaped_unique:
  "concat (map escape_char s) @ 34 # r = concat (map escape_char s') @ 34 # r' \<Longrightarrow> s = s' \<and> r = r'"
proof (induction s arbitrary: s')
  case Nil
  show ?case
  proof (cases s')
    case (Cons c u)
    obtain e q where "escape_char c = e # q" "e \<noteq> 34" using escape_char_hd by blast
    with Nil Cons show ?thesis by simp
  qed (use Nil in simp)
next
  case (Cons c s)
  show ?case
  proof (cases s')
    case Nil
    then show ?thesis using Cons.prems escape_char_hd [of c] by auto
  next
    case (Cons d u)
    from Cons.prems have "escape_char c @ (concat (map escape_char s) @ 34 # r) = escape_char d @ (concat (map escape_char u) @ 34 # r')"
      by (simp add: Cons)
    from escape_char_unique [OF this] Cons.IH show ?thesis by (simp add: Cons)
  qed
qed

lemma encode_str_unique: "encode_str s @ r = encode_str s' @ r' \<Longrightarrow> s = s' \<and> r = r'"
proof -
  assume "encode_str s @ r = encode_str s' @ r'"
  then have "concat (map escape_char s) @ 34 # r = concat (map escape_char s') @ 34 # r'"
    by (simp only: encode_str_def append_Cons append_assoc list.inject append_Nil simp_thms)
  then show "s = s' \<and> r = r'" by (rule escaped_unique)
qed

definition head_kind :: "nat \<Rightarrow> nat" where
  "head_kind c = (if c = 110 then 0 else if c = 116 \<or> c = 102 then 1 else if c = 45 \<or> 48 \<le> c \<and> c \<le> 57 then 2
     else if c = 34 then 3 else if c = 91 then 4 else if c = 123 then 5 else 6)"

fun json_kind :: "json \<Rightarrow> nat" where
  "json_kind JNull = 0"
| "json_kind (JBool _) = 1"
| "json_kind (JInt _) = 2"
| "json_kind (JStr _) = 3"
| "json_kind (JArr _) = 4"
| "json_kind (JObj _) = 5"

lemma enc_json_hd: "\<exists>c q. enc_json j = c # q \<and> head_kind c = json_kind j"
proof (cases j)
  case (JInt i)
  obtain c q where "digits (nat i) = c # q" "48 \<le> c" "c \<le> 57" using digits_hd by metis
  then show ?thesis by (auto simp: JInt encode_int_def head_kind_def)
qed (auto simp: head_kind_def encode_str_def)

lemma enc_json_kind: "enc_json j @ r = enc_json j' @ r' \<Longrightarrow> json_kind j = json_kind j'"
  using enc_json_hd [of j] enc_json_hd [of j'] by auto

lemma enc_json_not_close: "enc_json j @ r \<noteq> 93 # r'"
  using enc_json_hd [of j] by (cases j) (auto simp: head_kind_def)

lemma commas_Cons: "xs \<noteq> [] \<Longrightarrow> commas (x # xs) = x @ 44 # commas xs"
  by (cases xs) auto

text \<open>A comma-separated list of uniquely readable items that do not start with the closing bracket.\<close>

lemma commas_unique:
  assumes "commas (map f xs) @ z # r = commas (map f ys) @ z # r'" and "z = 93 \<or> z = 125"
    and "\<And>x y p q. x \<in> set xs \<Longrightarrow> f x @ p = f y @ q \<Longrightarrow> item_end p \<Longrightarrow> item_end q \<Longrightarrow> x = y \<and> p = q"
    and "\<And>x p q. f x @ p \<noteq> z # q"
  shows "xs = ys \<and> r = r'"
  using assms(1,3)
proof (induction xs arbitrary: ys)
  case Nil
  have "ys = []"
  proof (rule ccontr)
    assume "ys \<noteq> []"
    then obtain y us where y: "ys = y # us" by (cases ys) auto
    have "\<exists>p. commas (map f ys) @ z # r' = f y @ p" by (cases us) (auto simp: y)
    then obtain p where "f y @ p = z # r" using Nil.prems(1) by auto
    with assms(4) show False by blast
  qed
  with Nil.prems show ?case by simp
next
  case (Cons x xs)
  obtain y us where y: "ys = y # us"
  proof (cases ys)
    case Nil
    have "\<exists>p. commas (map f (x # xs)) @ z # r = f x @ p" by (cases xs) auto
    then obtain p where "f x @ p = z # r'" using Cons.prems(1) Nil by auto
    with assms(4) show thesis by blast
  qed
  define p where "p = (if xs = [] then z # r else 44 # commas (map f xs) @ z # r)"
  define q where "q = (if us = [] then z # r' else 44 # commas (map f us) @ z # r')"
  have "f x @ p = f y @ q"
    using Cons.prems(1) by (cases "xs = []"; cases "us = []") (auto simp: p_def q_def y commas_Cons)
  moreover have "item_end p" "item_end q" using assms(2) by (auto simp: p_def q_def)
  ultimately have xy: "x = y" "p = q" using Cons.prems(2) [of x p y q] by auto
  show ?case
  proof (cases "xs = [] \<or> us = []")
    case True
    then show ?thesis using xy assms(2) by (auto simp: p_def q_def y split: if_splits)
  next
    case False
    then have "commas (map f xs) @ z # r = commas (map f us) @ z # r'" using xy(2) by (simp add: p_def q_def)
    then have "xs = us \<and> r = r'"
      by (rule Cons.IH) (rule Cons.prems(2), simp_all)
    then show ?thesis by (simp add: xy(1) y)
  qed
qed

lemma enc_json_unique: "enc_json j @ r = enc_json j' @ r' \<Longrightarrow> item_end r \<Longrightarrow> item_end r' \<Longrightarrow> j = j' \<and> r = r'"
proof (induction j arbitrary: j' r r')
  case JNull
  then show ?case using enc_json_kind [OF JNull(1)] by (cases j') auto
next
  case (JBool b)
  then show ?case using enc_json_kind [OF JBool(1)] by (cases j') (auto split: if_splits)
next
  case (JInt i)
  obtain k where j': "j' = JInt k" using enc_json_kind [OF JInt(1)] by (cases j') auto
  then have "encode_int i @ r = encode_int k @ r'" using JInt(1) by simp
  from encode_int_unique [OF this JInt(2,3)] show ?case by (simp add: j')
next
  case (JStr s)
  obtain u where j': "j' = JStr u" using enc_json_kind [OF JStr(1)] by (cases j') auto
  then have "encode_str s @ r = encode_str u @ r'" using JStr(1) by simp
  from encode_str_unique [OF this] show ?case by (simp add: j')
next
  case (JArr xs)
  obtain ys where j': "j' = JArr ys" using enc_json_kind [OF JArr.prems(1)] by (cases j') auto
  have "commas (map enc_json xs) @ 93 # r = commas (map enc_json ys) @ 93 # r'" using JArr.prems(1) by (simp add: j')
  then have "xs = ys \<and> r = r'"
    by (rule commas_unique) (use JArr.IH enc_json_not_close in auto)
  then show ?case by (simp add: j')
next
  case (JObj fs)
  obtain gs where j': "j' = JObj gs" using enc_json_kind [OF JObj.prems(1)] by (cases j') auto
  let ?f = "\<lambda>(k, v). encode_str k @ 58 # enc_json v"
  have "commas (map ?f fs) @ 125 # r = commas (map ?f gs) @ 125 # r'" using JObj.prems(1) by (simp add: j')
  then have "fs = gs \<and> r = r'"
  proof (rule commas_unique)
    fix x y p q
    assume x: "x \<in> set fs" and e: "?f x @ p = ?f y @ q" and d: "item_end p" "item_end q"
    obtain k v k' v' where xy: "x = (k, v)" "y = (k', v')" by (cases x; cases y) auto
    from e have "encode_str k @ 58 # (enc_json v @ p) = encode_str k' @ 58 # (enc_json v' @ q)" by (simp add: xy)
    from encode_str_unique [OF this] have "k = k'" "enc_json v @ p = enc_json v' @ q" by auto
    moreover from JObj.IH [OF x _ this(2) d] have "v = v' \<and> p = q" by (simp add: xy)
    ultimately show "x = y \<and> p = q" by (simp add: xy)
  qed (auto simp: encode_str_def)
  then show ?case by (simp add: j')
qed

section \<open>Sorting does not depend on the order of the fields\<close>

lemma str_le_total: "str_le x y \<or> str_le y x"
  by (induction x y rule: str_le.induct) auto

lemma str_le_antisym: "str_le x y \<Longrightarrow> str_le y x \<Longrightarrow> x = y"
  by (induction x y rule: str_le.induct) (auto elim: str_le.elims)

lemma str_le_trans: "str_le x y \<Longrightarrow> str_le y z \<Longrightarrow> str_le x z"
proof (induction x y arbitrary: z rule: str_le.induct)
  case (3 x xs y ys)
  then show ?case by (cases z) auto
qed auto

lemma insert_field_commute:
  "fst p \<noteq> fst q \<Longrightarrow> insert_field p (insert_field q fs) = insert_field q (insert_field p fs)"
proof (induction fs)
  case Nil
  then show ?case using str_le_total [of "fst p" "fst q"] str_le_antisym [of "fst p" "fst q"] by auto
next
  case (Cons g fs)
  note o = str_le_total [of "fst p" "fst q"] str_le_antisym [of "fst p" "fst q"]
    str_le_trans [of "fst p" "fst q" "fst g"] str_le_trans [of "fst q" "fst p" "fst g"]
  show ?case using Cons o by auto
qed

lemma sort_fields_move:
  "fst p \<notin> fst ` set gs \<Longrightarrow> sort_fields (gs @ p # hs) = insert_field p (sort_fields (gs @ hs))"
  by (induction gs) (auto simp: sort_fields_def insert_field_commute)

lemma sort_fields_perm:
  "mset fs = mset gs \<Longrightarrow> distinct (map fst fs) \<Longrightarrow> sort_fields fs = sort_fields gs"
proof (induction fs arbitrary: gs)
  case (Cons p fs)
  from Cons.prems(1) have "p \<in> set gs" by (metis list.set_intros(1) set_mset_mset)
  then obtain g1 g2 where g: "gs = g1 @ p # g2" by (meson split_list)
  with Cons.prems(1) have m: "mset fs = mset (g1 @ g2)" by simp
  then have "set fs = set (g1 @ g2)" by (metis set_mset_mset)
  then have "fst p \<notin> fst ` set g1" using Cons.prems(2) by auto
  with sort_fields_move [of p g1 g2] Cons.IH [OF m] Cons.prems(2) show ?case
    by (simp add: g sort_fields_def)
qed (simp add: sort_fields_def)

section \<open>Properties\<close>

text \<open>C35: The canonical text identifies the content: two contents have the same canonical text exactly when they
  are equal up to the order of object fields, at every depth; and the order of the fields of an
  object never matters.\<close>

theorem canonical_json_faithful:
  "(canonical_json a = canonical_json b \<longleftrightarrow> sorted_json a = sorted_json b)
    \<and> (mset fs = mset gs \<and> distinct (map fst fs) \<longrightarrow> canonical_json (JObj fs) = canonical_json (JObj gs))"
proof (intro conjI impI iffI)
  assume "canonical_json a = canonical_json b"
  then have "enc_json (sorted_json a) @ [] = enc_json (sorted_json b) @ []" by (simp add: canonical_enc_json)
  from enc_json_unique [OF this] show "sorted_json a = sorted_json b" by simp
next
  assume "sorted_json a = sorted_json b"
  then show "canonical_json a = canonical_json b" by (simp add: canonical_enc_json)
next
  let ?f = "\<lambda>(k, v). (k, canonical_json v)"
  assume p: "mset fs = mset gs \<and> distinct (map fst fs)"
  then have "mset (map ?f fs) = mset (map ?f gs)" by simp
  moreover have "map fst (map ?f fs) = map fst fs" by auto
  then have "distinct (map fst (map ?f fs))" using p by (simp only:)
  ultimately have "sort_fields (map ?f fs) = sort_fields (map ?f gs)" by (rule sort_fields_perm)
  then show "canonical_json (JObj fs) = canonical_json (JObj gs)" by simp
qed

definition ex_fields :: "(pystr \<times> json) list" where
  "ex_fields = [(pystr_of ''b'', JArr [JInt (-1), JStr [34, 10]]), (pystr_of ''a'', JBool True)]"

theorem canonical_json_faithful_witness:
  "canonical_json (JObj ex_fields) = canonical_json (JObj (rev ex_fields))
    \<and> canonical_json (JObj ex_fields) \<noteq> canonical_json (JObj (tl ex_fields))"
proof -
  have "mset ex_fields = mset (rev ex_fields)" "distinct (map fst ex_fields)"
    by (simp, code_simp)
  moreover have "sorted_json (JObj ex_fields) \<noteq> sorted_json (JObj (tl ex_fields))" by code_simp
  ultimately show ?thesis
    using canonical_json_faithful [of "JObj ex_fields" "JObj (tl ex_fields)" ex_fields "rev ex_fields"] by blast
qed

end
