(* ===== verification/Task_Service.thy ===== *)
theory Task_Service
  imports Task_Views Task_Invariants Content_Hash
begin

text \<open>
  The write side of the task domain (\<open>backend/v2/task_service.py\<close>), with the two gates it calls:
  \<open>assert_tool_enabled\<close> (\<open>tool_service.py\<close>) and \<open>snapshot_refs_for_task\<close> (\<open>mcp_service.py\<close>). One
  call is one transaction: \<open>Inl e\<close> is an exception, after which the caller's session rolls back;
  \<open>Inr (out, d')\<close> commits \<open>d'\<close>. The generated \<open>uuid7\<close> identifiers, the clock and SHA-256 are
  arguments.
\<close>

section \<open>Gates\<close>

definition skill_prompt_max_bytes :: nat where "skill_prompt_max_bytes = 65536"

definition validate_initial_message :: "pystr \<Rightarrow> api_error + unit" where
  "validate_initial_message s =
     (if py_strip s = [] then Inl validation_error
      else if utf8_size s > skill_prompt_max_bytes then Inl validation_error
      else Inr ())"

record provider_snapshot =
  sn_catalog :: "raw_id option"
  sn_model :: "pystr option"
  sn_keyver :: "int option"

definition require_provider_snapshot ::
  "provider_snapshot \<Rightarrow> api_error + (uuid option \<times> pystr \<times> int)" where
  "require_provider_snapshot s =
     (case (sn_catalog s, sn_model s, sn_keyver s) of
        (Some (Malformed x), _, _) \<Rightarrow> if x = [] then
            (case (sn_model s, sn_keyver s) of
               (Some m, Some v) \<Rightarrow> Inr (None, m, v) | _ \<Rightarrow> Inl validation_error)
          else Inl validation_error
      | (Some (Uuid c), Some m, Some v) \<Rightarrow> Inr (Some c, m, v)
      | (None, Some m, Some v) \<Rightarrow> Inr (None, m, v)
      | _ \<Rightarrow> Inl validation_error)"

definition assert_tool_enabled :: "string \<Rightarrow> string \<Rightarrow> nat \<Rightarrow> db \<Rightarrow> api_error + unit" where
  "assert_tool_enabled tool version http d =
     (case find (\<lambda>r. tool_name r = tool \<and> tool_version r = version) (tool_catalog d) of
        Some r \<Rightarrow> if tool_enabled r then Inr () else Inl (app_error TOOL_REVOKED http)
      | None \<Rightarrow> Inl (app_error TOOL_REVOKED http))"

definition assert_revision_tools_enabled :: "uuid \<Rightarrow> db \<Rightarrow> api_error + unit" where
  "assert_revision_tools_enabled rv d =
     foldE (\<lambda>(_, tool, version) _. assert_tool_enabled tool version 409 d)
       (filter (\<lambda>(r, _). r = rv) (rev_tools d)) ()"

definition max_mcp_refs_per_task :: nat where "max_mcp_refs_per_task = 3"

fun dedup_ids :: "raw_id list \<Rightarrow> uuid list \<Rightarrow> api_error + uuid list" where
  "dedup_ids [] acc = Inr acc"
| "dedup_ids (r # rs) acc =
     (case r of
        Malformed _ \<Rightarrow> Inl validation_error
      | Uuid u \<Rightarrow> dedup_ids rs (if u \<in> set acc then acc else acc @ [u]))"

fun freeze_refs :: "uuid \<Rightarrow> db \<Rightarrow> uuid list \<Rightarrow> mcp_ref list \<Rightarrow> api_error + mcp_ref list" where
  "freeze_refs me d [] acc = Inr acc"
| "freeze_refs me d (u # us) acc =
     (case find (\<lambda>m. ms_owner m = me \<and> ms_id m = u) (mcp_servers d) of
        None \<Rightarrow> Inl (HttpDetail ''NOT_FOUND'' 404)
      | Some m \<Rightarrow>
          if \<not> ms_enabled m then Inl validation_error
          else freeze_refs me d us
                 (acc @ [\<lparr>mref_server = ms_id m, mref_name = ms_name m, mref_transport = ms_transport m\<rparr>]))"

definition snapshot_refs_for_task ::
  "uuid \<Rightarrow> raw_id list option \<Rightarrow> db \<Rightarrow> api_error + mcp_ref list option" where
  "snapshot_refs_for_task me refs d =
     (case refs of
        None \<Rightarrow> Inr None
      | Some rs \<Rightarrow>
          if rs = [] then Inr None
          else if length rs > max_mcp_refs_per_task then Inl validation_error
          else bindE (dedup_ids rs []) (\<lambda>ids. bindE (freeze_refs me d ids []) (\<lambda>fs. Inr (Some fs))))"

section \<open>Creation\<close>

definition ensure_quota_rows :: "uuid \<Rightarrow> db \<Rightarrow> db" where
  "ensure_quota_rows me d =
     d\<lparr>quotas := (quotas d)(me \<mapsto> (case quotas d me of None \<Rightarrow> default_quota | Some q \<Rightarrow> q)),
       usage := (usage d)(me \<mapsto> (case usage d me of None \<Rightarrow> default_usage | Some q \<Rightarrow> q))\<rparr>"

definition charge_daily :: "uuid \<Rightarrow> int \<Rightarrow> db \<Rightarrow> api_error + db" where
  "charge_daily me today d =
     (let mx = (case quotas d me of None \<Rightarrow> 0 | Some q \<Rightarrow> q_daily q)
      in if 0 < mx then
           (case daily d (me, today) of
              None \<Rightarrow> Inr (d\<lparr>daily := (daily d)((me, today) \<mapsto> 1)\<rparr>)
            | Some n \<Rightarrow>
                if n < mx then Inr (d\<lparr>daily := (daily d)((me, today) \<mapsto> n + 1)\<rparr>)
                else Inl (app_error QUOTA_DAILY_EXCEEDED 429))
         else Inl (app_error QUOTA_DAILY_EXCEEDED 429))"

definition charge_active :: "uuid \<Rightarrow> db \<Rightarrow> api_error + db" where
  "charge_active me d =
     (case (usage d me, quotas d me) of
        (Some u, Some q) \<Rightarrow>
          if u_active u < q_active q
          then Inr (d\<lparr>usage := (usage d)(me \<mapsto> u\<lparr>u_active := u_active u + 1\<rparr>)\<rparr>)
          else Inl (app_error QUOTA_ACTIVE_EXCEEDED 429)
      | _ \<Rightarrow> Inl (app_error QUOTA_ACTIVE_EXCEEDED 429))"

definition charge_creation_quota :: "uuid \<Rightarrow> int \<Rightarrow> db \<Rightarrow> api_error + db" where
  "charge_creation_quota me today d =
     bindE (charge_daily me today (ensure_quota_rows me d)) (charge_active me)"

record create_req =
  cr_revision :: raw_id
  cr_provider :: raw_id
  cr_message :: pystr
  cr_snapshot :: provider_snapshot
  cr_refs :: "raw_id list option"

definition new_task ::
  "uuid \<Rightarrow> uuid \<Rightarrow> uuid \<Rightarrow> uuid \<Rightarrow> uuid option \<times> pystr \<times> int \<Rightarrow> mcp_ref list option \<Rightarrow> time \<Rightarrow> task_row" where
  "new_task tid me rv prov snap refs now =
     \<lparr>t_id = tid, t_owner = me, t_revision = rv, t_provider = prov, t_catalog = fst snap,
      t_model = fst (snd snap), t_keyver = snd (snd snap), t_mcp = refs, t_initial = None,
      t_status = Uploading, t_manifest = None, t_committed = None, t_eseq = 0, t_abort = None,
      t_pending = None, t_created = now\<rparr>"

definition published :: "uuid \<Rightarrow> db \<Rightarrow> bool" where
  "published rv d \<longleftrightarrow> list_ex (\<lambda>r. rev_id r = rv \<and> rev_published r) (revisions d)"

text \<open>\<open>create_task\<close>: \<open>tid\<close> and \<open>mid\<close> are the two identifiers it generates.\<close>

definition create_task ::
  "uuid \<Rightarrow> create_req \<Rightarrow> uuid \<Rightarrow> uuid \<Rightarrow> time \<Rightarrow> int \<Rightarrow> db \<Rightarrow>
     api_error + (task_view \<times> uuid \<times> nat) \<times> db" where
  "create_task me req tid mid now today d =
     bindE (parse_id (cr_revision req)) (\<lambda>rv.
     bindE (parse_id (cr_provider req)) (\<lambda>prov.
     bindE (require_provider_snapshot (cr_snapshot req)) (\<lambda>snap.
     bindE (validate_initial_message (cr_message req)) (\<lambda>_.
     if \<not> published rv d then Inl (app_error REVISION_NOT_PUBLISHED 400)
     else
     bindE (snapshot_refs_for_task me (cr_refs req) d) (\<lambda>refs.
     bindE (charge_creation_quota me today d) (\<lambda>d1.
     bindE (assert_revision_tools_enabled rv d1) (\<lambda>_.
     bindE (insert_task (new_task tid me rv prov snap refs now) d1) (\<lambda>d2.
     bindE (alloc_seq me tid 1 d2) (\<lambda>(seq, d3).
     let d4 = add_message mid tid me seq User (cr_message req) d3;
         d5 = add_event tid me seq EMessageSaved (PMessage mid seq User) (Some mid) None d4;
         d6 = upd_tasks me (\<lambda>t. t_id t = tid) (\<lambda>t. t\<lparr>t_initial := Some mid\<rparr>) d5
     in bindE (insert_resv (new_resv tid me KActive None 0) d6) (\<lambda>d7.
     bindE (load_task_view me tid d7) (\<lambda>v. Inr ((v, mid, seq), d7))))))))))))"

section \<open>Input freeze\<close>

definition committed_bytes :: "uuid \<Rightarrow> uuid \<Rightarrow> db \<Rightarrow> nat" where
  "committed_bytes me tid d =
     sumof (\<lambda>f. f_owner f = me \<and> f_task f = tid \<and> f_dir f = Input \<and> f_state f = Committed) f_size (files d)"

definition charge_storage :: "uuid \<Rightarrow> nat \<Rightarrow> db \<Rightarrow> api_error + db" where
  "charge_storage me n d =
     (case (usage d me, quotas d me) of
        (Some u, Some q) \<Rightarrow>
          if u_storage u + n \<le> q_storage q then
            (let d1 = d\<lparr>usage := (usage d)(me \<mapsto> u\<lparr>u_storage := u_storage u + n\<rparr>)\<rparr>
             in if pl_used d1 + n \<le> pl_max d1 then Inr (d1\<lparr>pl_used := pl_used d1 + n\<rparr>)
                else Inl (app_error QUOTA_STORAGE_EXCEEDED 429))
          else Inl (app_error QUOTA_STORAGE_EXCEEDED 429)
      | _ \<Rightarrow> Inl (app_error QUOTA_STORAGE_EXCEEDED 429))"

text \<open>The guarded status flip \<open>UPDATE tasks SET .. WHERE id = .. AND status = ..\<close>; no row is a 409.\<close>

definition flip_task ::
  "uuid \<Rightarrow> uuid \<Rightarrow> status \<Rightarrow> (task_row \<Rightarrow> task_row) \<Rightarrow> db \<Rightarrow> api_error + db" where
  "flip_task me tid old f d =
     (if n_tasks me (\<lambda>t. t_id t = tid \<and> t_status t = old) d = 0
      then Inl (app_error TASK_INVALID_TRANSITION 409)
      else Inr (upd_tasks me (\<lambda>t. t_id t = tid \<and> t_status t = old) f d))"

definition commit_gate :: "task_row \<Rightarrow> api_error + unit" where
  "commit_gate t =
     (if t_status t \<noteq> Uploading then
        if t_committed t \<noteq> None \<or> t_status t \<in> {Queued, Running, Ready}
        then Inl (app_error INPUT_COMMITTED 409)
        else assert_transition (t_status t) Queued
      else Inr ())"

text \<open>\<open>commit_input\<close>: output \<open>(task, manifest_sha256, round_id, event_sequence)\<close>.\<close>

definition commit_input ::
  "(pystr \<Rightarrow> string) \<Rightarrow> uuid \<Rightarrow> raw_id \<Rightarrow> json list \<Rightarrow> uuid \<Rightarrow> time \<Rightarrow> db \<Rightarrow>
     api_error + (task_view \<times> string \<times> uuid \<times> nat) \<times> db" where
  "commit_input sha256 me task_id manifest rid now d =
     bindE (lock_task me task_id d) (\<lambda>t.
     bindE (commit_gate t) (\<lambda>_.
     let tid = t_id t;
         h = sha256 (canonical_json (JArr manifest));
         d1 = upd_tasks me (\<lambda>x. t_id x = tid) (\<lambda>x. x\<lparr>t_manifest := Some h, t_committed := Some now\<rparr>) d;
         d2 = upd_files me (\<lambda>f. f_task f = tid \<and> f_state f = Staged) (\<lambda>f. f\<lparr>f_state := Committed\<rparr>) d1;
         total = committed_bytes me tid d2
     in bindE (insert_resv (new_resv tid me KTaskRoot None total) d2) (\<lambda>d3.
     bindE (charge_storage me total d3) (\<lambda>d4.
     case t_initial t of
       None \<Rightarrow> Inl (app_error TASK_INVALID_TRANSITION 409)
     | Some src \<Rightarrow>
     bindE (insert_round (new_round rid tid me src now) d4) (\<lambda>d5.
     bindE (assert_transition Uploading Queued) (\<lambda>_.
     bindE (flip_task me tid Uploading (\<lambda>x. x\<lparr>t_status := Queued\<rparr>) d5) (\<lambda>d6.
     bindE (alloc_seq me tid 2 d6) (\<lambda>(seq, d7).
     let d8 = add_event tid me seq EStatusChanged (PStatus Queued None) None None d7;
         d9 = add_event tid me (seq + 1) ERoundQueued (PRound rid) None (Some rid) d8
     in bindE (load_task_view me tid d9) (\<lambda>v. Inr ((v, h, rid, seq + 1), d9))))))))))"

section \<open>Terminal intents\<close>

text \<open>The answer of \<open>abort\<close>/\<open>complete\<close>: the view, and whether the 202 body with
  \<open>round: cancelling\<close> is sent.\<close>

definition request_terminal_while_running ::
  "uuid \<Rightarrow> uuid \<Rightarrow> status \<Rightarrow> db \<Rightarrow> api_error + (task_view \<times> bool) \<times> db" where
  "request_terminal_while_running me tid terminal d =
     (let hit = (\<lambda>r. r_task r = tid \<and> active_state (r_state r))
      in if sel_rounds me hit d = [] then bindE (load_task_view me tid d) (\<lambda>v. Inr ((v, False), d))
         else
           (let d1 = upd_rounds me hit (\<lambda>r. r\<lparr>r_state := RCancelling\<rparr>) d;
                run = (\<lambda>t. t_id t = tid \<and> t_status t = Running)
            in if n_tasks me run d1 = 0 then bindE (load_task_view me tid d1) (\<lambda>v. Inr ((v, False), d1))
               else
                 (let d2 = upd_tasks me run (\<lambda>t. t\<lparr>t_pending := Some terminal\<rparr>) d1
                  in bindE (load_task_view me tid d2) (\<lambda>v. Inr ((v, True), d2)))))"

definition cancel_pending :: "uuid \<Rightarrow> uuid \<Rightarrow> db \<Rightarrow> nat \<times> db" where
  "cancel_pending me tid d =
     (let hit = (\<lambda>r. r_task r = tid \<and> r_state r = RPending)
      in (length (sel_rounds me hit d), upd_rounds me hit (\<lambda>r. r\<lparr>r_state := RCancelled\<rparr>) d))"

definition terminalize_queued ::
  "uuid \<Rightarrow> uuid \<Rightarrow> status \<Rightarrow> abort_reason option \<Rightarrow> db \<Rightarrow> api_error + (task_view \<times> bool) \<times> db" where
  "terminalize_queued me tid terminal reason d =
     (let (cancelled, d1) = cancel_pending me tid d
      in bindE (assert_transition Queued terminal) (\<lambda>_.
      bindE (flip_task me tid Queued (\<lambda>t. t\<lparr>t_status := terminal, t_abort := reason\<rparr>) d1) (\<lambda>d2.
      bindE (alloc_seq me tid (1 + (if cancelled \<noteq> 0 then 1 else 0)) d2) (\<lambda>(seq, d3).
      let d4 = add_event tid me seq EStatusChanged (PStatus terminal reason) None None d3;
          d5 = (if cancelled \<noteq> 0
                then add_event tid me (seq + 1) ERoundCancelled (PReason reason) None None d4 else d4);
          d6 = release_task_holdings me tid d5
      in bindE (load_task_view me tid d6) (\<lambda>v. Inr ((v, False), d6))))))"

definition finalize_terminal ::
  "uuid \<Rightarrow> task_row \<Rightarrow> status \<Rightarrow> abort_reason option \<Rightarrow> db \<Rightarrow> api_error + (task_view \<times> bool) \<times> db" where
  "finalize_terminal me t terminal reason d =
     (let tid = t_id t
      in bindE (assert_transition (t_status t) terminal) (\<lambda>_.
      bindE (flip_task me tid (t_status t) (\<lambda>t. t\<lparr>t_status := terminal, t_abort := reason\<rparr>) d) (\<lambda>d1.
      bindE (alloc_seq me tid 1 d1) (\<lambda>(seq, d2).
      let d3 = add_event tid me seq EStatusChanged (PStatus terminal reason) None None d2;
          d4 = release_task_holdings me tid d3
      in bindE (load_task_view me tid d4) (\<lambda>v. Inr ((v, False), d4))))))"

definition terminate_with ::
  "status \<Rightarrow> abort_reason option \<Rightarrow> uuid \<Rightarrow> raw_id \<Rightarrow> db \<Rightarrow> api_error + (task_view \<times> bool) \<times> db" where
  "terminate_with terminal reason me task_id d =
     bindE (lock_task me task_id d) (\<lambda>t.
     if t_status t = Running then request_terminal_while_running me (t_id t) terminal d
     else if t_status t = Queued then terminalize_queued me (t_id t) terminal reason d
     else finalize_terminal me t terminal reason d)"

definition abort_task :: "uuid \<Rightarrow> raw_id \<Rightarrow> db \<Rightarrow> api_error + (task_view \<times> bool) \<times> db" where
  "abort_task = terminate_with Aborted (Some UserCancel)"

definition complete_task :: "uuid \<Rightarrow> raw_id \<Rightarrow> db \<Rightarrow> api_error + (task_view \<times> bool) \<times> db" where
  "complete_task = terminate_with Completed None"

text \<open>The branch of \<open>delete_task\<close> on the live status, before the flip: the running round is told
  to stop, a pending round is cancelled at once (the flag says whether one was).\<close>

definition pre_delete :: "uuid \<Rightarrow> uuid \<Rightarrow> status \<Rightarrow> db \<Rightarrow> bool \<times> db" where
  "pre_delete me tid s d =
     (if s = Running then
        (False, upd_tasks me (\<lambda>x. t_id x = tid \<and> t_status x = Running)
                  (\<lambda>x. x\<lparr>t_pending := Some Deleted\<rparr>)
                  (upd_rounds me (\<lambda>r. r_task r = tid \<and> active_state (r_state r))
                    (\<lambda>r. r\<lparr>r_state := RCancelling\<rparr>) d))
      else if s = Queued then (let (n, d') = cancel_pending me tid d in (n \<noteq> 0, d'))
      else (False, d))"

definition delete_task :: "uuid \<Rightarrow> raw_id \<Rightarrow> db \<Rightarrow> api_error + uuid \<times> db" where
  "delete_task me task_id d =
     bindE (lock_task me task_id d) (\<lambda>t.
     let tid = t_id t
     in bindE (assert_transition (t_status t) Deleted) (\<lambda>_.
     let (cancelled, d1) = pre_delete me tid (t_status t) d
     in bindE (flip_task me tid (t_status t) (\<lambda>x. x\<lparr>t_status := Deleted\<rparr>) d1) (\<lambda>d2.
     bindE (alloc_seq me tid (1 + (if cancelled then 1 else 0)) d2) (\<lambda>(seq, d3).
     let d4 = add_event tid me seq EStatusChanged (PStatus Deleted None) None None d3;
         d5 = (if cancelled
               then add_event tid me (seq + 1) ERoundCancelled (PReason None) None None d4 else d4);
         d6 = release_task_holdings me tid d5
     in Inr (tid, d6)))))"

section \<open>Messages\<close>

definition round_busy :: api_error where
  "round_busy = AppError TASK_ROUND_BUSY 429 [(''Retry-After'', ''5'')]"

definition map_round_conflict :: "api_error + 'a \<Rightarrow> api_error + 'a" where
  "map_round_conflict r =
     (case r of Inl e \<Rightarrow>
        if e = IntegrityError ''one_active_round_per_task'' then Inl round_busy else Inl e
      | Inr x \<Rightarrow> Inr x)"

text \<open>\<open>send_message\<close>: output \<open>(message id, its sequence, last sequence, round id)\<close> and the three
  frames published after commit.\<close>

definition send_message ::
  "uuid \<Rightarrow> raw_id \<Rightarrow> pystr \<Rightarrow> uuid \<Rightarrow> uuid \<Rightarrow> time \<Rightarrow> db \<Rightarrow>
     api_error + ((uuid \<times> nat \<times> nat \<times> uuid) \<times> frame list) \<times> db" where
  "send_message me task_id content mid rid now d =
     bindE (lock_task me task_id d) (\<lambda>t.
     let tid = t_id t
     in if sel_rounds me (\<lambda>r. r_task r = tid \<and> active_state (r_state r)) d \<noteq> [] then Inl round_busy
        else if t_status t \<noteq> Ready then Inl (app_error TASK_INVALID_TRANSITION 409)
        else
     bindE (validate_initial_message content) (\<lambda>_.
     bindE (alloc_seq me tid 1 d) (\<lambda>(seq_m, d1).
     let d2 = add_message mid tid me seq_m User content d1;
         d3 = add_event tid me seq_m EMessageSaved (PMessage mid seq_m User) (Some mid) None d2
     in bindE (assert_transition Ready Queued) (\<lambda>_.
     bindE (flip_task me tid Ready (\<lambda>x. x\<lparr>t_status := Queued\<rparr>) d3) (\<lambda>d4.
     bindE (alloc_seq me tid 2 d4) (\<lambda>(seq_r, d5).
     let d6 = add_event tid me seq_r EStatusChanged (PStatus Queued None) None None d5
     in bindE (map_round_conflict (insert_round (new_round rid tid me mid now) d6)) (\<lambda>d7.
     let d8 = add_event tid me (seq_r + 1) ERoundQueued (PRound rid) None (Some rid) d7
     in Inr (((mid, seq_m, seq_r + 1, rid),
              [FMessage (Some mid) (Some seq_m) (Some User), status_frame seq_r Queued None,
               queued_frame (seq_r + 1) rid]), d8))))))))"

section \<open>The operations keep the invariant\<close>

lemma sel_rounds_of:
  "(\<And>r. P r \<Longrightarrow> r_task r = tid) \<Longrightarrow>
   sel_rounds me P d = filter (\<lambda>r. r_owner r = me \<and> P r) (rounds_of d tid)"
  unfolding sel_rounds_def rounds_of_def by (induction "rounds d") (auto intro: filter_cong)

lemma n_tasks_pos:
  assumes "find_task me tid d = Some t" and "P t"
  shows "n_tasks me (\<lambda>x. t_id x = tid \<and> P x) d \<noteq> 0"
  using find_task_Some_D [OF assms(1)] assms(2) by (auto simp: n_tasks_def rowcount_0_iff)

lemma flip_task_Inr:
  assumes "find_task me tid d = Some t" and "t_status t = old"
  shows "flip_task me tid old f d = Inr (upd_tasks me (\<lambda>t. t_id t = tid \<and> t_status t = old) f d)"
  using n_tasks_pos [OF assms(1), of "\<lambda>t. t_status t = old"] assms(2) by (simp add: flip_task_def)

text \<open>Under the invariant the active rounds of a task are determined by its status.\<close>

lemma act_of_mem: "r \<in> set (act_of d i) \<longleftrightarrow> r \<in> set (rounds_of d i) \<and> active_state (r_state r)"
  by (simp add: act_of_rounds_of)

lemma rounds_of_task: "r \<in> set (rounds_of d i) \<Longrightarrow> r_task r = i"
  by (simp add: rounds_of_def)

lemma queued_round:
  assumes "good d" and "task_at d i = Some t" and "t_status t = Queued"
  obtains r where "act_of d i = [r]" "r_state r = RPending" "r_owner r = t_owner t" "r_task r = i"
    "r \<in> set (rounds_of d i)"
proof -
  have "map r_state (act_of d i) = [RPending]"
    using good_task(2) [OF assms(1,2)] assms(3) by simp
  then obtain r where r: "act_of d i = [r]" "r_state r = RPending"
    by (cases "act_of d i") auto
  then have "r \<in> set (rounds_of d i)" using act_of_mem [of r d i] by simp
  then show thesis using that r good_task(1) [OF assms(1,2)] rounds_of_task by (auto simp: owned_def)
qed

lemma running_rounds:
  assumes "good d" and "task_at d i = Some t" and "t_status t = Running"
  obtains (one) r where "act_of d i = [r]" "r_state r = RRunning \<or> r_state r = RCancelling"
      "r_owner r = t_owner t" "r_task r = i" "r \<in> set (rounds_of d i)" "held_task d i KRunning = 1"
  | (none) "act_of d i = []" "t_pending t \<noteq> None" "held_task d i KRunning = 0"
proof (cases "act_of d i")
  case Nil
  then show thesis using that(2) good_task(2) [OF assms(1,2)] assms(3) by auto
next
  case (Cons r rs)
  then have r: "act_of d i = [r]" "r_state r = RRunning \<or> r_state r = RCancelling"
      "held_task d i KRunning = 1"
    using good_task(2) [OF assms(1,2)] assms(3) by auto
  then have "r \<in> set (rounds_of d i)" using act_of_mem [of r d i] by simp
  then show thesis using that(1) r good_task(1) [OF assms(1,2)] rounds_of_task by (auto simp: owned_def)
qed

lemma lock_task_good:
  assumes "good d" and "lock_task me task_id d = Inr t"
  shows "task_id = Uuid (t_id t)" "task_at d (t_id t) = Some t" "t_owner t = me" "t_status t \<noteq> Deleted"
    "find_task me (t_id t) d = Some t" "slice_ok d me (t_id t) t"
proof -
  show l: "task_id = Uuid (t_id t)" "t_owner t = me" "t_status t \<noteq> Deleted" "find_task me (t_id t) d = Some t"
    using lock_task_Inr_D [OF assms(2)] lock_task_Inr_find [OF assms(2)] by auto
  then show a: "task_at d (t_id t) = Some t" using find_task_task_at assms(1) by (auto simp: good_def)
  show "slice_ok d me (t_id t) t" by (rule good_slice_ok [OF assms(1) a l(2)])
qed

text \<open>A batch that starts with a status change of the new status.\<close>

lemma log_ok_flip:
  assumes "log_ok t l m" and "map e_seq es = [Suc (t_eseq t) ..< Suc (t_eseq t + n)]" and "n = length es"
    and "t_eseq t1 = t_eseq t + n" and "es = e # es'" and "e_payload e = PStatus (t_status t1) x"
    and "\<forall>e\<in>set es. e_type e \<noteq> EMessageSaved" and "\<forall>e\<in>set es'. pl_status (e_payload e) = None"
  shows "log_ok t1 (l @ es) m"
proof -
  have "replay_status (t_status t1) es' = t_status t1" using assms(8)
  proof (induction es')
    case (Cons a es')
    then show ?case by (cases "e_payload a") auto
  qed simp
  then have r: "replay_status s es = t_status t1" for s using assms(5,6) by simp
  have "filter (\<lambda>e. e_type e = EMessageSaved) es = []" using assms(7) by simp
  then show ?thesis
    using log_ok_append [OF assms(1-4), of "[]"] assms(5) r by simp
qed

lemma finalize_terminal_ok:
  assumes "good d" and "task_at d (t_id t) = Some t" and "t_owner t = me" and "t_status t = Ready"
    and "terminal \<in> {Completed, Aborted}" and "finalize_terminal me t terminal reason d = Inr (out, d')"
  shows "ok_step me (t_id t) d d'"
proof -
  let ?i = "t_id t"
  have ft: "find_task me ?i d = Some t"
    using find_task_task_at assms(1-3) by (auto simp: good_def)
  define d3 where "d3 = add_event ?i me (t_eseq t + 1) EStatusChanged (PStatus terminal reason) None None
     (upd_tasks me (\<lambda>x. t_id x = ?i) (\<lambda>x. x\<lparr>t_eseq := t_eseq x + 1\<rparr>)
       (upd_tasks me (\<lambda>x. t_id x = ?i \<and> t_status x = Ready) (\<lambda>x. x\<lparr>t_status := terminal, t_abort := reason\<rparr>) d))"
  define t1 where "t1 = t\<lparr>t_status := terminal, t_abort := reason, t_eseq := t_eseq t + 1\<rparr>"
  have d': "d' = release_task_holdings me ?i d3"
    using assms(4,6) ft flip_task_Inr [OF ft]
    by (auto simp: finalize_terminal_def Let_def alloc_seq_Inr_iff d3_def)
  note g = good_task [OF assms(1,2)]
  have "ok_step me ?i d (release_task_holdings me ?i d3)"
  proof (rule release_ok [OF assms(1) _ assms(2), where ?t1.0 = t1])
    show "touches me ?i d d3" unfolding d3_def by (intro touches_intros) auto
    show "slice_ok d3 me ?i t1"
      using good_slice_ok [OF assms(1,2,3)] assms(2,3,4)
      by (auto simp: slice_ok_def d3_def t1_def intro!: log_ok_flip)
  qed (use g(2) assms(3,4,5) in \<open>auto simp: d3_def t1_def evolves_def allowed_flip_def\<close>)
  then show ?thesis by (simp add: d')
qed


lemma act_of_cancel:
  assumes "act_of d i = [r]" and "r_owner r = me" and "\<And>x. P x \<Longrightarrow> active_state (r_state x)" and "P r"
    and "\<And>x. r_task (f x) = r_task x"
  shows "act_of (upd_rounds me P f d) i = (if active_state (r_state (f r)) then [f r] else [])"
proof -
  have "act_of (upd_rounds me P f d) i =
     filter (\<lambda>r. active_state (r_state r)) (upd (\<lambda>r. r_owner r = me \<and> P r) f (act_of d i))"
    by (rule act_of_upd_rounds) (use assms in auto)
  then show ?thesis using assms(1,2,4) by simp
qed

lemma round_ok_cancel [simp]:
  "round_ok r \<Longrightarrow> round_ok (r\<lparr>r_state := RCancelled\<rparr>)"
  "round_ok r \<Longrightarrow> round_ok (r\<lparr>r_state := RCancelling\<rparr>)"
  "round_ok r \<Longrightarrow> round_ok (r\<lparr>r_state := RCancelled, r_lease_owner := None, r_expires := None\<rparr>)"
  by (simp_all add: round_ok_def)

lemma terminalize_queued_ok:
  assumes "good d" and "task_at d i = Some t" and "t_owner t = me" and "t_status t = Queued"
    and "terminal \<in> {Completed, Aborted}" and "terminalize_queued me i terminal reason d = Inr (out, d')"
  shows "ok_step me i d d'"
proof -
  have ft: "find_task me i d = Some t"
    using find_task_task_at assms(1-3) by (auto simp: good_def)
  have ti: "t_id t = i" using task_at_D [OF assms(2)] by simp
  obtain r where r: "act_of d i = [r]" "r_state r = RPending" "r_owner r = me" "r_task r = i" "r \<in> set (rounds_of d i)"
    using queued_round [OF assms(1,2,4)] assms(3) by metis
  have sel: "sel_rounds me (\<lambda>r. r_task r = i \<and> r_state r = RPending) d \<noteq> []"
    using r(2-5) sel_rounds_of [of "\<lambda>r. r_task r = i \<and> r_state r = RPending" i me d]
    by (auto simp: filter_empty_conv)
  let ?d1 = "upd_rounds me (\<lambda>r. r_task r = i \<and> r_state r = RPending) (\<lambda>r. r\<lparr>r_state := RCancelled\<rparr>) d"
  have ft1: "find_task me i ?d1 = Some t" using ft by simp
  define d5 where "d5 = add_event i me (t_eseq t + 2) ERoundCancelled (PReason reason) None None
     (add_event i me (t_eseq t + 1) EStatusChanged (PStatus terminal reason) None None
     (upd_tasks me (\<lambda>x. t_id x = i) (\<lambda>x. x\<lparr>t_eseq := t_eseq x + 2\<rparr>)
       (upd_tasks me (\<lambda>x. t_id x = i \<and> t_status x = Queued) (\<lambda>x. x\<lparr>t_status := terminal, t_abort := reason\<rparr>) ?d1)))"
  define t1 where "t1 = t\<lparr>t_status := terminal, t_abort := reason, t_eseq := t_eseq t + 2\<rparr>"
  have d': "d' = release_task_holdings me i d5"
    using assms(4,6) ft1 flip_task_Inr [OF ft1 assms(4)] sel ti
    by (auto simp: terminalize_queued_def cancel_pending_def Let_def alloc_seq_Inr_iff d5_def)
  note g = good_task [OF assms(1,2)]
  have act: "act_of ?d1 i = []"
    using act_of_cancel [OF r(1,3), of "\<lambda>r. r_task r = i \<and> r_state r = RPending"
        "\<lambda>r. r\<lparr>r_state := RCancelled\<rparr>"] r(2-5) by simp
  have "ok_step me i d (release_task_holdings me i d5)"
  proof (rule release_ok [OF assms(1) _ assms(2), where ?t1.0 = t1])
    show "touches me i d d5" unfolding d5_def by (intro touches_intros touches_upd_rounds) auto
    show "slice_ok d5 me i t1"
      using good_slice_ok [OF assms(1,2,3)] assms(2,3,4) ti
      by (auto simp: slice_ok_def d5_def t1_def intro!: log_ok_flip)
  qed (use g(2) assms(3,4,5) act in \<open>auto simp: d5_def t1_def evolves_def allowed_flip_def\<close>)
  then show ?thesis by (simp add: d')
qed

lemma request_terminal_ok:
  assumes "good d" and "task_at d i = Some t" and "t_owner t = me" and "t_status t = Running"
    and "terminal \<in> {Completed, Aborted}"
    and "request_terminal_while_running me i terminal d = Inr (out, d')"
  shows "ok_step me i d d'"
proof -
  have ti: "t_id t = i" using task_at_D [OF assms(2)] by simp
  have ft: "find_task me i d = Some t"
    using find_task_task_at assms(1-3) by (auto simp: good_def)
  let ?hit = "\<lambda>r. r_task r = i \<and> active_state (r_state r)"
  have sel: "sel_rounds me ?hit d = filter (\<lambda>r. r_owner r = me) (act_of d i)"
    using sel_rounds_of [of ?hit i me d]
    by (auto simp: act_of_rounds_of conj_commute rounds_of_task intro!: filter_cong)
  show ?thesis
    using assms(1,2,4)
  proof (cases rule: running_rounds)
    case none
    then show ?thesis
      using assms(1,6) sel by (auto simp: request_terminal_while_running_def Let_def ok_step_refl)
  next
    case (one r)
    let ?d1 = "upd_rounds me ?hit (\<lambda>r. r\<lparr>r_state := RCancelling\<rparr>) d"
    have n: "n_tasks me (\<lambda>x. t_id x = i \<and> t_status x = Running) ?d1 \<noteq> 0"
      using n_tasks_pos [of me i ?d1 t] ft assms(4) by simp
    define t1 where "t1 = t\<lparr>t_pending := Some terminal\<rparr>"
    have d': "d' = upd_tasks me (\<lambda>x. t_id x = i \<and> t_status x = Running) (\<lambda>x. x\<lparr>t_pending := Some terminal\<rparr>) ?d1"
      using assms(3,6) sel one n by (auto simp: request_terminal_while_running_def Let_def)
    have act: "act_of ?d1 i = [r\<lparr>r_state := RCancelling\<rparr>]"
      using act_of_cancel [OF one(1), of me ?hit] one(2-5) assms(3) by auto
    have "ok_step me i d d'"
    proof (rule plain_ok [OF assms(1) _ assms(2), where ?t1.0 = t1 and es = "[]"])
      show "touches me i d d'" unfolding d' by (intro touches_intros touches_upd_rounds) auto
      show "slice_ok d' me i t1"
        using good_slice_ok [OF assms(1,2,3)] assms(2,3,4) ti
        by (auto simp: slice_ok_def d' t1_def log_ok_def)
    qed (use good_task(2) [OF assms(1,2)] assms(2,3,4,5) act one
        in \<open>auto simp: d' t1_def evolves_def allowed_flip_def\<close>)
    then show ?thesis .
  qed
qed

lemma terminate_with_ok:
  assumes "good d" and "terminal \<in> {Completed, Aborted}"
    and "terminate_with terminal reason me task_id d = Inr (out, d')"
  shows "\<exists>i. task_id = Uuid i \<and> ok_step me i d d'"
proof -
  obtain t where l: "lock_task me task_id d = Inr t"
    using assms(3) by (auto simp: terminate_with_def)
  note lt = lock_task_good [OF assms(1) l]
  have "ok_step me (t_id t) d d'"
  proof (cases "t_status t")
    case Running
    then show ?thesis
      using assms l request_terminal_ok [OF assms(1) lt(2,3)] by (auto simp: terminate_with_def)
  next
    case Queued
    then show ?thesis
      using assms l terminalize_queued_ok [OF assms(1) lt(2,3)] by (auto simp: terminate_with_def)
  next
    case Ready
    then show ?thesis
      using assms l finalize_terminal_ok [OF assms(1) lt(2,3)] by (auto simp: terminate_with_def)
  qed (use assms(2,3) l lt(4) in \<open>auto simp: terminate_with_def finalize_terminal_def Let_def\<close>)
  then show ?thesis using lt(1) by blast
qed


lemma slice_ok_cancelling:
  assumes "slice_ok d me i t" and "\<And>r. r_owner (f r) = r_owner r \<and> r_task (f r) = r_task r"
    and "\<And>r. round_ok r \<Longrightarrow> round_ok (f r)"
  shows "slice_ok (upd_rounds me P f d) me i t"
  using assms by (auto simp: slice_ok_def)

lemma pre_delete_facts:
  assumes "good d" and "task_at d i = Some t" and "t_owner t = me" and "t_status t \<noteq> Deleted"
    and "pre_delete me i (t_status t) d = (c, d1)"
  shows "touches me i d d1 \<and> resvs d1 = resvs d \<and> usage d1 = usage d \<and> slots d1 = slots d
     \<and> pl_used d1 = pl_used d \<and> quotas d1 = quotas d
     \<and> (\<exists>p. p \<in> {None, Some Deleted} \<and> slice_ok d1 me i (t\<lparr>t_pending := p\<rparr>))
     \<and> map r_state (act_of d1 i) \<in> {[], [RCancelling]} \<and> log_of d1 i = log_of d i"
proof -
  have ti: "t_id t = i" using task_at_D [OF assms(2)] by simp
  note s = good_slice_ok [OF assms(1,2,3)] and g = good_task(2) [OF assms(1,2)]
  consider "t_status t = Running" | "t_status t = Queued"
    | "t_status t \<noteq> Running" "t_status t \<noteq> Queued" by blast
  then show ?thesis
  proof cases
    case 1
    let ?hit = "\<lambda>r. r_task r = i \<and> active_state (r_state r)"
    let ?d1 = "upd_rounds me ?hit (\<lambda>r. r\<lparr>r_state := RCancelling\<rparr>) d"
    have d1: "d1 = upd_tasks me (\<lambda>x. t_id x = i \<and> t_status x = Running)
        (\<lambda>x. x\<lparr>t_pending := Some Deleted\<rparr>) ?d1"
      using assms(5) 1 by (simp add: pre_delete_def)
    have "touches me i d d1" unfolding d1 by (intro touches_intros touches_upd_rounds) auto
    moreover have "map r_state (act_of ?d1 i) \<in> {[], [RCancelling]}"
      using assms(1,2) 1
    proof (cases rule: running_rounds)
      case (one r)
      then show ?thesis
        using act_of_cancel [OF one(1), of me ?hit "\<lambda>r. r\<lparr>r_state := RCancelling\<rparr>"] one(2-5) assms(3) by auto
    next
      case none
      have "act_of ?d1 i = []"
        by (subst act_of_upd_rounds) (use none in auto)
      then show ?thesis by simp
    qed
    moreover have "slice_ok d1 me i (t\<lparr>t_pending := Some Deleted\<rparr>)"
      using slice_ok_cancelling [OF s, of "\<lambda>r. r\<lparr>r_state := RCancelling\<rparr>" ?hit] 1 ti assms(3)
      by (auto simp: slice_ok_def d1 log_ok_def)
    ultimately show ?thesis by (auto simp: d1)
  next
    case 2
    let ?hit = "\<lambda>r. r_task r = i \<and> r_state r = RPending"
    have d1: "d1 = upd_rounds me ?hit (\<lambda>r. r\<lparr>r_state := RCancelled\<rparr>) d"
      using assms(5) 2 by (simp add: pre_delete_def cancel_pending_def Let_def)
    obtain r where r: "act_of d i = [r]" "r_state r = RPending" "r_owner r = me" "r_task r = i" "r \<in> set (rounds_of d i)"
      using queued_round [OF assms(1,2) 2] assms(3) by metis
    have "touches me i d d1" unfolding d1 by (intro touches_refl touches_upd_rounds) auto
    moreover have "act_of d1 i = []"
      using act_of_cancel [OF r(1,3), of ?hit "\<lambda>r. r\<lparr>r_state := RCancelled\<rparr>"] r(2-5) by (simp add: d1)
    moreover have "slice_ok d1 me i (t\<lparr>t_pending := None\<rparr>)"
      using slice_ok_cancelling [OF s, of "\<lambda>r. r\<lparr>r_state := RCancelled\<rparr>" ?hit] 2 g
      by (auto simp: slice_ok_def d1 log_ok_def)
    ultimately show ?thesis by (auto simp: d1)
  next
    case 3
    then have "d1 = d" using assms(5) by (simp add: pre_delete_def)
    moreover have "t_pending t = None \<and> act_of d i = []" using 3 g assms(4) by (cases "t_status t") auto
    moreover have "t\<lparr>t_pending := None\<rparr> = t" using calculation(2) by simp
    then have "slice_ok d me i (t\<lparr>t_pending := None\<rparr>)" using s by simp
    ultimately show ?thesis by auto
  qed
qed

lemma delete_task_ok:
  assumes "good d" and "delete_task me task_id d = Inr (out, d')"
  shows "task_id = Uuid out \<and> ok_step me out d d'"
proof -
  obtain t where l: "lock_task me task_id d = Inr t"
    using assms(2) by (auto simp: delete_task_def)
  note lt = lock_task_good [OF assms(1) l]
  let ?i = "t_id t"
  obtain c d1 where p: "pre_delete me ?i (t_status t) d = (c, d1)" by force
  from pre_delete_facts [OF assms(1) lt(2,3,4) p] obtain q where
    T: "touches me ?i d d1" and L: "resvs d1 = resvs d" "usage d1 = usage d" "slots d1 = slots d" "pl_used d1 = pl_used d" "quotas d1 = quotas d"
    and q: "q \<in> {None, Some Deleted}" and S: "slice_ok d1 me ?i (t\<lparr>t_pending := q\<rparr>)"
    and a: "map r_state (act_of d1 ?i) \<in> {[], [RCancelling]}" and lg: "log_of d1 ?i = log_of d ?i"
    by (elim conjE exE) (rule that; assumption)
  let ?u = "t\<lparr>t_pending := q\<rparr>" and ?n = "1 + (if c then 1 else 0)"
  have "pkeys d1" using assms(1) T touches_pkeys by (auto simp: good_def)
  then have ft: "find_task me ?i d1 = Some ?u" using S find_task_task_at by (auto simp: slice_ok_def)
  define es where "es = \<lparr>e_task = ?i, e_owner = me, e_seq = t_eseq t + 1, e_type = EStatusChanged,
      e_payload = PStatus Deleted None, e_message = None, e_round = None\<rparr> #
      (if c then [\<lparr>e_task = ?i, e_owner = me, e_seq = t_eseq t + 2, e_type = ERoundCancelled,
      e_payload = PReason None, e_message = None, e_round = None\<rparr>] else [])"
  define d2 where "d2 = upd_tasks me (\<lambda>x. t_id x = ?i) (\<lambda>x. x\<lparr>t_eseq := t_eseq x + ?n\<rparr>)
       (upd_tasks me (\<lambda>x. t_id x = ?i \<and> t_status x = t_status t) (\<lambda>x. x\<lparr>t_status := Deleted\<rparr>) d1)"
  define d4 where "d4 = add_event ?i me (t_eseq t + 1) EStatusChanged (PStatus Deleted None) None None d2"
  define d5 where "d5 = (if c then add_event ?i me (t_eseq t + 2) ERoundCancelled (PReason None) None None d4 else d4)"
  define t1 where "t1 = ?u\<lparr>t_status := Deleted, t_eseq := t_eseq t + ?n\<rparr>"
  have fl: "flip_task me ?i (t_status t) (\<lambda>x. x\<lparr>t_status := Deleted\<rparr>) d1 = Inr
      (upd_tasks me (\<lambda>x. t_id x = ?i \<and> t_status x = t_status t) (\<lambda>x. x\<lparr>t_status := Deleted\<rparr>) d1)"
    using flip_task_Inr [OF ft] by simp
  have al: "alloc_seq me ?i ?n (upd_tasks me (\<lambda>x. t_id x = ?i \<and> t_status x = t_status t)
      (\<lambda>x. x\<lparr>t_status := Deleted\<rparr>) d1) = Inr (t_eseq t + 1, d2)"
    using ft lt(3) by (simp add: alloc_seq_def d2_def)
  have as: "assert_transition (t_status t) Deleted = Inr ()"
    using delete_always_allowed [OF lt(4)] by simp
  have "delete_task me task_id d = Inr (?i, release_task_holdings me ?i d5)"
    unfolding delete_task_def l bindE_simps Let_def as p prod.case fl al
    by (simp add: d5_def d4_def)
  then have d': "out = ?i \<and> d' = release_task_holdings me ?i d5" using assms(2) by simp
  have log: "log_of d5 ?i = log_of d ?i @ es"
    by (simp add: d5_def d4_def d2_def es_def lg)
  have at: "task_at d5 ?i = Some t1"
    using S lt(3) by (simp add: d5_def d4_def d2_def t1_def slice_ok_def)
  have "ok_step me ?i d (release_task_holdings me ?i d5)"
  proof (rule release_ok [OF assms(1) _ lt(2) _ _ _ _ _ lt(3), where ?t1.0 = t1 and es = es])
    show "touches me ?i d d5" unfolding d5_def d4_def d2_def
      using T by (auto intro!: touches_add_event touches_upd_tasks)
    have "log_ok t1 (log_of d ?i @ es) (msgs_of d1 ?i)"
      by (rule log_ok_flip [of ?u _ _ _ ?n]) (use S in \<open>auto simp: slice_ok_def lg es_def t1_def\<close>)
    then show "slice_ok d5 me ?i t1"
      using S lt(3) at log by (auto simp: slice_ok_def lg d5_def d4_def d2_def es_def t1_def)
  qed (use L q a log lt(4) delete_always_allowed [OF lt(4)]
      in \<open>auto simp: d5_def d4_def d2_def t1_def evolves_def allowed_flip_def\<close>)
  then show ?thesis using d' lt(1) by simp
qed

lemma map_round_conflict_Inr [simp]: "map_round_conflict r = Inr x \<longleftrightarrow> r = Inr x"
  by (cases r) (simp_all add: map_round_conflict_def)

lemma send_message_ok:
  assumes "good d" and "send_message me task_id content mid rid now d = Inr (out, d')"
  shows "\<exists>i. task_id = Uuid i \<and> ok_step me i d d'"
proof -
  obtain t where l: "lock_task me task_id d = Inr t"
    using assms(2) by (auto simp: send_message_def)
  note lt = lock_task_good [OF assms(1) l]
  let ?i = "t_id t"
  have st: "t_status t = Ready"
    using assms(2) l by (auto simp: send_message_def Let_def split: if_splits)
  have ph: "t_pending t = None" "act_of d ?i = []" "held_task d ?i KActive = 1" "held_task d ?i KRunning = 0"
    using good_task(2) [OF assms(1) lt(2)] st by auto
  define d3 where "d3 = add_event ?i me (t_eseq t + 1) EMessageSaved (PMessage mid (t_eseq t + 1) User) (Some mid) None
     (add_message mid ?i me (t_eseq t + 1) User content
       (upd_tasks me (\<lambda>x. t_id x = ?i) (\<lambda>x. x\<lparr>t_eseq := t_eseq x + 1\<rparr>) d))"
  define d6 where "d6 = add_event ?i me (t_eseq t + 2) EStatusChanged (PStatus Queued None) None None
     (upd_tasks me (\<lambda>x. t_id x = ?i) (\<lambda>x. x\<lparr>t_eseq := t_eseq x + 2\<rparr>)
       (upd_tasks me (\<lambda>x. t_id x = ?i \<and> t_status x = Ready) (\<lambda>x. x\<lparr>t_status := Queued\<rparr>) d3))"
  define t1 where "t1 = t\<lparr>t_status := Queued, t_eseq := t_eseq t + 3\<rparr>"
  have ft3: "find_task me ?i d3 = Some (t\<lparr>t_eseq := t_eseq t + 1\<rparr>)"
    using lt(3,5) by (simp add: d3_def)
  obtain d7 where d7: "insert_round (new_round rid ?i me mid now) d6 = Inr d7"
    and d': "d' = add_event ?i me (t_eseq t + 3) ERoundQueued (PRound rid) None (Some rid) d7"
    using assms(2) l st lt(3,5) ft3 flip_task_Inr [OF ft3] 
    by (auto simp: send_message_def Let_def alloc_seq_Inr_iff d3_def d6_def eval_nat_numeral split: if_splits)
  define es where "es = [\<lparr>e_task = ?i, e_owner = me, e_seq = t_eseq t + 1, e_type = EMessageSaved,
      e_payload = PMessage mid (t_eseq t + 1) User, e_message = Some mid, e_round = None\<rparr>,
      \<lparr>e_task = ?i, e_owner = me, e_seq = t_eseq t + 2, e_type = EStatusChanged,
      e_payload = PStatus Queued None, e_message = None, e_round = None\<rparr>,
      \<lparr>e_task = ?i, e_owner = me, e_seq = t_eseq t + 3, e_type = ERoundQueued,
      e_payload = PRound rid, e_message = None, e_round = Some rid\<rparr>]"
  define ms where "ms = [\<lparr>m_id = mid, m_task = ?i, m_owner = me, m_seq = t_eseq t + 1, m_author = User,
      m_content = content\<rparr>]"
  note d7' = insert_round_Inr [OF d7]
  have log: "log_of d' ?i = log_of d ?i @ es" "msgs_of d' ?i = msgs_of d ?i @ ms"
    by (simp_all add: d' d7' d6_def d3_def es_def ms_def)
  have "ok_step me ?i d d'"
  proof (rule plain_ok [OF assms(1) _ lt(2) _ _ _ _ _ lt(3), where ?t1.0 = t1 and es = es])
    have "touches me ?i d d6" unfolding d6_def d3_def by (intro touches_intros) auto
    then have "touches me ?i d d7" using touches_insert_round [OF d7] by simp
    then show "touches me ?i d d'" unfolding d' by (intro touches_intros)
    have "log_ok t1 (log_of d ?i @ es) (msgs_of d ?i @ ms)"
      by (rule log_ok_append [of t _ _ _ 3])
        (use lt(6) in \<open>auto simp: slice_ok_def es_def ms_def t1_def upt_rec\<close>)
    then show "slice_ok d' me ?i t1"
      using lt(2,3,6) st log by (auto simp: slice_ok_def d' d7' d6_def d3_def es_def ms_def t1_def)
  qed (use log ph st in \<open>auto simp: d' d7' d6_def d3_def t1_def evolves_def allowed_flip_def\<close>)
  then show ?thesis using lt(1) by blast
qed


lemma charge_storage_Inr:
  assumes "charge_storage me n d = Inr d'"
  obtains u q where "usage d me = Some u" "quotas d me = Some q" "u_storage u + n \<le> q_storage q"
    "pl_used d + n \<le> pl_max d"
    "d' = d\<lparr>usage := (usage d)(me \<mapsto> u\<lparr>u_storage := u_storage u + n\<rparr>), pl_used := pl_used d + n\<rparr>"
  using assms by (auto simp: charge_storage_def Let_def split: option.splits if_splits)

lemma new_resv_simps [simp]:
  "v_task (new_resv i u k f n) = i" "v_user (new_resv i u k f n) = u" "v_kind (new_resv i u k f n) = k"
  "v_file (new_resv i u k f n) = f" "v_bytes (new_resv i u k f n) = n" "v_state (new_resv i u k f n) = Held"
  "held (new_resv i u k f n)"
  by (simp_all add: new_resv_def held_def)

lemma commit_input_ok:
  assumes "good d" and "commit_input sha me task_id manifest rid now d = Inr (out, d')"
  shows "\<exists>i. task_id = Uuid i \<and> ok_step me i d d'"
proof -
  obtain t where l: "lock_task me task_id d = Inr t"
    using assms(2) by (auto simp: commit_input_def)
  note lt = lock_task_good [OF assms(1) l]
  let ?i = "t_id t"
  have st: "t_status t = Uploading"
    using assms(2) l lt(4)
    by (cases "t_status t") (auto simp: commit_input_def commit_gate_def split: if_splits)
  note g = good_task [OF assms(1) lt(2)]
  have ph: "t_pending t = None" "act_of d ?i = []" "held_task d ?i KActive = 1" "held_task d ?i KRunning = 0"
      "rounds_of d ?i = []"
    using g(2,7) st by auto
  define h where "h = sha (canonical_json (JArr manifest))"
  define d2 where "d2 = upd_files me (\<lambda>f. f_task f = ?i \<and> f_state f = Staged) (\<lambda>f. f\<lparr>f_state := Committed\<rparr>)
     (upd_tasks me (\<lambda>x. t_id x = ?i) (\<lambda>x. x\<lparr>t_manifest := Some h, t_committed := Some now\<rparr>) d)"
  define n where "n = committed_bytes me ?i d2"
  let ?v = "new_resv ?i me KTaskRoot None n"
  define t2 where "t2 = t\<lparr>t_manifest := Some h, t_committed := Some now\<rparr>"
  have ft2: "find_task me ?i d2 = Some t2" using lt(3,5) by (simp add: d2_def t2_def)
  obtain d3 d4 src d5 where d3: "insert_resv ?v d2 = Inr d3" and d4: "charge_storage me n d3 = Inr d4"
    and d5: "insert_round (new_round rid ?i me src now) d4 = Inr d5"
    and rest: "bindE (flip_task me ?i Uploading (\<lambda>x. x\<lparr>t_status := Queued\<rparr>) d5) (\<lambda>d6.
       bindE (alloc_seq me ?i 2 d6) (\<lambda>(seq, d7).
       let d8 = add_event ?i me seq EStatusChanged (PStatus Queued None) None None d7;
           d9 = add_event ?i me (seq + 1) ERoundQueued (PRound rid) None (Some rid) d8
       in bindE (load_task_view me ?i d9) (\<lambda>v. Inr ((v, h, rid, seq + 1), d9)))) = Inr (out, d')"
    using assms(2) l unfolding commit_input_def Let_def h_def d2_def n_def
    by (auto simp del: parse_id_Inr_iff split: option.splits)
  obtain u q where uq: "usage d3 me = Some u" and qb: "quotas d3 me = Some q" "u_storage u + n \<le> q_storage q"
      "pl_used d3 + n \<le> pl_max d3"
    and d4': "d4 = d3\<lparr>usage := (usage d3)(me \<mapsto> u\<lparr>u_storage := u_storage u + n\<rparr>), pl_used := pl_used d3 + n\<rparr>"
    using charge_storage_Inr [OF d4] by metis
  have d5': "d5 = add_round (new_round rid ?i me src now) d4" by (rule insert_round_Inr [OF d5])
  have d3': "d3 = add_resv ?v d2" by (rule insert_resv_Inr [OF d3])
  have ft5: "find_task me ?i d5 = Some t2" using ft2 by (simp add: d5' d4' d3')
  define d9 where "d9 = add_event ?i me (t_eseq t + 2) ERoundQueued (PRound rid) None (Some rid)
     (add_event ?i me (t_eseq t + 1) EStatusChanged (PStatus Queued None) None None
     (upd_tasks me (\<lambda>x. t_id x = ?i) (\<lambda>x. x\<lparr>t_eseq := t_eseq x + 2\<rparr>)
       (upd_tasks me (\<lambda>x. t_id x = ?i \<and> t_status x = Uploading) (\<lambda>x. x\<lparr>t_status := Queued\<rparr>) d5)))"
  define t1 where "t1 = t2\<lparr>t_status := Queued, t_eseq := t_eseq t + 2\<rparr>"
  have s2: "t_status t2 = Uploading" "t_owner t2 = me" "t_id t2 = ?i" "t_eseq t2 = t_eseq t"
    using st lt(3) by (simp_all add: t2_def)
  have d': "d' = d9"
    using rest ft5 flip_task_Inr [OF ft5] s2
    by (auto simp: alloc_seq_Inr_iff Let_def d9_def)
  have at: "task_at d9 ?i = Some t1"
    using lt(2) s2 st lt(3) by (simp add: d9_def d5' d4' d3' d2_def t1_def t2_def)
  have led: "resvs d9 = resvs d @ [?v]" "usage d9 = (usage d)(me \<mapsto> u\<lparr>u_storage := u_storage u + n\<rparr>)"
      "pl_used d9 = pl_used d + n" "slots d9 = slots d" "usage d me = Some u"
    using uq by (simp_all add: d9_def d5' d4' d3' d2_def)
  have acct: "acct d9" "exact d \<Longrightarrow> exact d9"
    using acct_add_resv [of d ?v u d9 "u\<lparr>u_storage := u_storage u + n\<rparr>"] assms(1) led by (auto simp: good_def)
  define es where "es = [\<lparr>e_task = ?i, e_owner = me, e_seq = t_eseq t + 1, e_type = EStatusChanged,
      e_payload = PStatus Queued None, e_message = None, e_round = None\<rparr>,
      \<lparr>e_task = ?i, e_owner = me, e_seq = t_eseq t + 2, e_type = ERoundQueued,
      e_payload = PRound rid, e_message = None, e_round = Some rid\<rparr>]"
  have log: "log_of d9 ?i = log_of d ?i @ es" "msgs_of d9 ?i = msgs_of d ?i"
    by (simp_all add: d9_def d5' d4' d3' d2_def es_def)
  have T: "touches me ?i d d9"
  proof -
    have "touches me ?i d d2" unfolding d2_def by (intro touches_intros touches_upd_files) auto
    then have "touches me ?i d d3" using touches_insert_resv [OF d3] by simp
    then have "touches me ?i d d4" unfolding d4' by (intro touches_pl_used touches_usage)
    then have "touches me ?i d d5" using touches_insert_round [OF d5] by simp
    then show ?thesis unfolding d9_def by (intro touches_add_event touches_upd_tasks) auto
  qed
  have "log_ok t1 (log_of d ?i @ es) (msgs_of d ?i)"
    by (rule log_ok_flip [of t _ _ _ 2]) (use lt(6) in \<open>auto simp: slice_ok_def es_def t1_def upt_rec s2\<close>)
  then have tg: "task_good d9 ?i"
    using at log ph g(1,3,6) led lt(3)
    by (auto simp: task_good_def owned_def d9_def d5' d4' d3' d2_def es_def t1_def t2_def)
  have "good d9"
    by (rule goodI [OF assms(1) T tg acct(1)]) (use assms(1) led in \<open>simp add: good_def slots_wf_def\<close>)
  moreover have "within d \<longrightarrow> within d9"
    using qb led within_user [of d me u] by (auto simp: within_def d9_def d5' d4' d3' d2_def)
  moreover have "\<not> quiet d ?i" using lt(2) st by (simp add: quiet_def)
  ultimately have "ok_step me ?i d d9"
    using T acct(2) lt(2) at log st
    by (auto simp: ok_step_def t1_def t2_def evolves_def allowed_flip_def)
  then show ?thesis using d' lt(1) by blast
qed


lemma charge_daily_Inr:
  assumes "charge_daily me today d = Inr d'"
  shows "d' = d\<lparr>daily := (daily d)((me, today) \<mapsto> (case daily d (me, today) of None \<Rightarrow> 1 | Some n \<Rightarrow> n + 1))\<rparr>
     \<and> (\<exists>Q. quotas d me = Some Q \<and> (case daily d (me, today) of None \<Rightarrow> 1 | Some n \<Rightarrow> n + 1) \<le> q_daily Q)"
  using assms by (auto simp: charge_daily_def Let_def split: option.splits if_splits)

lemma charge_active_Inr:
  assumes "charge_active me d = Inr d'"
  shows "\<exists>u Q. usage d me = Some u \<and> quotas d me = Some Q \<and> u_active u < q_active Q
     \<and> d' = d\<lparr>usage := (usage d)(me \<mapsto> u\<lparr>u_active := u_active u + 1\<rparr>)\<rparr>"
  using assms by (auto simp: charge_active_def split: option.splits if_splits)

lemma charge_creation_quota_Inr:
  assumes "charge_creation_quota me today d = Inr d'"
  shows "\<exists>u c Q. (u = (case usage d me of None \<Rightarrow> default_usage | Some q \<Rightarrow> q))
     \<and> d' = d\<lparr>quotas := (quotas d)(me \<mapsto> Q), usage := (usage d)(me \<mapsto> u\<lparr>u_active := u_active u + 1\<rparr>),
             daily := (daily d)((me, today) \<mapsto> c)\<rparr>
     \<and> Q = (case quotas d me of None \<Rightarrow> default_quota | Some q \<Rightarrow> q)
     \<and> u_active u < q_active Q \<and> c \<le> q_daily Q
     \<and> c = (case daily d (me, today) of None \<Rightarrow> 1 | Some n \<Rightarrow> n + 1)"
proof -
  let ?u = "case usage d me of None \<Rightarrow> default_usage | Some q \<Rightarrow> q"
  let ?Q = "case quotas d me of None \<Rightarrow> default_quota | Some q \<Rightarrow> q"
  let ?c = "case daily d (me, today) of None \<Rightarrow> 1 | Some n \<Rightarrow> n + 1"
  let ?d0 = "d\<lparr>quotas := (quotas d)(me \<mapsto> ?Q), usage := (usage d)(me \<mapsto> ?u)\<rparr>"
  obtain d1 where 1: "charge_daily me today ?d0 = Inr d1" and 2: "charge_active me d1 = Inr d'"
    using assms by (auto simp: charge_creation_quota_def ensure_quota_rows_def)
  have d1: "d1 = ?d0\<lparr>daily := (daily d)((me, today) \<mapsto> ?c)\<rparr>" and c: "?c \<le> q_daily ?Q"
    using charge_daily_Inr [OF 1] by simp_all
  have "u_active ?u < q_active ?Q" "d' = d1\<lparr>usage := (usage d1)(me \<mapsto> ?u\<lparr>u_active := u_active ?u + 1\<rparr>)\<rparr>"
    using charge_active_Inr [OF 2] by (simp_all add: d1)
  then show ?thesis using c by (intro exI [of _ ?u] exI [of _ ?c] exI [of _ ?Q]) (simp add: d1)
qed

lemma find_snoc: "find P (xs @ [x]) = (case find P xs of None \<Rightarrow> if P x then Some x else None | Some y \<Rightarrow> Some y)"
  by (induction xs) auto

lemma none_task:
  assumes "good d" and "task_at d i = None"
  shows "rounds_of d i = []" "resvs_of d i = []" "log_of d i = []" "msgs_of d i = []"
    "act_of d i = []" "held_task d i k = 0" "leased_to d i = 0"
  using goodD(2) [OF assms(1), of i] assms(2)
  by (auto simp: task_good_def act_of_rounds_of held_task_resvs_of)

lemma acct_default_usage:
  assumes "acct d" and "usage d me = None"
  shows "held_user d me k = 0" "bytes_user d me = 0"
proof -
  have n: "\<forall>v\<in>set (resvs d). v_user v = me \<longrightarrow> \<not> held v"
    using assms by (auto simp: acct_def acct_user_def split: option.splits dest!: spec [of _ me])
  then show "held_user d me k = 0" by (auto simp: held_user_def rowcount_0_iff)
  show "bytes_user d me = 0" unfolding bytes_user_def by (rule sumof_zero) (use n in auto)
qed

text \<open>Materialising the usage row of a user with no holdings.\<close>

lemma acct_ensure:
  assumes "acct d" and "usage d' = (usage d)(me \<mapsto> (case usage d me of None \<Rightarrow> default_usage | Some q \<Rightarrow> q))"
    and "resvs d' = resvs d" and "pl_used d' = pl_used d"
  shows "acct d'" "exact d \<Longrightarrow> exact d'"
proof -
  have h: "held_user d' u k = held_user d u k" "bytes_user d' u = bytes_user d u" "bytes_all d' = bytes_all d" for u k
    using assms(3) by (simp_all add: held_user_def bytes_user_def bytes_all_def)
  have "acct_user d' u" for u
  proof (cases "u = me \<and> usage d me = None")
    case True
    then show ?thesis using assms(2) acct_default_usage [OF assms(1)]
      by (simp add: acct_user_def h default_usage_def)
  next
    case False
    have "acct_user d u" using assms(1) by (simp add: acct_def)
    then show ?thesis using False assms(2,3) by (auto simp: acct_user_def h split: option.splits)
  qed
  then show "acct d'" using assms(1,3,4) by (simp add: acct_def h zero_bytes_def)
  show "exact d'" if "exact d"
    using that assms(2,4) acct_default_usage(2) [OF assms(1)]
    by (auto simp: exact_def h default_usage_def split: option.splits if_splits)
qed

lemma create_task_ok:
  assumes "good d" and "create_task me req tid mid now today d = Inr (out, d')"
  shows "ok_step me tid d d' \<and> task_at d tid = None"
proof -
  obtain rv prov snap refs d1 d2 seq d3 d7 where
    d1: "charge_creation_quota me today d = Inr d1"
    and d2: "insert_task (new_task tid me rv prov snap refs now) d1 = Inr d2"
    and d3: "alloc_seq me tid 1 d2 = Inr (seq, d3)"
    and d7: "insert_resv (new_resv tid me KActive None 0)
         (upd_tasks me (\<lambda>t. t_id t = tid) (\<lambda>t. t\<lparr>t_initial := Some mid\<rparr>)
           (add_event tid me seq EMessageSaved (PMessage mid seq User) (Some mid) None
             (add_message mid tid me seq User (cr_message req) d3))) = Inr d7"
    and d': "d' = d7"
    using assms(2) by (auto simp: create_task_def Let_def split: if_splits)
  let ?t0 = "new_task tid me rv prov snap refs now"
  obtain u c Q where u: "u = (case usage d me of None \<Rightarrow> default_usage | Some q \<Rightarrow> q)"
    and Q: "Q = (case quotas d me of None \<Rightarrow> default_quota | Some q \<Rightarrow> q)" "u_active u < q_active Q"
    and d1': "d1 = d\<lparr>quotas := (quotas d)(me \<mapsto> Q), usage := (usage d)(me \<mapsto> u\<lparr>u_active := u_active u + 1\<rparr>),
             daily := (daily d)((me, today) \<mapsto> c)\<rparr>"
    using charge_creation_quota_Inr [OF d1] by blast
  have d2': "d2 = add_task ?t0 d1" and n1: "task_at d1 tid = None"
    using insert_task_Inr [OF d2] by (simp_all add: new_task_def)
  have n: "task_at d tid = None" using n1 by (simp add: d1' task_at_def)
  note e = none_task [OF assms(1) n]
  have s1: "rounds_of d1 tid = []" "resvs_of d1 tid = []" "log_of d1 tid = []" "msgs_of d1 tid = []"
    "act_of d1 tid = []" "held_task d1 tid k = 0" "leased_to d1 tid = 0" for k
    using e [unfolded rounds_of_def resvs_of_def log_of_def msgs_of_def act_of_def held_task_def leased_to_def]
    by (simp_all add: d1' rounds_of_def resvs_of_def log_of_def msgs_of_def act_of_def held_task_def leased_to_def)
  have at2: "task_at d2 tid = Some ?t0"
    using n1 by (simp add: d2' add_task_def task_at_def find_snoc new_task_def)
  have s2: "rounds_of d2 tid = []" "resvs_of d2 tid = []" "log_of d2 tid = []" "msgs_of d2 tid = []"
    "act_of d2 tid = []" "held_task d2 tid k = 0" "leased_to d2 tid = 0" for k
    using s1 [unfolded rounds_of_def resvs_of_def log_of_def msgs_of_def act_of_def held_task_def leased_to_def]
    by (simp_all add: d2' add_task_def rounds_of_def resvs_of_def log_of_def msgs_of_def act_of_def
        held_task_def leased_to_def)
  have T2: "touches me tid d d2"
  proof -
    have "touches me tid d d1" by (auto simp: d1' touches_def pkeys_def leased_to_def)
    then show ?thesis using touches_insert_task [OF d2] by (simp add: new_task_def)
  qed
  then have "pkeys d2" using assms(1) touches_pkeys by (auto simp: good_def)
  then have "find_task me tid d2 = Some ?t0"
    using at2 find_task_task_at by (simp add: new_task_def)
  then have seq: "seq = 1" "d3 = upd_tasks me (\<lambda>x. t_id x = tid) (\<lambda>x. x\<lparr>t_eseq := t_eseq x + 1\<rparr>) d2"
    using d3 by (auto simp: alloc_seq_Inr_iff new_task_def)
  define d6 where "d6 = upd_tasks me (\<lambda>t. t_id t = tid) (\<lambda>t. t\<lparr>t_initial := Some mid\<rparr>)
           (add_event tid me 1 EMessageSaved (PMessage mid 1 User) (Some mid) None
             (add_message mid tid me 1 User (cr_message req)
               (upd_tasks me (\<lambda>x. t_id x = tid) (\<lambda>x. x\<lparr>t_eseq := t_eseq x + 1\<rparr>) d2)))"
  have d7': "insert_resv (new_resv tid me KActive None 0) d6 = Inr d7"
    using d7 by (simp add: d6_def seq)
  note d7e = insert_resv_Inr [OF d7']
  have T: "touches me tid d d7"
  proof -
    have "touches me tid d d6" unfolding d6_def
      by (intro touches_upd_tasks touches_add_event touches_add_message T2) auto
    then show ?thesis using touches_insert_resv [OF d7'] by simp
  qed
  let ?e = "d\<lparr>usage := (usage d)(me \<mapsto> u)\<rparr>"
  have ens: "acct ?e" "exact d \<Longrightarrow> exact ?e"
    using acct_ensure [of d ?e me] assms(1) u by (auto simp: good_def)
  have led: "resvs d7 = resvs ?e @ [new_resv tid me KActive None 0]"
    "usage d7 = (usage ?e)(me \<mapsto> u\<lparr>u_active := u_active u + 1\<rparr>)" "pl_used d7 = pl_used ?e" "slots d7 = slots d"
    by (simp_all add: d7e d6_def d2' d1' add_task_def)
  have acct: "acct d7" "exact d \<Longrightarrow> exact d7"
    using acct_add_resv [OF ens(1), of "new_resv tid me KActive None 0" u d7 "u\<lparr>u_active := u_active u + 1\<rparr>"]
      led ens(2) by auto
  have tg: "task_good d7 tid"
    using at2 s2
    by (auto simp: task_good_def owned_def d7e d6_def new_task_def log_ok_def)
  have "good d7"
    by (rule goodI [OF assms(1) T tg acct(1)]) (use assms(1) led in \<open>simp add: good_def slots_wf_def\<close>)
  moreover have "within d \<longrightarrow> within d7"
  proof
    assume w: "within d"
    have "usage d me = Some q \<Longrightarrow> quotas d me = Some Q" for q
      using within_user(1) [OF w, of me q] Q(1) by auto
    then have "u_running u \<le> q_running Q \<and> u_storage u \<le> q_storage Q"
      using within_user(2) [OF w, of me] u by (cases "usage d me") (auto simp: default_usage_def)
    moreover have "usage d7 = (usage d)(me \<mapsto> u\<lparr>u_active := u_active u + 1\<rparr>)" "quotas d7 = (quotas d)(me \<mapsto> Q)"
      "pl_used d7 = pl_used d" "pl_max d7 = pl_max d"
      by (simp_all add: d7e d6_def d2' d1' add_task_def)
    ultimately show "within d7" using w Q(2) by (auto simp: within_def)
  qed
  ultimately show ?thesis using T acct(2) n d' by (simp add: ok_step_def quiet_def)
qed

section \<open>The service calls meet the contract\<close>

fun uuid_of :: "raw_id \<Rightarrow> uuid" where
  "uuid_of (Uuid u) = u"
| "uuid_of (Malformed s) = 0"

interpretation create: task_transaction
  "\<lambda>(me, req, tid, mid, now, today). create_task me req tid mid now today" fst "\<lambda>(me, req, tid, _). tid" "\<lambda>_ _. True"
  by (rule task_transactionI) (use create_task_ok in \<open>auto split: prod.splits\<close>)

interpretation commit: task_transaction
  "\<lambda>(me, task_id, sha, manifest, rid, now). commit_input sha me task_id manifest rid now"
  fst "\<lambda>(me, task_id, _). uuid_of task_id" "\<lambda>_ _. True"
  by (rule task_transactionI) (use commit_input_ok in \<open>fastforce split: prod.splits\<close>)

interpretation abort: task_transaction "\<lambda>(me, task_id). abort_task me task_id" fst "\<lambda>(me, task_id). uuid_of task_id" "\<lambda>_ _. True"
  by (rule task_transactionI) (use terminate_with_ok in \<open>fastforce simp: abort_task_def split: prod.splits\<close>)

interpretation complete: task_transaction
  "\<lambda>(me, task_id). complete_task me task_id" fst "\<lambda>(me, task_id). uuid_of task_id" "\<lambda>_ _. True"
  by (rule task_transactionI) (use terminate_with_ok in \<open>fastforce simp: complete_task_def split: prod.splits\<close>)

interpretation delete: task_transaction "\<lambda>(me, task_id). delete_task me task_id" fst "\<lambda>(me, task_id). uuid_of task_id" "\<lambda>_ _. True"
  by (rule task_transactionI) (use delete_task_ok in \<open>fastforce split: prod.splits\<close>)

interpretation send: task_transaction
  "\<lambda>(me, task_id, content, mid, rid, now). send_message me task_id content mid rid now"
  fst "\<lambda>(me, task_id, _). uuid_of task_id" "\<lambda>_ _. True"
  by (rule task_transactionI) (use send_message_ok in \<open>fastforce split: prod.splits\<close>)

end
