(* ===== verification/Task_Dispatcher.thy ===== *)
theory Task_Dispatcher
  imports Task_Service
begin

text \<open>
  The dispatcher and its four background jobs (\<open>backend/v2/task_dispatcher.py\<close>): claiming pending
  rounds, reclaiming expired or cancelling ones, the upload sweep and the terminal sweep. A job
  scans its candidates in one read-only session (stage 1) and handles each in a transaction of
  its own (stage 2); the database may change in between, so stage 2 takes an arbitrary candidate
  and arbitrates by guarded updates. \<open>CandidateDropped\<close> rolls the transaction back and the job
  goes on with the next candidate.
\<close>

section \<open>Claiming\<close>

definition attempt_limit :: nat where "attempt_limit = 3"
definition dispatch_batch :: nat where "dispatch_batch = 16"
definition lease_ttl_seconds :: int where "lease_ttl_seconds = 90"

record cand =
  c_round :: uuid
  c_task :: uuid
  c_owner :: uuid

definition oldest_first :: "round_row list \<Rightarrow> round_row list" where
  "oldest_first rs = sort_key r_created (sort_key r_id rs)"

definition cand_of :: "round_row \<Rightarrow> cand" where
  "cand_of r = \<lparr>c_round = r_id r, c_task = r_task r, c_owner = r_owner r\<rparr>"

text \<open>\<open>_DISPATCH_CANDIDATES_SQL\<close>: pending rounds of queued tasks, first in first out.\<close>

definition dispatch_candidates :: "db \<Rightarrow> cand list" where
  "dispatch_candidates d =
     map cand_of (take dispatch_batch (oldest_first
       (filter (\<lambda>r. r_state r = RPending
           \<and> list_ex (\<lambda>t. t_id t = r_task r \<and> t_status t = Queued) (tasks d)) (rounds d))))"

definition lease_slot :: "uuid \<Rightarrow> time \<Rightarrow> db \<Rightarrow> api_error + db" where
  "lease_slot tid until d =
     (case sort_key s_no (filter (\<lambda>s. \<not> s_leased s) (slots d)) of
        [] \<Rightarrow> Inl CandidateDropped
      | s # _ \<Rightarrow> Inr (d\<lparr>slots := upd (\<lambda>x. s_no x = s_no s)
          (\<lambda>x. x\<lparr>s_leased := True, s_task := Some tid, s_until := Some until\<rparr>) (slots d)\<rparr>))"

definition inc_running :: "uuid \<Rightarrow> db \<Rightarrow> api_error + db" where
  "inc_running me d =
     (case (usage d me, quotas d me) of
        (Some u, Some q) \<Rightarrow>
          if u_running u < q_running q
          then Inr (d\<lparr>usage := (usage d)(me \<mapsto> u\<lparr>u_running := u_running u + 1\<rparr>)\<rparr>)
          else Inl CandidateDropped
      | _ \<Rightarrow> Inl CandidateDropped)"

definition claim_round :: "string \<Rightarrow> int \<Rightarrow> cand \<Rightarrow> time \<Rightarrow> db \<Rightarrow> api_error + frame list \<times> db" where
  "claim_round iid ttl c now d =
     (let me = c_owner c; rid = c_round c; tid = c_task c;
          hit = (\<lambda>r. r_id r = rid \<and> r_state r = RPending)
      in case sel_rounds me hit d of
           [] \<Rightarrow> Inl CandidateDropped
         | r # _ \<Rightarrow>
           (let d1 = upd_rounds me hit (\<lambda>r. r\<lparr>r_state := RRunning, r_lease_owner := Some iid,
                       r_epoch := r_epoch r + 1, r_expires := Some (now + ttl),
                       r_attempt := r_attempt r + 1\<rparr>) d;
                attempt = r_attempt r + 1;
                queued = (\<lambda>t. t_id t = tid \<and> t_status t = Queued)
            in if n_tasks me queued d1 = 0 then Inl CandidateDropped
               else
            bindE (insert_resv (new_resv tid me KRunning None 0)
                     (upd_tasks me queued (\<lambda>t. t\<lparr>t_status := Running\<rparr>) d1)) (\<lambda>d2.
            bindE (inc_running me d2) (\<lambda>d3.
            bindE (lease_slot tid (now + ttl) d3) (\<lambda>d4.
            bindE (alloc_seq me tid 2 d4) (\<lambda>(seq, d5).
            let d6 = add_event tid me seq EStatusChanged (PStatus Running None) None None d5;
                d7 = add_event tid me (seq + 1) ERoundRunning (PRoundAttempt rid attempt) None (Some rid) d6
            in Inr ([status_frame seq Running None], d7)))))))"

section \<open>Reclaiming\<close>

text \<open>\<open>_RECLAIM_CANDIDATES_SQL\<close>: the snapshot carries the state and the lease it saw.\<close>

record reclaim_cand =
  rc_cand :: cand
  rc_state :: round_state
  rc_lease_owner :: "string option"
  rc_epoch :: nat

definition reclaim_candidates :: "time \<Rightarrow> db \<Rightarrow> reclaim_cand list" where
  "reclaim_candidates now d =
     map (\<lambda>r. \<lparr>rc_cand = cand_of r, rc_state = r_state r, rc_lease_owner = r_lease_owner r,
               rc_epoch = r_epoch r\<rparr>)
       (oldest_first (filter (\<lambda>r. r_state r = RCancelling
           \<or> (r_state r = RRunning \<and> (case r_expires r of None \<Rightarrow> False | Some e \<Rightarrow> e < now))) (rounds d)))"

text \<open>In SQL \<open>lease_owner = NULL\<close> holds of no row.\<close>

definition owns_lease :: "string option \<Rightarrow> nat \<Rightarrow> round_row \<Rightarrow> bool" where
  "owns_lease lo le r \<longleftrightarrow> lo \<noteq> None \<and> r_lease_owner r = lo \<and> r_epoch r = le"

definition reclaim_expired_round ::
  "cand \<Rightarrow> string option \<Rightarrow> nat \<Rightarrow> db \<Rightarrow> api_error + frame list \<times> db" where
  "reclaim_expired_round c lo le d =
     (let me = c_owner c; rid = c_round c; tid = c_task c;
          fence = (\<lambda>r. r_id r = rid \<and> r_state r = RRunning \<and> owns_lease lo le r)
      in case sel_rounds me fence d of
           [] \<Rightarrow> Inl CandidateDropped
         | r # _ \<Rightarrow>
           (let d1 = upd_rounds me fence (\<lambda>r. r\<lparr>r_lease_owner := None, r_expires := None\<rparr>) d;
                attempt = r_attempt r;
                to_failed = attempt_limit \<le> attempt;
                cleared = (\<lambda>r. r_id r = rid \<and> r_lease_owner r = None);
                running = (\<lambda>t. t_id t = tid \<and> t_status t = Running)
            in if sel_rounds me cleared d1 = [] then Inl CandidateDropped
               else
               (let d2 = upd_rounds me cleared
                          (\<lambda>r. r\<lparr>r_state := (if to_failed then RFailed else RPending)\<rparr>) d1
                in if n_tasks me running d2 = 0 then Inl CandidateDropped
                   else
                bindE (alloc_seq me tid 2
                   (upd_tasks me running (if to_failed
                      then (\<lambda>t. t\<lparr>t_status := Failed, t_abort := Some RoundFailed\<rparr>)
                      else (\<lambda>t. t\<lparr>t_status := Queued\<rparr>)) d2)) (\<lambda>(seq, d3).
                let d4 = add_event tid me seq EStatusChanged
                           (if to_failed then PStatus Failed (Some RoundFailed) else PStatus Queued None)
                           None None d3;
                    d5 = add_event tid me (seq + 1) (if to_failed then ERoundFailed else ERoundQueued)
                           (PRoundAttempt rid attempt) None (Some rid) d4;
                    frames = (if to_failed
                      then [status_frame seq Failed (Some RoundFailed), done_frame ''error'']
                      else [status_frame seq Queued None, queued_frame (seq + 1) rid])
                in Inr (frames, release_task_holdings me tid d5)))))"

definition cancel_cancelling_round :: "cand \<Rightarrow> db \<Rightarrow> api_error + frame list \<times> db" where
  "cancel_cancelling_round c d =
     (let me = c_owner c; rid = c_round c; tid = c_task c;
          hit = (\<lambda>r. r_id r = rid \<and> r_state r = RCancelling)
      in if sel_rounds me hit d = [] then Inl CandidateDropped
         else
         (let d1 = upd_rounds me hit
                (\<lambda>r. r\<lparr>r_state := RCancelled, r_lease_owner := None, r_expires := None\<rparr>) d
          in bindE (alloc_seq me tid 1 d1) (\<lambda>(seq, d2).
          let d3 = add_event tid me seq ERoundCancelled (PRound rid) None (Some rid) d2
          in Inr ([done_frame ''aborted''], release_task_holdings me tid d3))))"

section \<open>Sweeps\<close>

definition upload_ttl_seconds :: int where "upload_ttl_seconds = 24 * 3600"
definition terminal_retention_seconds :: int where "terminal_retention_seconds = 7 * 24 * 3600"

definition oldest_tasks :: "task_row list \<Rightarrow> (uuid \<times> uuid) list" where
  "oldest_tasks ts = map (\<lambda>t. (t_id t, t_owner t)) (sort_key t_created (sort_key t_id ts))"

definition upload_candidates :: "time \<Rightarrow> db \<Rightarrow> (uuid \<times> uuid) list" where
  "upload_candidates now d =
     oldest_tasks (filter (\<lambda>t. t_status t = Uploading \<and> t_created t < now - upload_ttl_seconds) (tasks d))"

definition sweep_upload_task :: "uuid \<times> uuid \<Rightarrow> db \<Rightarrow> api_error + frame list \<times> db" where
  "sweep_upload_task c d =
     (let tid = fst c; me = snd c; hit = (\<lambda>t. t_id t = tid \<and> t_status t = Uploading)
      in if n_tasks me hit d = 0 then Inl CandidateDropped
         else
         (let d1 = upd_tasks me hit (\<lambda>t. t\<lparr>t_status := Failed, t_abort := Some UploadExpired\<rparr>) d
          in bindE (alloc_seq me tid 1 d1) (\<lambda>(seq, d2).
          let d3 = add_event tid me seq EStatusChanged (PStatus Failed (Some UploadExpired)) None None d2
          in Inr ([status_frame seq Failed (Some UploadExpired)], release_task_holdings me tid d3))))"

definition terminal_candidates :: "time \<Rightarrow> db \<Rightarrow> (uuid \<times> uuid) list" where
  "terminal_candidates now d =
     oldest_tasks (filter (\<lambda>t. terminal_status (t_status t) \<and> t_created t < now - terminal_retention_seconds)
       (tasks d))"

text \<open>Deleting rounds unlinks the files they produced (\<open>SET NULL\<close>); deleting messages is refused
  while a round refers to one (\<open>RESTRICT\<close>) and unlinks \<open>initial_message_id\<close> (\<open>SET NULL\<close>). Both
  columns are only ever assigned a round or message of their own task.\<close>

definition delete_rounds :: "uuid \<Rightarrow> uuid \<Rightarrow> db \<Rightarrow> db" where
  "delete_rounds me tid d =
     (let gone = map r_id (sel_rounds me (\<lambda>r. r_task r = tid) d);
          d1 = d\<lparr>rounds := filter (\<lambda>r. \<not> (r_owner r = me \<and> r_task r = tid)) (rounds d)\<rparr>
      in upd_files me (\<lambda>f. f_task f = tid \<and> (case f_round f of None \<Rightarrow> False | Some r \<Rightarrow> r \<in> set gone))
           (\<lambda>f. f\<lparr>f_round := None\<rparr>) d1)"

definition delete_messages :: "uuid \<Rightarrow> uuid \<Rightarrow> db \<Rightarrow> api_error + db" where
  "delete_messages me tid d =
     (let gone = map m_id (filter (\<lambda>m. m_owner m = me \<and> m_task m = tid) (messages d));
          d1 = d\<lparr>messages := filter (\<lambda>m. \<not> (m_owner m = me \<and> m_task m = tid)) (messages d)\<rparr>
      in if list_ex (\<lambda>r. r_source r \<in> set gone) (rounds d)
         then Inl (IntegrityError ''fk_task_rounds_source_message_id_task_messages'')
         else Inr (upd_tasks me (\<lambda>t. t_id t = tid
                     \<and> (case t_initial t of None \<Rightarrow> False | Some m \<Rightarrow> m \<in> set gone))
                   (\<lambda>t. t\<lparr>t_initial := None\<rparr>) d1))"

text \<open>One task of \<open>sweep_terminal_cleanup\<close>; the output says whether anything was cleaned.\<close>

definition sweep_terminal_task :: "uuid \<times> uuid \<Rightarrow> db \<Rightarrow> api_error + bool \<times> db" where
  "sweep_terminal_task c d =
     (let tid = fst c; me = snd c;
          ev = rowcount (\<lambda>e. e_owner e = me \<and> e_task e = tid) (events d);
          d1 = d\<lparr>events := filter (\<lambda>e. \<not> (e_owner e = me \<and> e_task e = tid)) (events d)\<rparr>;
          rd = length (sel_rounds me (\<lambda>r. r_task r = tid) d1);
          d2 = delete_rounds me tid d1;
          msg = rowcount (\<lambda>m. m_owner m = me \<and> m_task m = tid) (messages d2)
      in bindE (delete_messages me tid d2) (\<lambda>d3.
      case release_reservations tid None d3 of
        (rel, d4) \<Rightarrow>
          (let d5 = (if rel \<noteq> [] then apply_release_accounting tid me rel True d4 else d4)
           in Inr (ev \<noteq> 0 \<or> rd \<noteq> 0 \<or> msg \<noteq> 0 \<or> rel \<noteq> [], d5))))"

section \<open>The loops\<close>

text \<open>Candidates one by one, each in its own transaction: a dropped candidate is skipped, any other
  exception ends the job (what was committed stays committed).\<close>

fun run_batch ::
  "('c \<Rightarrow> db \<Rightarrow> api_error + 'o \<times> db) \<Rightarrow> 'c list \<Rightarrow> db \<Rightarrow> db \<times> ('c \<times> 'o) list \<times> api_error option" where
  "run_batch f [] d = (d, [], None)"
| "run_batch f (c # cs) d =
     (case f c d of
        Inl e \<Rightarrow> if e = CandidateDropped then run_batch f cs d else (d, [], Some e)
      | Inr (x, d') \<Rightarrow> (case run_batch f cs d' of (d'', xs, e) \<Rightarrow> (d'', (c, x) # xs, e)))"

definition dispatch_once ::
  "bool \<Rightarrow> string \<Rightarrow> time \<Rightarrow> db \<Rightarrow> db \<times> (cand \<times> frame list) list \<times> api_error option" where
  "dispatch_once has_executor iid now d =
     (if \<not> has_executor then (d, [], None)
      else run_batch (\<lambda>c. claim_round iid lease_ttl_seconds c now) (dispatch_candidates d) d)"

text \<open>\<open>reclaim_once\<close>: \<open>alive\<close> is the executor's container probe (\<open>None\<close>: it raised); without an
  executor the argument itself is \<open>None\<close>.\<close>

definition reclaim_one ::
  "(uuid \<Rightarrow> bool option) option \<Rightarrow> reclaim_cand \<Rightarrow> db \<Rightarrow> api_error + frame list \<times> db" where
  "reclaim_one alive c d =
     (if rc_state c = RCancelling then
        (case alive of
           None \<Rightarrow> Inl CandidateDropped
         | Some probe \<Rightarrow>
             (case probe (c_task (rc_cand c)) of
                Some False \<Rightarrow> cancel_cancelling_round (rc_cand c) d
              | _ \<Rightarrow> Inl CandidateDropped))
      else reclaim_expired_round (rc_cand c) (rc_lease_owner c) (rc_epoch c) d)"

definition reclaim_once ::
  "(uuid \<Rightarrow> bool option) option \<Rightarrow> time \<Rightarrow> db \<Rightarrow> db \<times> (reclaim_cand \<times> frame list) list \<times> api_error option" where
  "reclaim_once alive now d = run_batch (reclaim_one alive) (reclaim_candidates now d) d"

definition sweep_upload_ttl :: "time \<Rightarrow> db \<Rightarrow> db \<times> ((uuid \<times> uuid) \<times> frame list) list \<times> api_error option" where
  "sweep_upload_ttl now d = run_batch sweep_upload_task (upload_candidates now d) d"

definition sweep_terminal_cleanup :: "time \<Rightarrow> db \<Rightarrow> db \<times> ((uuid \<times> uuid) \<times> bool) list \<times> api_error option" where
  "sweep_terminal_cleanup now d = run_batch sweep_terminal_task (terminal_candidates now d) d"

section \<open>The jobs keep the invariant\<close>

text \<open>What stage 2 knows of a candidate: a round of that id and owner belongs to that task, and the
  task to that owner (identities never change).\<close>

definition cand_ok :: "cand \<Rightarrow> db \<Rightarrow> bool" where
  "cand_ok c d \<longleftrightarrow> (\<forall>r\<in>set (rounds d). r_id r = c_round c \<and> r_owner r = c_owner c \<longrightarrow> r_task r = c_task c)"

lemma round_of_task: "r \<in> set (rounds d) \<Longrightarrow> r \<in> set (rounds_of d (r_task r))"
  by (simp add: rounds_of_def)

lemma active_round_task:
  assumes "good d" and "r \<in> set (rounds d)" and "active_state (r_state r)"
  obtains t where "task_at d (r_task r) = Some t" "t_owner t = r_owner r" "act_of d (r_task r) = [r]"
    "round_ok r"
    "r_state r = RPending \<Longrightarrow> t_status t = Queued \<and> t_pending t = None"
    "r_state r = RRunning \<Longrightarrow> t_status t = Running \<and> t_pending t = None"
    "r_state r = RCancelling \<Longrightarrow> t_status t = Running \<and> t_pending t \<noteq> None \<or> t_status t = Deleted"
proof -
  let ?i = "r_task r"
  have m: "r \<in> set (rounds_of d ?i)" by (rule round_of_task [OF assms(2)])
  then have am: "r \<in> set (act_of d ?i)" using act_of_mem assms(3) by blast
  obtain t where t: "task_at d ?i = Some t"
    using goodD(2) [OF assms(1), of ?i] m by (auto simp: task_good_def split: option.splits)
  note g = good_task [OF assms(1) t]
  have ow: "t_owner t = r_owner r" using g(1) m by (auto simp: owned_def)
  have "length (act_of d ?i) \<le> 1"
  proof -
    have "length (map r_state (act_of d ?i)) \<le> 1" using g(2) by (cases "t_status t") auto
    then show ?thesis by simp
  qed
  then have a: "act_of d ?i = [r]" using am by (cases "act_of d ?i") auto
  show thesis
    by (rule that [OF t ow a g(5) [OF m]]) (use g(2) a in \<open>cases "t_status t"; auto\<close>)+
qed

lemma sel_rounds_mem: "r \<in> set (sel_rounds me P d) \<longleftrightarrow> r \<in> set (rounds d) \<and> r_owner r = me \<and> P r"
  by (auto simp: sel_rounds_def)

lemma same_round:
  assumes "pkeys d" and "r \<in> set (rounds d)" and "x \<in> set (rounds d)" and "r_id x = r_id r"
  shows "x = r"
  using assms distinct_key [of r_id "rounds d" x r] by (simp add: pkeys_def)

text \<open>An update addressed by round identifier touches one row of one task.\<close>

lemma touches_by_id:
  assumes "good d" and "r \<in> set (rounds d)" and "r_owner r = me"
    and "\<And>x. P x \<Longrightarrow> r_id x = r_id r"
    and "\<And>x. r_id (f x) = r_id x \<and> r_owner (f x) = r_owner x \<and> r_task (f x) = r_task x"
  shows "touches me (r_task r) d (upd_rounds me P f d)"
proof (rule touches_upd_rounds [OF touches_refl])
  fix x assume "x \<in> set (rounds d)" "P x"
  then have "x = r" using same_round [OF goodD(1) [OF assms(1)] assms(2)] assms(4) by blast
  then show "r_task x = r_task r" by simp
qed (rule assms(5))

lemma act_by_id:
  assumes "good d" and "r \<in> set (rounds d)" and "active_state (r_state r)" and "r_owner r = me"
    and "\<And>x. P x \<Longrightarrow> r_id x = r_id r" and "P r" and "\<And>x. r_task (f x) = r_task x"
  shows "act_of (upd_rounds me P f d) (r_task r) = (if active_state (r_state (f r)) then [f r] else [])"
proof -
  obtain t where a: "act_of d (r_task r) = [r]"
    using active_round_task [OF assms(1-3)] by metis
  have "x = r" if "x \<in> set (rounds_of d (r_task r))" "P x" for x
  proof -
    have "x \<in> set (rounds d)" using that(1) by (simp add: rounds_of_def)
    then show ?thesis using same_round [OF goodD(1) [OF assms(1)] assms(2)] assms(5) that(2) by blast
  qed
  then have "act_of (upd_rounds me P f d) (r_task r) =
      filter (\<lambda>r. active_state (r_state r)) (upd (\<lambda>r. r_owner r = me \<and> P r) f (act_of d (r_task r)))"
    using assms(3,7) by (intro act_of_upd_rounds) auto
  then show ?thesis using a assms(4,6) by simp
qed

lemma lease_slot_Inr:
  assumes "lease_slot tid u d = Inr d'"
  obtains s where "s \<in> set (slots d)" "\<not> s_leased s"
    "d' = d\<lparr>slots := upd (\<lambda>x. s_no x = s_no s)
        (\<lambda>x. x\<lparr>s_leased := True, s_task := Some tid, s_until := Some u\<rparr>) (slots d)\<rparr>"
proof -
  obtain s ss where s: "sort_key s_no (filter (\<lambda>s. \<not> s_leased s) (slots d)) = s # ss"
    and d': "d' = d\<lparr>slots := upd (\<lambda>x. s_no x = s_no s)
        (\<lambda>x. x\<lparr>s_leased := True, s_task := Some tid, s_until := Some u\<rparr>) (slots d)\<rparr>"
    using assms by (auto simp: lease_slot_def split: list.splits)
  have "s \<in> set (sort_key s_no (filter (\<lambda>s. \<not> s_leased s) (slots d)))" using s by simp
  then have "s \<in> set (slots d) \<and> \<not> s_leased s" by simp
  then show thesis using that d' by blast
qed

lemma leased_after_lease:
  assumes "slots_wf d" and "s \<in> set (slots d)" and "\<not> s_leased s"
    and "slots d' = upd (\<lambda>x. s_no x = s_no s)
        (\<lambda>x. x\<lparr>s_leased := True, s_task := Some tid, s_until := Some u\<rparr>) (slots d)"
  shows "leased_to d' i = leased_to d i + (if i = tid then 1 else 0)" "slots_wf d'"
proof -
  have d: "distinct (map s_no (slots d))" using assms(1) by (simp add: slots_wf_def)
  have key: "x = s" if "x \<in> set (slots d)" "s_no x = s_no s" for x
    using distinct_key [OF d that(1) assms(2)] that(2) by simp
  show "slots_wf d'"
    using assms(1,4) by (auto simp: slots_wf_def map_upd_key)
  show "leased_to d' i = leased_to d i + (if i = tid then 1 else 0)"
  proof (cases "i = tid")
    case False
    then have "leased_to d' i = leased_to d i"
      unfolding leased_to_def assms(4) rowcount_upd
      using key assms(3) by (intro rowcount_cong) auto
    then show ?thesis using False by simp
  next
    case True
    have "rowcount (\<lambda>x. (s_leased x \<and> s_task x = Some tid) \<or> s_no x = s_no s) (slots d)
        = rowcount (\<lambda>x. ((s_leased x \<and> s_task x = Some tid) \<or> s_no x = s_no s) \<and> s_no x = s_no s) (slots d)
        + rowcount (\<lambda>x. ((s_leased x \<and> s_task x = Some tid) \<or> s_no x = s_no s) \<and> s_no x \<noteq> s_no s) (slots d)"
      by (rule rowcount_split)
    also have "rowcount (\<lambda>x. ((s_leased x \<and> s_task x = Some tid) \<or> s_no x = s_no s) \<and> s_no x = s_no s) (slots d)
        = rowcount (\<lambda>x. s_no x = s_no s \<and> True) (slots d)" by (rule rowcount_cong) auto
    also have "\<dots> = 1" using rowcount_key [OF d assms(2), of "\<lambda>_. True"] by simp
    also have "rowcount (\<lambda>x. ((s_leased x \<and> s_task x = Some tid) \<or> s_no x = s_no s) \<and> s_no x \<noteq> s_no s) (slots d)
        = rowcount (\<lambda>x. s_leased x \<and> s_task x = Some tid) (slots d)"
      using key assms(3) by (intro rowcount_cong) auto
    finally have "rowcount (\<lambda>x. (s_leased x \<and> s_task x = Some tid) \<or> s_no x = s_no s) (slots d)
        = leased_to d tid + 1" by (simp add: leased_to_def)
    moreover have "leased_to d' tid = rowcount (\<lambda>x. (s_leased x \<and> s_task x = Some tid) \<or> s_no x = s_no s) (slots d)"
      unfolding leased_to_def assms(4) rowcount_upd by (intro rowcount_cong) auto
    ultimately show ?thesis using True by simp
  qed
qed

lemma inc_running_Inr:
  assumes "inc_running me d = Inr d'"
  obtains u q where "usage d me = Some u" "quotas d me = Some q" "u_running u < q_running q"
    "d' = d\<lparr>usage := (usage d)(me \<mapsto> u\<lparr>u_running := u_running u + 1\<rparr>)\<rparr>"
  using assms by (auto simp: inc_running_def split: option.splits if_splits)


lemma slices_slots [simp]:
  "task_at (d\<lparr>slots := S\<rparr>) i = task_at d i" "find_task u i (d\<lparr>slots := S\<rparr>) = find_task u i d"
  "rounds_of (d\<lparr>slots := S\<rparr>) i = rounds_of d i" "resvs_of (d\<lparr>slots := S\<rparr>) i = resvs_of d i"
  "log_of (d\<lparr>slots := S\<rparr>) i = log_of d i" "msgs_of (d\<lparr>slots := S\<rparr>) i = msgs_of d i"
  "act_of (d\<lparr>slots := S\<rparr>) i = act_of d i" "held_task (d\<lparr>slots := S\<rparr>) i k = held_task d i k"
  by (simp_all add: task_at_def find_task_def rounds_of_def resvs_of_def log_of_def msgs_of_def act_of_def
      held_task_def)

lemma claim_round_ok:
  assumes "good d" and "cand_ok c d" and "claim_round iid ttl c now d = Inr (out, d')"
  shows "ok_step (c_owner c) (c_task c) d d'"
proof -
  let ?me = "c_owner c" and ?rid = "c_round c" and ?i = "c_task c"
  let ?hit = "\<lambda>r. r_id r = ?rid \<and> r_state r = RPending"
  let ?f = "\<lambda>r. r\<lparr>r_state := RRunning, r_lease_owner := Some iid, r_epoch := r_epoch r + 1,
     r_expires := Some (now + ttl), r_attempt := r_attempt r + 1\<rparr>"
  obtain r rs where sel: "sel_rounds ?me ?hit d = r # rs"
    using assms(3) by (auto simp: claim_round_def Let_def split: list.splits)
  then have r: "r \<in> set (rounds d)" "r_owner r = ?me" "r_id r = ?rid" "r_state r = RPending"
    using sel_rounds_mem [of r ?me ?hit d] by auto
  have rt: "r_task r = ?i" using assms(2) r by (auto simp: cand_ok_def)
  obtain t where t: "task_at d ?i = Some t" "t_owner t = ?me" "act_of d ?i = [r]" "round_ok r"
      "t_status t = Queued" "t_pending t = None"
    using active_round_task [OF assms(1) r(1)] r(2,4) rt by (metis active_state.simps(1))
  note g = good_task [OF assms(1) t(1)] and sl = good_slice_ok [OF assms(1) t(1,2)]
  have ti: "t_id t = ?i" using task_at_D [OF t(1)] by simp
  have ft: "find_task ?me ?i d = Some t" using find_task_task_at assms(1) t(1,2) by (auto simp: good_def)
  define d1 where "d1 = upd_rounds ?me ?hit ?f d"
  have ft1: "find_task ?me ?i d1 = Some t" using ft by (simp add: d1_def)
  define d1t where "d1t = upd_tasks ?me (\<lambda>x. t_id x = ?i \<and> t_status x = Queued) (\<lambda>x. x\<lparr>t_status := Running\<rparr>) d1"
  obtain d2 d3 d4 where d2: "insert_resv (new_resv ?i ?me KRunning None 0) d1t = Inr d2"
    and d3: "inc_running ?me d2 = Inr d3" and d4: "lease_slot ?i (now + ttl) d3 = Inr d4"
    and rest: "bindE (alloc_seq ?me ?i 2 d4) (\<lambda>(seq, d5).
            let d6 = add_event ?i ?me seq EStatusChanged (PStatus Running None) None None d5;
                d7 = add_event ?i ?me (seq + 1) ERoundRunning (PRoundAttempt ?rid (r_attempt r + 1)) None (Some ?rid) d6
            in Inr ([status_frame seq Running None], d7)) = Inr (out, d')"
    using assms(3) sel unfolding claim_round_def Let_def d1t_def d1_def by (auto split: if_splits)
  have d2': "d2 = add_resv (new_resv ?i ?me KRunning None 0) d1t" by (rule insert_resv_Inr [OF d2])
  obtain u q where uq: "usage d2 ?me = Some u" and qb: "quotas d2 ?me = Some q" "u_running u < q_running q"
    and d3': "d3 = d2\<lparr>usage := (usage d2)(?me \<mapsto> u\<lparr>u_running := u_running u + 1\<rparr>)\<rparr>"
    using inc_running_Inr [OF d3] by metis
  obtain s where s: "s \<in> set (slots d3)" "\<not> s_leased s"
    and d4': "d4 = d3\<lparr>slots := upd (\<lambda>x. s_no x = s_no s)
        (\<lambda>x. x\<lparr>s_leased := True, s_task := Some ?i, s_until := Some (now + ttl)\<rparr>) (slots d3)\<rparr>"
    by (rule lease_slot_Inr [OF d4])
  let ?t1 = "t\<lparr>t_status := Running\<rparr>"
  have ft4: "find_task ?me ?i d4 = Some ?t1"
    using ft t(2,5) ti by (simp add: d4' d3' d2' d1t_def d1_def)
  define es where "es = [\<lparr>e_task = ?i, e_owner = ?me, e_seq = t_eseq t + 1, e_type = EStatusChanged,
      e_payload = PStatus Running None, e_message = None, e_round = None\<rparr>,
      \<lparr>e_task = ?i, e_owner = ?me, e_seq = t_eseq t + 2, e_type = ERoundRunning,
      e_payload = PRoundAttempt ?rid (r_attempt r + 1), e_message = None, e_round = Some ?rid\<rparr>]"
  define d7 where "d7 = add_event ?i ?me (t_eseq t + 2) ERoundRunning (PRoundAttempt ?rid (r_attempt r + 1)) None (Some ?rid)
     (add_event ?i ?me (t_eseq t + 1) EStatusChanged (PStatus Running None) None None
     (upd_tasks ?me (\<lambda>x. t_id x = ?i) (\<lambda>x. x\<lparr>t_eseq := t_eseq x + 2\<rparr>) d4))"
  have d': "d' = d7"
    using rest ft4 by (auto simp: alloc_seq_Inr_iff Let_def d7_def)
  define t2 where "t2 = ?t1\<lparr>t_eseq := t_eseq t + 2\<rparr>"
  have at: "task_at d7 ?i = Some t2"
    using t(1,2,5) ti by (simp add: d7_def d4' d3' d2' d1t_def d1_def t2_def)
  have led: "resvs d7 = resvs d @ [new_resv ?i ?me KRunning None 0]"
      "usage d7 = (usage d)(?me \<mapsto> u\<lparr>u_running := u_running u + 1\<rparr>)" "pl_used d7 = pl_used d" "usage d ?me = Some u"
    using uq by (simp_all add: d7_def d4' d3' d2' d1t_def d1_def)
  have acct: "acct d7" "exact d \<Longrightarrow> exact d7"
    using acct_add_resv [of d "new_resv ?i ?me KRunning None 0" u d7 "u\<lparr>u_running := u_running u + 1\<rparr>"]
      assms(1) led by (auto simp: good_def)
  have sd: "slots d3 = slots d" by (simp add: d3' d2' d1t_def d1_def)
  have sl7: "slots d7 = upd (\<lambda>x. s_no x = s_no s)
        (\<lambda>x. x\<lparr>s_leased := True, s_task := Some ?i, s_until := Some (now + ttl)\<rparr>) (slots d)"
    by (simp add: d7_def d4' sd)
  note lease = leased_after_lease [OF goodD(4) [OF assms(1)] s(1) [unfolded sd] s(2) sl7]
  have log: "log_of d7 ?i = log_of d ?i @ es" "msgs_of d7 ?i = msgs_of d ?i"
    by (simp_all add: d7_def d4' d3' d2' d1t_def d1_def es_def)
  have T: "touches ?me ?i d d7"
  proof -
    have "touches ?me ?i d d1"
      unfolding d1_def using touches_by_id [OF assms(1) r(1,2), of ?hit ?f] r(3) rt by simp
    then have "touches ?me ?i d d1t" unfolding d1t_def by (intro touches_upd_tasks) auto
    then have "touches ?me ?i d d2" using touches_insert_resv [OF d2] by simp
    then have t3: "touches ?me ?i d d3" unfolding d3' by (intro touches_usage)
    have "leased_to d4 i = leased_to d3 i" if "i \<noteq> ?i" for i
      using lease(1) [of i] that sd by (simp add: leased_to_def d4' sl7)
    then have "touches ?me ?i d3 d4"
      by (simp add: touches_def) (simp add: d4' pkeys_def)
    then have "touches ?me ?i d d4" using t3 touches_trans by blast
    then show ?thesis unfolding d7_def by (intro touches_add_event touches_upd_tasks) auto
  qed
  have rnd: "rounds_of d7 ?i = upd (\<lambda>r. r_owner r = ?me \<and> ?hit r) ?f (rounds_of d ?i)"
    "act_of d7 ?i = act_of d1 ?i"
    by (simp_all add: d7_def d4' d3' d2' d1t_def d1_def)
  have act: "act_of d1 ?i = [?f r]"
    unfolding d1_def using act_by_id [OF assms(1) r(1) _ r(2), of ?hit ?f] r(3,4) rt by simp
  have ro: "\<forall>x\<in>set (rounds_of d7 ?i). r_owner x = ?me \<and> round_ok x"
    using sl unfolding rnd by (auto simp: slice_ok_def round_ok_def)
  have "log_ok t2 (log_of d ?i @ es) (msgs_of d ?i)"
    by (rule log_ok_flip [of t _ _ _ 2]) (use sl in \<open>auto simp: slice_ok_def es_def t2_def upt_rec\<close>)
  moreover have "\<forall>k. held_task d7 ?i k = held_task d ?i k + (if k = KRunning then 1 else 0)"
    "resvs_of d7 ?i = resvs_of d ?i @ [new_resv ?i ?me KRunning None 0]"
    by (simp_all add: d7_def d4' d3' d2' d1t_def d1_def)
  ultimately have tg: "task_good d7 ?i"
    using at log ro act rnd(2) g(1,2,3,6) lease(1) [of ?i] t(2,5,6) ti
    by (auto simp: task_good_def owned_def es_def t2_def)
  have "good d7" by (rule goodI [OF assms(1) T tg acct(1) lease(2)])
  moreover have "within d \<longrightarrow> within d7"
    using qb led within_user [of d ?me u] by (auto simp: within_def d7_def d4' d3' d2' d1t_def d1_def)
  moreover have "\<not> quiet d ?i" using t(1,5) by (simp add: quiet_def)
  ultimately have "ok_step ?me ?i d d7"
    using T acct(2) t(1,5) at log by (auto simp: ok_step_def t2_def evolves_def allowed_flip_def)
  then show ?thesis using d' by simp
qed

text \<open>Two updates of one row, addressed by its identifier, are one.\<close>

lemma upd_rounds_twice:
  assumes "pkeys d" and "r0 \<in> set (rounds d)" and "r_owner r0 = me" and "F r0"
    and "\<And>x. F x \<Longrightarrow> r_id x = r_id r0" and "\<And>x. P x \<Longrightarrow> r_id x = r_id r0" and "P (c r0)"
    and "\<And>x. r_id (c x) = r_id x \<and> r_owner (c x) = r_owner x"
  shows "upd_rounds me P g (upd_rounds me F c d) = upd_rounds me F (\<lambda>r. g (c r)) d"
proof -
  have "upd (\<lambda>r. r_owner r = me \<and> P r) g (upd (\<lambda>r. r_owner r = me \<and> F r) c (rounds d))
      = upd (\<lambda>r. r_owner r = me \<and> F r) (\<lambda>r. g (c r)) (rounds d)"
    unfolding upd_def map_map
  proof (rule map_cong [OF refl])
    fix x assume x: "x \<in> set (rounds d)"
    show "((\<lambda>x. if r_owner x = me \<and> P x then g x else x) \<circ> (\<lambda>x. if r_owner x = me \<and> F x then c x else x)) x
        = (if r_owner x = me \<and> F x then g (c x) else x)"
    proof (cases "x = r0")
      case True
      then show ?thesis using assms(3,4,7,8) by simp
    next
      case False
      then have "r_id x \<noteq> r_id r0" using same_round [OF assms(1,2) x] by blast
      then show ?thesis using assms(5,6) by auto
    qed
  qed
  then show ?thesis by (simp add: upd_rounds_def)
qed

text \<open>A job step that ends one round and releases: shared by every closing transaction.\<close>

lemma close_round_ok:
  assumes "good d" and "r \<in> set (rounds d)" and "active_state (r_state r)" and "r_owner r = me" and "r_task r = i"
    and P: "\<And>x. P x \<Longrightarrow> r_id x = r_id r" "P r"
    and f: "\<And>x. r_id (f x) = r_id x \<and> r_owner (f x) = r_owner x \<and> r_task (f x) = r_task x"
      "\<And>x. x \<in> set (rounds_of d i) \<Longrightarrow> r_owner x = me \<Longrightarrow> P x \<Longrightarrow> round_ok (f x)"
    and t: "task_at d i = Some t"
    and T: "touches me i (upd_rounds me P f d) d5"
    and led: "resvs d5 = resvs d" "usage d5 = usage d" "slots d5 = slots d" "pl_used d5 = pl_used d"
    and rd: "rounds_of d5 i = rounds_of (upd_rounds me P f d) i"
    and at: "task_at d5 i = Some t1" and ev: "evolves t t1" and own: "t_owner t1 = me"
    and log: "log_of d5 i = log_of d i @ es" "\<forall>e\<in>set es. e_owner e = me"
    and msg: "msgs_of d5 i = msgs_of d i @ ms" "\<forall>m\<in>set ms. m_owner m = me"
    and lok: "log_ok t1 (log_of d i @ es) (msgs_of d i @ ms)"
    and ph: "phase_ok (t_status t1) (t_pending t1) (if active_state (r_state (f r)) then [r_state (f r)] else [])
          (if terminal_status (t_status t1) then 0 else held_task d i KActive) 0"
    and nu: "t_status t1 \<noteq> Uploading" and quo: "quotas d5 = quotas d"
  shows "ok_step me i d (release_task_holdings me i d5)"
proof (rule release_ok [OF assms(1) _ t led, where ?t1.0 = t1])
  have "t_owner t = me" using ev own by (simp add: evolves_def)
  note sl = good_slice_ok [OF assms(1) t this]
  have "touches me i d (upd_rounds me P f d)"
    using touches_by_id [OF assms(1,2,4) P(1) f(1)] assms(5) by simp
  then show "touches me i d d5" using T touches_trans by blast
  have ft: "r_task (f x) = r_task x" for x using f(1) by blast
  have "act_of d5 i = act_of (upd_rounds me P f d) i" using rd by (simp add: act_of_rounds_of)
  also have "\<dots> = (if active_state (r_state (f r)) then [f r] else [])"
    using act_by_id [where P = P and f = f, OF assms(1-4) P] assms(5) ft by simp
  finally have "map r_state (act_of d5 i) = (if active_state (r_state (f r)) then [r_state (f r)] else [])"
    by simp
  then show "phase_ok (t_status t1) (t_pending t1) (map r_state (act_of d5 i))
          (if terminal_status (t_status t1) then 0 else held_task d i KActive) 0"
    using ph by simp
  have "\<forall>x\<in>set (rounds_of d5 i). r_owner x = me \<and> round_ok x"
    using sl f unfolding rd by (auto simp: slice_ok_def)
  then show "slice_ok d5 me i t1"
    using sl at own log msg lok by (auto simp: slice_ok_def)
  have "r \<in> set (act_of d i)"
    using assms(2,3,5) by (simp add: act_of_def)
  then show "act_of d i = [] \<Longrightarrow> terminal_status (t_status t1) \<or> t_status t1 = Running \<and> act_of d5 i = []"
    by simp
qed (use ev own log nu quo in \<open>simp_all add: evolves_def\<close>)

lemma reclaim_expired_round_ok:
  assumes "good d" and "cand_ok c d" and "reclaim_expired_round c lo le d = Inr (out, d')"
  shows "ok_step (c_owner c) (c_task c) d d'"
proof -
  let ?me = "c_owner c" and ?rid = "c_round c" and ?i = "c_task c"
  let ?F = "\<lambda>r. r_id r = ?rid \<and> r_state r = RRunning \<and> owns_lease lo le r"
  let ?cl = "\<lambda>r. r\<lparr>r_lease_owner := None, r_expires := None\<rparr>"
  let ?P = "\<lambda>r. r_id r = ?rid \<and> r_lease_owner r = None"
  obtain r rs where sel: "sel_rounds ?me ?F d = r # rs"
    using assms(3) by (auto simp: reclaim_expired_round_def Let_def split: list.splits)
  then have r: "r \<in> set (rounds d)" "r_owner r = ?me" "r_id r = ?rid" "r_state r = RRunning" "owns_lease lo le r"
    using sel_rounds_mem [of r ?me ?F d] by auto
  have rt: "r_task r = ?i" using assms(2) r by (auto simp: cand_ok_def)
  obtain t where t: "task_at d ?i = Some t" "t_owner t = ?me" "act_of d ?i = [r]" "round_ok r"
      "t_status t = Running" "t_pending t = None"
    using active_round_task [OF assms(1) r(1)] r(2,4) rt by (metis active_state.simps(2))
  note g = good_task [OF assms(1) t(1)] and sl = good_slice_ok [OF assms(1) t(1,2)]
  have ti: "t_id t = ?i" using task_at_D [OF t(1)] by simp
  define fl where "fl = (attempt_limit \<le> r_attempt r)"
  define st where "st = (if fl then RFailed else RPending)"
  let ?g = "\<lambda>r. r\<lparr>r_state := st\<rparr>"
  have two: "upd_rounds ?me ?P ?g (upd_rounds ?me ?F ?cl d) = upd_rounds ?me ?F (\<lambda>r. ?g (?cl r)) d"
    by (rule upd_rounds_twice [OF goodD(1) [OF assms(1)] r(1,2)]) (use r in auto)
  define d2 where "d2 = upd_rounds ?me ?F (\<lambda>r. ?g (?cl r)) d"
  define u :: "task_row \<Rightarrow> task_row" where "u = (if fl then (\<lambda>t. t\<lparr>t_status := Failed, t_abort := Some RoundFailed\<rparr>)
                      else (\<lambda>t. t\<lparr>t_status := Queued\<rparr>))"
  have uk: "t_id (u x) = t_id x" "t_owner (u x) = t_owner x" "t_eseq (u x) = t_eseq x" for x
    by (simp_all add: u_def)
  have ft2: "find_task ?me ?i d2 = Some t"
    using find_task_task_at assms(1) t(1,2) by (auto simp: good_def d2_def)
  define e1 where "e1 = (if fl then PStatus Failed (Some RoundFailed) else PStatus Queued None)"
  define ty where "ty = (if fl then ERoundFailed else ERoundQueued)"
  define d5 where "d5 = add_event ?i ?me (t_eseq t + 2) ty (PRoundAttempt ?rid (r_attempt r)) None (Some ?rid)
     (add_event ?i ?me (t_eseq t + 1) EStatusChanged e1 None None
     (upd_tasks ?me (\<lambda>x. t_id x = ?i) (\<lambda>x. x\<lparr>t_eseq := t_eseq x + 2\<rparr>)
       (upd_tasks ?me (\<lambda>t. t_id t = ?i \<and> t_status t = Running) u d2)))"
  have d': "d' = release_task_holdings ?me ?i d5"
  proof (cases "attempt_limit \<le> r_attempt r")
    case True
    then show ?thesis
      using assms(3) sel ft2 t(2,5) ti two
      by (auto simp: reclaim_expired_round_def Let_def alloc_seq_Inr_iff d5_def d2_def fl_def st_def u_def
          e1_def ty_def split: if_splits)
  next
    case False
    then show ?thesis
      using assms(3) sel ft2 t(2,5) ti two
      by (auto simp: reclaim_expired_round_def Let_def alloc_seq_Inr_iff d5_def d2_def fl_def st_def u_def
          e1_def ty_def split: if_splits)
  qed
  define es where "es = [\<lparr>e_task = ?i, e_owner = ?me, e_seq = t_eseq t + 1, e_type = EStatusChanged,
      e_payload = e1, e_message = None, e_round = None\<rparr>,
      \<lparr>e_task = ?i, e_owner = ?me, e_seq = t_eseq t + 2, e_type = ty,
      e_payload = PRoundAttempt ?rid (r_attempt r), e_message = None, e_round = Some ?rid\<rparr>]"
  define t1 where "t1 = (u t)\<lparr>t_eseq := t_eseq t + 2\<rparr>"
  have "log_ok t1 (log_of d ?i @ es) (msgs_of d ?i)"
  proof (cases fl)
    case True
    then show ?thesis
      by (intro log_ok_flip [of t _ _ _ 2])
        (use sl in \<open>auto simp: slice_ok_def es_def t1_def upt_rec e1_def u_def ty_def\<close>)
  next
    case False
    then show ?thesis
      by (intro log_ok_flip [of t _ _ _ 2])
        (use sl in \<open>auto simp: slice_ok_def es_def t1_def upt_rec e1_def u_def ty_def\<close>)
  qed
  then have lok: "log_ok t1 (log_of d ?i @ es) (msgs_of d ?i @ [])" by simp
  have "ok_step ?me ?i d (release_task_holdings ?me ?i d5)"
  proof (rule close_round_ok [OF assms(1) r(1) _ r(2) rt, where P = ?F and f = "\<lambda>r. ?g (?cl r)", OF _ _ _ _ _ t(1)])
    show "touches ?me ?i (upd_rounds ?me ?F (\<lambda>r. ?g (?cl r)) d) d5"
      unfolding d5_def d2_def by (intro touches_intros) (auto simp: uk)
    show "task_at d5 ?i = Some t1" using t(1,2,5) ti by (simp add: d5_def d2_def t1_def uk)
    show "log_ok t1 (log_of d ?i @ es) (msgs_of d ?i @ [])" by (rule lok)
    fix x assume "x \<in> set (rounds_of d ?i)" "r_owner x = ?me" "?F x"
    then have "x = r" using same_round [OF goodD(1) [OF assms(1)] r(1), of x] r(3) by (auto simp: rounds_of_def)
    then show "round_ok (?g (?cl x))" using t(4) by (auto simp: round_ok_def st_def fl_def attempt_limit_def)
  qed (use r t g(2) in \<open>auto simp: d5_def d2_def t1_def es_def u_def st_def evolves_def allowed_flip_def uk\<close>)
  then show ?thesis using d' by simp
qed

lemma cancel_cancelling_round_ok:
  assumes "good d" and "cand_ok c d" and "cancel_cancelling_round c d = Inr (out, d')"
  shows "ok_step (c_owner c) (c_task c) d d'"
proof -
  let ?me = "c_owner c" and ?rid = "c_round c" and ?i = "c_task c"
  let ?P = "\<lambda>r. r_id r = ?rid \<and> r_state r = RCancelling"
  let ?f = "\<lambda>r. r\<lparr>r_state := RCancelled, r_lease_owner := None, r_expires := None\<rparr>"
  obtain r where "r \<in> set (sel_rounds ?me ?P d)"
    using assms(3) by (cases "sel_rounds ?me ?P d") (auto simp: cancel_cancelling_round_def Let_def)
  then have r: "r \<in> set (rounds d)" "r_owner r = ?me" "r_id r = ?rid" "r_state r = RCancelling"
    using sel_rounds_mem by auto
  have rt: "r_task r = ?i" using assms(2) r by (auto simp: cand_ok_def)
  obtain t where t: "task_at d ?i = Some t" "t_owner t = ?me" "act_of d ?i = [r]"
      "t_status t = Running \<and> t_pending t \<noteq> None \<or> t_status t = Deleted"
    using active_round_task [OF assms(1) r(1)] r(2,4) rt by (metis active_state.simps(3))
  note g = good_task [OF assms(1) t(1)] and sl = good_slice_ok [OF assms(1) t(1,2)]
  have ti: "t_id t = ?i" using task_at_D [OF t(1)] by simp
  have ft: "find_task ?me ?i d = Some t" using find_task_task_at assms(1) t(1,2) by (auto simp: good_def)
  define d3 where "d3 = add_event ?i ?me (t_eseq t + 1) ERoundCancelled (PRound ?rid) None (Some ?rid)
     (upd_tasks ?me (\<lambda>x. t_id x = ?i) (\<lambda>x. x\<lparr>t_eseq := t_eseq x + 1\<rparr>) (upd_rounds ?me ?P ?f d))"
  have d': "d' = release_task_holdings ?me ?i d3"
    using assms(3) ft by (auto simp: cancel_cancelling_round_def Let_def alloc_seq_Inr_iff d3_def split: if_splits)
  define es where "es = [\<lparr>e_task = ?i, e_owner = ?me, e_seq = t_eseq t + 1, e_type = ERoundCancelled,
      e_payload = PRound ?rid, e_message = None, e_round = Some ?rid\<rparr>]"
  define t1 where "t1 = t\<lparr>t_eseq := t_eseq t + 1\<rparr>"
  have lok: "log_ok t1 (log_of d ?i @ es) (msgs_of d ?i @ [])"
    by (rule log_ok_append [of t _ _ _ 1]) (use sl in \<open>auto simp: slice_ok_def es_def t1_def\<close>)
  have "ok_step ?me ?i d (release_task_holdings ?me ?i d3)"
  proof (rule close_round_ok [OF assms(1) r(1) _ r(2) rt, where P = ?P and f = ?f, OF _ _ _ _ _ t(1)])
    show "touches ?me ?i (upd_rounds ?me ?P ?f d) d3"
      unfolding d3_def by (intro touches_intros) auto
    show "log_ok t1 (log_of d ?i @ es) (msgs_of d ?i @ [])" by (rule lok)
    fix x assume "x \<in> set (rounds_of d ?i)"
    then show "round_ok (?f x)" using sl by (auto simp: slice_ok_def)
  qed (use r t g(2) ti in \<open>auto simp: d3_def t1_def es_def evolves_def allowed_flip_def\<close>)
  then show ?thesis using d' by simp
qed

lemma n_tasks_find:
  assumes "pkeys d" and "n_tasks me (\<lambda>t. t_id t = i \<and> Q t) d \<noteq> 0"
  obtains t where "task_at d i = Some t" "t_owner t = me" "Q t"
proof -
  obtain t where t: "t \<in> set (tasks d)" "t_owner t = me" "t_id t = i" "Q t"
    using assms(2) by (auto simp: n_tasks_def rowcount_0_iff)
  have "distinct (map t_id (tasks d))" using assms(1) by (simp add: pkeys_def)
  from find_key [OF this t(1), of "\<lambda>_. True"] t(3) have "task_at d i = Some t" by (simp add: task_at_def)
  then show thesis using that t by blast
qed

lemma sweep_upload_task_ok:
  assumes "good d" and "sweep_upload_task c d = Inr (out, d')"
  shows "ok_step (snd c) (fst c) d d'"
proof -
  let ?me = "snd c" and ?i = "fst c"
  have "n_tasks ?me (\<lambda>t. t_id t = ?i \<and> t_status t = Uploading) d \<noteq> 0"
    using assms(2) by (auto simp: sweep_upload_task_def Let_def split: if_splits)
  from n_tasks_find [OF goodD(1) [OF assms(1)] this]
  obtain t where t: "task_at d ?i = Some t" "t_owner t = ?me" "t_status t = Uploading" by metis
  note g = good_task [OF assms(1) t(1)] and sl = good_slice_ok [OF assms(1) t(1,2)]
  have ti: "t_id t = ?i" using task_at_D [OF t(1)] by simp
  have ft: "find_task ?me ?i d = Some t" using find_task_task_at assms(1) t(1,2) by (auto simp: good_def)
  define d3 where "d3 = add_event ?i ?me (t_eseq t + 1) EStatusChanged (PStatus Failed (Some UploadExpired)) None None
     (upd_tasks ?me (\<lambda>x. t_id x = ?i) (\<lambda>x. x\<lparr>t_eseq := t_eseq x + 1\<rparr>)
       (upd_tasks ?me (\<lambda>t. t_id t = ?i \<and> t_status t = Uploading)
         (\<lambda>t. t\<lparr>t_status := Failed, t_abort := Some UploadExpired\<rparr>) d))"
  define t1 where "t1 = t\<lparr>t_status := Failed, t_abort := Some UploadExpired, t_eseq := t_eseq t + 1\<rparr>"
  have d': "d' = release_task_holdings ?me ?i d3"
    using assms(2) ft t(2,3) ti
    by (auto simp: sweep_upload_task_def Let_def alloc_seq_Inr_iff d3_def split: if_splits)
  have "ok_step ?me ?i d (release_task_holdings ?me ?i d3)"
  proof (rule release_ok [OF assms(1) _ t(1) _ _ _ _ _ t(2), where ?t1.0 = t1])
    show "touches ?me ?i d d3" unfolding d3_def by (intro touches_intros) auto
    show "slice_ok d3 ?me ?i t1"
      using sl t ti by (auto simp: slice_ok_def d3_def t1_def intro!: log_ok_flip)
  qed (use g(2) t ti in \<open>auto simp: d3_def t1_def evolves_def allowed_flip_def\<close>)
  then show ?thesis using d' by simp
qed

text \<open>The terminal sweep: what stage 1 saw stays true, since terminal states are absorbing.\<close>

definition sweepable :: "uuid \<times> uuid \<Rightarrow> db \<Rightarrow> bool" where
  "sweepable c d \<longleftrightarrow> (\<exists>t. task_at d (fst c) = Some t \<and> t_owner t = snd c \<and> terminal_status (t_status t))"

lemma release_all:
  assumes "acct d" and "owns_resvs me tid d"
  shows "(case release_reservations tid None d of
      (rel, d1) \<Rightarrow> if rel \<noteq> [] then apply_release_accounting tid me rel True d1 else d1)
    = rel_booking me tid (\<lambda>_. True) d"
proof -
  have e: "apply_release_accounting tid me [] True x = x" for x
    by (simp add: apply_release_accounting_def)
  have "(case release_reservations tid None d of
      (rel, d1) \<Rightarrow> if rel \<noteq> [] then apply_release_accounting tid me rel True d1 else d1)
    = (case release_reservations tid None d of
      (rel, d1) \<Rightarrow> apply_release_accounting tid me rel True d1)"
    by (cases "release_reservations tid None d") (simp add: e)
  also have "\<dots> = book_release tid me (freed_count d tid (\<lambda>_. True) KRunning) (freed_count d tid (\<lambda>_. True) KActive)
       (freed_bytes d tid (\<lambda>_. True)) (mark_released tid (\<lambda>_. True) d)"
    unfolding release_Deleted by (simp add: freed_count_def)
  also have "\<dots> = rel_booking me tid (\<lambda>_. True) d" by (rule book_release_rel [OF assms])
  finally show ?thesis .
qed

lemma touches_rel_booking:
  assumes "acct d" and "owns_resvs me tid d"
  shows "touches me tid d (rel_booking me tid K d)"
proof -
  have "touches me tid d (mark_released tid K d)" by (rule touches_booking_parts)
  then show ?thesis
    unfolding book_release_rel [OF assms, symmetric] using touches_book_release touches_trans by blast
qed


lemma filter_all_out:
  "\<forall>x\<in>set (filter (\<lambda>x. k x = i) xs). u x = me \<Longrightarrow>
   filter (\<lambda>x. k x = i) (filter (\<lambda>x. \<not> (u x = me \<and> k x = i)) xs) = []"
  by (auto simp: filter_empty_conv)

lemma filter_again:
  "filter (\<lambda>x. \<not> (k x = i \<and> u x = me)) (filter (\<lambda>x. \<not> (u x = me \<and> k x = i)) xs)
     = filter (\<lambda>x. \<not> (k x = i \<and> u x = me)) xs"
  by (rule filter_weaken [where P = "\<lambda>x. \<not> (u x = me \<and> k x = i)"]) auto

lemma sweep_terminal_task_ok:
  assumes "good d" and "sweepable c d" and "sweep_terminal_task c d = Inr (out, d')"
  shows "ok_job (snd c) (fst c) d d'"
proof -
  let ?me = "snd c" and ?i = "fst c"
  obtain t where t: "task_at d ?i = Some t" "t_owner t = ?me" "terminal_status (t_status t)"
    using assms(2) by (auto simp: sweepable_def)
  note g = good_task [OF assms(1) t(1)]
  have ti: "t_id t = ?i" using task_at_D [OF t(1)] by simp
  define d1 where "d1 = d\<lparr>events := filter (\<lambda>e. \<not> (e_owner e = ?me \<and> e_task e = ?i)) (events d)\<rparr>"
  define d2 where "d2 = delete_rounds ?me ?i d1"
  obtain d3 where d3: "delete_messages ?me ?i d2 = Inr d3"
    and rest: "d' = (case release_reservations ?i None d3 of
      (rel, d4) \<Rightarrow> if rel \<noteq> [] then apply_release_accounting ?i ?me rel True d4 else d4)"
  proof (cases "delete_messages ?me ?i d2")
    case (Inl e)
    then show thesis
      using assms(3) unfolding sweep_terminal_task_def Let_def d2_def d1_def by simp
  next
    case (Inr d3)
    obtain rel d4 where "release_reservations ?i None d3 = (rel, d4)" by force
    then show thesis
      using that [OF Inr] assms(3) Inr unfolding sweep_terminal_task_def Let_def d2_def d1_def by simp
  qed
  define gone where "gone = map m_id (filter (\<lambda>m. m_owner m = ?me \<and> m_task m = ?i) (messages d2))"
  define hit :: "task_row \<Rightarrow> bool" where "hit x \<longleftrightarrow> (case t_initial x of None \<Rightarrow> False | Some m \<Rightarrow> m \<in> set gone)" for x
  have d3': "d3 = upd_tasks ?me (\<lambda>t. t_id t = ?i \<and> hit t) (\<lambda>t. t\<lparr>t_initial := None\<rparr>)
      (d2\<lparr>messages := filter (\<lambda>m. \<not> (m_owner m = ?me \<and> m_task m = ?i)) (messages d2)\<rparr>)"
    using d3 unfolding delete_messages_def Let_def gone_def [symmetric] hit_def
    by (simp split: if_splits)
  have led: "resvs d3 = resvs d" "usage d3 = usage d" "slots d3 = slots d" "pl_used d3 = pl_used d"
    by (simp_all add: d3' d2_def d1_def delete_rounds_def Let_def)
  have T1: "touches ?me ?i d d1"
    by (simp add: touches_def) (simp add: d1_def filter_again [simplified] pkeys_def leased_to_def)
  have T2: "touches ?me ?i d d2"
  proof -
    let ?x = "d1\<lparr>rounds := filter (\<lambda>r. \<not> (r_owner r = ?me \<and> r_task r = ?i)) (rounds d1)\<rparr>"
    have "touches ?me ?i d1 ?x"
      by (simp add: touches_def) (simp add: filter_again [simplified] pkeys_def leased_to_def distinct_map_filter)
    then have "touches ?me ?i d ?x" using T1 touches_trans by blast
    then show ?thesis unfolding d2_def delete_rounds_def Let_def by (intro touches_upd_files) auto
  qed
  have T3: "touches ?me ?i d d3"
  proof -
    let ?x = "d2\<lparr>messages := filter (\<lambda>m. \<not> (m_owner m = ?me \<and> m_task m = ?i)) (messages d2)\<rparr>"
    have "touches ?me ?i d2 ?x"
      by (simp add: touches_def) (simp add: filter_again [simplified] pkeys_def leased_to_def)
    then have "touches ?me ?i d ?x" using T2 touches_trans by blast
    then show ?thesis unfolding d3' by (intro touches_upd_tasks) auto
  qed
  have ow: "owned d ?i ?me" using g(1) t(2) by simp
  have tabs: "rounds d3 = filter (\<lambda>r. \<not> (r_owner r = ?me \<and> r_task r = ?i)) (rounds d)"
    "events d3 = filter (\<lambda>e. \<not> (e_owner e = ?me \<and> e_task e = ?i)) (events d)"
    "messages d3 = filter (\<lambda>m. \<not> (m_owner m = ?me \<and> m_task m = ?i)) (messages d)"
    by (simp_all add: d3' d2_def d1_def delete_rounds_def Let_def)
  have ow': "\<forall>x\<in>set (filter (\<lambda>x. r_task x = ?i) (rounds d)). r_owner x = ?me"
    "\<forall>x\<in>set (filter (\<lambda>x. e_task x = ?i) (events d)). e_owner x = ?me"
    "\<forall>x\<in>set (filter (\<lambda>x. m_task x = ?i) (messages d)). m_owner x = ?me"
    using ow unfolding owned_def rounds_of_def log_of_def msgs_of_def by blast+
  have empty: "rounds_of d3 ?i = []" "log_of d3 ?i = []" "msgs_of d3 ?i = []"
    unfolding rounds_of_def log_of_def msgs_of_def tabs by (rule filter_all_out, rule ow')+
  define t1 where "t1 = (if hit t then t\<lparr>t_initial := None\<rparr> else t)"
  have at: "task_at d3 ?i = Some t1"
  proof -
    have "task_at d2 ?i = Some t"
      using t(1) by (simp add: d2_def d1_def delete_rounds_def Let_def task_at_def)
    then have "find (\<lambda>t. t_id t = ?i) (tasks d2) = Some t" by (simp add: task_at_def)
    then show ?thesis using t(2) ti by (auto simp: d3' t1_def task_at_def find_upd)
  qed
  have t1: "t_status t1 = t_status t" "t_pending t1 = t_pending t" "t_owner t1 = ?me" "t_eseq t1 = t_eseq t"
    "evolves t t1"
    using t(2) by (auto simp: t1_def evolves_def allowed_flip_def)
  have a3: "acct d3" using acct_cong [OF led(1,2,4)] assms(1) by (simp add: good_def)
  have o3: "owns_resvs ?me ?i d3"
    using ow led(1) by (auto simp: owned_def owns_resvs_def resvs_of_def)
  let ?d = "rel_booking ?me ?i (\<lambda>_. True) d3"
  have d': "d' = ?d" using rest release_all [OF a3 o3] by simp
  have T: "touches ?me ?i d ?d" using T3 touches_rel_booking [OF a3 o3] touches_trans by blast
  have nr: "held_task d ?i KRunning = 0" "held_task d ?i KActive = 0" "t_pending t1 \<in> {None, Some Deleted}"
    "t_status t1 = Deleted \<or> t_pending t1 = None"
    using g(2) t(3) t1(1,2) by (cases "t_status t"; auto)+
  have "held_task d3 ?i k = held_task d ?i k" for k using led(1) by (simp add: held_task_def)
  then have "slots ?d = slots d"
    using slots_rel_booking [OF a3 o3, of "\<lambda>_. True"] nr(1) led(3) by (simp add: freed_count_def)
  then have sl: "leased_to ?d ?i = 0" "slots_wf ?d"
    using g(3) nr(1) goodD(4) [OF assms(1)] by (simp_all add: leased_to_def slots_wf_def)
  have "0 < t_eseq t"
    using g(4) t(3) by (cases "t_eseq t") (auto simp: log_ok_def)
  then have lok: "log_ok t1 [] []" using t1(4) by (auto simp: log_ok_def intro!: exI [of _ "t_eseq t"])
  have ph: "phase_ok (t_status t1) (t_pending t1) [] 0 0"
    using nr(3,4) t(3) t1(1) by (cases "t_status t1") auto
  have rv: "\<forall>v\<in>set (resvs_of ?d ?i). v_user v = ?me \<and> v_state v \<noteq> Consumed"
  proof
    fix v assume "v \<in> set (resvs_of ?d ?i)"
    then obtain w where w: "w \<in> set (resvs_of d3 ?i)" "v_user v = v_user w"
        "v_state v = v_state w \<or> v_state v = Released"
      using resvs_of_rel_booking by metis
    then have "w \<in> set (resvs_of d ?i)" by (simp add: resvs_of_def led(1))
    then show "v_user v = ?me \<and> v_state v \<noteq> Consumed"
      using g(6) w ow by (auto simp: owned_def)
  qed
  have "task_good ?d ?i"
    using at empty t1(1,3) lok ph rv sl(1) t(3)
    by (auto simp: task_good_def owned_def act_of_rounds_of)
  from goodI [OF assms(1) T this acct_rel_booking [OF a3 o3] sl(2)] have "good ?d" .
  moreover have "exact d \<longrightarrow> exact ?d"
    using exact_rel_booking [OF a3 _ o3] exact_cong [OF led(1,2,4)] by simp
  moreover have "quotas d3 = quotas d" by (simp add: d3' d2_def d1_def delete_rounds_def Let_def)
  then have "within d \<longrightarrow> within ?d"
    using within_rel_booking [of d3] within_cong [OF led(2) _ led(4) touches_pl_max [OF T3]] by simp
  ultimately show ?thesis using d' T at t(1,3) t1(1,5) by (simp add: ok_job_def quiet_def)
qed

section \<open>The jobs meet the contract\<close>

interpretation claim: task_transaction
  "\<lambda>(iid, ttl, now, c). claim_round iid ttl c now" "\<lambda>(_, _, _, c). c_owner c" "\<lambda>(_, _, _, c). c_task c"
  "\<lambda>(_, _, _, c). cand_ok c"
  by (rule task_transactionI) (use claim_round_ok in \<open>auto split: prod.splits\<close>)

interpretation reclaim: task_transaction
  "\<lambda>(c, lo, le). reclaim_expired_round c lo le" "\<lambda>(c, _). c_owner c" "\<lambda>(c, _). c_task c" "\<lambda>(c, _). cand_ok c"
  by (rule task_transactionI) (use reclaim_expired_round_ok in \<open>auto split: prod.splits\<close>)

interpretation cancel: task_transaction cancel_cancelling_round c_owner c_task cand_ok
  by (rule task_transactionI) (rule cancel_cancelling_round_ok)

interpretation upload_sweep: task_transaction sweep_upload_task snd fst "\<lambda>_ _. True"
  by (rule task_transactionI) (rule sweep_upload_task_ok)

interpretation terminal_sweep: job_transaction sweep_terminal_task snd fst sweepable
  by unfold_locales (rule sweep_terminal_task_ok)

end
