(* ===== verification/Task_Executor.thy ===== *)
theory Task_Executor
  imports Task_Dispatcher
begin

text \<open>
  The write transactions of the round executor (\<open>backend/v2/task_executor.py\<close>): lease renewal, fact
  frames, settle, the hard deadline, the kill-switch terminator (and its twin, the suspension
  cascade of \<open>admin_user_service.py\<close>), the reconciliation of rounds-less running tasks and the
  account-deletion hook. Every write of the execution chain carries the lease fence
  \<open>lease_owner = iid AND lease_epoch = epoch AND state = 'running'\<close>.
\<close>

section \<open>The lease fence\<close>

record round_ctx =
  x_task :: uuid
  x_owner :: uuid
  x_round :: uuid
  x_epoch :: nat
  x_iid :: string

definition fenced :: "round_ctx \<Rightarrow> round_row \<Rightarrow> bool" where
  "fenced x r \<longleftrightarrow> r_id r = x_round x \<and> r_lease_owner r = Some (x_iid x) \<and> r_epoch r = x_epoch x
     \<and> r_state r = RRunning"

text \<open>\<open>run_pending\<close>: the running rounds this instance claimed for a notified task, then the recheck
  of each in the owner's session.\<close>

definition scan_claimed :: "string \<Rightarrow> uuid \<Rightarrow> db \<Rightarrow> round_ctx list" where
  "scan_claimed iid tid d =
     map (\<lambda>r. \<lparr>x_task = tid, x_owner = r_owner r, x_round = r_id r, x_epoch = r_epoch r, x_iid = iid\<rparr>)
       (filter (\<lambda>r. r_task r = tid \<and> r_lease_owner r = Some iid \<and> r_state r = RRunning) (rounds d))"

definition round_recheck :: "round_ctx \<Rightarrow> db \<Rightarrow> bool" where
  "round_recheck x d \<longleftrightarrow> sel_rounds (x_owner x) (fenced x) d \<noteq> []"

text \<open>One renewal: \<open>False\<close> means the fence failed and the renewal loop ends.\<close>

definition renew :: "round_ctx \<Rightarrow> int \<Rightarrow> time \<Rightarrow> db \<Rightarrow> api_error + bool \<times> db" where
  "renew x ttl now d =
     (if sel_rounds (x_owner x) (fenced x) d = [] then Inr (False, d)
      else
        (let d1 = upd_rounds (x_owner x) (fenced x) (\<lambda>r. r\<lparr>r_expires := Some (now + ttl)\<rparr>) d
         in Inr (True, d1\<lparr>slots := upd (\<lambda>s. s_task s = Some (x_task x) \<and> s_leased s)
                        (\<lambda>s. s\<lparr>s_until := Some (now + ttl)\<rparr>) (slots d1)\<rparr>)))"

section \<open>Facts\<close>

text \<open>\<open>_persist_fact\<close>, inside the transaction: \<open>None\<close> when the fence failed.\<close>

definition persist_fact_tx ::
  "round_ctx \<Rightarrow> author \<Rightarrow> pystr \<Rightarrow> uuid \<Rightarrow> db \<Rightarrow> api_error + (uuid \<times> nat) option \<times> db" where
  "persist_fact_tx x a content mid d =
     (if sel_rounds (x_owner x) (fenced x) d = [] then Inr (None, d)
      else
        bindE (alloc_seq (x_owner x) (x_task x) 1
                (upd_rounds (x_owner x) (fenced x) (\<lambda>r. r\<lparr>r_expires := r_expires r\<rparr>) d)) (\<lambda>(seq, d1).
        let d2 = add_message mid (x_task x) (x_owner x) seq a content d1;
            d3 = add_event (x_task x) (x_owner x) seq EMessageSaved (PMessage mid seq a)
                   (Some mid) (Some (x_round x)) d2
        in Inr (Some (mid, seq), d3)))"

text \<open>The caller swallows exceptions; an assistant text that was not saved is kept for \<open>settle\<close>.
  Output: the fact, and the text kept.\<close>

definition persist_fact ::
  "round_ctx \<Rightarrow> author \<Rightarrow> pystr \<Rightarrow> uuid \<Rightarrow> db \<Rightarrow> ((uuid \<times> nat) option \<times> pystr option) \<times> db" where
  "persist_fact x a content mid d =
     (case persist_fact_tx x a content mid d of
        Inl _ \<Rightarrow> ((None, if a = Assistant then Some content else None), d)
      | Inr (f, d') \<Rightarrow> ((f, None), d'))"

text \<open>\<open>_persist_tool\<close>: an erroneous result is stored with a prefix.\<close>

definition tool_content :: "pystr \<Rightarrow> pystr \<Rightarrow> bool \<Rightarrow> pystr" where
  "tool_content tool_nm result is_error =
     (if is_error then pystr_of ''[tool_error] '' @ tool_nm @ pystr_of '': '' @ result else result)"

section \<open>Settle\<close>

text \<open>\<open>get_provider_row\<close> and \<open>resolve_task_provider\<close> with a given provider identifier
  (\<open>provider_service.py\<close>): \<open>(provider, catalog, model, key_version)\<close>.\<close>

definition get_provider_row :: "uuid \<Rightarrow> raw_id \<Rightarrow> db \<Rightarrow> api_error + provider_row" where
  "get_provider_row me pid d =
     bindE (parse_id pid) (\<lambda>p.
     case find (\<lambda>r. p_user r = me \<and> p_id r = p \<and> p_active r) (providers d) of
       None \<Rightarrow> Inl (HttpDetail ''NOT_FOUND'' 404)
     | Some r \<Rightarrow> Inr r)"

definition resolve_default_row :: "uuid \<Rightarrow> db \<Rightarrow> api_error + provider_row" where
  "resolve_default_row me d =
     (case find (\<lambda>r. p_user r = me \<and> p_default r \<and> p_active r) (providers d) of
        None \<Rightarrow> Inl (app_error PROVIDER_NOT_CONFIGURED 400)
      | Some r \<Rightarrow> Inr r)"

definition resolve_task_provider ::
  "uuid \<Rightarrow> raw_id option \<Rightarrow> db \<Rightarrow> api_error + (uuid \<times> uuid option \<times> pystr \<times> int)" where
  "resolve_task_provider me pid d =
     bindE (case pid of Some p \<Rightarrow> get_provider_row me p d | None \<Rightarrow> resolve_default_row me d)
       (\<lambda>r. Inr (p_id r, p_catalog r, p_model r, p_keyver r))"

definition provider_revoked :: "uuid \<Rightarrow> task_row \<Rightarrow> db \<Rightarrow> bool" where
  "provider_revoked me t d =
     (case resolve_task_provider me (Some (Uuid (t_provider t))) d of
        Inl _ \<Rightarrow> True
      | Inr (_, _, _, v) \<Rightarrow> v \<noteq> t_keyver t)"

definition settle_pending :: "round_ctx \<Rightarrow> pystr option \<Rightarrow> uuid \<Rightarrow> db \<Rightarrow> api_error + db" where
  "settle_pending x pending mid d =
     (case pending of
        None \<Rightarrow> Inr d
      | Some content \<Rightarrow>
          bindE (alloc_seq (x_owner x) (x_task x) 1 d) (\<lambda>(seq, d1).
          let d2 = add_message mid (x_task x) (x_owner x) seq Assistant content d1
          in Inr (add_event (x_task x) (x_owner x) seq EMessageSaved (PMessage mid seq Assistant)
                    (Some mid) (Some (x_round x)) d2)))"

text \<open>\<open>settle\<close>: \<open>False\<close> when the fence failed and nothing was written.\<close>

definition settle ::
  "round_ctx \<Rightarrow> pystr option \<Rightarrow> string \<Rightarrow> (string \<times> nat) list \<Rightarrow> uuid \<Rightarrow> db \<Rightarrow> api_error + bool \<times> db" where
  "settle x pending finish used mid d =
     (let me = x_owner x; tid = x_task x
      in case sel_rounds me (fenced x) d of
           [] \<Rightarrow> Inr (False, d)
         | r # _ \<Rightarrow>
           bindE (settle_pending x pending mid
                    (upd_rounds me (fenced x) (\<lambda>r. r\<lparr>r_state := RSettled\<rparr>) d)) (\<lambda>d1.
           bindE (alloc_seq me tid 1 d1) (\<lambda>(seq, d2).
           let d3 = add_event tid me seq ERoundSettled
                      (PRoundSettled (x_round x) (r_attempt r) finish used) None (Some (x_round x)) d2
           in case find_task me tid d3 of
                None \<Rightarrow> Inl NoResultFound
              | Some t \<Rightarrow>
                (let rvk = provider_revoked me t d3;
                     terminal = (if rvk then Aborted else Ready);
                     reason = (if rvk then Some ProviderKeyRevoked else None);
                     running = (\<lambda>t. t_id t = tid \<and> t_status t = Running)
                 in bindE (if n_tasks me running d3 \<noteq> 0
                      then bindE (alloc_seq me tid 1 (upd_tasks me running
                             (\<lambda>t. t\<lparr>t_status := terminal, t_abort := reason\<rparr>) d3)) (\<lambda>(seq_t, d4).
                           Inr (add_event tid me seq_t EStatusChanged (PStatus terminal reason) None None d4))
                      else Inr d3) (\<lambda>d5.
                    Inr (True, release_task_holdings me tid d5))))))"

section \<open>The hard deadline\<close>

text \<open>The write part of \<open>_enforce_round_deadline\<close>; the middle case commits a failed round alone.\<close>

definition enforce_round_deadline :: "round_ctx \<Rightarrow> db \<Rightarrow> api_error + frame list \<times> db" where
  "enforce_round_deadline x d =
     (let me = x_owner x; tid = x_task x
      in case sel_rounds me (fenced x) d of
           [] \<Rightarrow> Inr ([], d)
         | r # _ \<Rightarrow>
           (let d1 = upd_rounds me (fenced x)
                  (\<lambda>r. r\<lparr>r_state := RFailed, r_lease_owner := None, r_expires := None\<rparr>) d;
                running = (\<lambda>t. t_id t = tid \<and> t_status t = Running)
            in if n_tasks me running d1 = 0 then Inr ([], d1)
               else
            bindE (alloc_seq me tid 2 (upd_tasks me running
                (\<lambda>t. t\<lparr>t_status := Failed, t_abort := Some RoundFailed, t_pending := None\<rparr>) d1)) (\<lambda>(seq, d2).
            let d3 = add_event tid me seq EStatusChanged (PStatus Failed (Some RoundFailed)) None None d2;
                d4 = add_event tid me (seq + 1) ERoundFailed (PRoundAttempt (x_round x) (r_attempt r))
                       None (Some (x_round x)) d3
            in Inr ([status_frame seq Failed (Some RoundFailed), done_frame ''error''],
                    release_task_holdings me tid d4))))"

section \<open>Kill switch and suspension\<close>

text \<open>The shared body of \<open>_terminate_one\<close> (reason \<open>tool_revoked\<close>) and \<open>_suspend_one_task\<close>
  (\<open>admin_suspended\<close>). Output: the cancelled rounds, or \<open>None\<close> when nothing was flipped.\<close>

definition abort_active ::
  "abort_reason \<Rightarrow> uuid \<Rightarrow> uuid \<Rightarrow> db \<Rightarrow> api_error + (uuid list option \<times> frame list) \<times> db" where
  "abort_active reason tid me d =
     (case find_task me tid d of
        None \<Rightarrow> Inr ((None, []), d)
      | Some t \<Rightarrow>
          if t_status t \<notin> {Queued, Running} then Inr ((None, []), d)
          else
            (let hit = (\<lambda>r. r_task r = tid \<and> active_state (r_state r));
                 cancelled = map r_id (sel_rounds me hit d);
                 d1 = upd_rounds me hit
                   (\<lambda>r. r\<lparr>r_state := RCancelled, r_lease_owner := None, r_expires := None\<rparr>) d;
                 live = (\<lambda>t. t_id t = tid \<and> t_status t \<in> {Queued, Running})
             in if n_tasks me live d1 = 0 then Inr ((None, []), d1)
                else
             bindE (alloc_seq me tid (1 + length cancelled) (upd_tasks me live
                 (\<lambda>t. t\<lparr>t_status := Aborted, t_abort := Some reason, t_pending := None\<rparr>) d1)) (\<lambda>(seq, d2).
             let d3 = add_event tid me seq EStatusChanged (PStatus Aborted (Some reason)) None None d2;
                 d4 = fold (\<lambda>(k, rid). add_event tid me (seq + k) ERoundCancelled
                              (PRoundReason rid reason) None (Some rid)) (enumerate 1 cancelled) d3
             in Inr ((Some cancelled,
                      status_frame seq Aborted (Some reason) # map (\<lambda>_. done_frame ''aborted'') cancelled),
                     release_task_holdings me tid d4))))"

definition terminate_one :: "uuid \<Rightarrow> uuid \<Rightarrow> db \<Rightarrow> api_error + (uuid list option \<times> frame list) \<times> db" where
  "terminate_one tid me = abort_active ToolRevoked tid me"

definition suspend_one_task :: "uuid \<Rightarrow> uuid \<Rightarrow> db \<Rightarrow> api_error + (uuid list option \<times> frame list) \<times> db" where
  "suspend_one_task tid me = abort_active AdminSuspended tid me"

text \<open>Stage 1 of the three callers: tasks of revisions that use a tool, tasks that mounted an MCP
  server, tasks of a user.\<close>

definition terminator_candidates :: "string \<Rightarrow> string \<Rightarrow> db \<Rightarrow> (uuid \<times> uuid) list" where
  "terminator_candidates tool version d =
     oldest_tasks (filter (\<lambda>t. t_status t \<in> {Queued, Running}
        \<and> list_ex (\<lambda>(rv, n, v). rv = t_revision t \<and> n = tool \<and> v = version) (rev_tools d)) (tasks d))"

definition mcp_terminator_candidates :: "uuid \<Rightarrow> db \<Rightarrow> (uuid \<times> uuid) list" where
  "mcp_terminator_candidates sid d =
     oldest_tasks (filter (\<lambda>t. t_status t \<in> {Queued, Running}
        \<and> (case t_mcp t of None \<Rightarrow> False | Some l \<Rightarrow> list_ex (\<lambda>m. mref_server m = sid) l)) (tasks d))"

definition suspend_candidates :: "uuid \<Rightarrow> db \<Rightarrow> (uuid \<times> uuid) list" where
  "suspend_candidates u d =
     oldest_tasks (filter (\<lambda>t. t_owner t = u \<and> t_status t \<in> {Queued, Running}) (tasks d))"

section \<open>Reconciliation\<close>

text \<open>Running tasks with a terminal intent and no active round.\<close>

definition pending_terminal_candidates :: "db \<Rightarrow> (uuid \<times> uuid \<times> status) list" where
  "pending_terminal_candidates d =
     List.map_filter (\<lambda>t. if t_status t = Running \<and> \<not> list_ex (\<lambda>r. r_task r = t_id t \<and> active_state (r_state r)) (rounds d)
        then map_option (\<lambda>p. (t_id t, t_owner t, p)) (t_pending t) else None) (tasks d)"

definition reconcile_one :: "uuid \<times> uuid \<times> status \<Rightarrow> db \<Rightarrow> api_error + frame list \<times> db" where
  "reconcile_one c d =
     (case c of (tid, me, terminal) \<Rightarrow>
       (let reason = (if terminal = Aborted then Some UserCancel else None);
            hit = (\<lambda>t. t_id t = tid \<and> t_status t = Running \<and> t_pending t = Some terminal)
        in if n_tasks me hit d = 0 then Inr ([], d)
           else
           bindE (alloc_seq me tid 1 (upd_tasks me hit
               (\<lambda>t. t\<lparr>t_status := terminal, t_abort := reason, t_pending := None\<rparr>) d)) (\<lambda>(seq, d1).
           let d2 = add_event tid me seq EStatusChanged (PStatus terminal reason) None None d1
           in Inr ([status_frame seq terminal reason], release_task_holdings me tid d2))))"

section \<open>Account deletion\<close>

text \<open>\<open>DELETE FROM tasks WHERE owner_id = ..\<close> with its cascades (and \<open>SET NULL\<close> on the slots).\<close>

definition purge_tasks :: "uuid \<Rightarrow> db \<Rightarrow> db" where
  "purge_tasks me d =
     (let gone = map t_id (filter (\<lambda>t. t_owner t = me) (tasks d))
      in d\<lparr>tasks := filter (\<lambda>t. t_owner t \<noteq> me) (tasks d),
           rounds := filter (\<lambda>r. r_task r \<notin> set gone) (rounds d),
           events := filter (\<lambda>e. e_task e \<notin> set gone) (events d),
           messages := filter (\<lambda>m. m_task m \<notin> set gone) (messages d),
           files := filter (\<lambda>f. f_task f \<notin> set gone) (files d),
           resvs := filter (\<lambda>v. v_task v \<notin> set gone) (resvs d),
           slots := upd (\<lambda>s. case s_task s of None \<Rightarrow> False | Some i \<Rightarrow> i \<in> set gone)
                      (\<lambda>s. s\<lparr>s_task := None\<rparr>) (slots d)\<rparr>)"

definition terminate_tasks_hook :: "uuid \<Rightarrow> db \<Rightarrow> db" where
  "terminate_tasks_hook me d =
     (let ids = map t_id (filter (\<lambda>t. t_owner t = me) (tasks d))
      in if ids = [] then d
         else
           (let d1 = upd_rounds me (\<lambda>r. active_state (r_state r))
                  (\<lambda>r. r\<lparr>r_state := RCancelled, r_lease_owner := None, r_expires := None\<rparr>) d;
                d2 = upd_tasks me (\<lambda>t. t_status t \<noteq> Deleted) (\<lambda>t. t\<lparr>t_status := Deleted, t_pending := None\<rparr>) d1
            in purge_tasks me (fold (release_task_holdings me) ids d2)))"

section \<open>The executor keeps the invariant\<close>

definition ctx_ok :: "round_ctx \<Rightarrow> db \<Rightarrow> bool" where
  "ctx_ok x d \<longleftrightarrow> (\<forall>r\<in>set (rounds d). r_id r = x_round x \<and> r_owner r = x_owner x \<longrightarrow> r_task r = x_task x)"

text \<open>A fence that holds identifies the one running round of a running task.\<close>

lemma fenced_round:
  assumes "good d" and "ctx_ok x d" and "r \<in> set (sel_rounds (x_owner x) (fenced x) d)"
  obtains t where "r \<in> set (rounds d)" "r_owner r = x_owner x" "r_id r = x_round x" "r_state r = RRunning"
    "fenced x r" "r_task r = x_task x" "task_at d (x_task x) = Some t" "t_owner t = x_owner x"
    "act_of d (x_task x) = [r]" "round_ok r" "t_status t = Running" "t_pending t = None"
    "find_task (x_owner x) (x_task x) d = Some t" "t_id t = x_task x"
proof -
  have r: "r \<in> set (rounds d)" "r_owner r = x_owner x" "fenced x r" using assms(3) sel_rounds_mem by auto
  then have f: "r_id r = x_round x" "r_state r = RRunning" by (auto simp: fenced_def)
  have rt: "r_task r = x_task x" using assms(2) r f by (auto simp: ctx_ok_def)
  obtain t where t: "task_at d (x_task x) = Some t" "t_owner t = x_owner x" "act_of d (x_task x) = [r]"
      "round_ok r" "t_status t = Running" "t_pending t = None"
    using active_round_task [OF assms(1) r(1)] r(2) f rt by (metis active_state.simps(2))
  have "find_task (x_owner x) (x_task x) d = Some t"
    using find_task_task_at assms(1) t(1,2) by (auto simp: good_def)
  moreover have "t_id t = x_task x" using task_at_D [OF t(1)] by simp
  ultimately show thesis using that r f rt t by blast
qed

lemma sel_rounds_Cons:
  assumes "sel_rounds me P d \<noteq> []"
  obtains r where "r \<in> set (sel_rounds me P d)"
  using assms by (cases "sel_rounds me P d") auto

lemma fenced_id: "r \<in> set (sel_rounds me (fenced x) d) \<Longrightarrow> fenced x y \<Longrightarrow> r_id y = r_id r"
  by (auto simp: sel_rounds_def fenced_def)

text \<open>Moving the expiry of the slots is invisible to the invariant.\<close>

lemma ok_step_slots_until:
  assumes "ok_step me i d d1"
  shows "ok_step me i d (d1\<lparr>slots := upd P (\<lambda>s. s\<lparr>s_until := u\<rparr>) (slots d1)\<rparr>)" (is "ok_step me i d ?e")
proof -
  have l: "leased_to ?e j = leased_to d1 j" for j
    by (simp add: leased_to_def) (rule rowcount_upd_frame, simp)
  have "touches me i d1 ?e"
    by (simp add: touches_def l) (simp add: pkeys_def)
  then have T: "touches me i d ?e" using assms touches_trans by (auto simp: ok_step_def)
  have "task_good ?e j = task_good d1 j" for j
    using l [of j] by (simp add: task_good_def owned_def split: option.splits)
  moreover have "slots_wf ?e = slots_wf d1" by (auto simp: slots_wf_def map_upd_key)
  moreover have "acct ?e = acct d1" by (rule acct_cong) simp_all
  moreover have "exact ?e = exact d1" by (rule exact_cong) simp_all
  moreover have "pkeys ?e = pkeys d1" by (simp add: pkeys_def)
  moreover have "within ?e = within d1" by (simp add: within_def)
  moreover have "quiet ?e i = quiet d1 i" by (simp add: quiet_def split: option.split)
  ultimately show ?thesis using assms T by (simp add: ok_step_def good_def)
qed

lemma renew_ok:
  assumes "good d" and "ctx_ok x d" and "renew x ttl now d = Inr (out, d')"
  shows "ok_step (x_owner x) (x_task x) d d'"
proof (cases "sel_rounds (x_owner x) (fenced x) d = []")
  case True
  then show ?thesis using assms by (simp add: renew_def ok_step_refl)
next
  case False
  let ?me = "x_owner x" and ?i = "x_task x"
  let ?f = "\<lambda>r. r\<lparr>r_expires := Some (now + ttl)\<rparr>"
  obtain r where rm: "r \<in> set (sel_rounds ?me (fenced x) d)" by (rule sel_rounds_Cons [OF False])
  from fenced_round [OF assms(1,2) rm] obtain t where
    r: "r \<in> set (rounds d)" "r_owner r = ?me" "r_state r = RRunning" "fenced x r" "r_task r = ?i"
    and t: "task_at d ?i = Some t" "t_owner t = ?me" "act_of d ?i = [r]" "t_status t = Running" "t_pending t = None"
    by metis
  note sl = good_slice_ok [OF assms(1) t(1,2)]
  let ?d1 = "upd_rounds ?me (fenced x) ?f d"
  have act: "act_of ?d1 ?i = [?f r]"
    using act_by_id [where P = "fenced x" and f = ?f, OF assms(1) r(1) _ r(2) fenced_id [OF rm] r(4)] r(3,5) by simp
  have "ok_step ?me ?i d ?d1"
  proof (rule plain_ok [OF assms(1) _ t(1) _ _ _ _ _ t(2), where ?t1.0 = t and es = "[]"])
    show "touches ?me ?i d ?d1"
      using touches_by_id [where P = "fenced x" and f = ?f, OF assms(1) r(1,2) fenced_id [OF rm]] r(5) by simp
    show "slice_ok ?d1 ?me ?i t" using sl by (auto simp: slice_ok_def round_ok_def)
  qed (use good_task(2) [OF assms(1) t(1)] t act r in auto)
  from ok_step_slots_until [OF this] show ?thesis using assms(3) False by (auto simp: renew_def Let_def)
qed

lemma upd_rounds_id [simp]: "upd_rounds me P (\<lambda>r. r) d = d"
  by (simp add: upd_rounds_def upd_def)

text \<open>Appending a saved message to the log of a running task.\<close>

lemma persist_fact_tx_ok:
  assumes "good d" and "ctx_ok x d" and "persist_fact_tx x a content mid d = Inr (out, d')"
  shows "ok_step (x_owner x) (x_task x) d d'"
proof (cases "sel_rounds (x_owner x) (fenced x) d = []")
  case True
  then show ?thesis using assms by (simp add: persist_fact_tx_def ok_step_refl)
next
  case False
  let ?me = "x_owner x" and ?i = "x_task x"
  obtain r where rm: "r \<in> set (sel_rounds ?me (fenced x) d)" by (rule sel_rounds_Cons [OF False])
  from fenced_round [OF assms(1,2) rm] obtain t where
    t: "task_at d ?i = Some t" "t_owner t = ?me" "act_of d ?i = [r]" "t_status t = Running"
       "find_task ?me ?i d = Some t" "t_id t = ?i"
    by metis
  note sl = good_slice_ok [OF assms(1) t(1,2)]
  have d': "d' = add_event ?i ?me (t_eseq t + 1) EMessageSaved (PMessage mid (t_eseq t + 1) a)
       (Some mid) (Some (x_round x)) (add_message mid ?i ?me (t_eseq t + 1) a content
         (upd_tasks ?me (\<lambda>x. t_id x = ?i) (\<lambda>x. x\<lparr>t_eseq := t_eseq x + 1\<rparr>) d))"
    using assms(3) False t(5) by (auto simp: persist_fact_tx_def Let_def alloc_seq_Inr_iff)
  define es where "es = [\<lparr>e_task = ?i, e_owner = ?me, e_seq = t_eseq t + 1, e_type = EMessageSaved,
      e_payload = PMessage mid (t_eseq t + 1) a, e_message = Some mid, e_round = Some (x_round x)\<rparr>]"
  define ms where "ms = [\<lparr>m_id = mid, m_task = ?i, m_owner = ?me, m_seq = t_eseq t + 1, m_author = a,
      m_content = content\<rparr>]"
  define t1 where "t1 = t\<lparr>t_eseq := t_eseq t + 1\<rparr>"
  show ?thesis
  proof (rule plain_ok [OF assms(1) _ t(1) _ _ _ _ _ t(2), where ?t1.0 = t1 and es = es])
    show "touches ?me ?i d d'" unfolding d' by (intro touches_intros) auto
    have "log_ok t1 (log_of d ?i @ es) (msgs_of d ?i @ ms)"
      by (rule log_ok_append [of t _ _ _ 1]) (use sl in \<open>auto simp: slice_ok_def es_def ms_def t1_def\<close>)
    then show "slice_ok d' ?me ?i t1"
      using sl t by (auto simp: slice_ok_def d' es_def ms_def t1_def)
  qed (use good_task(2) [OF assms(1) t(1)] t in
        \<open>auto simp: d' es_def t1_def evolves_def allowed_flip_def\<close>)
qed

lemma persist_fact_ok:
  assumes "good d" and "ctx_ok x d" and "persist_fact x a content mid d = (out, d')"
  shows "ok_step (x_owner x) (x_task x) d d'"
  using assms persist_fact_tx_ok [OF assms(1,2)]
  by (auto simp: persist_fact_def ok_step_refl split: sum.splits prod.splits)

text \<open>The pending assistant text, written before the round is settled.\<close>

definition pend_events :: "round_ctx \<Rightarrow> pystr option \<Rightarrow> uuid \<Rightarrow> nat \<Rightarrow> event_row list" where
  "pend_events x p mid n = (case p of None \<Rightarrow> []
     | Some _ \<Rightarrow> [\<lparr>e_task = x_task x, e_owner = x_owner x, e_seq = n, e_type = EMessageSaved,
         e_payload = PMessage mid n Assistant, e_message = Some mid, e_round = Some (x_round x)\<rparr>])"

definition pend_messages :: "round_ctx \<Rightarrow> pystr option \<Rightarrow> uuid \<Rightarrow> nat \<Rightarrow> message_row list" where
  "pend_messages x p mid n = (case p of None \<Rightarrow> []
     | Some c \<Rightarrow> [\<lparr>m_id = mid, m_task = x_task x, m_owner = x_owner x, m_seq = n, m_author = Assistant,
         m_content = c\<rparr>])"

lemma settle_pending_frame:
  assumes "settle_pending x p mid d = Inr d1" and "find_task (x_owner x) (x_task x) d = Some t"
    and "task_at d (x_task x) = Some t" and "t_owner t = x_owner x"
  shows "touches (x_owner x) (x_task x) d d1"
    and "find_task (x_owner x) (x_task x) d1 = Some (t\<lparr>t_eseq := t_eseq t + length (pend_events x p mid (t_eseq t + 1))\<rparr>)"
    and "task_at d1 (x_task x) = Some (t\<lparr>t_eseq := t_eseq t + length (pend_events x p mid (t_eseq t + 1))\<rparr>)"
    and "log_of d1 (x_task x) = log_of d (x_task x) @ pend_events x p mid (t_eseq t + 1)"
    and "msgs_of d1 (x_task x) = msgs_of d (x_task x) @ pend_messages x p mid (t_eseq t + 1)"
    and "rounds_of d1 (x_task x) = rounds_of d (x_task x)"
    and "resvs d1 = resvs d" "usage d1 = usage d" "slots d1 = slots d" "pl_used d1 = pl_used d"
    "quotas d1 = quotas d"
proof -
  let ?me = "x_owner x" and ?i = "x_task x"
  have ti: "t_id t = ?i" using task_at_D [OF assms(3)] by simp
  have all: "touches ?me ?i d d1
    \<and> find_task ?me ?i d1 = Some (t\<lparr>t_eseq := t_eseq t + length (pend_events x p mid (t_eseq t + 1))\<rparr>)
    \<and> task_at d1 ?i = Some (t\<lparr>t_eseq := t_eseq t + length (pend_events x p mid (t_eseq t + 1))\<rparr>)
    \<and> log_of d1 ?i = log_of d ?i @ pend_events x p mid (t_eseq t + 1)
    \<and> msgs_of d1 ?i = msgs_of d ?i @ pend_messages x p mid (t_eseq t + 1)
    \<and> rounds_of d1 ?i = rounds_of d ?i
    \<and> resvs d1 = resvs d \<and> usage d1 = usage d \<and> slots d1 = slots d \<and> pl_used d1 = pl_used d
    \<and> quotas d1 = quotas d"
  proof (cases p)
    case None
    then show ?thesis using assms by (simp add: settle_pending_def pend_events_def pend_messages_def)
  next
    case (Some c)
    have d1: "d1 = add_event ?i ?me (t_eseq t + 1) EMessageSaved (PMessage mid (t_eseq t + 1) Assistant)
       (Some mid) (Some (x_round x)) (add_message mid ?i ?me (t_eseq t + 1) Assistant c
         (upd_tasks ?me (\<lambda>x. t_id x = ?i) (\<lambda>x. x\<lparr>t_eseq := t_eseq x + 1\<rparr>) d))"
      using assms(1,2) Some by (auto simp: settle_pending_def Let_def alloc_seq_Inr_iff)
    have "touches ?me ?i d d1" unfolding d1 by (intro touches_intros) auto
    then show ?thesis
      using Some assms(2-4) ti by (simp add: d1 pend_events_def pend_messages_def)
  qed
  then show "touches ?me ?i d d1"
    "find_task ?me ?i d1 = Some (t\<lparr>t_eseq := t_eseq t + length (pend_events x p mid (t_eseq t + 1))\<rparr>)"
    "task_at d1 ?i = Some (t\<lparr>t_eseq := t_eseq t + length (pend_events x p mid (t_eseq t + 1))\<rparr>)"
    "log_of d1 ?i = log_of d ?i @ pend_events x p mid (t_eseq t + 1)"
    "msgs_of d1 ?i = msgs_of d ?i @ pend_messages x p mid (t_eseq t + 1)"
    "rounds_of d1 ?i = rounds_of d ?i"
    "resvs d1 = resvs d" "usage d1 = usage d" "slots d1 = slots d" "pl_used d1 = pl_used d"
    "quotas d1 = quotas d"
    by blast+
qed

lemma settle_full:
  assumes "good d" and "ctx_ok x d" and "settle x p finish used mid d = Inr (out, d')"
  shows "ok_step (x_owner x) (x_task x) d d'
    \<and> (if out then \<exists>t'. task_at d' (x_task x) = Some t'
          \<and> (t_status t' = Ready \<or> t_status t' = Aborted \<and> t_abort t' = Some ProviderKeyRevoked)
          \<and> map m_content (msgs_of d' (x_task x)) = map m_content (msgs_of d (x_task x))
              @ (case p of None \<Rightarrow> [] | Some c \<Rightarrow> [c])
       else d' = d \<and> \<not> round_recheck x d)"
proof (cases "sel_rounds (x_owner x) (fenced x) d")
  case Nil
  then show ?thesis using assms by (simp add: settle_def ok_step_refl round_recheck_def)
next
  case (Cons r rs)
  let ?me = "x_owner x" and ?i = "x_task x"
  let ?f = "\<lambda>r. r\<lparr>r_state := RSettled\<rparr>" and ?run = "\<lambda>t. t_id t = x_task x \<and> t_status t = Running"
  have rm: "r \<in> set (sel_rounds ?me (fenced x) d)" using Cons by simp
  from fenced_round [OF assms(1,2) rm] obtain t where
    r: "r \<in> set (rounds d)" "r_owner r = ?me" "r_state r = RRunning" "fenced x r" "r_task r = ?i"
    and t: "task_at d ?i = Some t" "t_owner t = ?me" "t_status t = Running" "t_pending t = None"
       "find_task ?me ?i d = Some t" "t_id t = ?i"
    by metis
  note g = good_task [OF assms(1) t(1)] and sl = good_slice_ok [OF assms(1) t(1,2)]
  let ?d0 = "upd_rounds ?me (fenced x) ?f d"
  have t0: "find_task ?me ?i ?d0 = Some t" "task_at ?d0 ?i = Some t" using t by simp_all
  define pe where "pe = pend_events x p mid (t_eseq t + 1)"
  define pm where "pm = pend_messages x p mid (t_eseq t + 1)"
  define n where "n = t_eseq t + length pe"
  obtain d1 where d1: "settle_pending x p mid ?d0 = Inr d1"
    using assms(3) Cons by (auto simp: settle_def Let_def)
  note F = settle_pending_frame [OF d1 t0 t(2), folded pe_def pm_def n_def, simplified]
  define d3 where "d3 = add_event ?i ?me (n + 1) ERoundSettled
      (PRoundSettled (x_round x) (r_attempt r) finish used) None (Some (x_round x))
      (upd_tasks ?me (\<lambda>x. t_id x = ?i) (\<lambda>x. x\<lparr>t_eseq := t_eseq x + 1\<rparr>) d1)"
  define t3 where "t3 = t\<lparr>t_eseq := n + 1\<rparr>"
  have ft3: "find_task ?me ?i d3 = Some t3" "task_at d3 ?i = Some t3"
    using F(2,3) t(2,6) by (simp_all add: d3_def t3_def)
  define rvk where "rvk = provider_revoked ?me t3 d3"
  define s where "s = (if rvk then Aborted else Ready)"
  define why where "why = (if rvk then Some ProviderKeyRevoked else None)"
  define d5 where "d5 = add_event ?i ?me (n + 2) EStatusChanged (PStatus s why) None None
      (upd_tasks ?me (\<lambda>x. t_id x = ?i) (\<lambda>x. x\<lparr>t_eseq := t_eseq x + 1\<rparr>)
        (upd_tasks ?me ?run (\<lambda>t. t\<lparr>t_status := s, t_abort := why\<rparr>) d3))"
  have run: "n_tasks ?me ?run d3 \<noteq> 0"
    using n_tasks_pos [OF ft3(1), of "\<lambda>t. t_status t = Running"] t(3) by (simp add: t3_def)
  have a: "alloc_seq ?me ?i 1 d1 = Inr (n + 1, upd_tasks ?me (\<lambda>x. t_id x = ?i) (\<lambda>x. x\<lparr>t_eseq := t_eseq x + 1\<rparr>) d1)"
    using F(2) by (simp add: alloc_seq_def)
  let ?d4 = "upd_tasks ?me ?run (\<lambda>t. t\<lparr>t_status := s, t_abort := why\<rparr>) d3"
  have a2: "alloc_seq ?me ?i 1 ?d4 = Inr (n + 2, upd_tasks ?me (\<lambda>x. t_id x = ?i) (\<lambda>x. x\<lparr>t_eseq := t_eseq x + 1\<rparr>) ?d4)"
    using ft3(1) t(2,3,6) by (simp add: alloc_seq_def t3_def)
  have "settle x p finish used mid d = Inr (True, release_task_holdings ?me ?i d5)"
    unfolding settle_def Let_def Cons list.case d1 bindE_simps a prod.case d3_def [symmetric] ft3(1) option.case
      rvk_def [symmetric] s_def [symmetric] why_def [symmetric]
    using run a2 by (simp add: d5_def)
  then have d': "out" "d' = release_task_holdings ?me ?i d5" using assms(3) by simp_all
  define es where "es = pe @ [\<lparr>e_task = ?i, e_owner = ?me, e_seq = n + 1, e_type = ERoundSettled,
      e_payload = PRoundSettled (x_round x) (r_attempt r) finish used, e_message = None, e_round = Some (x_round x)\<rparr>,
      \<lparr>e_task = ?i, e_owner = ?me, e_seq = n + 2, e_type = EStatusChanged,
      e_payload = PStatus s why, e_message = None, e_round = None\<rparr>]"
  define t1 where "t1 = t\<lparr>t_status := s, t_abort := why, t_eseq := n + 2\<rparr>"
  have "log_ok t (log_of d ?i) (msgs_of d ?i)" using sl by (simp add: slice_ok_def)
  then have lok: "log_ok t1 (log_of d ?i @ es) (msgs_of d ?i @ pm)"
  proof (rule log_ok_append [where n = "length pe + 2"])
    show "map e_seq es = [Suc (t_eseq t)..<Suc (t_eseq t + (length pe + 2))]"
      by (cases p) (simp_all add: es_def n_def pe_def pend_events_def upt_rec)
    show "replay_status (t_status t) es = t_status t1"
      by (cases p) (simp_all add: es_def pe_def pend_events_def t1_def)
    show "map (\<lambda>m. PMessage (m_id m) (m_seq m) (m_author m)) pm
        = map e_payload (filter (\<lambda>e. e_type e = EMessageSaved) es)"
      by (cases p) (simp_all add: es_def pe_def pm_def pend_events_def pend_messages_def)
  qed (simp_all add: es_def t1_def n_def)
  have s2: "s = Aborted \<or> s = Ready" by (simp add: s_def)
  have "ok_step ?me ?i d (release_task_holdings ?me ?i d5)"
  proof (rule close_round_ok [where P = "fenced x" and f = ?f and ms = pm, OF assms(1) r(1) _ r(2,5) fenced_id [OF rm] r(4) _ _ t(1)])
    show "touches ?me ?i ?d0 d5"
      unfolding d5_def d3_def by (intro touches_upd_tasks touches_add_event F(1)) auto
    show "log_ok t1 (log_of d ?i @ es) (msgs_of d ?i @ pm)" by (rule lok)
    show "task_at d5 ?i = Some t1" using ft3(2) t(2,3,6) by (simp add: d5_def t1_def t3_def)
    show "log_of d5 ?i = log_of d ?i @ es" using F(4) by (simp add: d5_def d3_def es_def)
    show "msgs_of d5 ?i = msgs_of d ?i @ pm" using F(5) by (simp add: d5_def d3_def)
    show "rounds_of d5 ?i = rounds_of ?d0 ?i" using F(6) by (simp add: d5_def d3_def)
    show "round_ok (?f y)" if "y \<in> set (rounds_of d ?i)" for y
      using that g(5) by (simp add: round_ok_def)
    show "\<forall>e\<in>set es. e_owner e = ?me" "\<forall>m\<in>set pm. m_owner m = ?me"
      by (auto simp: es_def pe_def pm_def pend_events_def pend_messages_def split: option.splits)
    show "evolves t t1" using s2 t(3) by (auto simp: evolves_def allowed_flip_def t1_def n_def)
  qed (use r t g(2) s2 F(7-11) in \<open>auto simp: d5_def d3_def t1_def\<close>)
  moreover have "task_at d5 ?i = Some t1" using ft3(2) t(2,3,6) by (simp add: d5_def t1_def t3_def)
  moreover have "map m_content (msgs_of d5 ?i) = map m_content (msgs_of d ?i) @ (case p of None \<Rightarrow> [] | Some c \<Rightarrow> [c])"
    using F(5) by (simp add: d5_def d3_def pm_def pend_messages_def split: option.split)
  ultimately show ?thesis using d' by (auto simp: t1_def s_def why_def)
qed

lemmas settle_ok = settle_full [THEN conjunct1]

lemma enforce_round_deadline_ok:
  assumes "good d" and "ctx_ok x d" and "enforce_round_deadline x d = Inr (out, d')"
  shows "ok_step (x_owner x) (x_task x) d d'"
proof (cases "sel_rounds (x_owner x) (fenced x) d")
  case Nil
  then show ?thesis using assms by (simp add: enforce_round_deadline_def ok_step_refl)
next
  case (Cons r rs)
  let ?me = "x_owner x" and ?i = "x_task x"
  let ?f = "\<lambda>r. r\<lparr>r_state := RFailed, r_lease_owner := None, r_expires := None\<rparr>"
  have rm: "r \<in> set (sel_rounds ?me (fenced x) d)" using Cons by simp
  from fenced_round [OF assms(1,2) rm] obtain t where
    r: "r \<in> set (rounds d)" "r_owner r = ?me" "r_state r = RRunning" "fenced x r" "r_task r = ?i"
    and t: "task_at d ?i = Some t" "t_owner t = ?me" "t_status t = Running" "t_pending t = None"
       "find_task ?me ?i d = Some t" "t_id t = ?i"
    by metis
  note g = good_task [OF assms(1) t(1)] and sl = good_slice_ok [OF assms(1) t(1,2)]
  let ?d0 = "upd_rounds ?me (fenced x) ?f d"
  have ft0: "find_task ?me ?i ?d0 = Some t" using t by simp
  define d5 where "d5 = add_event ?i ?me (t_eseq t + 2) ERoundFailed (PRoundAttempt (x_round x) (r_attempt r)) None (Some (x_round x))
     (add_event ?i ?me (t_eseq t + 1) EStatusChanged (PStatus Failed (Some RoundFailed)) None None
     (upd_tasks ?me (\<lambda>x. t_id x = ?i) (\<lambda>x. x\<lparr>t_eseq := t_eseq x + 2\<rparr>)
       (upd_tasks ?me (\<lambda>t. t_id t = ?i \<and> t_status t = Running)
         (\<lambda>t. t\<lparr>t_status := Failed, t_abort := Some RoundFailed, t_pending := None\<rparr>) ?d0)))"
  have run: "n_tasks ?me (\<lambda>t. t_id t = ?i \<and> t_status t = Running) ?d0 \<noteq> 0"
    using n_tasks_pos [OF ft0, of "\<lambda>t. t_status t = Running"] t(3) by simp
  have d': "d' = release_task_holdings ?me ?i d5"
    using assms(3) Cons run ft0 t(2,3,6)
    by (auto simp: enforce_round_deadline_def Let_def alloc_seq_Inr_iff d5_def)
  define es where "es = [\<lparr>e_task = ?i, e_owner = ?me, e_seq = t_eseq t + 1, e_type = EStatusChanged,
      e_payload = PStatus Failed (Some RoundFailed), e_message = None, e_round = None\<rparr>,
      \<lparr>e_task = ?i, e_owner = ?me, e_seq = t_eseq t + 2, e_type = ERoundFailed,
      e_payload = PRoundAttempt (x_round x) (r_attempt r), e_message = None, e_round = Some (x_round x)\<rparr>]"
  define t1 where "t1 = t\<lparr>t_status := Failed, t_abort := Some RoundFailed, t_pending := None, t_eseq := t_eseq t + 2\<rparr>"
  have "log_ok t1 (log_of d ?i @ es) (msgs_of d ?i)"
    by (rule log_ok_flip [of t _ _ _ 2]) (use sl in \<open>auto simp: slice_ok_def es_def t1_def upt_rec\<close>)
  then have lok: "log_ok t1 (log_of d ?i @ es) (msgs_of d ?i @ [])" by simp
  have "ok_step ?me ?i d (release_task_holdings ?me ?i d5)"
  proof (rule close_round_ok [where P = "fenced x" and f = ?f, OF assms(1) r(1) _ r(2,5) fenced_id [OF rm] r(4) _ _ t(1)])
    show "touches ?me ?i ?d0 d5" unfolding d5_def by (intro touches_intros) auto
    show "log_ok t1 (log_of d ?i @ es) (msgs_of d ?i @ [])" by (rule lok)
    show "round_ok (?f y)" if "y \<in> set (rounds_of d ?i)" for y
      using that g(5) by (simp add: round_ok_def)
  qed (use r t g(2) in \<open>auto simp: d5_def t1_def es_def evolves_def allowed_flip_def\<close>)
  then show ?thesis using d' by simp
qed

text \<open>A queued or running task has at most one active round, and it is its owner's.\<close>

lemma live_rounds:
  assumes "good d" and "task_at d i = Some t" and "t_status t \<in> {Queued, Running}"
  obtains (none) "act_of d i = []" "t_status t = Running"
  | (one) r where "act_of d i = [r]" "r_owner r = t_owner t" "r_task r = i" "r \<in> set (rounds_of d i)"
      "active_state (r_state r)"
proof (cases "t_status t = Queued")
  case True
  then show thesis using one queued_round [OF assms(1,2)] by (metis active_state.simps(1))
next
  case False
  then have s: "t_status t = Running" using assms(3) by simp
  show thesis using assms(1,2) s
  proof (cases rule: running_rounds)
    case (one r)
    then show thesis using that(2) by force
  next
    case none
    then show thesis using that(1) s by blast
  qed
qed

lemma sel_active:
  assumes "good d" and "task_at d i = Some t" and "t_owner t = me"
  shows "sel_rounds me (\<lambda>r. r_task r = i \<and> active_state (r_state r)) d = act_of d i"
proof -
  have "r_owner r = me" if "r \<in> set (rounds_of d i)" for r
    using good_task(1) [OF assms(1,2)] assms(3) that by (auto simp: owned_def)
  then show ?thesis
    using sel_rounds_of [of "\<lambda>r. r_task r = i \<and> active_state (r_state r)" i me d]
    by (auto simp: act_of_rounds_of rounds_of_task intro!: filter_cong)
qed

lemma abort_active_ok:
  assumes "good d" and "abort_active reason i me d = Inr (out, d')"
  shows "ok_step me i d d'"
proof -
  have pk: "pkeys d" using assms(1) by (simp add: good_def)
  consider (skip) "d' = d" | (live) t where "find_task me i d = Some t" "t_status t \<in> {Queued, Running}"
    using assms(2) by (auto simp: abort_active_def split: option.splits if_splits)
  then show ?thesis
  proof cases
    case skip
    then show ?thesis using assms(1) ok_step_refl by simp
  next
    case live
    let ?hit = "\<lambda>r. r_task r = i \<and> active_state (r_state r)"
    let ?f = "\<lambda>r. r\<lparr>r_state := RCancelled, r_lease_owner := None, r_expires := None\<rparr>"
    let ?liv = "\<lambda>t. t_id t = i \<and> t_status t \<in> {Queued, Running}"
    have t: "task_at d i = Some t" "t_owner t = me" "t_id t = i"
      using find_task_task_at [OF pk, of me i t] find_task_Some_D [OF live(1)] live(1) by blast+
    note g = good_task [OF assms(1) t(1)] and sl = good_slice_ok [OF assms(1) t(1,2)]
    have sel: "sel_rounds me ?hit d = act_of d i" by (rule sel_active [OF assms(1) t(1,2)])
    let ?d1 = "upd_rounds me ?hit ?f d"
    define n where "n = 1 + length (act_of d i)"
    let ?u = "\<lambda>t. t\<lparr>t_status := Aborted, t_abort := Some reason, t_pending := None\<rparr>"
    define d2 where "d2 = upd_tasks me (\<lambda>x. t_id x = i) (\<lambda>x. x\<lparr>t_eseq := t_eseq x + n\<rparr>) (upd_tasks me ?liv ?u ?d1)"
    define d3 where "d3 = add_event i me (t_eseq t + 1) EStatusChanged (PStatus Aborted (Some reason)) None None d2"
    define d4 where "d4 = (case act_of d i of [] \<Rightarrow> d3 | r # _ \<Rightarrow>
        add_event i me (t_eseq t + 2) ERoundCancelled (PRoundReason (r_id r) reason) None (Some (r_id r)) d3)"
    have ft1: "find_task me i ?d1 = Some t" using live(1) by simp
    have run: "n_tasks me ?liv ?d1 \<noteq> 0"
      using n_tasks_pos [OF ft1, of "\<lambda>t. t_status t \<in> {Queued, Running}"] live(2) by simp
    have al: "alloc_seq me i n (upd_tasks me ?liv ?u ?d1) = Inr (t_eseq t + 1, d2)"
      using ft1 t(2) by (simp add: alloc_seq_def d2_def)
    have len: "length (act_of d i) \<le> 1"
      using assms(1) t(1) live(2) by (cases rule: live_rounds) auto
    have fold4: "fold (\<lambda>(k, rid). add_event i me (t_eseq t + 1 + k) ERoundCancelled
           (PRoundReason rid reason) None (Some rid)) (enumerate 1 (map r_id (act_of d i))) d3 = d4"
      using len by (cases "act_of d i") (auto simp: d4_def Suc_le_eq)
    have "\<exists>o'. abort_active reason i me d = Inr (o', release_task_holdings me i d4)"
      using live run al sel unfolding abort_active_def Let_def n_def [symmetric] length_map
      by (simp only: option.case simp_thms if_False not_not fold4 length_map bindE_simps prod.case n_def [symmetric] d3_def [symmetric]) (simp add: fold4)
    then have d': "d' = release_task_holdings me i d4" using assms(2) by auto
    define es where "es = \<lparr>e_task = i, e_owner = me, e_seq = t_eseq t + 1, e_type = EStatusChanged,
      e_payload = PStatus Aborted (Some reason), e_message = None, e_round = None\<rparr> #
      (case act_of d i of [] \<Rightarrow> [] | r # _ \<Rightarrow>
        [\<lparr>e_task = i, e_owner = me, e_seq = t_eseq t + 2, e_type = ERoundCancelled,
        e_payload = PRoundReason (r_id r) reason, e_message = None, e_round = Some (r_id r)\<rparr>])"
    define t1 where "t1 = t\<lparr>t_status := Aborted, t_abort := Some reason, t_pending := None, t_eseq := t_eseq t + n\<rparr>"
    have act: "act_of ?d1 i = []"
      using assms(1) t(1) live(2)
    proof (cases rule: live_rounds)
      case none
      then show ?thesis by (subst act_of_upd_rounds) auto
    next
      case (one r)
      then show ?thesis using act_of_cancel [OF one(1), of me ?hit ?f] t(2) by simp
    qed
    have log: "log_of d4 i = log_of d i @ es" "msgs_of d4 i = msgs_of d i"
      by (simp_all add: d4_def d3_def d2_def es_def split: list.split)
    have lok: "log_ok t1 (log_of d i @ es) (msgs_of d i)"
    proof (cases "act_of d i")
      case Nil
      then show ?thesis
        by (intro log_ok_flip [of t _ _ _ n]) (use sl in \<open>auto simp: slice_ok_def es_def t1_def n_def\<close>)
    next
      case (Cons r rs)
      then have "rs = []" using len by simp
      then show ?thesis using Cons
        by (intro log_ok_flip [of t _ _ _ n]) (use sl in \<open>auto simp: slice_ok_def es_def t1_def n_def upt_rec\<close>)
    qed
    have fr: "resvs d4 = resvs d" "usage d4 = usage d" "slots d4 = slots d" "pl_used d4 = pl_used d"
      "quotas d4 = quotas d" "act_of d4 i = []" "rounds_of d4 i = rounds_of ?d1 i" "task_at d4 i = Some t1"
      using t live(2) act by (auto simp: d4_def d3_def d2_def t1_def split: list.split)
    have own: "\<forall>e\<in>set es. e_owner e = me" by (auto simp: es_def split: list.split)
    have "ok_step me i d (release_task_holdings me i d4)"
    proof (rule release_ok [OF assms(1) _ t(1) fr(1-4) _ t(2), where ?t1.0 = t1 and es = es])
      have "touches me i d d3" unfolding d3_def d2_def
        by (intro touches_intros touches_upd_rounds) auto
      then show "touches me i d d4"
        unfolding d4_def by (cases "act_of d i") (auto intro: touches_add_event)
      show "slice_ok d4 me i t1"
        using sl own lok fr(7,8) log t(2) by (auto simp: slice_ok_def t1_def)
    qed (use log fr(5,6) live(2) t in \<open>auto simp: t1_def evolves_def allowed_flip_def\<close>)
    then show ?thesis using d' by simp
  qed
qed

text \<open>What stage 1 knows of a reconciliation candidate stays true: the task is at rest.\<close>

definition at_rest :: "uuid \<times> uuid \<times> status \<Rightarrow> db \<Rightarrow> bool" where
  "at_rest c d \<longleftrightarrow> quiet d (fst c)"

lemma reconcile_one_ok:
  assumes "good d" and "at_rest c d" and "reconcile_one c d = Inr (out, d')"
  shows "ok_step (fst (snd c)) (fst c) d d'"
proof -
  obtain i me s where c: "c = (i, me, s)" by (cases c)
  let ?hit = "\<lambda>t. t_id t = i \<and> t_status t = Running \<and> t_pending t = Some s"
  show ?thesis
  proof (cases "n_tasks me ?hit d = 0")
    case True
    then show ?thesis using assms by (simp add: reconcile_one_def c ok_step_refl Let_def)
  next
    case False
    obtain t where t: "task_at d i = Some t" "t_owner t = me" "t_status t = Running" "t_pending t = Some s"
      using n_tasks_find [OF goodD(1) [OF assms(1)] False] by metis
    have ti: "t_id t = i" using task_at_D [OF t(1)] by simp
    have a: "act_of d i = []" using assms(2) t by (auto simp: at_rest_def c quiet_def)
    note g = good_task [OF assms(1) t(1)] and sl = good_slice_ok [OF assms(1) t(1,2)]
    have s: "s = Completed \<or> s = Aborted" "held_task d i KRunning = 0" using g(2) t a by auto
    have ft: "find_task me i d = Some t" using find_task_task_at assms(1) t(1,2) by (auto simp: good_def)
    define why where "why = (if s = Aborted then Some UserCancel else None)"
    define d2 where "d2 = add_event i me (t_eseq t + 1) EStatusChanged (PStatus s why) None None
      (upd_tasks me (\<lambda>x. t_id x = i) (\<lambda>x. x\<lparr>t_eseq := t_eseq x + 1\<rparr>)
        (upd_tasks me ?hit (\<lambda>t. t\<lparr>t_status := s, t_abort := why, t_pending := None\<rparr>) d))"
    have d': "d' = release_task_holdings me i d2"
      using assms(3) False ft t(2,3,4) ti
      by (auto simp: reconcile_one_def c Let_def alloc_seq_Inr_iff d2_def why_def)
    define t1 where "t1 = t\<lparr>t_status := s, t_abort := why, t_pending := None, t_eseq := t_eseq t + 1\<rparr>"
    have "ok_step me i d (release_task_holdings me i d2)"
    proof (rule release_ok [OF assms(1) _ t(1) _ _ _ _ _ t(2), where ?t1.0 = t1])
      show "touches me i d d2" unfolding d2_def by (intro touches_intros) auto
      show "slice_ok d2 me i t1"
        using sl t ti by (auto simp: slice_ok_def d2_def t1_def intro!: log_ok_flip)
    qed (use a s g(2) t ti in \<open>auto simp: d2_def t1_def evolves_def allowed_flip_def\<close>)
    then show ?thesis using d' by (simp add: c)
  qed
qed

section \<open>The executor's transactions meet the contract\<close>

interpretation renewal: task_transaction "\<lambda>(x, ttl, now). renew x ttl now" "\<lambda>(x, _). x_owner x" "\<lambda>(x, _). x_task x"
  "\<lambda>(x, _). ctx_ok x"
  by (rule task_transactionI) (use renew_ok in \<open>auto split: prod.splits\<close>)

interpretation fact: task_transaction "\<lambda>(x, a, content, mid). persist_fact_tx x a content mid"
  "\<lambda>(x, _). x_owner x" "\<lambda>(x, _). x_task x" "\<lambda>(x, _). ctx_ok x"
  by (rule task_transactionI) (use persist_fact_tx_ok in \<open>auto split: prod.splits\<close>)

interpretation settlement: task_transaction "\<lambda>(x, p, fin, used, mid). settle x p fin used mid"
  "\<lambda>(x, _). x_owner x" "\<lambda>(x, _). x_task x" "\<lambda>(x, _). ctx_ok x"
  by (rule task_transactionI) (use settle_ok in \<open>auto split: prod.splits\<close>)

interpretation deadline: task_transaction enforce_round_deadline x_owner x_task ctx_ok
  by (rule task_transactionI) (rule enforce_round_deadline_ok)

interpretation terminator: task_transaction "\<lambda>(reason, tid, me). abort_active reason tid me"
  "\<lambda>(_, _, me). me" "\<lambda>(_, tid, _). tid" "\<lambda>_ _. True"
  by (rule task_transactionI) (use abort_active_ok in \<open>auto split: prod.splits\<close>)

interpretation reconciler: task_transaction reconcile_one "\<lambda>c. fst (snd c)" fst at_rest
  by (rule task_transactionI) (rule reconcile_one_ok)

end
