(* ===== verification/Provider_Store.thy ===== *)
theory Provider_Store
  imports Task_Executor
begin

text \<open>
  The database side of \<open>backend/v2/provider_service.py\<close>: creating, changing and revoking a user's
  model provider, and what a revoked or rotated key does to the tasks that have not started
  (\<open>fail_unstarted_tasks\<close>). Each operation is one transaction of the owner; the identifier and the
  sealed key material are arguments. \<open>urlsplit\<close> of the standard library is modelled but for its
  checks of a bracketed or non-ASCII network location, which are the parameter \<open>netloc_ok\<close>.
\<close>

section \<open>Validation\<close>

definition validate_model_id :: "pystr \<Rightarrow> api_error + unit" where
  "validate_model_id m =
     (let stripped = py_strip m
      in if stripped = [] \<or> 128 < length stripped \<or> stripped \<noteq> m then Inl validation_error else Inr ())"

text \<open>\<open>urllib.parse.urlsplit\<close>: scheme and network location.\<close>

definition ascii_lower :: "nat \<Rightarrow> nat" where
  "ascii_lower c = (if 65 \<le> c \<and> c \<le> 90 then c + 32 else c)"

definition ascii_alpha :: "nat \<Rightarrow> bool" where
  "ascii_alpha c \<longleftrightarrow> (65 \<le> c \<and> c \<le> 90) \<or> (97 \<le> c \<and> c \<le> 122)"

definition scheme_char :: "nat \<Rightarrow> bool" where
  "scheme_char c \<longleftrightarrow> ascii_alpha c \<or> (48 \<le> c \<and> c \<le> 57) \<or> c = 43 \<or> c = 45 \<or> c = 46"

definition clean_url :: "pystr \<Rightarrow> pystr" where
  "clean_url u = filter (\<lambda>c. c \<noteq> 9 \<and> c \<noteq> 10 \<and> c \<noteq> 13) (dropWhile (\<lambda>c. c \<le> 32) u)"

definition split_scheme :: "pystr \<Rightarrow> pystr \<times> pystr" where
  "split_scheme u =
     (let s = takeWhile (\<lambda>c. c \<noteq> 58) u; r = dropWhile (\<lambda>c. c \<noteq> 58) u
      in case (s, r) of
           (c # _, _ # rest) \<Rightarrow> if ascii_alpha c \<and> list_all scheme_char s then (map ascii_lower s, rest) else ([], u)
         | _ \<Rightarrow> ([], u))"

definition split_netloc :: "pystr \<Rightarrow> pystr" where
  "split_netloc u =
     (case u of a # b # rest \<Rightarrow> if a = 47 \<and> b = 47 then takeWhile (\<lambda>c. c \<noteq> 47 \<and> c \<noteq> 63 \<and> c \<noteq> 35) rest else []
      | _ \<Rightarrow> [])"

definition url_parts :: "(pystr \<Rightarrow> bool) \<Rightarrow> pystr \<Rightarrow> api_error + pystr \<times> pystr" where
  "url_parts netloc_ok url =
     (case split_scheme (clean_url url) of (scheme, rest) \<Rightarrow>
        (let netloc = split_netloc rest
         in if (91 \<in> set netloc) \<noteq> (93 \<in> set netloc) then Inl ValueError
            else if (91 \<in> set netloc \<or> list_ex (\<lambda>c. 127 < c) netloc) \<and> \<not> netloc_ok netloc then Inl ValueError
            else Inr (scheme, netloc)))"

text \<open>\<open>ParseResult.hostname\<close>: behind the last \<open>@\<close>, in the brackets or before the colon; \<open>[]\<close> is \<open>None\<close>.\<close>

definition url_hostname :: "pystr \<Rightarrow> pystr" where
  "url_hostname netloc =
     (let hostinfo = rev (takeWhile (\<lambda>c. c \<noteq> 64) (rev netloc))
      in if 91 \<in> set hostinfo then takeWhile (\<lambda>c. c \<noteq> 93) (tl (dropWhile (\<lambda>c. c \<noteq> 91) hostinfo))
         else takeWhile (\<lambda>c. c \<noteq> 58) hostinfo)"

definition validate_https_url :: "(pystr \<Rightarrow> bool) \<Rightarrow> pystr \<Rightarrow> api_error + unit" where
  "validate_https_url netloc_ok url =
     bindE (url_parts netloc_ok url) (\<lambda>(scheme, netloc).
     if scheme \<noteq> pystr_of ''https'' \<or> url_hostname netloc = [] \<or> 64 \<in> set netloc \<or> 512 < length url
     then Inl validation_error else Inr ())"

section \<open>Rows\<close>

definition provider_duplicate :: api_error where "provider_duplicate = app_error PROVIDER_DUPLICATE 409"

text \<open>The check on \<open>key_last4\<close> and the partial unique indexes \<open>uq_user_providers_one_default\<close> and
  \<open>uq_user_providers_active_entry_v2\<close>; every violation is answered as a duplicate
  (\<open>_map_integrity_conflict\<close>).\<close>

definition default_clash :: "provider_row \<Rightarrow> provider_row \<Rightarrow> bool" where
  "default_clash a b \<longleftrightarrow> p_user a = p_user b \<and> p_default a \<and> p_default b"

definition entry_clash :: "provider_row \<Rightarrow> provider_row \<Rightarrow> bool" where
  "entry_clash a b \<longleftrightarrow> p_user a = p_user b \<and> p_active a \<and> p_active b \<and> p_url a = p_url b \<and> p_model a = p_model b"

definition check_provider :: "provider_row \<Rightarrow> provider_row list \<Rightarrow> api_error + unit" where
  "check_provider p others =
     (if length (p_last4 p) \<noteq> 4 then Inl (IntegrityError ''ck_user_providers_key_last4_len'')
      else if list_ex (\<lambda>o'. p_id o' = p_id p) others then Inl (IntegrityError ''pk_user_providers'')
      else if list_ex (default_clash p) others then Inl (IntegrityError ''uq_user_providers_one_default'')
      else if list_ex (entry_clash p) others then Inl (IntegrityError ''uq_user_providers_active_entry_v2'')
      else Inr ())"

definition map_integrity_conflict :: "api_error + 'a \<Rightarrow> api_error + 'a" where
  "map_integrity_conflict r =
     (case r of Inl (IntegrityError _) \<Rightarrow> Inl provider_duplicate | _ \<Rightarrow> r)"

definition insert_provider :: "provider_row \<Rightarrow> db \<Rightarrow> api_error + db" where
  "insert_provider p d = bindE (check_provider p (providers d)) (\<lambda>_. Inr (d\<lparr>providers := providers d @ [p]\<rparr>))"

definition save_provider :: "uuid \<Rightarrow> provider_row \<Rightarrow> db \<Rightarrow> api_error + db" where
  "save_provider me p d =
     bindE (check_provider p (filter (\<lambda>x. p_id x \<noteq> p_id p) (providers d))) (\<lambda>_.
     Inr (d\<lparr>providers := upd (\<lambda>x. p_user x = me \<and> p_id x = p_id p) (\<lambda>_. p) (providers d)\<rparr>))"

definition clear_default :: "uuid \<Rightarrow> (provider_row \<Rightarrow> bool) \<Rightarrow> db \<Rightarrow> db" where
  "clear_default me P d =
     d\<lparr>providers := upd (\<lambda>x. p_user x = me \<and> p_default x \<and> P x) (\<lambda>x. x\<lparr>p_default := False\<rparr>) (providers d)\<rparr>"

section \<open>The tasks of a revoked or rotated key\<close>

text \<open>The release of this service: unlike \<open>task_release\<close>, it returns the active count only, never the
  retained bytes. The counter column has no lower bound in the database; it is a natural number here.\<close>

definition release_unstarted :: "uuid \<Rightarrow> uuid \<Rightarrow> db \<Rightarrow> db" where
  "release_unstarted tid owner d =
     (case release_reservations tid None d of (released, d1) \<Rightarrow>
        (let n = rowcount (\<lambda>(k, _). k = KActive) released
         in if n = 0 then d1
            else (case usage d1 owner of
                    None \<Rightarrow> d1
                  | Some q \<Rightarrow> d1\<lparr>usage := (usage d1)(owner \<mapsto> q\<lparr>u_active := u_active q - n\<rparr>)\<rparr>)))"

definition unstarted :: "status \<Rightarrow> bool" where
  "unstarted s \<longleftrightarrow> s = Uploading \<or> s = Queued \<or> s = Ready"

definition fail_unstarted :: "uuid \<Rightarrow> abort_reason \<Rightarrow> task_row \<Rightarrow> db \<Rightarrow> db" where
  "fail_unstarted me reason t d =
     (let tid = t_id t;
          d1 = release_unstarted tid (t_owner t) d;
          (cancelled, d2) = cancel_pending me tid d1;
          seq = t_eseq t + 1;
          d3 = upd_tasks me (\<lambda>x. t_id x = tid) (\<lambda>x. x\<lparr>t_status := Failed, t_abort := Some reason,
                 t_eseq := t_eseq x + (1 + (if cancelled \<noteq> 0 then 1 else 0))\<rparr>) d2;
          d4 = add_event tid (t_owner t) seq EStatusChanged (PStatus Failed (Some reason)) None None d3
      in if cancelled \<noteq> 0 then add_event tid (t_owner t) (seq + 1) ERoundCancelled (PReason (Some reason)) None None d4
         else d4)"

definition unstarted_tasks :: "uuid \<Rightarrow> uuid \<Rightarrow> db \<Rightarrow> task_row list" where
  "unstarted_tasks me pid d =
     filter (\<lambda>t. t_owner t = me \<and> t_provider t = pid \<and> unstarted (t_status t)) (tasks d)"

definition fail_unstarted_tasks :: "uuid \<Rightarrow> uuid \<Rightarrow> abort_reason \<Rightarrow> db \<Rightarrow> nat \<times> db" where
  "fail_unstarted_tasks me pid reason d =
     (length (unstarted_tasks me pid d), fold (fail_unstarted me reason) (unstarted_tasks me pid d) d)"

section \<open>The operations\<close>

definition last4 :: "pystr \<Rightarrow> pystr" where "last4 k = drop (length k - 4) k"

record provider_create =
  pc_url :: pystr
  pc_model :: pystr
  pc_key :: pystr
  pc_default :: bool

definition create_provider_tx ::
  "uuid \<Rightarrow> provider_create \<Rightarrow> uuid \<Rightarrow> string \<times> string \<Rightarrow> time \<Rightarrow> db \<Rightarrow> api_error + provider_row \<times> db" where
  "create_provider_tx me u pid sealed now d =
     bindE (validate_model_id (pc_model u)) (\<lambda>_.
     if list_ex (\<lambda>p. p_user p = me \<and> p_url p = pc_url u \<and> p_model p = pc_model u \<and> p_active p) (providers d)
     then Inl provider_duplicate
     else
       (let d1 = (if pc_default u then clear_default me (\<lambda>_. True) d else d);
            p = \<lparr>p_id = pid, p_user = me, p_catalog = None, p_model = pc_model u, p_url = pc_url u,
                 p_cipher = fst sealed, p_dek = snd sealed, p_last4 = last4 (pc_key u), p_keyver = 1,
                 p_active = True, p_default = pc_default u, p_created = now\<rparr>
        in bindE (map_integrity_conflict (insert_provider p d1)) (\<lambda>d2.
           bindE (get_provider_row me (Uuid pid) d2) (\<lambda>row. Inr (row, d2)))))"

text \<open>A field of the update: absent (\<open>None\<close>), an explicit null (\<open>Some None\<close>), or a value.\<close>

record provider_update =
  pu_key :: "pystr option option"
  pu_model :: "pystr option option"
  pu_url :: "pystr option option"
  pu_default :: "bool option option"

definition reject_explicit_nulls :: "provider_update \<Rightarrow> api_error + unit" where
  "reject_explicit_nulls u =
     (if pu_key u = Some None \<or> pu_model u = Some None \<or> pu_url u = Some None \<or> pu_default u = Some None
      then Inl validation_error else Inr ())"

definition change_model :: "provider_update \<Rightarrow> provider_row \<Rightarrow> api_error + provider_row" where
  "change_model u p =
     (case pu_model u of
        Some (Some m) \<Rightarrow> if m \<noteq> p_model p then bindE (validate_model_id m) (\<lambda>_. Inr (p\<lparr>p_model := m\<rparr>)) else Inr p
      | _ \<Rightarrow> Inr p)"

definition change_url :: "(pystr \<Rightarrow> bool) \<Rightarrow> provider_update \<Rightarrow> provider_row \<Rightarrow> api_error + provider_row" where
  "change_url netloc_ok u p =
     (case pu_url u of
        Some (Some url) \<Rightarrow>
          if url \<noteq> p_url p then bindE (validate_https_url netloc_ok url) (\<lambda>_. Inr (p\<lparr>p_url := url\<rparr>)) else Inr p
      | _ \<Rightarrow> Inr p)"

definition rotate_key ::
  "uuid \<Rightarrow> provider_update \<Rightarrow> string \<times> string \<Rightarrow> provider_row \<Rightarrow> db \<Rightarrow> provider_row \<times> db" where
  "rotate_key me u sealed p d =
     (case pu_key u of
        Some (Some k) \<Rightarrow>
          (p\<lparr>p_cipher := fst sealed, p_dek := snd sealed, p_last4 := last4 k, p_keyver := p_keyver p + 1\<rparr>,
           snd (fail_unstarted_tasks me (p_id p) ProviderKeyRevoked d))
      | _ \<Rightarrow> (p, d))"

definition change_default :: "uuid \<Rightarrow> provider_update \<Rightarrow> provider_row \<Rightarrow> db \<Rightarrow> provider_row \<times> db" where
  "change_default me u p d =
     (case pu_default u of
        Some (Some True) \<Rightarrow> (p\<lparr>p_default := True\<rparr>, clear_default me (\<lambda>x. p_id x \<noteq> p_id p) d)
      | Some (Some False) \<Rightarrow> (p\<lparr>p_default := False\<rparr>, d)
      | _ \<Rightarrow> (p, d))"

definition update_provider_tx ::
  "(pystr \<Rightarrow> bool) \<Rightarrow> uuid \<Rightarrow> raw_id \<Rightarrow> provider_update \<Rightarrow> string \<times> string \<Rightarrow> db \<Rightarrow> api_error + provider_row \<times> db" where
  "update_provider_tx netloc_ok me provider_id u sealed d =
     bindE (get_provider_row me provider_id d) (\<lambda>p.
     bindE (reject_explicit_nulls u) (\<lambda>_.
     bindE (change_model u p) (\<lambda>p1.
     bindE (change_url netloc_ok u p1) (\<lambda>p2.
     case rotate_key me u sealed p2 d of (p3, d1) \<Rightarrow>
     case change_default me u p3 d1 of (p4, d2) \<Rightarrow>
     bindE (map_integrity_conflict (save_provider me p4 d2)) (\<lambda>d3. Inr (p4, d3))))))"

definition revoke_provider_tx :: "uuid \<Rightarrow> raw_id \<Rightarrow> db \<Rightarrow> api_error + uuid \<times> db" where
  "revoke_provider_tx me provider_id d =
     bindE (get_provider_row me provider_id d) (\<lambda>p.
     let d1 = snd (fail_unstarted_tasks me (p_id p) ProviderKeyRevoked d)
     in bindE (save_provider me (p\<lparr>p_active := False, p_default := False\<rparr>) d1) (\<lambda>d2. Inr (p_id p, d2)))"


section \<open>What failing an unstarted task does\<close>

text \<open>The contract of a transaction without its byte accounting: the retained bytes may exceed what is held.\<close>

definition ok_loose :: "uuid \<Rightarrow> uuid \<Rightarrow> db \<Rightarrow> db \<Rightarrow> bool" where
  "ok_loose me tid d d' \<longleftrightarrow> good d' \<and> touches me tid d d' \<and> (within d \<longrightarrow> within d')
     \<and> (\<forall>i. quiet d i \<longrightarrow> quiet d' i)
     \<and> (\<forall>i t. task_at d i = Some t \<longrightarrow> (\<exists>t' es. task_at d' i = Some t' \<and> evolves t t'
          \<and> log_of d' i = log_of d i @ es))"

lemma release_unstarted_eq:
  "release_unstarted tid owner d =
     (let d1 = mark_released tid (\<lambda>_. True) d; n = held_task d tid KActive
      in if n = 0 then d1
         else (case usage d owner of None \<Rightarrow> d1
               | Some q \<Rightarrow> d1\<lparr>usage := (usage d)(owner \<mapsto> q\<lparr>u_active := u_active q - n\<rparr>)\<rparr>))"
proof -
  have n: "rowcount (\<lambda>(k, _). k = KActive) (map (\<lambda>v. (v_kind v, v_bytes v)) (filter (\<lambda>v. v_task v = tid \<and> v_state v = Held) (resvs d)))
      = held_task d tid KActive"
    by (simp add: rowcount_map rowcount_filter held_task_def held_def conj_ac)
  show ?thesis
    by (simp add: release_unstarted_def release_reservations_def n mark_released_def held_def Let_def cong: option.case_cong)
qed

lemma release_unstarted_frame [simp]:
  "tasks (release_unstarted i o' d) = tasks d" "rounds (release_unstarted i o' d) = rounds d"
  "events (release_unstarted i o' d) = events d" "messages (release_unstarted i o' d) = messages d"
  "files (release_unstarted i o' d) = files d" "slots (release_unstarted i o' d) = slots d"
  "quotas (release_unstarted i o' d) = quotas d" "pl_used (release_unstarted i o' d) = pl_used d"
  "pl_max (release_unstarted i o' d) = pl_max d" "providers (release_unstarted i o' d) = providers d"
  "resvs (release_unstarted i o' d) = resvs (mark_released i (\<lambda>_. True) d)"
  by (simp_all add: release_unstarted_eq Let_def split: option.split)

lemma release_unstarted_slices [simp]:
  "task_at (release_unstarted i o' d) j = task_at d j" "find_task u j (release_unstarted i o' d) = find_task u j d"
  "rounds_of (release_unstarted i o' d) j = rounds_of d j" "act_of (release_unstarted i o' d) j = act_of d j"
  "log_of (release_unstarted i o' d) j = log_of d j" "msgs_of (release_unstarted i o' d) j = msgs_of d j"
  "leased_to (release_unstarted i o' d) j = leased_to d j"
  "sel_rounds me P (release_unstarted i o' d) = sel_rounds me P d"
  by (simp_all add: task_at_def find_task_def rounds_of_def act_of_def log_of_def msgs_of_def leased_to_def sel_rounds_def)

lemma touches_release_unstarted: "touches me i d (release_unstarted i me d)"
  unfolding release_unstarted_eq Let_def
  by (auto split: option.split intro!: touches_booking_parts(5))
    (metis mark_released_frame(6) touches_booking_parts(5) touches_usage)

lemma acct_release_unstarted:
  assumes "acct d" and "owns_resvs me i d" and "held_task d i KRunning = 0"
  shows "acct (release_unstarted i me d)"
proof -
  let ?m = "mark_released i (\<lambda>_. True) d" and ?d = "release_unstarted i me d"
  have h: "held_user ?d u k = held_user ?m u k" "bytes_user ?d u = bytes_user ?m u" "bytes_all ?d = bytes_all ?m" for u k
    by (simp_all add: held_user_def bytes_user_def bytes_all_def)
  have du: "acct_user d u" for u using assms(1) by (simp add: acct_def)
  note mark = held_user_mark [OF assms(2), of _ _ "\<lambda>_. True"] bytes_user_mark [OF assms(2), of _ "\<lambda>_. True"]
  have n: "freed_count d i (\<lambda>_. True) k = held_task d i k" for k by (simp add: freed_count_def)
  have "acct_user ?d u" for u
  proof (cases "usage d u")
    case None
    then have "usage ?d u = None" by (auto simp: release_unstarted_eq Let_def split: option.split)
    then show ?thesis using None du [of u] by (auto simp: acct_user_def mark_released_def held_def)
  next
    case (Some q)
    have q: "u_active q = held_user d u KActive" "u_running q = held_user d u KRunning" "bytes_user d u \<le> u_storage q"
      using du [of u] Some by (auto simp: acct_user_def)
    show ?thesis
    proof (cases "u = me \<and> held_task d i KActive \<noteq> 0")
      case True
      then have "usage ?d u = Some (q\<lparr>u_active := u_active q - held_task d i KActive\<rparr>)"
        using Some by (simp add: release_unstarted_eq Let_def)
      then show ?thesis using True q mark(1) [of u] mark(2) [of u] assms(3) by (simp add: acct_user_def h n)
    next
      case False
      then have "usage ?d u = Some q"
        using Some by (auto simp: release_unstarted_eq Let_def split: option.split)
      then show ?thesis using False q mark(1) [of u] mark(2) [of u] assms(3)
        by (auto simp: acct_user_def h n)
    qed
  qed
  moreover have "bytes_all ?d \<le> pl_used ?d"
    using assms(1) bytes_all_mark [of d i "\<lambda>_. True"] by (simp add: acct_def h)
  moreover have "zero_bytes ?d"
    using assms(1) zero_bytes_mark [of d i "\<lambda>_. True"] by (simp add: acct_def zero_bytes_def)
  ultimately show ?thesis by (simp add: acct_def)
qed

lemma within_release_unstarted:
  assumes "within d"
  shows "within (release_unstarted i me d)"
proof (cases "usage d me")
  case None
  then show ?thesis using assms by (simp add: release_unstarted_eq Let_def within_def)
next
  case (Some q)
  then obtain Q where Q: "quotas d me = Some Q" "u_active q \<le> q_active Q" "u_running q \<le> q_running Q"
      "u_storage q \<le> q_storage Q"
    using assms by (auto simp: within_def)
  then show ?thesis using assms Some by (auto simp: release_unstarted_eq Let_def within_def)
qed

lemma unstarted_rounds:
  assumes "good d" and "task_at d i = Some t" and "t_owner t = me" and "unstarted (t_status t)"
  defines "hit \<equiv> \<lambda>r. r_task r = i \<and> r_state r = RPending"
  shows "act_of (upd_rounds me hit (\<lambda>r. r\<lparr>r_state := RCancelled\<rparr>) d) i = []"
    and "t_pending t = None" "held_task d i KActive = 1" "held_task d i KRunning = 0" "leased_to d i = 0"
    and "length (sel_rounds me hit d) = (if t_status t = Queued then 1 else 0)"
proof -
  note g = good_task [OF assms(1,2)]
  have p: "t_pending t = None \<and> held_task d i KActive = 1 \<and> held_task d i KRunning = 0"
    using g(2) assms(4) unfolding unstarted_def by (elim disjE) simp_all
  then show "t_pending t = None" "held_task d i KActive = 1" "held_task d i KRunning = 0" by blast+
  then show "leased_to d i = 0" using g(3) by simp
  have s: "sel_rounds me hit d = filter (\<lambda>r. r_state r = RPending) (act_of d i)"
  proof -
    have o: "\<forall>r\<in>set (rounds d). r_task r = i \<longrightarrow> r_owner r = me"
      using g(1) assms(3) by (auto simp: owned_def rounds_of_def)
    have "(r_owner r = me \<and> hit r) = ((r_task r = i \<and> active_state (r_state r)) \<and> r_state r = RPending)"
      if "r \<in> set (rounds d)" for r
      using bspec [OF o that] by (cases "r_state r = RPending") (simp_all add: hit_def, blast)
    then show ?thesis unfolding sel_rounds_def act_of_def filter_filter by (rule filter_cong [OF refl])
  qed
  show "length (sel_rounds me hit d) = (if t_status t = Queued then 1 else 0)"
  proof (cases "t_status t = Queued")
    case True
    then obtain r where "act_of d i = [r]" "r_state r = RPending" using queued_round [OF assms(1,2)] by metis
    then show ?thesis using True s by simp
  next
    case False
    then have "act_of d i = []" using g(2) assms(4) unfolding unstarted_def by (elim disjE) simp_all
    then show ?thesis using False s by simp
  qed
  show "act_of (upd_rounds me hit (\<lambda>r. r\<lparr>r_state := RCancelled\<rparr>) d) i = []"
  proof (cases "t_status t = Queued")
    case True
    then obtain r where r: "act_of d i = [r]" "r_state r = RPending" "r_owner r = t_owner t" "r_task r = i"
      using queued_round [OF assms(1,2)] by metis
    then show ?thesis
      using act_of_cancel [OF r(1), of me hit "\<lambda>r. r\<lparr>r_state := RCancelled\<rparr>"] assms(3) by (simp add: hit_def)
  next
    case False
    then have a: "act_of d i = []" using g(2) assms(4) unfolding unstarted_def by (elim disjE) simp_all
    have "act_of (upd_rounds me hit (\<lambda>r. r\<lparr>r_state := RCancelled\<rparr>) d) i =
       filter (\<lambda>r. active_state (r_state r)) (upd (\<lambda>r. r_owner r = me \<and> hit r) (\<lambda>r. r\<lparr>r_state := RCancelled\<rparr>) (act_of d i))"
      by (rule act_of_upd_rounds) (auto simp: hit_def)
    then show ?thesis using a by simp
  qed
qed

lemma fail_unstarted_loose:
  assumes "good d" and "task_at d (t_id t) = Some t" and "t_owner t = me" and "unstarted (t_status t)"
  shows "ok_loose me (t_id t) d (fail_unstarted me reason t d)"
proof -
  let ?i = "t_id t" and ?hit = "\<lambda>r. r_task r = t_id t \<and> r_state r = RPending"
  define k where "k = length (sel_rounds me ?hit d)"
  note u = unstarted_rounds [OF assms]
  define d2 where "d2 = upd_rounds me ?hit (\<lambda>r. r\<lparr>r_state := RCancelled\<rparr>) (release_unstarted ?i me d)"
  define t1 where "t1 = t\<lparr>t_status := Failed, t_abort := Some reason, t_eseq := t_eseq t + (1 + (if k \<noteq> 0 then 1 else 0))\<rparr>"
  define es where "es = \<lparr>e_task = ?i, e_owner = me, e_seq = t_eseq t + 1, e_type = EStatusChanged,
         e_payload = PStatus Failed (Some reason), e_message = None, e_round = None\<rparr>
       # (if k \<noteq> 0 then [\<lparr>e_task = ?i, e_owner = me, e_seq = t_eseq t + 1 + 1, e_type = ERoundCancelled,
         e_payload = PReason (Some reason), e_message = None, e_round = None\<rparr>] else [])"
  define d3 where "d3 = upd_tasks me (\<lambda>x. t_id x = ?i) (\<lambda>x. x\<lparr>t_status := Failed, t_abort := Some reason,
                 t_eseq := t_eseq x + (1 + (if k \<noteq> 0 then 1 else 0))\<rparr>) d2"
  define d' where "d' = fail_unstarted me reason t d"
  have d': "d' = d3\<lparr>events := events d3 @ es\<rparr>"
    by (simp add: d'_def fail_unstarted_def cancel_pending_def Let_def d3_def d2_def k_def es_def assms(3) add_event_def)
  have frame: "tasks d' = tasks d3" "rounds d' = rounds d2" "resvs d' = resvs (mark_released ?i (\<lambda>_. True) d)"
    "usage d' = usage (release_unstarted ?i me d)" "slots d' = slots d" "pl_used d' = pl_used d"
    "quotas d' = quotas d" "pl_max d' = pl_max d" "messages d' = messages d" "events d' = events d @ es"
    by (simp_all add: d' d3_def d2_def)
  have T: "touches me ?i d d'"
  proof -
    have "touches me ?i d d3" unfolding d3_def d2_def
      by (intro touches_upd_tasks touches_upd_rounds touches_release_unstarted) auto
    moreover have "touches me ?i d3 d'"
      using touches_add_event [OF touches_refl, of me ?i d3] unfolding d'_def fail_unstarted_def
      by (auto simp: cancel_pending_def Let_def d3_def d2_def k_def assms(3) intro!: touches_add_event)
    ultimately show ?thesis by (rule touches_trans)
  qed
  note g = good_task [OF assms(1,2)]
  have at: "task_at d' ?i = Some t1"
    using assms(2,3) frame(1) by (simp add: task_at_def [of d'] task_at_def [of d3, symmetric])
      (simp add: d3_def d2_def t1_def)
  have log: "log_of d' ?i = log_of d ?i @ es" by (simp add: log_of_def frame es_def)
  have tg: "task_good d' ?i"
  proof -
    have "act_of d' ?i = []" using u(1) by (simp add: act_of_def frame d2_def)
    moreover have "held_task d' ?i k = 0" for k using held_task_mark [of ?i "\<lambda>_. True" d ?i k] by (simp add: held_task_def frame)
    moreover have "leased_to d' ?i = 0" using u(5) by (simp add: leased_to_def frame)
    moreover have "rounds_of d' ?i = upd (\<lambda>r. r_owner r = me \<and> ?hit r) (\<lambda>r. r\<lparr>r_state := RCancelled\<rparr>) (rounds_of d ?i)"
      using rounds_of_upd_rounds [of "\<lambda>r. r\<lparr>r_state := RCancelled\<rparr>" me ?hit "release_unstarted ?i me d" ?i]
      by (simp add: rounds_of_def frame d2_def)
    moreover have "msgs_of d' ?i = msgs_of d ?i" by (simp add: msgs_of_def frame)
    moreover have "\<forall>v\<in>set (resvs_of d' ?i). v_user v = me \<and> v_state v \<noteq> Consumed"
      using g(1,6) assms(3) by (auto simp: resvs_of_def frame mark_released_def owned_def set_upd split: if_splits)
    moreover have "log_ok t1 (log_of d ?i @ es) (msgs_of d ?i @ [])"
      by (rule log_ok_append [OF g(4), of es "1 + (if k \<noteq> 0 then 1 else 0)"]) (auto simp: es_def t1_def)
    ultimately show ?thesis
      using at g(1,5) assms(3) u(2) log unfolding task_good_def
      by (auto simp: owned_def t1_def es_def split: if_splits)
  qed
  have ac: "acct d'"
  proof -
    have "owns_resvs me ?i d" using owned_owns_resvs g(1) assms(3) by blast
    from acct_release_unstarted [OF _ this u(4)] assms(1) have "acct (release_unstarted ?i me d)" by (simp add: good_def)
    then show ?thesis using acct_cong [of d' "release_unstarted ?i me d"] by (simp add: frame)
  qed
  have G: "good d'"
    by (rule goodI [OF assms(1) T tg ac]) (use assms(1) in \<open>simp add: good_def slots_wf_def frame\<close>)
  have W: "within d \<longrightarrow> within d'"
    using within_release_unstarted [of d ?i me] within_cong [of d' "release_unstarted ?i me d"] by (simp add: frame)
  have ev: "evolves t t1"
    using assms(4) by (auto simp: evolves_def t1_def allowed_flip_def unstarted_def)
  have Q: "quiet d' j" if "quiet d j" for j
    using that quiet_other [OF T, of j] at by (cases "j = ?i") (auto simp: quiet_def t1_def)
  have "\<exists>t' es. task_at d' j = Some t' \<and> evolves x t' \<and> log_of d' j = log_of d j @ es"
    if "task_at d j = Some x" for j x
    using that at ev assms(2) log touches_other [OF T, of j] by (cases "j = ?i") auto
  then show ?thesis unfolding ok_loose_def d'_def [symmetric] using G T W Q by blast
qed

section \<open>The operations keep the task tables consistent\<close>

text \<open>What a transaction on several tasks of one owner may do.\<close>

definition ok_batch :: "uuid \<Rightarrow> db \<Rightarrow> db \<Rightarrow> bool" where
  "ok_batch me d d' \<longleftrightarrow> good d' \<and> (within d \<longrightarrow> within d') \<and> (\<forall>i. quiet d i \<longrightarrow> quiet d' i)
     \<and> (\<forall>i t. task_at d i = Some t \<longrightarrow> (\<exists>t' es. task_at d' i = Some t' \<and> evolves t t'
          \<and> log_of d' i = log_of d i @ es))
     \<and> (\<forall>u. u \<noteq> me \<longrightarrow> usage d' u = usage d u \<and> quotas d' u = quotas d u
          \<and> filter (\<lambda>t. t_owner t = u) (tasks d') = filter (\<lambda>t. t_owner t = u) (tasks d)
          \<and> filter (\<lambda>r. r_owner r = u) (rounds d') = filter (\<lambda>r. r_owner r = u) (rounds d)
          \<and> filter (\<lambda>e. e_owner e = u) (events d') = filter (\<lambda>e. e_owner e = u) (events d)
          \<and> filter (\<lambda>x. f_owner x = u) (files d') = filter (\<lambda>x. f_owner x = u) (files d))"

lemma ok_batch_refl: "good d \<Longrightarrow> ok_batch me d d"
  unfolding ok_batch_def using evolves_refl by auto

lemma ok_batch_task:
  assumes "ok_batch me d d'" and "task_at d i = Some t"
  obtains t' es where "task_at d' i = Some t'" "evolves t t'" "log_of d' i = log_of d i @ es"
  using assms unfolding ok_batch_def by blast

lemma loose_batch: "ok_loose me i d d' \<Longrightarrow> ok_batch me d d'"
proof -
  assume l: "ok_loose me i d d'"
  then have T: "touches me i d d'" by (simp add: ok_loose_def)
  note t = T [unfolded touches_def]
  have "filter (\<lambda>t. t_owner t = u) (tasks d') = filter (\<lambda>t. t_owner t = u) (tasks d)
      \<and> filter (\<lambda>r. r_owner r = u) (rounds d') = filter (\<lambda>r. r_owner r = u) (rounds d)
      \<and> filter (\<lambda>e. e_owner e = u) (events d') = filter (\<lambda>e. e_owner e = u) (events d)
      \<and> filter (\<lambda>x. f_owner x = u) (files d') = filter (\<lambda>x. f_owner x = u) (files d)" if "u \<noteq> me" for u
    by (intro conjI; rule filter_weaken [where P = "\<lambda>x. \<not> (_ x = i \<and> _ x = me)"]) (use t that in auto)
  then show "ok_batch me d d'" using l t unfolding ok_batch_def ok_loose_def by blast
qed

text \<open>A batch fails each of its tasks once, so the second row a task goes through is the same.\<close>

lemma fail_batch:
  assumes "good d" and "distinct (map t_id ts)"
    and "\<And>t. t \<in> set ts \<Longrightarrow> task_at d (t_id t) = Some t \<and> t_owner t = me \<and> unstarted (t_status t)"
  shows "ok_batch me d (fold (fail_unstarted me reason) ts d)
    \<and> (\<forall>i. i \<notin> t_id ` set ts \<longrightarrow> task_at (fold (fail_unstarted me reason) ts d) i = task_at d i
         \<and> log_of (fold (fail_unstarted me reason) ts d) i = log_of d i)"
  using assms
proof (induction ts arbitrary: d)
  case Nil
  then show ?case by (simp add: ok_batch_refl)
next
  case (Cons t ts)
  let ?d1 = "fail_unstarted me reason t d"
  have l: "ok_loose me (t_id t) d ?d1" using Cons.prems by (intro fail_unstarted_loose) auto
  then have T: "touches me (t_id t) d ?d1" and g: "good ?d1" by (simp_all add: ok_loose_def)
  have "task_at ?d1 (t_id x) = Some x \<and> t_owner x = me \<and> unstarted (t_status x)" if "x \<in> set ts" for x
    using Cons.prems(2) Cons.prems(3) [of x] that touches_other(1) [OF T, of "t_id x"] by (auto simp: image_iff)
  then have ih: "ok_batch me ?d1 (fold (fail_unstarted me reason) ts ?d1)"
    "\<And>i. i \<notin> t_id ` set ts \<Longrightarrow> task_at (fold (fail_unstarted me reason) ts ?d1) i = task_at ?d1 i
       \<and> log_of (fold (fail_unstarted me reason) ts ?d1) i = log_of ?d1 i"
    using Cons.IH [OF g] Cons.prems(2) by auto
  note b = loose_batch [OF l]
  have other: "task_at ?d1 i = task_at d i \<and> log_of ?d1 i = log_of d i" if "i \<noteq> t_id t" for i
    using touches_other [OF T that] by simp
  have t1: "t_id t \<notin> t_id ` set ts" using Cons.prems(2) by simp
  let ?d2 = "fold (fail_unstarted me reason) ts ?d1"
  have "\<exists>t' es. task_at ?d2 i = Some t' \<and> evolves x t' \<and> log_of ?d2 i = log_of d i @ es" if "task_at d i = Some x" for i x
  proof (cases "i = t_id t")
    case True
    then show ?thesis using ok_batch_task [OF b that] ih(2) [of i] t1 by metis
  next
    case False
    then show ?thesis using ok_batch_task [OF ih(1), of i x] that other [OF False] by metis
  qed
  then have "ok_batch me d ?d2" using b ih(1) unfolding ok_batch_def by auto
  then show ?case using ih(2) other by auto
qed

lemma unstarted_tasks_mem:
  assumes "good d" and "t \<in> set (unstarted_tasks me pid d)"
  shows "task_at d (t_id t) = Some t \<and> t_owner t = me \<and> unstarted (t_status t) \<and> t_provider t = pid"
proof -
  have "distinct (map t_id (tasks d))" using assms(1) by (simp add: good_def pkeys_def)
  from find_key [OF this, of t "\<lambda>_. True"] assms(2) show ?thesis
    by (simp add: unstarted_tasks_def task_at_def)
qed

lemma fail_unstarted_tasks_batch:
  assumes "good d"
  shows "ok_batch me d (snd (fail_unstarted_tasks me pid reason d))"
proof -
  have "distinct (map t_id (unstarted_tasks me pid d))"
    using assms by (simp add: unstarted_tasks_def distinct_map_filter good_def pkeys_def)
  from fail_batch [OF assms this, of me reason] unstarted_tasks_mem [OF assms]
  show ?thesis by (simp add: fail_unstarted_tasks_def)
qed

text \<open>The provider table is in no slice.\<close>

lemma slices_providers [simp]:
  "task_at (d\<lparr>providers := P\<rparr>) i = task_at d i" "find_task u i (d\<lparr>providers := P\<rparr>) = find_task u i d"
  "rounds_of (d\<lparr>providers := P\<rparr>) i = rounds_of d i" "resvs_of (d\<lparr>providers := P\<rparr>) i = resvs_of d i"
  "log_of (d\<lparr>providers := P\<rparr>) i = log_of d i" "msgs_of (d\<lparr>providers := P\<rparr>) i = msgs_of d i"
  "act_of (d\<lparr>providers := P\<rparr>) i = act_of d i" "held_task (d\<lparr>providers := P\<rparr>) i k = held_task d i k"
  "leased_to (d\<lparr>providers := P\<rparr>) i = leased_to d i"
  by (simp_all add: task_at_def find_task_def rounds_of_def resvs_of_def log_of_def msgs_of_def act_of_def
      held_task_def leased_to_def)

lemma contracts_providers [simp]:
  "good (d\<lparr>providers := P\<rparr>) = good d" "exact (d\<lparr>providers := P\<rparr>) = exact d"
  "within (d\<lparr>providers := P\<rparr>) = within d" "quiet (d\<lparr>providers := P\<rparr>) i = quiet d i"
  by (simp_all add: good_def pkeys_def task_good_def owned_def slots_wf_def within_def quiet_def
      acct_cong [of "d\<lparr>providers := P\<rparr>" d] exact_cong [of "d\<lparr>providers := P\<rparr>" d] cong: option.case_cong)

lemma ok_batch_providers [simp]:
  "ok_batch me d (d'\<lparr>providers := P\<rparr>) = ok_batch me d d'" "ok_batch me (d\<lparr>providers := P\<rparr>) d' = ok_batch me d d'"
  by (simp_all add: ok_batch_def)

lemma provider_writes_Inr:
  "insert_provider p d = Inr d' \<Longrightarrow> d' = d\<lparr>providers := providers d @ [p]\<rparr> \<and> check_provider p (providers d) = Inr ()"
  "save_provider me p d = Inr d' \<Longrightarrow>
     d' = d\<lparr>providers := upd (\<lambda>x. p_user x = me \<and> p_id x = p_id p) (\<lambda>_. p) (providers d)\<rparr>
     \<and> check_provider p (filter (\<lambda>x. p_id x \<noteq> p_id p) (providers d)) = Inr ()"
  by (auto simp: insert_provider_def save_provider_def)

lemma map_integrity_conflict_Inr [simp]: "map_integrity_conflict r = Inr x \<longleftrightarrow> r = Inr x"
  by (auto simp: map_integrity_conflict_def split: sum.splits api_error.splits)

lemma create_provider_effect:
  assumes "create_provider_tx me u pid sealed now d = Inr (row, d')"
  shows "\<exists>P. d' = d\<lparr>providers := P\<rparr>"
  using assms
  by (auto simp: create_provider_tx_def Let_def clear_default_def dest!: provider_writes_Inr(1) split: if_splits)

lemma create_provider_batch: "good d \<Longrightarrow> create_provider_tx me u pid sealed now d = Inr (row, d') \<Longrightarrow> ok_batch me d d'"
  using ok_batch_refl ok_batch_providers(1) create_provider_effect by metis

text \<open>What the update does to the task tables: nothing, or the failure of the unstarted tasks.\<close>

definition keeps_key :: "provider_update \<Rightarrow> bool" where
  "keeps_key u \<longleftrightarrow> (case pu_key u of Some (Some _) \<Rightarrow> False | _ \<Rightarrow> True)"

definition same_entry :: "provider_row \<Rightarrow> provider_row \<Rightarrow> bool" where
  "same_entry p p' \<longleftrightarrow> p_id p' = p_id p \<and> p_user p' = p_user p \<and> p_active p' = p_active p
     \<and> p_created p' = p_created p \<and> p_catalog p' = p_catalog p"

lemma change_model_Inr: "change_model u p = Inr p' \<Longrightarrow> same_entry p p' \<and> p_default p' = p_default p \<and> p_keyver p' = p_keyver p"
  by (auto simp: change_model_def same_entry_def split: option.splits if_splits)

lemma change_url_Inr: "change_url ok u p = Inr p' \<Longrightarrow> same_entry p p' \<and> p_default p' = p_default p \<and> p_keyver p' = p_keyver p"
  by (auto simp: change_url_def same_entry_def split: option.splits if_splits)

lemma rotate_key_eq:
  "rotate_key me u sealed p d = (p', d') \<Longrightarrow>
     d' = (if keeps_key u then d else snd (fail_unstarted_tasks me (p_id p) ProviderKeyRevoked d))
     \<and> same_entry p p' \<and> p_default p' = p_default p \<and> p_keyver p \<le> p_keyver p'
     \<and> (p_keyver p' = p_keyver p \<longleftrightarrow> keeps_key u)"
  by (auto simp: rotate_key_def keeps_key_def same_entry_def split: option.splits)

lemma change_default_eq:
  "change_default me u p d = (p', d') \<Longrightarrow>
     same_entry p p' \<and> p_keyver p' = p_keyver p
     \<and> (p_default p' \<longrightarrow> p_default p \<or> d' = clear_default me (\<lambda>x. p_id x \<noteq> p_id p) d)
     \<and> (d' = d \<or> d' = clear_default me (\<lambda>x. p_id x \<noteq> p_id p) d)"
  by (auto simp: change_default_def same_entry_def split: option.splits if_splits bool.splits)

lemma update_provider_cases:
  assumes "update_provider_tx ok me provider_id u sealed d = Inr (row, d')"
  obtains p d1 d2 where "get_provider_row me provider_id d = Inr p" "same_entry p row" "p_keyver p \<le> p_keyver row"
    "p_keyver row = p_keyver p \<longleftrightarrow> keeps_key u"
    "d1 = (if keeps_key u then d else snd (fail_unstarted_tasks me (p_id p) ProviderKeyRevoked d))"
    "d2 = d1 \<or> d2 = clear_default me (\<lambda>x. p_id x \<noteq> p_id p) d1"
    "p_default row \<longrightarrow> p_default p \<or> d2 = clear_default me (\<lambda>x. p_id x \<noteq> p_id p) d1"
    "save_provider me row d2 = Inr d'"
proof -
  obtain p p1 p2 where p: "get_provider_row me provider_id d = Inr p" "change_model u p = Inr p1" "change_url ok u p1 = Inr p2"
    and r: "(case rotate_key me u sealed p2 d of (p3, d1) \<Rightarrow> case change_default me u p3 d1 of (p4, d2) \<Rightarrow>
       bindE (map_integrity_conflict (save_provider me p4 d2)) (\<lambda>d3. Inr (p4, d3))) = Inr (row, d')"
    using assms unfolding update_provider_tx_def bindE_Inr_iff by blast
  obtain p3 d1 where k: "rotate_key me u sealed p2 d = (p3, d1)" by force
  obtain p4 d2 where c: "change_default me u p3 d1 = (p4, d2)" by force
  have s: "p4 = row" "save_provider me row d2 = Inr d'" using r k c by auto
  note f = change_model_Inr [OF p(2)] change_url_Inr [OF p(3)] rotate_key_eq [OF k] change_default_eq [OF c]
  have i: "p_id p3 = p_id p" "p_id p2 = p_id p" using f by (simp_all add: same_entry_def)
  show thesis
  proof (rule that [OF p(1) _ _ _ _ _ _ s(2), where ?d1.0 = d1])
    show "same_entry p row" using f s(1) by (simp add: same_entry_def)
    show "d1 = (if keeps_key u then d else snd (fail_unstarted_tasks me (p_id p) ProviderKeyRevoked d))"
      using f i by simp
  qed (use f i s(1) in auto)
qed

lemma update_provider_effect:
  assumes "update_provider_tx ok me provider_id u sealed d = Inr (row, d')"
  shows "\<exists>P. d' = (if keeps_key u then d else snd (fail_unstarted_tasks me (p_id row) ProviderKeyRevoked d))\<lparr>providers := P\<rparr>"
proof (rule update_provider_cases [OF assms])
  fix p d1 d2
  assume "same_entry p row"
    and d1: "d1 = (if keeps_key u then d else snd (fail_unstarted_tasks me (p_id p) ProviderKeyRevoked d))"
    and d2: "d2 = d1 \<or> d2 = clear_default me (\<lambda>x. p_id x \<noteq> p_id p) d1" and s: "save_provider me row d2 = Inr d'"
  have "\<exists>P. d' = d1\<lparr>providers := P\<rparr>" using d2 provider_writes_Inr(2) [OF s] by (auto simp: clear_default_def)
  then show ?thesis using \<open>same_entry p row\<close> d1 by (simp only: same_entry_def)
qed

lemma revoke_provider_effect:
  assumes "revoke_provider_tx me provider_id d = Inr (pid, d')"
  shows "\<exists>P. d' = (snd (fail_unstarted_tasks me pid ProviderKeyRevoked d))\<lparr>providers := P\<rparr>"
  using assms by (auto simp: revoke_provider_tx_def Let_def dest!: provider_writes_Inr(2))

lemma update_provider_batch:
  assumes "good d" and "update_provider_tx ok me provider_id u sealed d = Inr (row, d')"
  shows "ok_batch me d d'"
  using update_provider_effect [OF assms(2)] fail_unstarted_tasks_batch [OF assms(1)] ok_batch_refl [OF assms(1)]
    ok_batch_providers(1) by metis

lemma revoke_provider_batch:
  "good d \<Longrightarrow> revoke_provider_tx me provider_id d = Inr (pid, d') \<Longrightarrow> ok_batch me d d'"
  using revoke_provider_effect fail_unstarted_tasks_batch ok_batch_providers(1) by metis

section \<open>The provider table is well-formed\<close>

definition provider_ok :: "provider_row \<Rightarrow> bool" where
  "provider_ok p \<longleftrightarrow> length (p_last4 p) = 4 \<and> 1 \<le> p_keyver p \<and> (p_default p \<longrightarrow> p_active p)
     \<and> validate_model_id (p_model p) = Inr () \<and> validate_https_url (\<lambda>_. True) (p_url p) = Inr ()"

definition providers_wf :: "db \<Rightarrow> bool" where
  "providers_wf d \<longleftrightarrow> distinct (map p_id (providers d)) \<and> (\<forall>p\<in>set (providers d). provider_ok p)
     \<and> (\<forall>p\<in>set (providers d). \<forall>q\<in>set (providers d). p_id p \<noteq> p_id q \<longrightarrow> \<not> default_clash p q \<and> \<not> entry_clash p q)"

lemma providers_wf_cong: "providers d' = providers d \<Longrightarrow> providers_wf d' = providers_wf d"
  by (simp add: providers_wf_def)

lemma clash_sym: "default_clash a b = default_clash b a" "entry_clash a b = entry_clash b a"
  by (auto simp: default_clash_def entry_clash_def)

lemma check_provider_Inr:
  "check_provider p others = Inr () \<longleftrightarrow> length (p_last4 p) = 4
     \<and> (\<forall>o'\<in>set others. p_id o' \<noteq> p_id p \<and> \<not> default_clash p o' \<and> \<not> entry_clash p o')"
  by (auto simp: check_provider_def list_ex_iff)

lemma validate_https_url_True: "validate_https_url ok url = Inr () \<Longrightarrow> validate_https_url (\<lambda>_. True) url = Inr ()"
  by (auto simp: validate_https_url_def url_parts_def Let_def split: prod.splits if_splits)

lemma fail_unstarted_providers [simp]: "providers (fail_unstarted me reason t d) = providers d"
  by (simp add: fail_unstarted_def cancel_pending_def Let_def)

lemma fail_unstarted_tasks_providers [simp]: "providers (snd (fail_unstarted_tasks me pid reason d)) = providers d"
proof -
  have "providers (fold (fail_unstarted me reason) ts d) = providers d" for ts
    by (induction ts arbitrary: d) auto
  then show ?thesis by (simp add: fail_unstarted_tasks_def)
qed

lemma clear_default_wf:
  assumes "providers_wf d"
  shows "providers_wf (clear_default me P d)"
proof -
  let ?f = "\<lambda>x. if p_user x = me \<and> p_default x \<and> P x then x\<lparr>p_default := False\<rparr> else x"
  have f: "p_user (?f x) = p_user x" "p_active (?f x) = p_active x" "p_url (?f x) = p_url x"
    "p_model (?f x) = p_model x" "p_default (?f x) \<longrightarrow> p_default x" for x
    by simp_all
  have c: "default_clash (?f p) (?f q) \<Longrightarrow> default_clash p q" "entry_clash (?f p) (?f q) \<Longrightarrow> entry_clash p q" for p q
    unfolding default_clash_def entry_clash_def f(1-4) using f(5) by blast+
  have cc: "\<not> default_clash (?f p) (?f q) \<and> \<not> entry_clash (?f p) (?f q)"
    if "p \<in> set (providers d)" "q \<in> set (providers d)" "p_id p \<noteq> p_id q" for p q
    using assms that c unfolding providers_wf_def by blast
  have "provider_ok (?f p)" if "p \<in> set (providers d)" for p
    using assms that by (auto simp: providers_wf_def provider_ok_def)
  moreover have "p_id (?f p) = p_id p" for p by simp
  ultimately show ?thesis
    using assms cc unfolding providers_wf_def clear_default_def
    by (simp add: map_upd_key)
qed

lemma insert_provider_wf:
  assumes "providers_wf d" and "provider_ok p" and "insert_provider p d = Inr d'"
  shows "providers_wf d'"
proof -
  note i = provider_writes_Inr(1) [OF assms(3)]
  have o: "\<forall>o'\<in>set (providers d). p_id o' \<noteq> p_id p \<and> \<not> default_clash p o' \<and> \<not> entry_clash p o'"
    using i by (simp add: check_provider_Inr)
  then have "p_id p \<notin> p_id ` set (providers d)" by auto
  then show ?thesis
    using assms(1,2) i o clash_sym unfolding providers_wf_def by auto
qed

lemma save_provider_wf:
  assumes "providers_wf d" and "provider_ok p" and "save_provider me p d = Inr d'"
  shows "providers_wf d'"
proof -
  note i = provider_writes_Inr(2) [OF assms(3)]
  have o: "\<forall>o'\<in>set (providers d). p_id o' \<noteq> p_id p \<longrightarrow> \<not> default_clash p o' \<and> \<not> entry_clash p o'"
    using i by (simp add: check_provider_Inr)
  let ?f = "\<lambda>x. if p_user x = me \<and> p_id x = p_id p then p else x"
  have k: "p_id (?f x) = p_id x" for x by simp
  have ids: "map p_id (upd (\<lambda>x. p_user x = me \<and> p_id x = p_id p) (\<lambda>_. p) (providers d)) = map p_id (providers d)"
    by (auto simp: upd_def)
  have "\<not> default_clash (?f x) (?f y) \<and> \<not> entry_clash (?f x) (?f y)"
    if "x \<in> set (providers d)" "y \<in> set (providers d)" "p_id x \<noteq> p_id y" for x y
    using that o assms(1) clash_sym unfolding providers_wf_def by (auto split: if_splits)
  then show ?thesis
    using assms(1,2) i k ids unfolding providers_wf_def by (simp add: set_upd) fastforce
qed

lemma get_provider_row_Inr:
  "get_provider_row me provider_id d = Inr p \<Longrightarrow>
     p \<in> set (providers d) \<and> p_user p = me \<and> p_active p \<and> provider_id = Uuid (p_id p)"
  unfolding get_provider_row_def bindE_Inr_iff parse_id_Inr_iff
  by (elim exE conjE) (simp split: option.splits, drule find_Some_D, simp)

lemma create_provider_wf:
  assumes "providers_wf d" and "validate_https_url ok (pc_url u) = Inr ()"
    and "create_provider_tx me u pid sealed now d = Inr (row, d')"
  shows "providers_wf d'"
proof -
  let ?p = "\<lparr>p_id = pid, p_user = me, p_catalog = None, p_model = pc_model u, p_url = pc_url u,
       p_cipher = fst sealed, p_dek = snd sealed, p_last4 = last4 (pc_key u), p_keyver = 1,
       p_active = True, p_default = pc_default u, p_created = now\<rparr>"
  obtain d1 where i: "insert_provider ?p d1 = Inr d'" "d1 = d \<or> d1 = clear_default me (\<lambda>_. True) d"
      "validate_model_id (pc_model u) = Inr ()"
    using assms(3) by (auto simp: create_provider_tx_def Let_def split: if_splits)
  have "length (last4 (pc_key u)) = 4" using provider_writes_Inr(1) [OF i(1)] by (simp add: check_provider_Inr)
  then have "provider_ok ?p" using i(3) validate_https_url_True [OF assms(2)] by (simp add: provider_ok_def)
  then show ?thesis using insert_provider_wf [OF _ _ i(1)] clear_default_wf assms(1) i(2) by blast
qed

lemma update_row_ok:
  assumes "update_provider_tx ok me provider_id u sealed d = Inr (row, d')" and "providers_wf d"
  shows "provider_ok row"
proof (rule update_provider_cases [OF assms(1)])
  fix p d1 d2
  assume p: "get_provider_row me provider_id d = Inr p" and e: "same_entry p row" "p_keyver p \<le> p_keyver row"
    and s: "save_provider me row d2 = Inr d'"
  have "provider_ok p" "p_active p" using get_provider_row_Inr [OF p] assms(2) by (auto simp: providers_wf_def)
  moreover have "length (p_last4 row) = 4" using provider_writes_Inr(2) [OF s] by (simp add: check_provider_Inr)
  moreover have "validate_model_id (p_model row) = Inr () \<and> validate_https_url (\<lambda>_. True) (p_url row) = Inr ()"
  proof -
    obtain p1 p2 where q: "change_model u p = Inr p1" "change_url ok u p1 = Inr p2"
      and r: "(case rotate_key me u sealed p2 d of (p3, d1) \<Rightarrow> case change_default me u p3 d1 of (p4, d2) \<Rightarrow>
         bindE (map_integrity_conflict (save_provider me p4 d2)) (\<lambda>d3. Inr (p4, d3))) = Inr (row, d')"
      using assms(1) p unfolding update_provider_tx_def by auto
    have "p_model row = p_model p2 \<and> p_url row = p_url p2"
      using r by (auto simp: rotate_key_def change_default_def split: option.splits bool.splits prod.splits if_splits)
    moreover have "validate_model_id (p_model p1) = Inr ()" "p_url p1 = p_url p"
      using q(1) \<open>provider_ok p\<close> by (auto simp: change_model_def provider_ok_def split: option.splits if_splits)
    moreover have "p_model p2 = p_model p1" "validate_https_url (\<lambda>_. True) (p_url p2) = Inr ()"
      using q(2) \<open>provider_ok p\<close> \<open>p_url p1 = p_url p\<close> validate_https_url_True
      by (auto simp: change_url_def provider_ok_def split: option.splits if_splits)
    ultimately show ?thesis by simp
  qed
  ultimately show ?thesis using e by (auto simp: provider_ok_def same_entry_def)
qed

lemma update_provider_wf:
  assumes "providers_wf d" and "update_provider_tx ok me provider_id u sealed d = Inr (row, d')"
  shows "providers_wf d'"
proof (rule update_provider_cases [OF assms(2)])
  fix p d1 d2
  assume d1: "d1 = (if keeps_key u then d else snd (fail_unstarted_tasks me (p_id p) ProviderKeyRevoked d))"
    and d2: "d2 = d1 \<or> d2 = clear_default me (\<lambda>x. p_id x \<noteq> p_id p) d1" and s: "save_provider me row d2 = Inr d'"
  have "providers_wf d1" using assms(1) providers_wf_cong [of d1 d] d1 by simp
  then have "providers_wf d2" using d2 clear_default_wf by blast
  then show ?thesis using save_provider_wf [OF _ update_row_ok [OF assms(2,1)] s] by blast
qed

lemma revoke_provider_wf:
  assumes "providers_wf d" and "revoke_provider_tx me provider_id d = Inr (pid, d')"
  shows "providers_wf d'"
proof -
  obtain p d1 where p: "get_provider_row me provider_id d = Inr p" "d1 = snd (fail_unstarted_tasks me (p_id p) ProviderKeyRevoked d)"
    and s: "save_provider me (p\<lparr>p_active := False, p_default := False\<rparr>) d1 = Inr d'"
    using assms(2) by (auto simp: revoke_provider_tx_def Let_def)
  have "provider_ok p" using get_provider_row_Inr [OF p(1)] assms(1) by (auto simp: providers_wf_def)
  then have "provider_ok (p\<lparr>p_active := False, p_default := False\<rparr>)" by (simp add: provider_ok_def)
  then show ?thesis using save_provider_wf [OF _ _ s] assms(1) providers_wf_cong [of d1 d] p(2) by simp
qed

end
