(* ===== verification/Task_Files.thy ===== *)
theory Task_Files
  imports Task_Executor "HOL-Library.Word"
begin

text \<open>
  The files of a task: staged inputs (\<open>backend/v2/task_file_service.py\<close>), the outputs a tool registers
  (\<open>backend/v2/task_artifacts.py\<close>) and the disk below them (\<open>backend/v2/task_storage.py\<close>). A service
  function is its database transaction followed by its file operations, each of which may fail; a
  failure rolls the transaction back, and the clean-up of the code decides what stays on the disk.
  NFC normalisation and the digest are parameters. The bytes of an upload reach the database only
  through their digest and length.
\<close>

section \<open>The disk\<close>

type_synonym bytes = "8 word list"

datatype path =
    StagingPath uuid uuid
  | InputPath uuid uuid
  | OutputPath uuid uuid
  | ArtifactPath uuid uuid
  | ExtensionPath uuid

type_synonym disk = "path \<rightharpoonup> bytes"

datatype file_op = Write path bytes | Rename path path | Unlink path

fun apply_op :: "file_op \<Rightarrow> disk \<Rightarrow> disk" where
  "apply_op (Write p b) k = k(p \<mapsto> b)"
| "apply_op (Rename p q) k = (k(q := k p))(p := None)"
| "apply_op (Unlink p) k = k(p := None)"

text \<open>Run the operations; the one numbered \<open>fault\<close> fails. The result: how many were done, whether all were.\<close>

fun run_ops :: "nat option \<Rightarrow> file_op list \<Rightarrow> disk \<Rightarrow> nat \<times> bool \<times> disk" where
  "run_ops fault [] k = (0, True, k)"
| "run_ops fault (f # fs) k =
     (case fault of
        Some 0 \<Rightarrow> (0, False, k)
      | _ \<Rightarrow> (case run_ops (map_option (\<lambda>n. n - 1) fault) fs (apply_op f k) of (n, b, k') \<Rightarrow> (Suc n, b, k')))"

definition unlink_all :: "path list \<Rightarrow> disk \<Rightarrow> disk" where
  "unlink_all ps k = fold (\<lambda>p k. apply_op (Unlink p) k) ps k"

definition remove_staging :: "uuid \<Rightarrow> disk \<Rightarrow> disk" where
  "remove_staging batch k = (\<lambda>p. case p of StagingPath b _ \<Rightarrow> if b = batch then None else k p | _ \<Rightarrow> k p)"

definition delete_task_storage :: "uuid \<Rightarrow> disk \<Rightarrow> disk" where
  "delete_task_storage tid k =
     (\<lambda>p. case p of InputPath t _ \<Rightarrow> if t = tid then None else k p
        | OutputPath t _ \<Rightarrow> if t = tid then None else k p
        | ArtifactPath t _ \<Rightarrow> if t = tid then None else k p | _ \<Rightarrow> k p)"

text \<open>Paths come from the stored key, never from the file name.\<close>

fun input_path_of :: "storage_key \<Rightarrow> path option" where
  "input_path_of (Key t f) = Some (InputPath t f)"
| "input_path_of (BadKey s) = None"

fun output_paths_of :: "storage_key \<Rightarrow> (path \<times> path) option" where
  "output_paths_of (Key t f) = Some (OutputPath t f, ArtifactPath t f)"
| "output_paths_of (BadKey s) = None"

section \<open>Names and limits\<close>

definition max_files_per_task :: nat where "max_files_per_task = 10"
definition max_single_file_bytes :: nat where "max_single_file_bytes = 5 * 1024 * 1024"
definition max_task_input_bytes :: nat where "max_task_input_bytes = 10 * 1024 * 1024"
definition file_name_max_chars :: nat where "file_name_max_chars = 255"

definition file_not_found :: api_error where "file_not_found = app_error FILE_NOT_FOUND 404"
definition input_committed :: api_error where "input_committed = app_error INPUT_COMMITTED 409"
definition file_limit :: api_error where "file_limit = app_error FILE_LIMIT_EXCEEDED 400"
definition tool_call_rejected :: api_error where "tool_call_rejected = app_error TOOL_CALL_REJECTED 400"

text \<open>Category \<open>Cc\<close>: C0, DEL and C1.\<close>

definition control_char :: "nat \<Rightarrow> bool" where
  "control_char c \<longleftrightarrow> c < 32 \<or> (127 \<le> c \<and> c \<le> 159)"

definition validate_file_name :: "pystr \<Rightarrow> api_error + unit" where
  "validate_file_name s =
     (if s = [] \<or> file_name_max_chars < length s \<or> list_ex control_char s \<or> 47 \<in> set s \<or> 92 \<in> set s
         \<or> s = [46] \<or> s = [46, 46]
      then Inl validation_error else Inr ())"

definition live_files :: "uuid \<Rightarrow> uuid \<Rightarrow> db \<Rightarrow> file_row list" where
  "live_files me tid d = filter (\<lambda>f. f_owner f = me \<and> f_task f = tid \<and> f_state f \<noteq> FDeleted) (files d)"

definition lock_uploading_task :: "uuid \<Rightarrow> raw_id \<Rightarrow> db \<Rightarrow> api_error + task_row" where
  "lock_uploading_task me task_id d =
     bindE (lock_task me task_id d) (\<lambda>t.
     bindE (commit_gate t) (\<lambda>_.
     if n_tasks me (\<lambda>x. t_id x = t_id t \<and> t_status x = Uploading \<and> t_committed x = None) d = 0
     then Inl input_committed else Inr t))"

section \<open>Uploads\<close>

text \<open>An upload as the database sees it: name, digest, size.\<close>

type_synonym upload = "pystr \<times> string \<times> nat"

definition assert_upload_shape :: "upload list \<Rightarrow> api_error + unit" where
  "assert_upload_shape ups =
     (if ups = [] then Inl validation_error
      else foldE (\<lambda>(s, _, _) _. validate_file_name s) ups ())"

definition assert_name_uniqueness :: "(pystr \<Rightarrow> pystr) \<Rightarrow> file_row list \<Rightarrow> upload list \<Rightarrow> api_error + unit" where
  "assert_name_uniqueness nfc live ups =
     (let batch = map (\<lambda>(s, _, _). nfc s) ups;
          existing = map (\<lambda>f. nfc (f_name f)) (filter (\<lambda>f. f_dir f = Input) live)
      in if \<not> distinct batch then Inl validation_error
         else if list_ex (\<lambda>s. s \<in> set existing) batch then Inl validation_error else Inr ())"

definition assert_upload_limits :: "file_row list \<Rightarrow> upload list \<Rightarrow> api_error + unit" where
  "assert_upload_limits live ups =
     (let input_count = rowcount (\<lambda>f. f_dir f = Input) live;
          stored = sum_list (map f_size live);
          new_bytes = sum_list (map (\<lambda>(_, _, n). n) ups)
      in if max_files_per_task < input_count + length ups then Inl file_limit
         else if list_ex (\<lambda>(_, _, n). max_single_file_bytes < n) ups then Inl file_limit
         else if max_task_input_bytes < stored + new_bytes then Inl file_limit else Inr ())"

definition insert_files :: "file_row list \<Rightarrow> db \<Rightarrow> api_error + db" where
  "insert_files fs d =
     (if \<not> distinct (map f_id (fs @ files d)) then Inl (IntegrityError ''pk_task_files'')
      else Inr (d\<lparr>files := files d @ fs\<rparr>))"

definition staged_row :: "uuid \<Rightarrow> uuid \<Rightarrow> time \<Rightarrow> uuid \<Rightarrow> upload \<Rightarrow> file_row" where
  "staged_row tid owner now fid u =
     (case u of (s, h, n) \<Rightarrow>
       \<lparr>f_id = fid, f_task = tid, f_owner = owner, f_dir = Input, f_name = s, f_key = Key tid fid, f_sha = h,
        f_size = n, f_state = Staged, f_round = None, f_created = now\<rparr>)"

definition upload_gates :: "(pystr \<Rightarrow> pystr) \<Rightarrow> uuid \<Rightarrow> raw_id \<Rightarrow> upload list \<Rightarrow> db \<Rightarrow> api_error + task_row" where
  "upload_gates nfc me task_id ups d =
     bindE (lock_uploading_task me task_id d) (\<lambda>t.
     bindE (assert_upload_shape ups) (\<lambda>_.
     let live = live_files me (t_id t) d
     in bindE (assert_name_uniqueness nfc live ups) (\<lambda>_.
     bindE (assert_upload_limits live ups) (\<lambda>_. Inr t))))"

text \<open>The transaction of an upload, once its files are on the disk; \<open>fids\<close> are the generated identifiers.\<close>

definition upload_tx ::
  "(pystr \<Rightarrow> pystr) \<Rightarrow> uuid \<Rightarrow> raw_id \<Rightarrow> upload list \<Rightarrow> uuid list \<Rightarrow> time \<Rightarrow> db \<Rightarrow> api_error + file_row list \<times> db" where
  "upload_tx nfc me task_id ups fids now d =
     bindE (upload_gates nfc me task_id ups d) (\<lambda>t.
     let rows = map (\<lambda>(fid, u). staged_row (t_id t) (t_owner t) now fid u) (zip fids ups)
     in bindE (insert_files rows d) (\<lambda>d'. Inr (rows, d')))"

definition staging_ops :: "uuid \<Rightarrow> uuid \<Rightarrow> (uuid \<times> bytes) list \<Rightarrow> file_op list" where
  "staging_ops batch tid items =
     map (\<lambda>(fid, b). Write (StagingPath batch fid) b) items
     @ map (\<lambda>(fid, _). Rename (StagingPath batch fid) (InputPath tid fid)) items"

definition store_uploads :: "nat option \<Rightarrow> uuid \<Rightarrow> uuid \<Rightarrow> (uuid \<times> bytes) list \<Rightarrow> disk \<Rightarrow> bool \<times> disk" where
  "store_uploads fault batch tid items k =
     (case run_ops fault (staging_ops batch tid items) k of
        (n, True, k') \<Rightarrow> (True, remove_staging batch k')
      | (n, False, k') \<Rightarrow>
          (False, remove_staging batch
             (unlink_all (map (\<lambda>(fid, _). InputPath tid fid) (take (n - length items) items)) k')))"

text \<open>\<open>upload_files\<close> inside the caller's transaction: on an error the database is rolled back.\<close>

definition upload_files ::
  "(bytes \<Rightarrow> string) \<Rightarrow> (pystr \<Rightarrow> pystr) \<Rightarrow> nat option \<Rightarrow> uuid \<Rightarrow> raw_id \<Rightarrow> (pystr \<times> bytes) list \<Rightarrow> uuid \<Rightarrow> uuid list \<Rightarrow>
   time \<Rightarrow> db \<Rightarrow> disk \<Rightarrow> (api_error + file_row list) \<times> db \<times> disk" where
  "upload_files hash nfc fault me task_id uploads batch fids now d k =
     (let ups = map (\<lambda>(s, b). (s, hash b, length b)) uploads
      in case upload_gates nfc me task_id ups d of
           Inl e \<Rightarrow> (Inl e, d, k)
         | Inr t \<Rightarrow>
             (case store_uploads fault batch (t_id t) (zip fids (map snd uploads)) k of
                (False, k') \<Rightarrow> (Inl OSError, d, k')
              | (True, k') \<Rightarrow>
                  (case upload_tx nfc me task_id ups fids now d of
                     Inl e \<Rightarrow> (Inl e, d, k')
                   | Inr (rows, d') \<Rightarrow> (Inr rows, d', k'))))"

section \<open>Deleting, listing and reading inputs\<close>

definition delete_file_tx :: "uuid \<Rightarrow> raw_id \<Rightarrow> raw_id \<Rightarrow> db \<Rightarrow> api_error + file_row \<times> db" where
  "delete_file_tx me task_id file_id d =
     bindE (lock_uploading_task me task_id d) (\<lambda>t.
     bindE (parse_id file_id) (\<lambda>fid.
     case find (\<lambda>f. f_owner f = me \<and> f_id f = fid \<and> f_task f = t_id t \<and> f_dir f = Input \<and> f_state f = Staged) (files d) of
       None \<Rightarrow> Inl file_not_found
     | Some row \<Rightarrow>
         (case input_path_of (f_key row) of
            None \<Rightarrow> Inl file_not_found
          | Some p \<Rightarrow> Inr (row, upd_files me (\<lambda>f. f_task f = t_id t \<and> f_id f = f_id row \<and> f_state f = Staged)
                              (\<lambda>f. f\<lparr>f_state := FDeleted\<rparr>) d))))"

definition delete_file ::
  "bool \<Rightarrow> uuid \<Rightarrow> raw_id \<Rightarrow> raw_id \<Rightarrow> db \<Rightarrow> disk \<Rightarrow> (api_error + uuid) \<times> db \<times> disk" where
  "delete_file fault me task_id file_id d k =
     (case delete_file_tx me task_id file_id d of
        Inl e \<Rightarrow> (Inl e, d, k)
      | Inr (row, d') \<Rightarrow>
          if fault then (Inl OSError, d, k)
          else (Inr (f_id row), d', (case input_path_of (f_key row) of None \<Rightarrow> k | Some p \<Rightarrow> k(p := None))))"

definition list_files :: "uuid \<Rightarrow> raw_id \<Rightarrow> string \<Rightarrow> db \<Rightarrow> api_error + file_row list" where
  "list_files me task_id dir d =
     bindE (parse_id task_id) (\<lambda>tid.
     if dir \<noteq> ''input'' \<and> dir \<noteq> ''output'' then Inl validation_error
     else if \<not> list_ex (\<lambda>t. t_owner t = me \<and> t_id t = tid \<and> t_status t \<noteq> Deleted) (tasks d)
     then Inl (app_error TASK_NOT_FOUND 404)
     else Inr (sort_key f_created (sort_key f_id
            (filter (\<lambda>f. f_dir f = (if dir = ''input'' then Input else Output)) (live_files me tid d)))))"

text \<open>\<open>scalar_one_or_none\<close> refuses several rows.\<close>

definition read_input_bytes :: "uuid \<Rightarrow> raw_id \<Rightarrow> pystr \<Rightarrow> db \<Rightarrow> disk \<Rightarrow> api_error + bytes" where
  "read_input_bytes me task_id s d k =
     bindE (parse_id task_id) (\<lambda>tid.
     if s = [] then Inl file_not_found
     else (case filter (\<lambda>f. f_dir f = Input \<and> f_name f = s) (live_files me tid d) of
             [] \<Rightarrow> Inl file_not_found
           | [row] \<Rightarrow>
               (case input_path_of (f_key row) of
                  None \<Rightarrow> Inl file_not_found
                | Some p \<Rightarrow> (case k p of None \<Rightarrow> Inl file_not_found | Some b \<Rightarrow> Inr b))
           | _ \<Rightarrow> Inl MultipleResultsFound))"

definition list_input_meta :: "uuid \<Rightarrow> raw_id \<Rightarrow> db \<Rightarrow> api_error + (uuid \<times> pystr \<times> string \<times> nat) list" where
  "list_input_meta me task_id d =
     bindE (parse_id task_id) (\<lambda>tid.
     Inr (map (\<lambda>f. (f_id f, f_name f, f_sha f, f_size f))
       (sort_key f_created (sort_key f_id (filter (\<lambda>f. f_dir f = Input) (live_files me tid d))))))"

section \<open>Registered outputs\<close>

text \<open>The round of the tool call must still run under the epoch of its token.\<close>

definition fence_round :: "uuid \<Rightarrow> uuid \<Rightarrow> nat \<Rightarrow> db \<Rightarrow> api_error + unit" where
  "fence_round me rid epoch d =
     (if sel_rounds me (\<lambda>r. r_id r = rid \<and> r_epoch r = epoch \<and> r_state r = RRunning) d = []
      then Inl tool_call_rejected else Inr ())"

definition assert_size_limits :: "nat \<Rightarrow> nat \<Rightarrow> api_error + unit" where
  "assert_size_limits n stored =
     (if max_single_file_bytes < n then Inl file_limit
      else if max_task_input_bytes < stored + n then Inl file_limit else Inr ())"

definition scan_live_rows :: "uuid \<Rightarrow> uuid \<Rightarrow> db \<Rightarrow> file_row list" where
  "scan_live_rows me tid d = sort_key f_created (sort_key f_id (live_files me tid d))"

definition find_old_output_row :: "(pystr \<Rightarrow> pystr) \<Rightarrow> file_row list \<Rightarrow> pystr \<Rightarrow> file_row option" where
  "find_old_output_row nfc live s = find (\<lambda>f. f_dir f = Output \<and> nfc (f_name f) = nfc s) live"

definition artifact_resv :: "uuid \<Rightarrow> uuid \<Rightarrow> resv_row \<Rightarrow> bool" where
  "artifact_resv tid fid v \<longleftrightarrow> v_task v = tid \<and> v_file v = Some fid \<and> v_kind v = KArtifactCopy \<and> v_state v = Held"

definition retire_old_row :: "uuid \<Rightarrow> uuid \<Rightarrow> file_row \<Rightarrow> db \<Rightarrow> api_error + db" where
  "retire_old_row me tid old d =
     (if \<not> list_ex (\<lambda>f. f_owner f = me \<and> f_id f = f_id old \<and> f_state f = Registered) (files d) then Inl file_not_found
      else
        (let d1 = upd_files me (\<lambda>f. f_task f = tid \<and> f_id f = f_id old \<and> f_state f = Registered)
                    (\<lambda>f. f\<lparr>f_state := FDeleted\<rparr>) d;
             refunded = sumof (artifact_resv tid (f_id old)) v_bytes (resvs d1);
             d2 = d1\<lparr>resvs := upd (artifact_resv tid (f_id old)) (\<lambda>v. v\<lparr>v_state := Released\<rparr>) (resvs d1)\<rparr>
         in Inr (if refunded \<noteq> 0 then refund_storage me refunded d2 else d2)))"

definition registered_row :: "uuid \<Rightarrow> uuid \<Rightarrow> uuid \<Rightarrow> uuid \<Rightarrow> time \<Rightarrow> upload \<Rightarrow> file_row" where
  "registered_row tid owner rid fid now u =
     (case u of (s, h, n) \<Rightarrow>
       \<lparr>f_id = fid, f_task = tid, f_owner = owner, f_dir = Output, f_name = s, f_key = Key tid fid, f_sha = h,
        f_size = n, f_state = Registered, f_round = Some rid, f_created = now\<rparr>)"

definition insert_registered_row :: "file_row \<Rightarrow> db \<Rightarrow> api_error + db" where
  "insert_registered_row f d =
     bindE (insert_files [f] d) (insert_resv (new_resv (f_task f) (f_owner f) KArtifactCopy (Some (f_id f)) (f_size f)))"

text \<open>The transaction of \<open>register_output\<close>; output: the new row and the one it replaces.\<close>

definition register_tx ::
  "(pystr \<Rightarrow> pystr) \<Rightarrow> uuid \<Rightarrow> raw_id \<Rightarrow> upload \<Rightarrow> raw_id \<Rightarrow> nat \<Rightarrow> uuid \<Rightarrow> time \<Rightarrow> db \<Rightarrow>
   api_error + (file_row \<times> file_row option) \<times> db" where
  "register_tx nfc me task_id u round_id epoch fid now d =
     bindE (lock_task me task_id d) (\<lambda>t.
     bindE (parse_id round_id) (\<lambda>rid.
     bindE (fence_round me rid epoch d) (\<lambda>_.
     bindE (validate_file_name (fst u)) (\<lambda>_.
     let tid = t_id t;
         live = scan_live_rows me tid d;
         old = find_old_output_row nfc live (fst u);
         n = snd (snd u);
         stored = sum_list (map f_size live) - (case old of None \<Rightarrow> 0 | Some f \<Rightarrow> f_size f)
     in bindE (assert_size_limits n stored) (\<lambda>_.
     bindE (case old of None \<Rightarrow> Inr d | Some f \<Rightarrow> retire_old_row me tid f d) (\<lambda>d1.
     let row = registered_row tid (t_owner t) rid fid now u
     in bindE (charge_storage me n d1) (\<lambda>d2.
     bindE (insert_registered_row row d2) (\<lambda>d3. Inr ((row, old), d3)))))))))"

definition physical_ops :: "uuid \<Rightarrow> uuid \<Rightarrow> bytes \<Rightarrow> file_row option \<Rightarrow> file_op list" where
  "physical_ops tid fid b old =
     [Write (OutputPath tid fid) b, Write (ArtifactPath tid fid) b]
     @ (case old of None \<Rightarrow> []
        | Some f \<Rightarrow> (case output_paths_of (f_key f) of None \<Rightarrow> [] | Some (p, q) \<Rightarrow> [Unlink p, Unlink q]))"

definition write_physical :: "nat option \<Rightarrow> uuid \<Rightarrow> uuid \<Rightarrow> bytes \<Rightarrow> file_row option \<Rightarrow> disk \<Rightarrow> bool \<times> disk" where
  "write_physical fault tid fid b old k =
     (case run_ops fault (physical_ops tid fid b old) k of
        (n, True, k') \<Rightarrow> (True, k')
      | (n, False, k') \<Rightarrow> (False, unlink_all (take n [OutputPath tid fid, ArtifactPath tid fid]) k'))"

definition register_output ::
  "(bytes \<Rightarrow> string) \<Rightarrow> (pystr \<Rightarrow> pystr) \<Rightarrow> nat option \<Rightarrow> uuid \<Rightarrow> raw_id \<Rightarrow> pystr \<Rightarrow> bytes \<Rightarrow> raw_id \<Rightarrow> nat \<Rightarrow> uuid \<Rightarrow>
   time \<Rightarrow> db \<Rightarrow> disk \<Rightarrow> (api_error + file_row) \<times> db \<times> disk" where
  "register_output hash nfc fault me task_id s b round_id epoch fid now d k =
     (case register_tx nfc me task_id (s, hash b, length b) round_id epoch fid now d of
        Inl e \<Rightarrow> (Inl e, d, k)
      | Inr ((row, old), d') \<Rightarrow>
          (case write_physical fault (f_task row) fid b old k of
             (True, k') \<Rightarrow> (Inr row, d', k')
           | (False, k') \<Rightarrow> (Inl OSError, d, k')))"

definition list_artifacts :: "uuid \<Rightarrow> raw_id \<Rightarrow> db \<Rightarrow> api_error + file_row list" where
  "list_artifacts me task_id d =
     bindE (parse_id task_id) (\<lambda>tid.
     if \<not> list_ex (\<lambda>t. t_owner t = me \<and> t_id t = tid \<and> t_status t \<noteq> Deleted) (tasks d)
     then Inl (app_error TASK_NOT_FOUND 404)
     else Inr (sort_key f_created (sort_key f_id (filter (\<lambda>f. f_dir f = Output) (live_files me tid d)))))"

definition resolve_download :: "uuid \<Rightarrow> raw_id \<Rightarrow> raw_id \<Rightarrow> db \<Rightarrow> disk \<Rightarrow> api_error + (path \<times> pystr \<times> string \<times> nat)" where
  "resolve_download me task_id file_id d k =
     bindE (parse_id task_id) (\<lambda>tid.
     bindE (parse_id file_id) (\<lambda>fid.
     if \<not> list_ex (\<lambda>t. t_owner t = me \<and> t_id t = tid \<and> t_status t \<noteq> Deleted) (tasks d)
     then Inl (app_error TASK_NOT_FOUND 404)
     else (case find (\<lambda>f. f_owner f = me \<and> f_id f = fid \<and> f_task f = tid \<and> f_dir f = Output \<and> f_state f = Registered) (files d) of
             None \<Rightarrow> Inl file_not_found
           | Some row \<Rightarrow>
               (case output_paths_of (f_key row) of
                  None \<Rightarrow> Inl file_not_found
                | Some (_, p) \<Rightarrow> (case k p of None \<Rightarrow> Inl file_not_found
                     | Some _ \<Rightarrow> Inr (p, f_name row, f_sha row, f_size row))))))"

text \<open>\<open>download_headers\<close>: the ASCII fallback and \<open>urllib.parse.quote\<close> of the name with no safe characters.\<close>

definition utf8_encode :: "nat \<Rightarrow> nat list" where
  "utf8_encode c =
     (if c < 128 then [c]
      else if c < 2048 then [192 + c div 64, 128 + c mod 64]
      else if c < 65536 then [224 + c div 4096, 128 + (c div 64) mod 64, 128 + c mod 64]
      else [240 + c div 262144, 128 + (c div 4096) mod 64, 128 + (c div 64) mod 64, 128 + c mod 64])"

definition unreserved :: "nat \<Rightarrow> bool" where
  "unreserved c \<longleftrightarrow> (48 \<le> c \<and> c \<le> 57) \<or> (65 \<le> c \<and> c \<le> 90) \<or> (97 \<le> c \<and> c \<le> 122)
     \<or> c = 45 \<or> c = 46 \<or> c = 95 \<or> c = 126"

definition upper_hex :: "nat \<Rightarrow> nat" where
  "upper_hex n = (if n < 10 then 48 + n else 55 + n)"

definition quote_byte :: "nat \<Rightarrow> pystr" where
  "quote_byte b = (if unreserved b then [b] else [37, upper_hex (b div 16), upper_hex (b mod 16)])"

definition url_quote :: "pystr \<Rightarrow> pystr" where
  "url_quote s = concat (map quote_byte (concat (map utf8_encode s)))"

definition ascii_fallback :: "pystr \<Rightarrow> pystr" where
  "ascii_fallback s = map (\<lambda>c. if 32 \<le> c \<and> c \<le> 126 \<and> c \<noteq> 92 \<and> c \<noteq> 34 then c else 95) s"

definition content_disposition :: "pystr \<Rightarrow> pystr" where
  "content_disposition s =
     pystr_of ''attachment; filename='' @ [34] @ ascii_fallback s @ [34]
     @ pystr_of ''; filename*=UTF-8'' @ [39, 39] @ url_quote s"


section \<open>The transactions keep the task tables consistent\<close>

text \<open>The file table is in no slice.\<close>

lemma slices_files [simp]:
  "task_at (d\<lparr>files := F\<rparr>) i = task_at d i" "find_task u i (d\<lparr>files := F\<rparr>) = find_task u i d"
  "rounds_of (d\<lparr>files := F\<rparr>) i = rounds_of d i" "resvs_of (d\<lparr>files := F\<rparr>) i = resvs_of d i"
  "log_of (d\<lparr>files := F\<rparr>) i = log_of d i" "msgs_of (d\<lparr>files := F\<rparr>) i = msgs_of d i"
  "act_of (d\<lparr>files := F\<rparr>) i = act_of d i" "held_task (d\<lparr>files := F\<rparr>) i k = held_task d i k"
  "leased_to (d\<lparr>files := F\<rparr>) i = leased_to d i"
  by (simp_all add: task_at_def find_task_def rounds_of_def resvs_of_def log_of_def msgs_of_def act_of_def
      held_task_def leased_to_def)

lemma touches_add_files:
  assumes "\<And>f. f \<in> set fs \<Longrightarrow> f_task f = i \<and> f_owner f = me"
  shows "touches me i d (d\<lparr>files := files d @ fs\<rparr>)"
  using assms by (auto simp: touches_def pkeys_def filter_empty_conv)

text \<open>A transaction that moves files and artifact reservations of one task only.\<close>

lemma artifact_ok:
  assumes "good d" and "touches me i d d'" and "task_at d i = Some t" and "t_owner t = me"
    and "tasks d' = tasks d" "rounds d' = rounds d" "events d' = events d" "messages d' = messages d" "slots d' = slots d"
    and "acct d'" and "exact d \<longrightarrow> exact d'" and "within d \<longrightarrow> within d'"
    and "\<forall>v\<in>set (resvs_of d' i). v_user v = me \<and> v_state v \<noteq> Consumed"
    and "\<And>k. k \<noteq> KArtifactCopy \<Longrightarrow> held_task d' i k = held_task d i k"
  shows "ok_step me i d d'"
proof -
  have s: "task_at d' j = task_at d j" "rounds_of d' j = rounds_of d j" "log_of d' j = log_of d j"
    "msgs_of d' j = msgs_of d j" "act_of d' j = act_of d j" "leased_to d' j = leased_to d j" for j
    using assms(5-9) by (simp_all add: task_at_def rounds_of_def log_of_def msgs_of_def act_of_def leased_to_def)
  have "task_good d' i"
    using good_task [OF assms(1,3)] assms(3,4,13,14) by (simp add: task_good_def owned_def s)
  then have "good d'" using goodI [OF assms(1,2) _ assms(10)] assms(1,9) by (simp add: good_def slots_wf_def)
  moreover have "quiet d i \<longrightarrow> quiet d' i" by (simp add: quiet_def s split: option.split)
  ultimately show ?thesis using assms(2,3,11,12) by (simp add: ok_step_def s)
qed

lemma files_only_ok:
  assumes "good d" and "touches me i d (d\<lparr>files := F\<rparr>)" and "task_at d i = Some t" and "t_owner t = me"
  shows "ok_step me i d (d\<lparr>files := F\<rparr>)"
proof (rule artifact_ok [OF assms])
  show "acct (d\<lparr>files := F\<rparr>)" using assms(1) acct_cong [of "d\<lparr>files := F\<rparr>" d] by (simp add: good_def)
  show "exact d \<longrightarrow> exact (d\<lparr>files := F\<rparr>)" using exact_cong [of "d\<lparr>files := F\<rparr>" d] by simp
  show "within d \<longrightarrow> within (d\<lparr>files := F\<rparr>)" using within_cong [of "d\<lparr>files := F\<rparr>" d] by simp
  show "\<forall>v\<in>set (resvs_of (d\<lparr>files := F\<rparr>) i). v_user v = me \<and> v_state v \<noteq> Consumed"
    using good_task(1,6) [OF assms(1,3)] assms(4) by (simp add: owned_def)
qed simp_all

lemma lock_uploading_Inr:
  assumes "lock_uploading_task me task_id d = Inr t"
  shows "lock_task me task_id d = Inr t" "t_status t = Uploading"
proof -
  show l: "lock_task me task_id d = Inr t" using assms by (auto simp: lock_uploading_task_def split: if_splits)
  obtain u where "commit_gate t = Inr u" using assms by (auto simp: lock_uploading_task_def split: if_splits)
  then show "t_status t = Uploading"
    using lock_task_Inr_D [OF l]
    by (cases "t_status t") (auto simp: commit_gate_def assert_transition_def split: if_splits)
qed

lemma upload_tx_Inr:
  assumes "upload_tx nfc me task_id ups fids now d = Inr (rows, d')"
  obtains t where "lock_uploading_task me task_id d = Inr t"
    "rows = map (\<lambda>(fid, u). staged_row (t_id t) (t_owner t) now fid u) (zip fids ups)"
    "d' = d\<lparr>files := files d @ rows\<rparr>" "distinct (map f_id (rows @ files d))"
    "assert_upload_shape ups = Inr ()" "assert_name_uniqueness nfc (live_files me (t_id t) d) ups = Inr ()"
    "assert_upload_limits (live_files me (t_id t) d) ups = Inr ()"
  using assms
  by (auto simp: upload_tx_def upload_gates_def insert_files_def Let_def split: if_splits)

lemma staged_row_simps [simp]:
  "f_id (staged_row i u now fid x) = fid" "f_task (staged_row i u now fid x) = i" "f_owner (staged_row i u now fid x) = u"
  "f_state (staged_row i u now fid x) = Staged" "f_dir (staged_row i u now fid x) = Input"
  "f_name (staged_row i u now fid x) = fst x" "f_size (staged_row i u now fid x) = snd (snd x)"
  "f_key (staged_row i u now fid x) = Key i fid" "f_sha (staged_row i u now fid x) = fst (snd x)"
  by (simp_all add: staged_row_def split: prod.split)

lemma registered_row_simps [simp]:
  "f_id (registered_row i u r fid now x) = fid" "f_task (registered_row i u r fid now x) = i"
  "f_owner (registered_row i u r fid now x) = u" "f_state (registered_row i u r fid now x) = Registered"
  "f_dir (registered_row i u r fid now x) = Output" "f_name (registered_row i u r fid now x) = fst x"
  "f_size (registered_row i u r fid now x) = snd (snd x)" "f_key (registered_row i u r fid now x) = Key i fid"
  "f_sha (registered_row i u r fid now x) = fst (snd x)"
  by (simp_all add: registered_row_def split: prod.split)

lemma upload_ok:
  assumes "good d" and "upload_tx nfc me task_id ups fids now d = Inr (rows, d')"
  shows "ok_step me (uuid_of task_id) d d'"
  using assms(2)
proof (rule upload_tx_Inr)
  fix t
  assume l: "lock_uploading_task me task_id d = Inr t"
    and r: "rows = map (\<lambda>(fid, u). staged_row (t_id t) (t_owner t) now fid u) (zip fids ups)"
    and d': "d' = d\<lparr>files := files d @ rows\<rparr>"
  note g = lock_task_good [OF assms(1) lock_uploading_Inr(1) [OF l]]
  have "touches me (t_id t) d d'" unfolding d' by (rule touches_add_files) (use g(3) r in auto)
  then show "ok_step me (uuid_of task_id) d d'" using files_only_ok [OF assms(1) _ g(2,3)] g(1) d' by simp
qed

lemma delete_file_ok:
  assumes "good d" and "delete_file_tx me task_id file_id d = Inr (row, d')"
  shows "ok_step me (uuid_of task_id) d d'"
proof -
  obtain t where l: "lock_uploading_task me task_id d = Inr t"
    and d': "d' = upd_files me (\<lambda>f. f_task f = t_id t \<and> f_id f = f_id row \<and> f_state f = Staged) (\<lambda>f. f\<lparr>f_state := FDeleted\<rparr>) d"
    using assms(2) by (auto simp: delete_file_tx_def split: option.splits)
  note g = lock_task_good [OF assms(1) lock_uploading_Inr(1) [OF l]]
  have "touches me (t_id t) d d'" unfolding d' by (intro touches_upd_files touches_refl) auto
  then show ?thesis using files_only_ok [OF assms(1) _ g(2,3)] g(1) d' by (simp add: upd_files_def)
qed

text \<open>Releasing artifact reservations of one owner with a full refund.\<close>

lemma refund_rows:
  assumes "acct d" and R: "\<And>v. v \<in> set (resvs d) \<Longrightarrow> R v \<Longrightarrow> held v \<and> v_user v = me \<and> v_kind v = KArtifactCopy"
  defines "n \<equiv> sumof R v_bytes (resvs d)"
  defines "d1 \<equiv> d\<lparr>resvs := upd R (\<lambda>v. v\<lparr>v_state := Released\<rparr>) (resvs d)\<rparr>"
  defines "d2 \<equiv> (if n \<noteq> 0 then refund_storage me n d1 else d1)"
  shows "acct d2" "exact d \<longrightarrow> exact d2" "within d \<longrightarrow> within d2"
proof -
  have hu: "held_user d1 u k = held_user d u k" if "k \<noteq> KArtifactCopy" for u k
    using R that unfolding held_user_def d1_def by (auto simp: rowcount_upd held_def intro!: rowcount_cong)
  have bu: "bytes_user d u = (if u = me then n else 0) + bytes_user d1 u" for u
  proof -
    have "bytes_user d u = sumof (\<lambda>v. (v_user v = u \<and> held v) \<and> R v) v_bytes (resvs d)
        + sumof (\<lambda>v. (v_user v = u \<and> held v) \<and> \<not> R v) v_bytes (resvs d)"
      unfolding bytes_user_def by (rule sumof_split)
    moreover have "sumof (\<lambda>v. (v_user v = u \<and> held v) \<and> R v) v_bytes (resvs d) = (if u = me then n else 0)"
    proof (cases "u = me")
      case True
      then show ?thesis unfolding n_def using R by (auto intro!: sumof_cong)
    next
      case False
      have "sumof (\<lambda>v. (v_user v = u \<and> held v) \<and> R v) v_bytes (resvs d) = 0"
        by (rule sumof_zero) (use R False in auto)
      with False show ?thesis by simp
    qed
    moreover have "sumof (\<lambda>v. (v_user v = u \<and> held v) \<and> \<not> R v) v_bytes (resvs d) = bytes_user d1 u"
      unfolding bytes_user_def d1_def by (auto simp: sumof_upd held_def intro!: sumof_cong split: if_splits)
    ultimately show ?thesis by simp
  qed
  have ba: "bytes_all d = n + bytes_all d1"
  proof -
    have "bytes_all d = sumof (\<lambda>v. held v \<and> R v) v_bytes (resvs d) + sumof (\<lambda>v. held v \<and> \<not> R v) v_bytes (resvs d)"
      unfolding bytes_all_def by (rule sumof_split)
    moreover have "sumof (\<lambda>v. held v \<and> R v) v_bytes (resvs d) = n"
      unfolding n_def using R by (auto intro!: sumof_cong)
    moreover have "sumof (\<lambda>v. held v \<and> \<not> R v) v_bytes (resvs d) = bytes_all d1"
      unfolding bytes_all_def d1_def by (auto simp: sumof_upd held_def intro!: sumof_cong split: if_splits)
    ultimately show ?thesis by simp
  qed
  have zb: "zero_bytes d1" using assms(1) by (auto simp: acct_def zero_bytes_def d1_def)
  have du: "acct_user d u" for u using assms(1) by (simp add: acct_def)
  have frame: "usage d1 = usage d" "pl_used d1 = pl_used d" "quotas d1 = quotas d" "pl_max d1 = pl_max d" by (simp_all add: d1_def)
  have none: "\<forall>v\<in>set (resvs d1). v_user v = u \<longrightarrow> \<not> held v" if "usage d u = None" for u
    using du [of u] that by (auto simp: acct_user_def d1_def held_def)
  have r: "resvs d2 = resvs d1" by (simp add: d2_def refund_storage_def Let_def split: option.split)
  then have h2: "held_user d2 u k = held_user d1 u k" "bytes_user d2 u = bytes_user d1 u" "bytes_all d2 = bytes_all d1"
    "zero_bytes d2 = zero_bytes d1" for u k
    by (simp_all add: held_user_def bytes_user_def bytes_all_def zero_bytes_def)
  have "acct d2 \<and> (exact d \<longrightarrow> exact d2) \<and> (within d \<longrightarrow> within d2)"
  proof (cases "usage d me")
    case None
    have "n = 0" using R du [of me] None by (auto simp: n_def acct_user_def intro!: sumof_zero)
    then have d2: "d2 = d1" by (simp add: d2_def)
    have "acct_user d1 u" for u
      using du [of u] none [of u] hu bu [of u] \<open>n = 0\<close> by (auto simp: acct_user_def frame split: option.splits)
    then show ?thesis
      using assms(1) ba bu \<open>n = 0\<close> zb within_cong [of d1 d] frame by (auto simp: d2 acct_def exact_def)
  next
    case (Some q)
    have le: "n \<le> u_storage q" "n \<le> pl_used d"
      using du [of me] Some bu [of me] ba assms(1) by (auto simp: acct_user_def acct_def)
    have "d2 = d1\<lparr>usage := (usage d1)(me \<mapsto> q\<lparr>u_storage := u_storage q - n\<rparr>), pl_used := pl_used d1 - n\<rparr>"
      using refund_covered [of d1 me q n] Some le frame by (simp add: d2_def)
    then have u2: "usage d2 = (usage d)(me \<mapsto> q\<lparr>u_storage := u_storage q - n\<rparr>)" "pl_used d2 = pl_used d - n"
      "quotas d2 = quotas d" "pl_max d2 = pl_max d"
      by (simp_all add: frame)
    have "acct_user d2 u" for u
    proof (cases "u = me")
      case True
      then show ?thesis using du [of me] Some hu bu [of me] by (simp add: acct_user_def u2 h2) linarith
    next
      case False
      then show ?thesis using du [of u] none [of u] hu bu [of u]
        by (auto simp: acct_user_def u2 h2 r split: option.splits)
    qed
    moreover have "bytes_all d2 \<le> pl_used d2" using assms(1) ba by (simp add: acct_def u2 h2) linarith
    moreover have "exact d \<longrightarrow> exact d2"
      using Some bu ba by (auto simp: exact_def u2 h2)
    moreover have "within d \<longrightarrow> within d2"
      using Some le within_user [of d me q] by (fastforce simp: within_def u2)
    ultimately show ?thesis using zb by (simp add: acct_def h2)
  qed
  then show "acct d2" "exact d \<longrightarrow> exact d2" "within d \<longrightarrow> within d2" by blast+
qed

lemma insert_registered_Inr:
  assumes "insert_registered_row f d = Inr d'"
  shows "d' = d\<lparr>files := files d @ [f], resvs := resvs d @ [new_resv (f_task f) (f_owner f) KArtifactCopy (Some (f_id f)) (f_size f)]\<rparr>"
    and "distinct (map f_id (f # files d))"
    and "\<not> list_ex (resv_clash (new_resv (f_task f) (f_owner f) KArtifactCopy (Some (f_id f)) (f_size f))) (resvs d)"
  using assms by (auto simp: insert_registered_row_def insert_files_def insert_resv_def split: if_splits)

lemma retire_Inr:
  assumes "retire_old_row me i old d = Inr d'"
  shows "tasks d' = tasks d" "rounds d' = rounds d" "events d' = events d" "messages d' = messages d" "slots d' = slots d"
    "quotas d' = quotas d" "pl_max d' = pl_max d" "providers d' = providers d"
    "files d' = upd (\<lambda>f. f_owner f = me \<and> f_task f = i \<and> f_id f = f_id old \<and> f_state f = Registered) (\<lambda>f. f\<lparr>f_state := FDeleted\<rparr>) (files d)"
    "resvs d' = upd (artifact_resv i (f_id old)) (\<lambda>v. v\<lparr>v_state := Released\<rparr>) (resvs d)"
    "touches me i d d'"
proof -
  define d1 where "d1 = upd_files me (\<lambda>f. f_task f = i \<and> f_id f = f_id old \<and> f_state f = Registered) (\<lambda>f. f\<lparr>f_state := FDeleted\<rparr>) d"
  define d2 where "d2 = d1\<lparr>resvs := upd (artifact_resv i (f_id old)) (\<lambda>v. v\<lparr>v_state := Released\<rparr>) (resvs d1)\<rparr>"
  define n where "n = sumof (artifact_resv i (f_id old)) v_bytes (resvs d1)"
  have d': "d' = (if n \<noteq> 0 then refund_storage me n d2 else d2)"
    using assms by (simp add: retire_old_row_def Let_def n_def d1_def d2_def split: if_splits)
  show "tasks d' = tasks d" "rounds d' = rounds d" "events d' = events d" "messages d' = messages d" "slots d' = slots d"
    "quotas d' = quotas d" "pl_max d' = pl_max d" "providers d' = providers d"
    "files d' = upd (\<lambda>f. f_owner f = me \<and> f_task f = i \<and> f_id f = f_id old \<and> f_state f = Registered) (\<lambda>f. f\<lparr>f_state := FDeleted\<rparr>) (files d)"
    "resvs d' = upd (artifact_resv i (f_id old)) (\<lambda>v. v\<lparr>v_state := Released\<rparr>) (resvs d)"
    by (simp_all add: d' d2_def d1_def refund_storage_def Let_def split: option.split)
  have "touches me i d d1" unfolding d1_def by (intro touches_upd_files touches_refl) auto
  moreover have "touches me i d1 d2"
  proof -
    have "filter (\<lambda>v. v_task v \<noteq> i) (resvs d2) = filter (\<lambda>v. v_task v \<noteq> i) (resvs d1)"
      unfolding d2_def by (simp, rule filter_upd_out) (simp add: artifact_resv_def)
    then show ?thesis by (simp add: touches_def) (simp add: d2_def pkeys_def leased_to_def)
  qed
  moreover have "touches me i d2 d'" using touches_booking_parts(4) by (simp add: d')
  ultimately show "touches me i d d'" using touches_trans by blast
qed

lemma register_tx_cases:
  assumes "register_tx nfc me task_id u round_id epoch fid now d = Inr ((row, old), d')"
  obtains t rid d1 d2 where "lock_task me task_id d = Inr t" "round_id = Uuid rid" "fence_round me rid epoch d = Inr ()"
    "validate_file_name (fst u) = Inr ()" "old = find_old_output_row nfc (scan_live_rows me (t_id t) d) (fst u)"
    "assert_size_limits (snd (snd u)) (sum_list (map f_size (scan_live_rows me (t_id t) d))
        - (case old of None \<Rightarrow> 0 | Some f \<Rightarrow> f_size f)) = Inr ()"
    "(case old of None \<Rightarrow> Inr d | Some f \<Rightarrow> retire_old_row me (t_id t) f d) = Inr d1"
    "row = registered_row (t_id t) (t_owner t) rid fid now u" "charge_storage me (snd (snd u)) d1 = Inr d2"
    "insert_registered_row row d2 = Inr d'"
  using assms by (auto simp: register_tx_def Let_def)

lemma resvs_of_owned:
  "good d \<Longrightarrow> task_at d i = Some t \<Longrightarrow> v \<in> set (resvs d) \<Longrightarrow> v_task v = i \<Longrightarrow> v_user v = t_owner t \<and> v_state v \<noteq> Consumed"
  using good_task(1,6) [of d i t] by (auto simp: owned_def resvs_of_def)

lemma register_ok:
  assumes "good d" and "register_tx nfc me task_id u round_id epoch fid now d = Inr ((row, old), d')"
  shows "ok_step me (uuid_of task_id) d d'"
  using assms(2)
proof (rule register_tx_cases)
  fix t :: task_row and rid d1 d2
  let ?i = "t_id t" and ?n = "snd (snd u)"
  assume l: "lock_task me task_id d = Inr t"
    and r: "(case old of None \<Rightarrow> Inr d | Some f \<Rightarrow> retire_old_row me ?i f d) = Inr d1"
    and row: "row = registered_row ?i (t_owner t) rid fid now u" and c: "charge_storage me ?n d1 = Inr d2"
    and ins: "insert_registered_row row d2 = Inr d'"
  note g = lock_task_good [OF assms(1) l]
  have gd: "acct d" using assms(1) by (simp add: good_def)
  have own: "v_user v = me \<and> v_state v \<noteq> Consumed" if "v \<in> set (resvs d)" "v_task v = ?i" for v
    using resvs_of_owned [OF assms(1) g(2) that] g(3) by simp
  have R: "held v \<and> v_user v = me \<and> v_kind v = KArtifactCopy" if "v \<in> set (resvs d)" "artifact_resv ?i f v" for v f
    using own [OF that(1)] that(2) by (auto simp: artifact_resv_def held_def)
  have 1: "touches me ?i d d1" "tasks d1 = tasks d" "rounds d1 = rounds d" "events d1 = events d"
    "messages d1 = messages d" "slots d1 = slots d" "acct d1" "exact d \<longrightarrow> exact d1" "within d \<longrightarrow> within d1"
    "\<forall>v\<in>set (resvs d1). v_task v = ?i \<longrightarrow> v_user v = me \<and> v_state v \<noteq> Consumed"
    "\<And>k. k \<noteq> KArtifactCopy \<Longrightarrow> held_task d1 ?i k = held_task d ?i k"
  proof -
    have *: "touches me ?i d d1 \<and> tasks d1 = tasks d \<and> rounds d1 = rounds d \<and> events d1 = events d
      \<and> messages d1 = messages d \<and> slots d1 = slots d \<and> acct d1 \<and> (exact d \<longrightarrow> exact d1) \<and> (within d \<longrightarrow> within d1)
      \<and> (\<forall>v\<in>set (resvs d1). v_task v = ?i \<longrightarrow> v_user v = me \<and> v_state v \<noteq> Consumed)
      \<and> (\<forall>k. k \<noteq> KArtifactCopy \<longrightarrow> held_task d1 ?i k = held_task d ?i k)"
    proof (cases old)
      case None
      then show ?thesis using r gd own by simp
    next
      case (Some f)
      then have rt: "retire_old_row me ?i f d = Inr d1" using r by simp
      note q = retire_Inr [OF rt]
      let ?F = "d\<lparr>files := files d1\<rparr>"
      have a: "acct ?F" "exact ?F = exact d" "within ?F = within d"
        using gd acct_cong [of ?F d] exact_cong [of ?F d] within_cong [of ?F d] by simp_all
      have e: "d1 = (if sumof (artifact_resv ?i (f_id f)) v_bytes (resvs ?F) \<noteq> 0
          then refund_storage me (sumof (artifact_resv ?i (f_id f)) v_bytes (resvs ?F))
            (?F\<lparr>resvs := upd (artifact_resv ?i (f_id f)) (\<lambda>v. v\<lparr>v_state := Released\<rparr>) (resvs ?F)\<rparr>)
          else ?F\<lparr>resvs := upd (artifact_resv ?i (f_id f)) (\<lambda>v. v\<lparr>v_state := Released\<rparr>) (resvs ?F)\<rparr>)"
        using rt q(9) by (simp add: retire_old_row_def Let_def upd_files_def split: if_splits)
      have "acct d1 \<and> (exact d \<longrightarrow> exact d1) \<and> (within d \<longrightarrow> within d1)"
        using refund_rows [of ?F "artifact_resv ?i (f_id f)" me] a R unfolding e [symmetric] by simp
      moreover have "held_task d1 ?i k = held_task d ?i k" if "k \<noteq> KArtifactCopy" for k
        using that unfolding held_task_def q(10)
        by (auto simp: rowcount_upd artifact_resv_def held_def intro!: rowcount_cong)
      moreover have "\<forall>v\<in>set (resvs d1). v_task v = ?i \<longrightarrow> v_user v = me \<and> v_state v \<noteq> Consumed"
        unfolding q(10) using own by auto
      ultimately show ?thesis using q by blast
    qed
    then show "touches me ?i d d1" "tasks d1 = tasks d" "rounds d1 = rounds d" "events d1 = events d"
    "messages d1 = messages d" "slots d1 = slots d" "acct d1" "exact d \<longrightarrow> exact d1" "within d \<longrightarrow> within d1"
    "\<forall>v\<in>set (resvs d1). v_task v = ?i \<longrightarrow> v_user v = me \<and> v_state v \<noteq> Consumed"
    "\<And>k. k \<noteq> KArtifactCopy \<Longrightarrow> held_task d1 ?i k = held_task d ?i k" by blast+
  qed
  obtain q Q where q: "usage d1 me = Some q" "quotas d1 me = Some Q" "u_storage q + ?n \<le> q_storage Q" "pl_used d1 + ?n \<le> pl_max d1"
    and d2: "d2 = d1\<lparr>usage := (usage d1)(me \<mapsto> q\<lparr>u_storage := u_storage q + ?n\<rparr>), pl_used := pl_used d1 + ?n\<rparr>"
    using charge_storage_Inr [OF c] .
  let ?v = "new_resv ?i me KArtifactCopy (Some fid) ?n"
  have d': "d' = d2\<lparr>files := files d2 @ [row], resvs := resvs d2 @ [?v]\<rparr>"
    using insert_registered_Inr(1) [OF ins] row g(3) by simp
  have fr: "usage d' = (usage d1)(v_user ?v \<mapsto> q\<lparr>u_storage := u_storage q + ?n\<rparr>)" "resvs d' = resvs d1 @ [?v]"
    "pl_used d' = pl_used d1 + ?n" "tasks d' = tasks d1" "rounds d' = rounds d1" "events d' = events d1"
    "messages d' = messages d1" "slots d' = slots d1" "quotas d' = quotas d1" "pl_max d' = pl_max d1"
    by (simp_all add: d' d2 new_resv_def)
  have v: "held ?v" "v_user ?v = me" "v_kind ?v = KArtifactCopy" "v_bytes ?v = ?n" "v_task ?v = ?i" "v_state ?v = Held"
    by (simp_all add: new_resv_def held_def)
  have ae: "acct d'" "exact d1 \<Longrightarrow> exact d'"
    using acct_add_resv [OF 1(7) v(1) _ fr(1,2)] q(1) v fr(3) by simp_all
  have w: "within d1 \<longrightarrow> within d'"
  proof
    assume "within d1"
    with within_user(2) [OF this q(1,2)] q show "within d'" by (auto simp: within_def fr v(2))
  qed
  have T: "touches me ?i d1 d'"
  proof -
    have "touches me ?i d1 d2" unfolding d2 by (intro touches_pl_used touches_usage touches_refl)
    moreover have "touches me ?i d2 d'" unfolding d' using row g(3) v(5)
      by (auto simp: touches_def pkeys_def leased_to_def)
    ultimately show ?thesis by (rule touches_trans)
  qed
  have "ok_step me ?i d d'"
    by (rule artifact_ok [OF assms(1) touches_trans [OF 1(1) T] g(2,3)])
      (use 1 ae w v in \<open>auto simp: fr resvs_of_def held_task_def\<close>)
  then show "ok_step me (uuid_of task_id) d d'" using g(1) by simp
qed

interpretation upload: task_transaction "\<lambda>(me, i, nfc, ups, fids, now). upload_tx nfc me i ups fids now"
  fst "\<lambda>(me, i, _). uuid_of i" "\<lambda>_ _. True"
  by (rule task_transactionI) (use upload_ok in \<open>fastforce split: prod.splits\<close>)

interpretation file_deletion: task_transaction "\<lambda>(me, i, f). delete_file_tx me i f" fst "\<lambda>(me, i, _). uuid_of i" "\<lambda>_ _. True"
  by (rule task_transactionI) (use delete_file_ok in \<open>fastforce split: prod.splits\<close>)

interpretation registration: task_transaction
  "\<lambda>(me, i, nfc, u, r, epoch, fid, now). register_tx nfc me i u r epoch fid now" fst "\<lambda>(me, i, _). uuid_of i" "\<lambda>_ _. True"
  by (rule task_transactionI) (use register_ok in \<open>fastforce split: prod.splits\<close>)

end
