(* ===== verification/Task_System.thy ===== *)
theory Task_System
  imports Task_Files Provider_Store
begin

text \<open>
  The task domain as one concurrent system: API calls, the dispatcher's jobs, the executors'
  fenced writes, the tools' registered outputs, the administrative terminators and the owner's
  changes to the model providers interleave, each in a transaction of its own.
  A job's read-only scan and its write are separate steps, so a write may use a candidate of any
  earlier scan. \<open>step\<close> is the transition relation, \<open>sys_good\<close> its invariant.
\<close>

section \<open>Transactions\<close>

text \<open>What the transactions take from outside: the digest of a text, Unicode normalisation, and the
  standard library's check of a network location.\<close>

record externals =
  text_sha :: "pystr \<Rightarrow> string"
  nfc_of :: "pystr \<Rightarrow> pystr"
  netloc_valid :: "pystr \<Rightarrow> bool"

datatype call =
    Create uuid create_req uuid uuid time int
  | Commit uuid raw_id "json list" uuid time
  | Abort uuid raw_id
  | Complete uuid raw_id
  | Delete uuid raw_id
  | Send uuid raw_id pystr uuid uuid time
  | Claim string int cand time
  | Reclaim cand "string option" nat
  | Cancel cand
  | SweepUpload "uuid \<times> uuid"
  | SweepTerminal "uuid \<times> uuid"
  | Renew round_ctx int time
  | Fact round_ctx author pystr uuid
  | Settle round_ctx "pystr option" string "(string \<times> nat) list" uuid
  | Deadline round_ctx
  | Terminate abort_reason uuid uuid
  | Reconcile "uuid \<times> uuid \<times> status"
  | Upload uuid raw_id "upload list" "uuid list" time
  | DropFile uuid raw_id raw_id
  | Register uuid raw_id upload raw_id nat uuid time

text \<open>An exception rolls back; otherwise the transaction commits.\<close>

definition committed_db :: "db \<Rightarrow> api_error + 'o \<times> db \<Rightarrow> db" where
  "committed_db d r = (case r of Inl _ \<Rightarrow> d | Inr (_, d') \<Rightarrow> d')"

fun exec :: "externals \<Rightarrow> call \<Rightarrow> db \<Rightarrow> db" where
  "exec X (Create me req tid mid now today) d = committed_db d (create_task me req tid mid now today d)"
| "exec X (Commit me i manifest rid now) d = committed_db d (commit_input (text_sha X) me i manifest rid now d)"
| "exec X (Abort me i) d = committed_db d (abort_task me i d)"
| "exec X (Complete me i) d = committed_db d (complete_task me i d)"
| "exec X (Delete me i) d = committed_db d (delete_task me i d)"
| "exec X (Send me i content mid rid now) d = committed_db d (send_message me i content mid rid now d)"
| "exec X (Claim iid ttl c now) d = committed_db d (claim_round iid ttl c now d)"
| "exec X (Reclaim c lo le) d = committed_db d (reclaim_expired_round c lo le d)"
| "exec X (Cancel c) d = committed_db d (cancel_cancelling_round c d)"
| "exec X (SweepUpload c) d = committed_db d (sweep_upload_task c d)"
| "exec X (SweepTerminal c) d = committed_db d (sweep_terminal_task c d)"
| "exec X (Renew x ttl now) d = committed_db d (renew x ttl now d)"
| "exec X (Fact x a content mid) d = committed_db d (persist_fact_tx x a content mid d)"
| "exec X (Settle x p fin used mid) d = committed_db d (settle x p fin used mid d)"
| "exec X (Deadline x) d = committed_db d (enforce_round_deadline x d)"
| "exec X (Terminate reason tid me) d = committed_db d (abort_active reason tid me d)"
| "exec X (Reconcile c) d = committed_db d (reconcile_one c d)"
| "exec X (Upload me i ups fids now) d = committed_db d (upload_tx (nfc_of X) me i ups fids now d)"
| "exec X (DropFile me i f) d = committed_db d (delete_file_tx me i f d)"
| "exec X (Register me i u r epoch fid now) d = committed_db d (register_tx (nfc_of X) me i u r epoch fid now d)"

text \<open>The round identifier a call generates.\<close>

fun new_round_ids :: "call \<Rightarrow> uuid set" where
  "new_round_ids (Commit me i manifest rid now) = {rid}"
| "new_round_ids (Send me i content mid rid now) = {rid}"
| "new_round_ids _ = {}"

text \<open>Owner and task a call works on.\<close>

fun actor :: "call \<Rightarrow> uuid" where
  "actor (Create me req tid mid now today) = me"
| "actor (Commit me i manifest rid now) = me"
| "actor (Abort me i) = me"
| "actor (Complete me i) = me"
| "actor (Delete me i) = me"
| "actor (Send me i content mid rid now) = me"
| "actor (Claim iid ttl c now) = c_owner c"
| "actor (Reclaim c lo le) = c_owner c"
| "actor (Cancel c) = c_owner c"
| "actor (SweepUpload c) = snd c"
| "actor (SweepTerminal c) = snd c"
| "actor (Renew x ttl now) = x_owner x"
| "actor (Fact x a content mid) = x_owner x"
| "actor (Settle x p fin used mid) = x_owner x"
| "actor (Deadline x) = x_owner x"
| "actor (Terminate reason tid me) = me"
| "actor (Reconcile c) = fst (snd c)"
| "actor (Upload me i ups fids now) = me"
| "actor (DropFile me i f) = me"
| "actor (Register me i u r epoch fid now) = me"

fun subject :: "call \<Rightarrow> uuid" where
  "subject (Create me req tid mid now today) = tid"
| "subject (Commit me i manifest rid now) = uuid_of i"
| "subject (Abort me i) = uuid_of i"
| "subject (Complete me i) = uuid_of i"
| "subject (Delete me i) = uuid_of i"
| "subject (Send me i content mid rid now) = uuid_of i"
| "subject (Claim iid ttl c now) = c_task c"
| "subject (Reclaim c lo le) = c_task c"
| "subject (Cancel c) = c_task c"
| "subject (SweepUpload c) = fst c"
| "subject (SweepTerminal c) = fst c"
| "subject (Renew x ttl now) = x_task x"
| "subject (Fact x a content mid) = x_task x"
| "subject (Settle x p fin used mid) = x_task x"
| "subject (Deadline x) = x_task x"
| "subject (Terminate reason tid me) = tid"
| "subject (Reconcile c) = fst c"
| "subject (Upload me i ups fids now) = uuid_of i"
| "subject (DropFile me i f) = uuid_of i"
| "subject (Register me i u r epoch fid now) = uuid_of i"

text \<open>What the caller of a job knows of its argument.\<close>

fun call_pre :: "call \<Rightarrow> db \<Rightarrow> bool" where
  "call_pre (Claim iid ttl c now) d = cand_ok c d"
| "call_pre (Reclaim c lo le) d = cand_ok c d"
| "call_pre (Cancel c) d = cand_ok c d"
| "call_pre (SweepTerminal c) d = sweepable c d"
| "call_pre (Renew x ttl now) d = ctx_ok x d"
| "call_pre (Fact x a content mid) d = ctx_ok x d"
| "call_pre (Settle x p fin used mid) d = ctx_ok x d"
| "call_pre (Deadline x) d = ctx_ok x d"
| "call_pre (Reconcile c) d = at_rest c d"
| "call_pre _ d = True"

lemma committed_ok:
  assumes "good d" and "\<And>out d'. r = Inr (out, d') \<Longrightarrow> ok_job me tid d d'"
  shows "ok_job me tid d (committed_db d r)"
  using assms by (auto simp: committed_db_def ok_job_def split: sum.split prod.split)

text \<open>Every transaction of the system, from the contracts of its parts.\<close>

lemmas contracts =
  create.run_ok [of _ "(me, req, tid, mid, now, today)" for me req tid mid now today, simplified]
  commit.run_ok [of _ "(me, i, sha, manifest, rid, now)" for me i sha manifest rid now, simplified]
  abort.run_ok [of _ "(me, i)" for me i, simplified]
  complete.run_ok [of _ "(me, i)" for me i, simplified]
  delete.run_ok [of _ "(me, i)" for me i, simplified]
  send.run_ok [of _ "(me, i, content, mid, rid, now)" for me i content mid rid now, simplified]
  claim.run_ok [of _ "(iid, ttl, now, c)" for iid ttl now c, simplified]
  reclaim.run_ok [of _ "(c, lo, le)" for c lo le, simplified]
  cancel.run_ok upload_sweep.run_ok [simplified] terminal_sweep.run_ok
  renewal.run_ok [of _ "(x, ttl, now)" for x ttl now, simplified]
  fact.run_ok [of _ "(x, a, content, mid)" for x a content mid, simplified]
  settlement.run_ok [of _ "(x, p, fin, used, mid)" for x p fin used mid, simplified]
  deadline.run_ok
  terminator.run_ok [of _ "(reason, tid, me)" for reason tid me, simplified]
  reconciler.run_ok
  upload.run_ok [of _ "(me, i, nfc, ups, fids, now)" for me i nfc ups fids now, simplified]
  file_deletion.run_ok [of _ "(me, i, f)" for me i f, simplified]
  registration.run_ok [of _ "(me, i, nfc, u, r, epoch, fid, now)" for me i nfc u r epoch fid now, simplified]

lemma exec_ok_job:
  assumes "good d" and "call_pre c d"
  shows "ok_job (actor c) (subject c) d (exec X c d)"
  by (cases c) (use assms in \<open>simp_all add: committed_ok contracts\<close>)

section \<open>How rounds evolve\<close>

text \<open>A transaction keeps the identity of a round row; the lease epoch never decreases, and while it
  stays the same a round that does not run does not start to, nor does a running one change hands. New rows carry identifiers in \<open>A\<close>.\<close>

definition row_evolves :: "round_row \<Rightarrow> round_row \<Rightarrow> bool" where
  "row_evolves r r' \<longleftrightarrow> r_id r' = r_id r \<and> r_owner r' = r_owner r \<and> r_task r' = r_task r
     \<and> (r_epoch r < r_epoch r' \<or> r_epoch r' = r_epoch r \<and> (r_state r' = RRunning \<longrightarrow>
         r_state r = RRunning \<and> (r_lease_owner r' = r_lease_owner r \<or> r_lease_owner r' = None)))"

definition rows_evolve :: "uuid set \<Rightarrow> round_row list \<Rightarrow> round_row list \<Rightarrow> bool" where
  "rows_evolve A R R' \<longleftrightarrow> (\<forall>r'\<in>set R'. r_id r' \<in> A \<or> (\<exists>r\<in>set R. row_evolves r r'))"

lemma row_evolves_refl [simp]: "row_evolves r r"
  by (simp add: row_evolves_def)

lemma row_evolves_trans: "row_evolves a b \<Longrightarrow> row_evolves b c \<Longrightarrow> row_evolves a c"
  by (auto simp: row_evolves_def)

lemma rows_evolve_refl [simp]: "rows_evolve A R R"
  unfolding rows_evolve_def using row_evolves_refl by blast

lemma rows_evolve_upd [simp]:
  assumes "\<And>r. row_evolves r (f r)" and "rows_evolve A R R'"
  shows "rows_evolve A R (upd P f R')"
  unfolding rows_evolve_def set_upd
proof (intro ballI)
  fix r' assume "r' \<in> (\<lambda>x. if P x then f x else x) ` set R'"
  then obtain x where x: "x \<in> set R'" "r' = (if P x then f x else x)" by blast
  then have e: "row_evolves x r'" using assms(1) by simp
  from assms(2) x(1) consider "r_id x \<in> A" | r where "r \<in> set R" "row_evolves r x"
    by (auto simp: rows_evolve_def)
  then show "r_id r' \<in> A \<or> (\<exists>r\<in>set R. row_evolves r r')"
    by cases (use e row_evolves_trans in \<open>auto simp: row_evolves_def\<close>)
qed

lemma rows_evolve_filter [simp]: "rows_evolve A R R' \<Longrightarrow> rows_evolve A R (filter P R')"
  by (auto simp: rows_evolve_def)

lemma rows_evolve_snoc [simp]: "rows_evolve A R R' \<Longrightarrow> r_id r \<in> A \<Longrightarrow> rows_evolve A R (R' @ [r])"
  by (auto simp: rows_evolve_def)

lemma row_updates [simp]:
  "row_evolves r (r\<lparr>r_state := RCancelling\<rparr>)" "row_evolves r (r\<lparr>r_state := RCancelled\<rparr>)"
  "row_evolves r (r\<lparr>r_state := RSettled\<rparr>)"
  "row_evolves r (r\<lparr>r_state := RCancelled, r_lease_owner := None, r_expires := None\<rparr>)"
  "row_evolves r (r\<lparr>r_state := RFailed, r_lease_owner := None, r_expires := None\<rparr>)"
  "row_evolves r (r\<lparr>r_lease_owner := None, r_expires := None\<rparr>)"
  "row_evolves r (r\<lparr>r_expires := e\<rparr>)"
  "row_evolves r (r\<lparr>r_state := RFailed\<rparr>)" "row_evolves r (r\<lparr>r_state := RPending\<rparr>)"
  "row_evolves r (r\<lparr>r_state := RRunning, r_lease_owner := lo, r_epoch := Suc (r_epoch r), r_expires := e,
     r_attempt := Suc (r_attempt r)\<rparr>)"
  by (auto simp: row_evolves_def)

lemma lease_slot_rounds: "lease_slot tid u d = Inr d' \<Longrightarrow> rounds d' = rounds d"
  by (auto simp: lease_slot_def split: list.splits)

lemma inc_running_rounds: "inc_running me d = Inr d' \<Longrightarrow> rounds d' = rounds d"
  by (auto simp: inc_running_def split: option.splits if_splits)

lemma charge_storage_rounds: "charge_storage me n d = Inr d' \<Longrightarrow> rounds d' = rounds d"
  by (auto simp: charge_storage_def Let_def split: option.splits if_splits)

lemma insert_resv_rounds: "insert_resv v d = Inr d' \<Longrightarrow> rounds d' = rounds d"
  by (auto dest: insert_resv_Inr)

lemma insert_round_rounds: "insert_round r d = Inr d' \<Longrightarrow> rounds d' = rounds d @ [r]"
  by (auto dest: insert_round_Inr)

lemma insert_task_rounds: "insert_task t d = Inr d' \<Longrightarrow> rounds d' = rounds d"
  by (auto dest!: insert_task_Inr simp: add_task_def)

lemma alloc_seq_rounds: "alloc_seq me i n d = Inr (q, d') \<Longrightarrow> rounds d' = rounds d"
  by (auto simp: alloc_seq_Inr_iff)

lemma charge_creation_rounds: "charge_creation_quota me today d = Inr d' \<Longrightarrow> rounds d' = rounds d"
  by (drule charge_creation_quota_Inr) auto

lemma flip_task_rounds: "flip_task me i s f d = Inr d' \<Longrightarrow> rounds d' = rounds d"
  by (auto simp: flip_task_def split: if_splits)

lemmas rounds_dests = lease_slot_rounds inc_running_rounds charge_storage_rounds insert_resv_rounds
  insert_round_rounds insert_task_rounds alloc_seq_rounds charge_creation_rounds flip_task_rounds

lemma create_rounds:
  "create_task me req tid mid now today d = Inr (out, d') \<Longrightarrow> rows_evolve {} (rounds d) (rounds d')"
  by (clarsimp simp: create_task_def Let_def dest!: rounds_dests split: if_splits)

lemma commit_rounds:
  "commit_input sha me i manifest rid now d = Inr (out, d') \<Longrightarrow> rows_evolve {rid} (rounds d) (rounds d')"
  by (clarsimp simp: commit_input_def Let_def simp del: parse_id_Inr_iff split: option.splits)
    (simp add: rounds_dests)

lemma send_rounds:
  "send_message me i content mid rid now d = Inr (out, d') \<Longrightarrow> rows_evolve {rid} (rounds d) (rounds d')"
  by (clarsimp simp: send_message_def Let_def dest!: rounds_dests split: if_splits)

lemma cancel_pending_rounds: "cancel_pending me i d = (n, d') \<Longrightarrow>
   rounds d' = upd (\<lambda>r. r_owner r = me \<and> r_task r = i \<and> r_state r = RPending) (\<lambda>r. r\<lparr>r_state := RCancelled\<rparr>) (rounds d)"
  by (auto simp: cancel_pending_def Let_def)

lemma request_terminal_rounds:
  "request_terminal_while_running me i s d = Inr (out, d') \<Longrightarrow> rows_evolve {} (rounds d) (rounds d')"
  by (clarsimp simp: request_terminal_while_running_def Let_def split: if_splits)

lemma terminalize_rounds:
  "terminalize_queued me i s why d = Inr (out, d') \<Longrightarrow> rows_evolve {} (rounds d) (rounds d')"
  by (cases "cancel_pending me i d")
    (auto simp: terminalize_queued_def Let_def dest!: rounds_dests cancel_pending_rounds split: if_splits)

lemma finalize_rounds: "finalize_terminal me t s why d = Inr (out, d') \<Longrightarrow> rows_evolve {} (rounds d) (rounds d')"
  by (clarsimp simp: finalize_terminal_def Let_def dest!: rounds_dests)

lemma terminate_rounds: "terminate_with s why me i d = Inr (out, d') \<Longrightarrow> rows_evolve {} (rounds d) (rounds d')"
  by (auto simp: terminate_with_def dest: request_terminal_rounds terminalize_rounds finalize_rounds
      split: if_splits)

lemma pre_delete_rounds: "rows_evolve {} (rounds d) (rounds (snd (pre_delete me i s d)))"
  by (simp add: pre_delete_def cancel_pending_def Let_def)

lemma delete_rounds_ids:
  assumes "delete_task me i d = Inr (out, d')"
  shows "rows_evolve {} (rounds d) (rounds d')"
proof -
  obtain t where l: "lock_task me i d = Inr t" using assms by (auto simp: delete_task_def)
  obtain c d1 where p: "pre_delete me (t_id t) (t_status t) d = (c, d1)" by force
  have "rows_evolve {} (rounds d) (rounds d1)" using pre_delete_rounds [of d me "t_id t" "t_status t"] p by simp
  then show ?thesis
    using assms l p by (cases c) (clarsimp simp: delete_task_def Let_def dest!: rounds_dests)+
qed

lemma claim_rounds: "claim_round iid ttl c now d = Inr (out, d') \<Longrightarrow> rows_evolve {} (rounds d) (rounds d')"
  by (clarsimp simp: claim_round_def Let_def dest!: rounds_dests split: list.splits if_splits)

lemma reclaim_rounds: "reclaim_expired_round c lo le d = Inr (out, d') \<Longrightarrow> rows_evolve {} (rounds d) (rounds d')"
  by (clarsimp simp: reclaim_expired_round_def Let_def dest!: rounds_dests split: list.splits if_splits)

lemma cancel_rounds: "cancel_cancelling_round c d = Inr (out, d') \<Longrightarrow> rows_evolve {} (rounds d) (rounds d')"
  by (clarsimp simp: cancel_cancelling_round_def Let_def dest!: rounds_dests split: if_splits)

lemma sweep_upload_rounds: "sweep_upload_task c d = Inr (out, d') \<Longrightarrow> rows_evolve {} (rounds d) (rounds d')"
  by (clarsimp simp: sweep_upload_task_def Let_def dest!: rounds_dests split: if_splits)

lemma renew_rounds: "renew x ttl now d = Inr (out, d') \<Longrightarrow> rows_evolve {} (rounds d) (rounds d')"
  by (clarsimp simp: renew_def Let_def split: if_splits)

lemma fact_rounds: "persist_fact_tx x a content mid d = Inr (out, d') \<Longrightarrow> rows_evolve {} (rounds d) (rounds d')"
  by (clarsimp simp: persist_fact_tx_def Let_def dest!: rounds_dests split: if_splits)

lemma settle_pending_rounds: "settle_pending x p mid d = Inr d' \<Longrightarrow> rounds d' = rounds d"
  by (clarsimp simp: settle_pending_def Let_def dest!: rounds_dests split: option.splits)

lemma settle_tail_rounds:
  "bindE (if b then bindE (alloc_seq me i n (upd_tasks me P f d)) (\<lambda>(q, d4). Inr (add_event i me q ty p None None d4))
      else Inr d) (\<lambda>d5. Inr (True, release_task_holdings me i d5)) = Inr (out, d') \<Longrightarrow> rounds d' = rounds d"
  by (cases b) (clarsimp dest!: rounds_dests)+

lemma settle_rounds:
  assumes "settle x p finish used mid d = Inr (out, d')"
  shows "rows_evolve {} (rounds d) (rounds d')"
proof (cases "sel_rounds (x_owner x) (fenced x) d")
  case Nil
  then show ?thesis using assms by (simp add: settle_def)
next
  case (Cons r rs)
  let ?d0 = "upd_rounds (x_owner x) (fenced x) (\<lambda>r. r\<lparr>r_state := RSettled\<rparr>) d"
  obtain d1 q d2 where d1: "settle_pending x p mid ?d0 = Inr d1" "alloc_seq (x_owner x) (x_task x) 1 d1 = Inr (q, d2)"
    using assms Cons by (clarsimp simp: settle_def Let_def)
  then have i: "rounds d2 = rounds ?d0"
    using settle_pending_rounds [OF d1(1)] alloc_seq_rounds [OF d1(2)] by simp
  let ?d3 = "add_event (x_task x) (x_owner x) q ERoundSettled
                      (PRoundSettled (x_round x) (r_attempt r) finish used) None (Some (x_round x)) d2"
  show ?thesis
  proof (cases "find_task (x_owner x) (x_task x) ?d3")
    case None
    then show ?thesis using assms Cons d1 by (simp add: settle_def Let_def)
  next
    case (Some t)
    then have "rounds d' = rounds ?d3"
      using assms unfolding settle_def Let_def Cons list.case d1 bindE_simps prod.case Some option.case
      by (rule_tac settle_tail_rounds)
    then show ?thesis using i by simp
  qed
qed

lemma deadline_rounds: "enforce_round_deadline x d = Inr (out, d') \<Longrightarrow> rows_evolve {} (rounds d) (rounds d')"
  by (clarsimp simp: enforce_round_deadline_def Let_def dest!: rounds_dests split: list.splits if_splits)

lemma fold_event_rounds: "rounds (fold (\<lambda>(k, rid). add_event tid me (n + k) ty (p rid) None (Some rid)) xs d) = rounds d"
  by (induction xs arbitrary: d) (auto split: prod.split)

lemma abort_active_rounds: "abort_active reason i me d = Inr (out, d') \<Longrightarrow> rows_evolve {} (rounds d) (rounds d')"
  by (clarsimp simp: abort_active_def Let_def fold_event_rounds dest!: rounds_dests split: option.splits if_splits)

lemma reconcile_rounds: "reconcile_one c d = Inr (out, d') \<Longrightarrow> rows_evolve {} (rounds d) (rounds d')"
  by (clarsimp simp: reconcile_one_def Let_def dest!: rounds_dests split: prod.splits if_splits)

lemma rel_accounting_rounds [simp]: "rounds (apply_release_accounting i me rel b d) = rounds d"
  by (simp add: apply_release_accounting_def Let_def)

lemma sweep_terminal_rounds:
  "sweep_terminal_task c d = Inr (out, d') \<Longrightarrow> rows_evolve {} (rounds d) (rounds d')"
  by (auto simp: sweep_terminal_task_def Let_def delete_messages_def delete_rounds_def
      release_reservations_def split: prod.splits if_splits)

lemma upload_rounds: "upload_tx nfc me i ups fids now d = Inr (out, d') \<Longrightarrow> rows_evolve {} (rounds d) (rounds d')"
  by (erule upload_tx_Inr) simp

lemma delete_file_rounds: "delete_file_tx me i f d = Inr (out, d') \<Longrightarrow> rows_evolve {} (rounds d) (rounds d')"
  by (auto simp: delete_file_tx_def split: option.splits)

lemma register_rounds:
  assumes "register_tx nfc me i u r epoch fid now d = Inr (out, d')"
  shows "rows_evolve {} (rounds d) (rounds d')"
proof (cases out)
  case (Pair row old)
  from assms [unfolded Pair] show ?thesis
    by (rule register_tx_cases)
      (auto dest!: rounds_dests insert_registered_Inr(1) retire_Inr(2) split: option.splits)
qed

lemmas call_rounds = upload_rounds delete_file_rounds register_rounds create_rounds commit_rounds send_rounds terminate_rounds delete_rounds_ids claim_rounds
  reclaim_rounds cancel_rounds sweep_upload_rounds sweep_terminal_rounds renew_rounds fact_rounds
  settle_rounds deadline_rounds abort_active_rounds reconcile_rounds

lemma committed_rounds:
  assumes "\<And>out d'. r = Inr (out, d') \<Longrightarrow> rows_evolve A (rounds d) (rounds d')"
  shows "rows_evolve A (rounds d) (rounds (committed_db d r))"
  using assms by (auto simp: committed_db_def split: sum.split prod.split)

lemma exec_rounds: "rows_evolve (new_round_ids c) (rounds d) (rounds (exec X c d))"
  by (cases c; hypsubst; unfold exec.simps new_round_ids.simps abort_task_def complete_task_def;
      rule committed_rounds; erule call_rounds)

section \<open>Provider transactions\<close>

datatype provider_call =
    AddProvider uuid provider_create uuid "string \<times> string" time
  | ChangeProvider uuid raw_id provider_update "string \<times> string"
  | DropProvider uuid raw_id

fun exec_provider :: "externals \<Rightarrow> provider_call \<Rightarrow> db \<Rightarrow> db" where
  "exec_provider X (AddProvider me u pid sealed now) d =
     committed_db d (bindE (validate_https_url (netloc_valid X) (pc_url u)) (\<lambda>_. create_provider_tx me u pid sealed now d))"
| "exec_provider X (ChangeProvider me i u sealed) d = committed_db d (update_provider_tx (netloc_valid X) me i u sealed d)"
| "exec_provider X (DropProvider me i) d = committed_db d (revoke_provider_tx me i d)"

fun provider_actor :: "provider_call \<Rightarrow> uuid" where
  "provider_actor (AddProvider me u pid sealed now) = me"
| "provider_actor (ChangeProvider me i u sealed) = me"
| "provider_actor (DropProvider me i) = me"

text \<open>Neither a revocation nor a new key.\<close>

fun keeps_keys :: "provider_call \<Rightarrow> bool" where
  "keeps_keys (AddProvider me u pid sealed now) = True"
| "keeps_keys (ChangeProvider me i u sealed) = keeps_key u"
| "keeps_keys (DropProvider me i) = False"

lemma committed_Inr:
  assumes "r = committed_db d m"
  obtains "r = d" | out where "m = Inr (out, r)"
  using assms by (auto simp: committed_db_def split: sum.splits prod.splits)

text \<open>A provider transaction changes the provider table, and nothing else or the unstarted tasks of one provider.\<close>

lemma provider_effect:
  obtains "exec_provider X c d = d"
  | P where "exec_provider X c d = d\<lparr>providers := P\<rparr>" "keeps_keys c"
  | pid P where "exec_provider X c d
      = (snd (fail_unstarted_tasks (provider_actor c) pid ProviderKeyRevoked d))\<lparr>providers := P\<rparr>" "\<not> keeps_keys c"
proof (cases c)
  case (AddProvider me u pid sealed now)
  show thesis
  proof (rule committed_Inr [OF exec_provider.simps(1) [of X me u pid sealed now d]])
    fix out assume "bindE (validate_https_url (netloc_valid X) (pc_url u)) (\<lambda>_. create_provider_tx me u pid sealed now d)
        = Inr (out, exec_provider X (AddProvider me u pid sealed now) d)"
    then have "create_provider_tx me u pid sealed now d = Inr (out, exec_provider X (AddProvider me u pid sealed now) d)"
      unfolding bindE_Inr_iff by blast
    from create_provider_effect [OF this] show thesis using that(2) AddProvider by auto
  qed (use that(1) AddProvider in simp)
next
  case (ChangeProvider me i u sealed)
  show thesis
  proof (rule committed_Inr [OF exec_provider.simps(2) [of X me i u sealed d]])
    fix out assume "update_provider_tx (netloc_valid X) me i u sealed d = Inr (out, exec_provider X (ChangeProvider me i u sealed) d)"
    from update_provider_effect [OF this] show thesis using that(2,3) ChangeProvider by (cases "keeps_key u") auto
  qed (use that(1) ChangeProvider in simp)
next
  case (DropProvider me i)
  show thesis
  proof (rule committed_Inr [OF exec_provider.simps(3) [of X me i d]])
    fix out assume "revoke_provider_tx me i d = Inr (out, exec_provider X (DropProvider me i) d)"
    from revoke_provider_effect [OF this] show thesis using that(3) DropProvider by auto
  qed (use that(1) DropProvider in simp)
qed

lemma provider_batch:
  assumes "good d"
  shows "ok_batch (provider_actor c) d (exec_provider X c d)"
  by (rule provider_effect [of X c d]) (simp_all add: ok_batch_refl fail_unstarted_tasks_batch assms)

lemma provider_exact: "exact d \<Longrightarrow> keeps_keys c \<Longrightarrow> exact (exec_provider X c d)"
  by (rule provider_effect [of X c d]) simp_all

lemma fail_unstarted_tasks_rounds:
  "rows_evolve {} (rounds d) (rounds (snd (fail_unstarted_tasks me pid reason d)))"
proof -
  have "rows_evolve {} R (rounds (fold (fail_unstarted me reason) ts d))" if "rows_evolve {} R (rounds d)" for R ts
    using that
  proof (induction ts arbitrary: d)
    case (Cons t ts)
    have "rows_evolve {} R (rounds (fail_unstarted me reason t d))"
      using Cons.prems by (simp add: fail_unstarted_def cancel_pending_def Let_def)
    then show ?case using Cons.IH by simp
  qed simp
  then show ?thesis by (simp add: fail_unstarted_tasks_def)
qed

lemma provider_rounds: "rows_evolve {} (rounds d) (rounds (exec_provider X c d))"
  by (rule provider_effect [of X c d]) (simp_all add: fail_unstarted_tasks_rounds)

section \<open>Candidates stay valid\<close>

definition round_ids :: "db \<Rightarrow> uuid set" where
  "round_ids d = r_id ` set (rounds d)"

lemma rows_evolve_ids: "rows_evolve A (rounds d) (rounds d') \<Longrightarrow> round_ids d' \<subseteq> round_ids d \<union> A"
  by (force simp: rows_evolve_def row_evolves_def round_ids_def)

lemma cand_ok_evolve:
  assumes "rows_evolve A (rounds d) (rounds d')" and "cand_ok c d" and "c_round c \<notin> A"
  shows "cand_ok c d'"
  unfolding cand_ok_def
proof (intro ballI impI)
  fix r' assume r': "r' \<in> set (rounds d')" "r_id r' = c_round c \<and> r_owner r' = c_owner c"
  then obtain r where "r \<in> set (rounds d)" "row_evolves r r'"
    using assms(1,3) by (auto simp: rows_evolve_def)
  then show "r_task r' = c_task c" using assms(2) r'(2) by (auto simp: cand_ok_def row_evolves_def)
qed

definition ctx_cand :: "round_ctx \<Rightarrow> cand" where
  "ctx_cand x = \<lparr>c_round = x_round x, c_task = x_task x, c_owner = x_owner x\<rparr>"

lemma ctx_ok_cand: "ctx_ok x d = cand_ok (ctx_cand x) d"
  by (simp add: ctx_ok_def cand_ok_def ctx_cand_def)

lemma sweepable_job:
  assumes "good d" and "ok_job me tid d d'" and "sweepable c d"
  shows "sweepable c d'"
proof -
  obtain t where t: "task_at d (fst c) = Some t" "t_owner t = snd c" "terminal_status (t_status t)"
    using assms(3) by (auto simp: sweepable_def)
  show ?thesis
  proof (cases "fst c = tid")
    case True
    then obtain t' where "task_at d' (fst c) = Some t'" "evolves t t'"
      using assms(2) t(1) by (auto simp: ok_job_def)
    then show ?thesis
      using t evolves_terminal [of t t'] by (auto simp: sweepable_def evolves_def)
  next
    case False
    then show ?thesis
      using assms(2) touches_other(1) [of me tid d d' "fst c"] t by (auto simp: ok_job_def sweepable_def)
  qed
qed

lemma at_rest_job:
  assumes "ok_job me tid d d'" and "at_rest c d"
  shows "at_rest c d'"
  using assms quiet_other [of me tid d d' "fst c"]
  by (cases "fst c = tid") (auto simp: ok_job_def at_rest_def)

lemma candidates_batch:
  assumes "ok_batch me d d'"
  shows "sweepable c d \<Longrightarrow> sweepable c d'" "at_rest r d \<Longrightarrow> at_rest r d'"
proof -
  show "at_rest r d'" if "at_rest r d" using that assms by (simp add: at_rest_def ok_batch_def)
  assume "sweepable c d"
  then obtain t where t: "task_at d (fst c) = Some t" "t_owner t = snd c" "terminal_status (t_status t)"
    by (auto simp: sweepable_def)
  from ok_batch_task [OF assms t(1)] obtain t' where "task_at d' (fst c) = Some t'" "evolves t t'" .
  then show "sweepable c d'" using t evolves_terminal [of t t'] by (auto simp: sweepable_def evolves_def)
qed

section \<open>The system\<close>

record sys =
  base :: db
  issued :: "uuid set"
  cands :: "cand set"
  ctxs :: "round_ctx set"
  rests :: "(uuid \<times> uuid \<times> status) set"
  sweeps :: "(uuid \<times> uuid) set"
  intact :: bool

text \<open>\<open>intact\<close> records that no provider key was revoked or rotated so far: such a change gives the
  reservations of the waiting tasks back, but not their retained bytes.\<close>

text \<open>When a call may be made: fresh round identifiers, and candidates an earlier scan returned.\<close>

fun ready :: "call \<Rightarrow> sys \<Rightarrow> bool" where
  "ready (Claim iid ttl c now) s = (c \<in> cands s)"
| "ready (Reclaim c lo le) s = (c \<in> cands s)"
| "ready (Cancel c) s = (c \<in> cands s)"
| "ready (SweepTerminal c) s = (c \<in> sweeps s)"
| "ready (Renew x ttl now) s = (x \<in> ctxs s)"
| "ready (Fact x a content mid) s = (x \<in> ctxs s)"
| "ready (Settle x p fin used mid) s = (x \<in> ctxs s)"
| "ready (Deadline x) s = (x \<in> ctxs s)"
| "ready (Reconcile c) s = (c \<in> rests s)"
| "ready c s = (new_round_ids c \<inter> issued s = {})"

inductive step :: "externals \<Rightarrow> sys \<Rightarrow> sys \<Rightarrow> bool" for X where
  scan: "step X s (s\<lparr>cands := cands s \<union> set (dispatch_candidates (base s))
                          \<union> rc_cand ` set (reclaim_candidates now (base s)),
            ctxs := ctxs s \<union> set (scan_claimed iid tid (base s)),
            rests := rests s \<union> set (pending_terminal_candidates (base s)),
            sweeps := sweeps s \<union> set (terminal_candidates now (base s))\<rparr>)"
| transact: "ready c s \<Longrightarrow>
     step X s (s\<lparr>base := exec X c (base s), issued := issued s \<union> new_round_ids c\<rparr>)"
| provide: "step X s (s\<lparr>base := exec_provider X p (base s), intact := intact s \<and> keeps_keys p\<rparr>)"

inductive_cases step_cases: "step X s s'"

text \<open>The database the migrations leave: no tasks, free slots, nothing charged.\<close>

definition empty_db :: "db \<Rightarrow> bool" where
  "empty_db d \<longleftrightarrow> tasks d = [] \<and> rounds d = [] \<and> events d = [] \<and> messages d = [] \<and> files d = []
     \<and> resvs d = [] \<and> pl_used d = 0 \<and> (\<forall>u. usage d u = None)
     \<and> distinct (map s_no (slots d)) \<and> (\<forall>s\<in>set (slots d). \<not> s_leased s \<and> s_task s = None)"

definition start :: "sys \<Rightarrow> bool" where
  "start s \<longleftrightarrow> empty_db (base s) \<and> issued s = {} \<and> cands s = {} \<and> ctxs s = {} \<and> rests s = {} \<and> sweeps s = {} \<and> intact s"

definition sys_good :: "sys \<Rightarrow> bool" where
  "sys_good s \<longleftrightarrow> good (base s) \<and> (intact s \<longrightarrow> exact (base s)) \<and> round_ids (base s) \<subseteq> issued s
     \<and> (\<forall>c\<in>cands s. cand_ok c (base s) \<and> c_round c \<in> issued s)
     \<and> (\<forall>x\<in>ctxs s. ctx_ok x (base s) \<and> x_round x \<in> issued s)
     \<and> (\<forall>c\<in>rests s. at_rest c (base s)) \<and> (\<forall>c\<in>sweeps s. sweepable c (base s))"

lemma start_good: "start s \<Longrightarrow> sys_good s"
  by (auto simp: start_def empty_db_def sys_good_def good_def exact_def pkeys_def task_good_def acct_def
      acct_user_def zero_bytes_def slots_wf_def round_ids_def task_at_def rounds_of_def resvs_of_def
      log_of_def msgs_of_def leased_to_def rowcount_0_iff bytes_all_def bytes_user_def)

lemma ready_pre: "sys_good s \<Longrightarrow> ready c s \<Longrightarrow> call_pre c (base s)"
  by (cases c) (auto simp: sys_good_def)

text \<open>A transaction reuses no identifier of an earlier candidate.\<close>

lemma ready_fresh: "ready c s \<Longrightarrow> new_round_ids c \<inter> issued s = {}"
  by (cases c) auto

lemma transact_good:
  assumes "sys_good s" and "ready c s"
  shows "sys_good (s\<lparr>base := exec X c (base s), issued := issued s \<union> new_round_ids c\<rparr>)"
proof -
  let ?d = "base s" and ?d' = "exec X c (base s)"
  have g: "good ?d" using assms(1) by (auto simp: sys_good_def)
  have j: "ok_job (actor c) (subject c) ?d ?d'" by (rule exec_ok_job [OF g ready_pre [OF assms]])
  then have g': "good ?d'" "exact ?d \<Longrightarrow> exact ?d'" by (auto simp: ok_job_def)
  have E: "rows_evolve (new_round_ids c) (rounds ?d) (rounds ?d')" by (rule exec_rounds)
  note R = rows_evolve_ids [OF E]
  have c: "cand_ok k ?d'" if "cand_ok k ?d" "c_round k \<in> issued s" for k
    by (rule cand_ok_evolve [OF E that(1)]) (use ready_fresh [OF assms(2)] that(2) in blast)
  have x: "ctx_ok k ?d'" if "ctx_ok k ?d" "x_round k \<in> issued s" for k
    using c [of "ctx_cand k"] that by (simp add: ctx_ok_cand ctx_cand_def)
  show ?thesis
    using assms(1) g' R c x at_rest_job [OF j] sweepable_job [OF g j]
    by (auto simp: sys_good_def)
qed

lemma scanned_rounds:
  assumes "good d" and "r \<in> set (rounds d)" and "c = cand_of r"
  shows "cand_ok c d" "c_round c \<in> round_ids d"
proof -
  have "x = r" if "x \<in> set (rounds d)" "r_id x = r_id r" for x
    using same_round [OF goodD(1) [OF assms(1)] assms(2)] that by blast
  then show "cand_ok c d" by (auto simp: cand_ok_def assms(3) cand_of_def)
  show "c_round c \<in> round_ids d" using assms(2) by (simp add: assms(3) cand_of_def round_ids_def)
qed

lemma dispatch_candidates_mem:
  "c \<in> set (dispatch_candidates d) \<Longrightarrow> \<exists>r\<in>set (rounds d). c = cand_of r"
  by (auto simp: dispatch_candidates_def oldest_first_def dest!: in_set_takeD)

lemma reclaim_candidates_mem:
  "c \<in> set (reclaim_candidates now d) \<Longrightarrow> \<exists>r\<in>set (rounds d). rc_cand c = cand_of r"
  by (auto simp: reclaim_candidates_def oldest_first_def)

lemma scan_claimed_mem:
  "x \<in> set (scan_claimed iid tid d) \<Longrightarrow> \<exists>r\<in>set (rounds d). ctx_cand x = cand_of r"
  by (auto simp: scan_claimed_def ctx_cand_def cand_of_def)

lemma pending_terminal_rest:
  assumes "good d" and "c \<in> set (pending_terminal_candidates d)"
  shows "at_rest c d"
proof -
  obtain t where t: "t \<in> set (tasks d)" "t_status t = Running" "fst c = t_id t"
    "\<not> list_ex (\<lambda>r. r_task r = t_id t \<and> active_state (r_state r)) (rounds d)"
    using assms(2)
    by (auto simp: pending_terminal_candidates_def map_filter_def split: if_splits)
  have "distinct (map t_id (tasks d))" using assms(1) by (simp add: good_def pkeys_def)
  from find_key [OF this t(1), of "\<lambda>_. True"] have "task_at d (t_id t) = Some t" by (simp add: task_at_def)
  moreover have "act_of d (t_id t) = []"
    using t(4) by (auto simp: act_of_def list_ex_iff filter_empty_conv)
  ultimately show ?thesis using t(2,3) by (simp add: at_rest_def quiet_def)
qed

lemma terminal_candidates_sweepable:
  assumes "good d" and "c \<in> set (terminal_candidates now d)"
  shows "sweepable c d"
proof -
  obtain t where t: "t \<in> set (tasks d)" "terminal_status (t_status t)" "c = (t_id t, t_owner t)"
    using assms(2) by (auto simp: terminal_candidates_def oldest_tasks_def)
  have "distinct (map t_id (tasks d))" using assms(1) by (simp add: good_def pkeys_def)
  from find_key [OF this t(1), of "\<lambda>_. True"] have "task_at d (t_id t) = Some t" by (simp add: task_at_def)
  then show ?thesis using t(2,3) by (simp add: sweepable_def)
qed

lemma scan_good:
  assumes "sys_good s"
  shows "sys_good (s\<lparr>cands := cands s \<union> set (dispatch_candidates (base s))
                          \<union> rc_cand ` set (reclaim_candidates now (base s)),
            ctxs := ctxs s \<union> set (scan_claimed iid tid (base s)),
            rests := rests s \<union> set (pending_terminal_candidates (base s)),
            sweeps := sweeps s \<union> set (terminal_candidates now (base s))\<rparr>)"
proof -
  let ?d = "base s"
  have g: "good ?d" and i: "round_ids ?d \<subseteq> issued s" using assms by (auto simp: sys_good_def)
  have r: "cand_ok c ?d \<and> c_round c \<in> issued s" if "\<exists>r\<in>set (rounds ?d). c = cand_of r" for c
    using that scanned_rounds [OF g] i by blast
  have c: "cand_ok c ?d \<and> c_round c \<in> issued s"
    if "c \<in> set (dispatch_candidates ?d) \<union> rc_cand ` set (reclaim_candidates now ?d)" for c
    using that r [of c] dispatch_candidates_mem [of c ?d] reclaim_candidates_mem [of _ now ?d] by auto
  have x: "ctx_ok x ?d \<and> x_round x \<in> issued s" if "x \<in> set (scan_claimed iid tid ?d)" for x
    using r [of "ctx_cand x"] scan_claimed_mem [OF that] by (simp add: ctx_ok_cand) (simp add: ctx_cand_def)
  show ?thesis
    using assms c x pending_terminal_rest [OF g] terminal_candidates_sweepable [OF g]
    by (auto simp: sys_good_def)
qed

lemma provide_good:
  assumes "sys_good s"
  shows "sys_good (s\<lparr>base := exec_provider X p (base s), intact := intact s \<and> keeps_keys p\<rparr>)"
proof -
  let ?d = "base s" and ?d' = "exec_provider X p (base s)"
  have g: "good ?d" using assms by (simp add: sys_good_def)
  note b = provider_batch [OF g, of p X]
  have E: "rows_evolve {} (rounds ?d) (rounds ?d')" by (rule provider_rounds)
  have c: "cand_ok k ?d'" if "cand_ok k ?d" for k using cand_ok_evolve [OF E that] by simp
  have x: "ctx_ok k ?d'" if "ctx_ok k ?d" for k using c [of "ctx_cand k"] that by (simp add: ctx_ok_cand)
  have "good ?d'" using b by (simp add: ok_batch_def)
  then show ?thesis
    using assms rows_evolve_ids [OF E] c x candidates_batch [OF b] provider_exact [of ?d p X]
    by (auto simp: sys_good_def)
qed

lemma step_good: "sys_good s \<Longrightarrow> step X s s' \<Longrightarrow> sys_good s'"
  by (erule step.cases) (auto simp: scan_good transact_good provide_good)

interpretation task_system: transition_system start "step X" sys_good
  by unfold_locales (auto intro: start_good step_good)

section \<open>Facts along an execution\<close>

lemma step_evolves:
  assumes "sys_good s" and "step X s s'" and "task_at (base s) i = Some t"
  shows "\<exists>t'. task_at (base s') i = Some t' \<and> evolves t t'"
  using assms(2)
proof (cases rule: step.cases)
  case (scan now iid tid)
  then show ?thesis using assms(3) by simp
next
  case (transact c)
  have "ok_job (actor c) (subject c) (base s) (exec X c (base s))"
    by (rule exec_ok_job) (use assms(1) transact ready_pre in \<open>auto simp: sys_good_def\<close>)
  then show ?thesis
    using transact(1) assms(3) touches_other(1) [of "actor c" "subject c" "base s" "exec X c (base s)" i]
    by (cases "i = subject c") (auto simp: ok_job_def)
next
  case (provide p)
  have "good (base s)" using assms(1) by (simp add: sys_good_def)
  from ok_batch_task [OF provider_batch [OF this] assms(3)] obtain t'
    where "task_at (exec_provider X p (base s)) i = Some t'" "evolves t t'" .
  then show ?thesis using provide by simp
qed

lemma task_along:
  assumes "(step X)\<^sup>*\<^sup>* s s'" and "sys_good s" and "task_at (base s) i = Some t" and "P t"
    and "\<And>a b. P a \<Longrightarrow> evolves a b \<Longrightarrow> P b"
  obtains t' where "task_at (base s') i = Some t'" "P t'"
proof -
  have "\<exists>t'. task_at (base s') i = Some t' \<and> P t'"
  proof (rule task_system.stable_along [where Q = "\<lambda>s. \<exists>t'. task_at (base s) i = Some t' \<and> P t'", OF assms(1,2)])
    show "\<exists>t'. task_at (base s) i = Some t' \<and> P t'" using assms(3,4) by blast
    fix a b assume "sys_good a" "\<exists>t'. task_at (base a) i = Some t' \<and> P t'" "step X a b"
    then show "\<exists>t'. task_at (base b) i = Some t' \<and> P t'" using step_evolves assms(5) by metis
  qed
  then show thesis using that by blast
qed

text \<open>Leases: an executor's context is never ahead of its round, and once the fence has failed it
  stays failed.\<close>

definition ctx_behind :: "round_ctx \<Rightarrow> db \<Rightarrow> bool" where
  "ctx_behind x d \<longleftrightarrow> (\<forall>r\<in>set (rounds d). r_id r = x_round x \<and> r_owner r = x_owner x \<longrightarrow>
     x_epoch x < r_epoch r \<or> x_epoch x = r_epoch r \<and>
       (r_state r = RRunning \<longrightarrow> r_lease_owner r = Some (x_iid x) \<or> r_lease_owner r = None))"

definition fence_dead :: "round_ctx \<Rightarrow> db \<Rightarrow> bool" where
  "fence_dead x d \<longleftrightarrow> (\<forall>r\<in>set (rounds d). r_id r = x_round x \<and> r_owner r = x_owner x \<longrightarrow>
     x_epoch x < r_epoch r \<or> x_epoch x = r_epoch r \<and> r_state r \<noteq> RRunning)"

lemma evolve_ctx:
  assumes "rows_evolve A (rounds d) (rounds d')" and "x_round x \<notin> A"
  shows "ctx_behind x d \<Longrightarrow> ctx_behind x d'" "fence_dead x d \<Longrightarrow> fence_dead x d'"
proof -
  have old: "\<exists>r\<in>set (rounds d). row_evolves r r'" if "r' \<in> set (rounds d')" "r_id r' = x_round x" for r'
    using that assms by (auto simp: rows_evolve_def)
  show "ctx_behind x d'" if "ctx_behind x d"
    unfolding ctx_behind_def
  proof (intro ballI impI)
    fix r' assume r': "r' \<in> set (rounds d')" "r_id r' = x_round x \<and> r_owner r' = x_owner x"
    then obtain r where "r \<in> set (rounds d)" "row_evolves r r'" using old by blast
    then show "x_epoch x < r_epoch r' \<or> x_epoch x = r_epoch r' \<and>
       (r_state r' = RRunning \<longrightarrow> r_lease_owner r' = Some (x_iid x) \<or> r_lease_owner r' = None)"
      using that r'(2) by (fastforce simp: ctx_behind_def row_evolves_def)
  qed
  show "fence_dead x d'" if "fence_dead x d"
    unfolding fence_dead_def
  proof (intro ballI impI)
    fix r' assume r': "r' \<in> set (rounds d')" "r_id r' = x_round x \<and> r_owner r' = x_owner x"
    then obtain r where "r \<in> set (rounds d)" "row_evolves r r'" using old by blast
    then show "x_epoch x < r_epoch r' \<or> x_epoch x = r_epoch r' \<and> r_state r' \<noteq> RRunning"
      using that r'(2) by (fastforce simp: fence_dead_def row_evolves_def)
  qed
qed

lemma scanned_behind:
  assumes "good d" and "x \<in> set (scan_claimed iid tid d)"
  shows "ctx_behind x d"
proof -
  obtain r where r: "r \<in> set (rounds d)" "r_lease_owner r = Some iid"
    and x: "x = \<lparr>x_task = tid, x_owner = r_owner r, x_round = r_id r, x_epoch = r_epoch r, x_iid = iid\<rparr>"
    using assms(2) by (auto simp: scan_claimed_def)
  have "q = r" if "q \<in> set (rounds d)" "r_id q = r_id r" for q
    using same_round [OF goodD(1) [OF assms(1)] r(1)] that by blast
  then show ?thesis using r by (auto simp: ctx_behind_def x)
qed

lemma behind_reachable:
  assumes "start s" and "(step X)\<^sup>*\<^sup>* s s'"
  shows "\<forall>x\<in>ctxs s'. ctx_behind x (base s')"
proof (rule task_system.stable_along [where Q = "\<lambda>s. \<forall>x\<in>ctxs s. ctx_behind x (base s)", OF assms(2) start_good [OF assms(1)]])
  show "\<forall>x\<in>ctxs s. ctx_behind x (base s)" using assms(1) by (simp add: start_def)
  fix a b assume a: "sys_good a" "\<forall>x\<in>ctxs a. ctx_behind x (base a)" and st: "step X a b"
  from st show "\<forall>x\<in>ctxs b. ctx_behind x (base b)"
  proof (cases rule: step.cases)
    case (scan now iid tid)
    then show ?thesis using a scanned_behind [of "base a"] by (auto simp: sys_good_def)
  next
    case (transact c)
    have "x_round x \<notin> new_round_ids c" if "x \<in> ctxs a" for x
      using a(1) that ready_fresh [OF transact(2)] by (auto simp: sys_good_def)
    then show ?thesis using transact(1) a(2) evolve_ctx(1) [OF exec_rounds] by auto
  next
    case (provide p)
    then show ?thesis using a(2) evolve_ctx(1) [OF provider_rounds] by auto
  qed
qed

lemma dead_along:
  assumes "(step X)\<^sup>*\<^sup>* s s'" and "sys_good s" and "x \<in> ctxs s" and "fence_dead x (base s)"
  shows "fence_dead x (base s')"
proof -
  have "x \<in> ctxs s' \<and> fence_dead x (base s')"
  proof (rule task_system.stable_along [where Q = "\<lambda>s. x \<in> ctxs s \<and> fence_dead x (base s)", OF assms(1,2)])
    show "x \<in> ctxs s \<and> fence_dead x (base s)" using assms(3,4) by blast
    fix a b assume a: "sys_good a" "x \<in> ctxs a \<and> fence_dead x (base a)" and st: "step X a b"
    from st show "x \<in> ctxs b \<and> fence_dead x (base b)"
    proof (cases rule: step.cases)
      case (transact c)
      have "x_round x \<notin> new_round_ids c"
        using a ready_fresh [OF transact(2)] by (auto simp: sys_good_def)
      then show ?thesis using transact(1) a(2) evolve_ctx(2) [OF exec_rounds] by auto
    next
      case (provide p)
      then show ?thesis using a(2) evolve_ctx(2) [OF provider_rounds] by auto
    qed (use a in simp)
  qed
  then show ?thesis by blast
qed

lemma dead_recheck: "fence_dead x d \<Longrightarrow> sel_rounds (x_owner x) (fenced x) d = []"
  by (auto simp: fence_dead_def sel_rounds_def fenced_def filter_empty_conv)

lemma recheck_dead:
  assumes "good d" and "ctx_behind x d" and "\<not> round_recheck x d"
  shows "fence_dead x d"
  unfolding fence_dead_def
proof (intro ballI impI)
  fix r assume r: "r \<in> set (rounds d)" "r_id r = x_round x \<and> r_owner r = x_owner x"
  have "\<not> fenced x r" using assms(3) r by (auto simp: round_recheck_def sel_rounds_def filter_empty_conv)
  moreover have "r_state r = RRunning \<Longrightarrow> r_lease_owner r \<noteq> None"
    using active_round_task [OF assms(1) r(1)] by (metis active_state.simps(2) round_ok_def)
  ultimately show "x_epoch x < r_epoch r \<or> x_epoch x = r_epoch r \<and> r_state r \<noteq> RRunning"
    using assms(2) r by (auto simp: ctx_behind_def fenced_def)
qed

text \<open>The event log of a task is only appended to, except by the terminal sweep.\<close>

lemma committed_appends:
  assumes "\<And>out d'. r = Inr (out, d') \<Longrightarrow> \<exists>es. log_of d' i = log_of d i @ es"
  shows "\<exists>es. log_of (committed_db d r) i = log_of d i @ es"
  using assms by (cases r) (auto simp: committed_db_def)

lemmas appends =
  create.log_only_grows [of _ "(me, req, tid, mid, now, today)" for me req tid mid now today, simplified]
  commit.log_only_grows [of _ "(me, i, sha, manifest, rid, now)" for me i sha manifest rid now, simplified]
  abort.log_only_grows [of _ "(me, i)" for me i, simplified]
  complete.log_only_grows [of _ "(me, i)" for me i, simplified]
  delete.log_only_grows [of _ "(me, i)" for me i, simplified]
  send.log_only_grows [of _ "(me, i, content, mid, rid, now)" for me i content mid rid now, simplified]
  claim.log_only_grows [of _ "(iid, ttl, now, c)" for iid ttl now c, simplified]
  reclaim.log_only_grows [of _ "(c, lo, le)" for c lo le, simplified]
  cancel.log_only_grows upload_sweep.log_only_grows [simplified]
  renewal.log_only_grows [of _ "(x, ttl, now)" for x ttl now, simplified]
  fact.log_only_grows [of _ "(x, a, content, mid)" for x a content mid, simplified]
  settlement.log_only_grows [of _ "(x, p, fin, used, mid)" for x p fin used mid, simplified]
  deadline.log_only_grows
  terminator.log_only_grows [of _ "(reason, tid, me)" for reason tid me, simplified]
  reconciler.log_only_grows
  upload.log_only_grows [of _ "(me, i, nfc, ups, fids, now)" for me i nfc ups fids now, simplified]
  file_deletion.log_only_grows [of _ "(me, i, f)" for me i f, simplified]
  registration.log_only_grows [of _ "(me, i, nfc, u, r, epoch, fid, now)" for me i nfc u r epoch fid now, simplified]

lemma exec_appends:
  assumes "good d" and "call_pre c d" and "task_at d i = Some t" and "\<And>k. c \<noteq> SweepTerminal k"
  shows "\<exists>es. log_of (exec X c d) i = log_of d i @ es"
  by (cases c) (use assms in \<open>simp_all add: committed_appends appends\<close>)

text \<open>A call of the system, whatever it is, meets the contract of a transaction.\<close>

interpretation calls: job_transaction "\<lambda>(X, c) d. Inr ((), exec X c d)"
  "\<lambda>(X, c). actor c" "\<lambda>(X, c). subject c" "\<lambda>(X, c). call_pre c"
  by unfold_locales (auto intro: exec_ok_job)

end
