(* ===== verification/Task_File_Rules.thy ===== *)
theory Task_File_Rules
  imports Task_System "HOL-Library.Sublist"
begin

text \<open>
  What every run of the system keeps true of the file table and of the provider table. A transaction
  other than an upload or a registration only moves file rows to \<open>committed\<close> or \<open>deleted\<close>; the two
  that add rows check the limits of the task they add to. The profile of a task lists direction, name
  and size of its live files; the limits hold of a profile and of each of its sublists.
\<close>

section \<open>How file rows evolve\<close>

definition same_file :: "file_row \<Rightarrow> file_row \<Rightarrow> bool" where
  "same_file f g \<longleftrightarrow> f_id g = f_id f \<and> f_task g = f_task f \<and> f_owner g = f_owner f \<and> f_dir g = f_dir f
     \<and> f_name g = f_name f \<and> f_key g = f_key f \<and> f_sha g = f_sha f \<and> f_size g = f_size f \<and> f_created g = f_created f
     \<and> (f_state g = f_state f \<or> f_state f = Staged \<and> f_state g = Committed \<or> f_state g = FDeleted)"

definition files_kept :: "file_row list \<Rightarrow> file_row list \<Rightarrow> bool" where
  "files_kept F F' \<longleftrightarrow> list_all2 same_file F F'"

lemma same_file_refl [simp]: "same_file f f"
  by (simp add: same_file_def)

lemma files_kept_refl [simp]: "files_kept F F"
  by (simp add: files_kept_def list_all2_same)

lemma files_kept_upd [simp]:
  "(\<And>f. P f \<Longrightarrow> same_file f (h f)) \<Longrightarrow> files_kept F (upd P h F)"
  by (auto simp: files_kept_def upd_def list_all2_conv_all_nth)

lemma same_file_trans: "same_file a b \<Longrightarrow> same_file b c \<Longrightarrow> same_file a c"
  by (auto simp: same_file_def)

lemma files_kept_trans: "files_kept A B \<Longrightarrow> files_kept B C \<Longrightarrow> files_kept A C"
  unfolding files_kept_def by (rule list_all2_trans [OF same_file_trans])

lemma file_updates [simp]:
  "same_file f (f\<lparr>f_state := FDeleted\<rparr>)" "f_state f = Staged \<Longrightarrow> same_file f (f\<lparr>f_state := Committed\<rparr>)"
  "same_file f (f\<lparr>f_round := r\<rparr>)"
  by (auto simp: same_file_def)

lemma writes_keep_files:
  "lease_slot tid u d = Inr d' \<Longrightarrow> files d' = files d"
  "inc_running me d = Inr d' \<Longrightarrow> files d' = files d"
  "charge_storage me n d = Inr d' \<Longrightarrow> files d' = files d"
  "insert_resv v d = Inr d' \<Longrightarrow> files d' = files d"
  "insert_round r d = Inr d' \<Longrightarrow> files d' = files d"
  "insert_task t d = Inr d' \<Longrightarrow> files d' = files d"
  "alloc_seq me i k d = Inr (q, d') \<Longrightarrow> files d' = files d"
  "charge_creation_quota me today d = Inr d' \<Longrightarrow> files d' = files d"
  "flip_task me i s f d = Inr d' \<Longrightarrow> files d' = files d"
  by (auto simp: lease_slot_def inc_running_def charge_storage_def Let_def insert_resv_def insert_round_def insert_task_def
      alloc_seq_Inr_iff flip_task_def dest: charge_creation_quota_Inr split: list.splits option.splits if_splits)

lemma accounting_files [simp]: "files (apply_release_accounting i me rel b d) = files d"
  by (auto simp: apply_release_accounting_def free_slot_def dec_running_def dec_active_def refund_storage_def Let_def
      split: option.splits)

lemma create_files:
  "create_task me req tid mid now today d = Inr (out, d') \<Longrightarrow> files_kept (files d) (files d')"
  by (clarsimp simp: create_task_def Let_def dest!: writes_keep_files split: if_splits)

lemma commit_files:
  "commit_input sha me i manifest rid now d = Inr (out, d') \<Longrightarrow> files_kept (files d) (files d')"
  by (clarsimp simp: commit_input_def Let_def simp del: parse_id_Inr_iff split: option.splits)
    (drule writes_keep_files(3,4,5,7,9), drule writes_keep_files(3,4,5,7,9), drule writes_keep_files(3,4,5,7,9),
     drule writes_keep_files(3,4,5,7,9), drule writes_keep_files(3,4,5,7,9),
     auto intro!: files_kept_upd simp: same_file_def)

lemma send_files:
  "send_message me i content mid rid now d = Inr (out, d') \<Longrightarrow> files_kept (files d) (files d')"
  by (clarsimp simp: send_message_def Let_def dest!: writes_keep_files split: if_splits)

lemma cancel_pending_files: "cancel_pending me i d = (n, d') \<Longrightarrow> files d' = files d"
  by (auto simp: cancel_pending_def Let_def)

lemma terminate_parts_files:
  "request_terminal_while_running me j s d = Inr (out, d') \<Longrightarrow> files d' = files d"
  "terminalize_queued me j s why d = Inr (out, d') \<Longrightarrow> files d' = files d"
  "finalize_terminal me t s why d = Inr (out, d') \<Longrightarrow> files d' = files d"
  by (clarsimp simp: request_terminal_while_running_def Let_def split: if_splits,
      cases "cancel_pending me j d",
      auto simp: terminalize_queued_def finalize_terminal_def Let_def dest!: writes_keep_files cancel_pending_files split: if_splits)

lemma terminate_files: "terminate_with s why me i d = Inr (out, d') \<Longrightarrow> files_kept (files d) (files d')"
  by (auto simp: terminate_with_def dest: terminate_parts_files split: if_splits)

lemma delete_files:
  assumes "delete_task me i d = Inr (out, d')"
  shows "files_kept (files d) (files d')"
proof -
  obtain t where l: "lock_task me i d = Inr t" using assms by (auto simp: delete_task_def)
  obtain c d1 where p: "pre_delete me (t_id t) (t_status t) d = (c, d1)" by force
  have "files d1 = files d"
    using p by (auto simp: pre_delete_def cancel_pending_def Let_def split: if_splits)
  then show ?thesis
    using assms l p by (cases c) (clarsimp simp: delete_task_def Let_def dest!: writes_keep_files)+
qed

lemma job_files:
  "claim_round iid ttl c now d = Inr (o1, d1) \<Longrightarrow> files_kept (files d) (files d1)"
  "reclaim_expired_round c lo le d = Inr (o2, d2) \<Longrightarrow> files_kept (files d) (files d2)"
  "cancel_cancelling_round c d = Inr (o3, d3) \<Longrightarrow> files_kept (files d) (files d3)"
  "sweep_upload_task k d = Inr (o4, d4) \<Longrightarrow> files_kept (files d) (files d4)"
  "reconcile_one q d = Inr (o5, d5) \<Longrightarrow> files_kept (files d) (files d5)"
  by (clarsimp simp: claim_round_def reclaim_expired_round_def cancel_cancelling_round_def sweep_upload_task_def
      reconcile_one_def Let_def dest!: writes_keep_files split: list.splits if_splits prod.splits)+

lemma executor_files:
  "renew x ttl now d = Inr (o1, d1) \<Longrightarrow> files_kept (files d) (files d1)"
  "persist_fact_tx x a content mid d = Inr (o2, d2) \<Longrightarrow> files_kept (files d) (files d2)"
  "enforce_round_deadline x d = Inr (o3, d3) \<Longrightarrow> files_kept (files d) (files d3)"
  by (clarsimp simp: renew_def persist_fact_tx_def enforce_round_deadline_def Let_def dest!: writes_keep_files
      split: list.splits if_splits)+

lemma fold_event_files: "files (fold (\<lambda>(k, rid). add_event tid me (n + k) ty (p rid) None (Some rid)) xs d) = files d"
  by (induction xs arbitrary: d) (auto split: prod.split)

lemma abort_active_files: "abort_active reason i me d = Inr (out, d') \<Longrightarrow> files_kept (files d) (files d')"
  by (clarsimp simp: abort_active_def Let_def fold_event_files dest!: writes_keep_files split: option.splits if_splits)

lemma settle_tail_files:
  "bindE (if b then bindE (alloc_seq me i n (upd_tasks me P f d)) (\<lambda>(q, d4). Inr (add_event i me q ty p None None d4))
      else Inr d) (\<lambda>d5. Inr (True, release_task_holdings me i d5)) = Inr (out, d') \<Longrightarrow> files d' = files d"
  by (cases b) (clarsimp dest!: writes_keep_files)+

lemma settle_files:
  assumes "settle x p finish used mid d = Inr (out, d')"
  shows "files_kept (files d) (files d')"
proof (cases "sel_rounds (x_owner x) (fenced x) d")
  case Nil
  then show ?thesis using assms by (simp add: settle_def)
next
  case (Cons r rs)
  let ?d0 = "upd_rounds (x_owner x) (fenced x) (\<lambda>r. r\<lparr>r_state := RSettled\<rparr>) d"
  obtain d1 q d2 where d1: "settle_pending x p mid ?d0 = Inr d1" "alloc_seq (x_owner x) (x_task x) 1 d1 = Inr (q, d2)"
    using assms Cons by (clarsimp simp: settle_def Let_def)
  have "files d1 = files ?d0"
    using d1(1) by (clarsimp simp: settle_pending_def Let_def dest!: writes_keep_files split: option.splits)
  then have i: "files d2 = files d" using writes_keep_files(7) [OF d1(2)] by simp
  let ?d3 = "add_event (x_task x) (x_owner x) q ERoundSettled
                      (PRoundSettled (x_round x) (r_attempt r) finish used) None (Some (x_round x)) d2"
  show ?thesis
  proof (cases "find_task (x_owner x) (x_task x) ?d3")
    case None
    then show ?thesis using assms Cons d1 by (simp add: settle_def Let_def)
  next
    case (Some t)
    then have "files d' = files ?d3"
      using assms unfolding settle_def Let_def Cons list.case d1 bindE_simps prod.case Some option.case
      by (rule_tac settle_tail_files)
    then show ?thesis using i by simp
  qed
qed

lemma sweep_terminal_files:
  "sweep_terminal_task c d = Inr (out, d') \<Longrightarrow> files_kept (files d) (files d')"
  by (auto simp: sweep_terminal_task_def Let_def delete_messages_def delete_rounds_def
      release_reservations_def split: prod.splits if_splits)

lemma delete_file_files: "delete_file_tx me i f d = Inr (out, d') \<Longrightarrow> files_kept (files d) (files d')"
  by (auto simp: delete_file_tx_def split: option.splits)

lemmas call_files = create_files commit_files send_files terminate_files delete_files job_files executor_files
  abort_active_files settle_files sweep_terminal_files delete_file_files

lemma committed_files:
  assumes "\<And>out d'. r = Inr (out, d') \<Longrightarrow> files_kept (files d) (files d')"
  shows "files_kept (files d) (files (committed_db d r))"
  using assms by (auto simp: committed_db_def split: sum.split prod.split)

text \<open>The calls that add no file row.\<close>

fun adds_files :: "call \<Rightarrow> bool" where
  "adds_files (Upload me i ups fids now) = True"
| "adds_files (Register me i u r epoch fid now) = True"
| "adds_files _ = False"

lemma exec_files: "\<not> adds_files c \<Longrightarrow> files_kept (files d) (files (exec X c d))"
  by (cases c; hypsubst; (simp only: adds_files.simps not_True_eq_False)?;
      unfold exec.simps abort_task_def complete_task_def; rule committed_files; erule call_files)

lemma provider_files: "files (exec_provider X c d) = files d"
proof (rule provider_effect [of X c d])
  have "files (fail_unstarted me reason t d0) = files d0" for me reason t d0
    by (auto simp: fail_unstarted_def release_unstarted_def cancel_pending_def release_reservations_def Let_def
        split: option.splits)
  then have "files (fold (fail_unstarted me reason) ts d0) = files d0" for me reason ts d0
    by (induction ts arbitrary: d0) auto
  then show "exec_provider X c d = (snd (fail_unstarted_tasks (provider_actor c) pid ProviderKeyRevoked d))\<lparr>providers := P\<rparr>
      \<Longrightarrow> files (exec_provider X c d) = files d" for pid P
    by (simp add: fail_unstarted_tasks_def)
qed simp_all

section \<open>The limits of a task\<close>

type_synonym profile = "(direction \<times> pystr \<times> nat) list"

definition face :: "file_row \<Rightarrow> direction \<times> pystr \<times> nat" where
  "face f = (f_dir f, f_name f, f_size f)"

lemma face_simps [simp]: "fst (face f) = f_dir f" "fst (snd (face f)) = f_name f" "snd (snd (face f)) = f_size f"
  by (simp_all add: face_def)

definition profile_of :: "uuid \<Rightarrow> uuid \<Rightarrow> db \<Rightarrow> profile" where
  "profile_of u i d = map face (live_files u i d)"

definition profile_ok :: "(pystr \<Rightarrow> pystr) \<Rightarrow> profile \<Rightarrow> bool" where
  "profile_ok nfc L \<longleftrightarrow> length (filter (\<lambda>x. fst x = Input) L) \<le> max_files_per_task
     \<and> (\<forall>x\<in>set L. snd (snd x) \<le> max_single_file_bytes)
     \<and> sum_list (map (\<lambda>x. snd (snd x)) L) \<le> max_task_input_bytes
     \<and> (\<forall>dir. distinct (map (\<lambda>x. nfc (fst (snd x))) (filter (\<lambda>x. fst x = dir) L)))"

lemma subseq_sum: "subseq xs ys \<Longrightarrow> sum_list (map g xs) \<le> sum_list (map (g :: _ \<Rightarrow> nat) ys)"
  by (induction rule: list_emb.induct) auto

lemma subseq_members: "subseq xs ys \<Longrightarrow> x \<in> set xs \<Longrightarrow> x \<in> set ys"
  by (induction rule: list_emb.induct) auto

lemma subseq_distinct_map: "subseq xs ys \<Longrightarrow> distinct (map g ys) \<Longrightarrow> distinct (map g xs)"
  by (induction rule: list_emb.induct) (auto dest: subseq_members)

lemma profile_ok_subseq:
  assumes "subseq L' L" and "profile_ok nfc L"
  shows "profile_ok nfc L'"
  unfolding profile_ok_def
proof (intro conjI allI ballI)
  have f: "subseq (filter P L') (filter P L)" for P using assms(1) by simp
  show "length (filter (\<lambda>x. fst x = Input) L') \<le> max_files_per_task"
    using list_emb_length [OF f, of "\<lambda>x. fst x = Input"] assms(2) by (simp add: profile_ok_def)
  show "snd (snd x) \<le> max_single_file_bytes" if "x \<in> set L'" for x
    using subseq_members [OF assms(1) that] assms(2) by (auto simp: profile_ok_def)
  show "sum_list (map (\<lambda>x. snd (snd x)) L') \<le> max_task_input_bytes"
    using subseq_sum [OF assms(1), of "\<lambda>x. snd (snd x)"] assms(2) by (auto simp: profile_ok_def)
  show "distinct (map (\<lambda>x. nfc (fst (snd x))) (filter (\<lambda>x. fst x = dir) L'))" for dir
    using subseq_distinct_map [OF f] assms(2) by (auto simp: profile_ok_def)
qed

definition file_row_ok :: "file_row \<Rightarrow> bool" where
  "file_row_ok f \<longleftrightarrow> f_key f = Key (f_task f) (f_id f) \<and> validate_file_name (f_name f) = Inr ()
     \<and> (case f_dir f of Input \<Rightarrow> f_state f \<noteq> Registered | Output \<Rightarrow> f_state f = Registered \<or> f_state f = FDeleted)"

definition files_ok :: "(pystr \<Rightarrow> pystr) \<Rightarrow> db \<Rightarrow> bool" where
  "files_ok nfc d \<longleftrightarrow> distinct (map f_id (files d)) \<and> (\<forall>f\<in>set (files d). file_row_ok f)
     \<and> (\<forall>u i. profile_ok nfc (profile_of u i d))"

lemma files_kept_profile:
  assumes "files_kept (files d) (files d')"
  shows "subseq (profile_of u i d') (profile_of u i d)"
proof -
  have "subseq (map face (filter (\<lambda>f. f_owner f = u \<and> f_task f = i \<and> f_state f \<noteq> FDeleted) F'))
      (map face (filter (\<lambda>f. f_owner f = u \<and> f_task f = i \<and> f_state f \<noteq> FDeleted) F))"
    if "list_all2 same_file F F'" for F F'
    using that by (induction rule: list_all2_induct) (auto simp: same_file_def face_def)
  then show ?thesis using assms by (simp add: files_kept_def profile_of_def live_files_def)
qed

lemma same_file_ok: "same_file f g \<Longrightarrow> file_row_ok f \<Longrightarrow> file_row_ok g"
  unfolding same_file_def file_row_ok_def by (elim conjE disjE) (simp_all split: direction.split direction.split_asm)

lemma files_kept_rows:
  assumes "files_kept F F'"
  shows "map f_id F' = map f_id F" "\<forall>f\<in>set F. file_row_ok f \<Longrightarrow> \<forall>f\<in>set F'. file_row_ok f"
proof -
  have l: "list_all2 same_file F F'" using assms by (simp add: files_kept_def)
  then show "map f_id F' = map f_id F" by (induction rule: list_all2_induct) (auto simp: same_file_def)
  show "\<forall>f\<in>set F. file_row_ok f \<Longrightarrow> \<forall>f\<in>set F'. file_row_ok f"
    using l by (induction rule: list_all2_induct) (simp_all add: same_file_ok)
qed

lemma files_ok_kept: "files_kept (files d) (files d') \<Longrightarrow> files_ok nfc d \<Longrightarrow> files_ok nfc d'"
  using files_kept_profile [of d d'] files_kept_rows [of "files d" "files d'"] profile_ok_subseq
  unfolding files_ok_def by metis

lemma files_ok_cong: "files d' = files d \<Longrightarrow> files_ok nfc d' = files_ok nfc d"
  by (simp add: files_ok_def profile_of_def live_files_def)

text \<open>Adding rows of one task, all of them live.\<close>

lemma files_ok_add:
  assumes ok: "files_ok nfc d" and F: "files d' = files d @ rows" and "distinct (map f_id (files d @ rows))"
    and r: "\<And>f. f \<in> set rows \<Longrightarrow> f_owner f = u \<and> f_task f = i \<and> f_state f \<noteq> FDeleted \<and> file_row_ok f"
    and p: "profile_ok nfc (profile_of u i d @ map face rows)"
  shows "files_ok nfc d'"
proof -
  have q: "profile_of v j d' = (if v = u \<and> j = i then profile_of u i d @ map face rows else profile_of v j d)" for v j
  proof -
    have "filter (\<lambda>f. f_owner f = v \<and> f_task f = j \<and> f_state f \<noteq> FDeleted) rows = (if v = u \<and> j = i then rows else [])"
      using r by (auto simp: filter_id_conv filter_empty_conv)
    then show ?thesis by (simp add: profile_of_def live_files_def F)
  qed
  have "\<forall>v j. profile_ok nfc (profile_of v j d')" unfolding q using ok p by (simp add: files_ok_def)
  moreover have "\<forall>f\<in>set (files d'). file_row_ok f" using ok r by (auto simp: files_ok_def F)
  ultimately show ?thesis using assms(3) F unfolding files_ok_def by simp
qed

section \<open>Uploads and registrations keep the limits\<close>

lemma shape_names: "assert_upload_shape ups = Inr () \<Longrightarrow> u \<in> set ups \<Longrightarrow> validate_file_name (fst u) = Inr ()"
proof -
  have "foldE (\<lambda>(s, _, _) _. validate_file_name s) xs a = Inr b \<Longrightarrow> u \<in> set xs \<Longrightarrow> validate_file_name (fst u) = Inr ()"
    for xs :: "upload list" and a b
    by (induction xs arbitrary: a) (auto split: prod.splits)
  then show "assert_upload_shape ups = Inr () \<Longrightarrow> u \<in> set ups \<Longrightarrow> ?thesis"
    by (auto simp: assert_upload_shape_def split: if_splits)
qed

definition upload_face :: "upload \<Rightarrow> direction \<times> pystr \<times> nat" where
  "upload_face u = (Input, fst u, snd (snd u))"

lemma upload_profile:
  assumes "files_ok nfc d" and n: "assert_name_uniqueness nfc (live_files u i d) ups = Inr ()"
    and l: "assert_upload_limits (live_files u i d) ups = Inr ()"
  shows "profile_ok nfc (profile_of u i d @ map upload_face ups)"
proof -
  let ?L = "live_files u i d"
  have p: "profile_ok nfc (map face ?L)" using assms(1) by (simp add: files_ok_def profile_of_def)
  have ins: "filter (\<lambda>x. fst x = Input) (map face ?L) = map face (filter (\<lambda>f. f_dir f = Input) ?L)"
    by (simp add: filter_map o_def)
  have k: "filter (\<lambda>x. fst x = dir) (map upload_face ups) = (if dir = Input then map upload_face ups else [])" for dir
    by (induction ups) (simp_all add: upload_face_def)
  have a: "length (filter (\<lambda>f. f_dir f = Input) ?L) + length ups \<le> max_files_per_task"
    "\<forall>x\<in>set ups. snd (snd x) \<le> max_single_file_bytes"
    "sum_list (map f_size ?L) + sum_list (map (\<lambda>x. snd (snd x)) ups) \<le> max_task_input_bytes"
    using l by (auto simp: assert_upload_limits_def Let_def rowcount_def list_ex_iff case_prod_unfold not_less split: if_splits)
  have n': "distinct (map (\<lambda>(s, _, _). nfc s) ups)"
    "\<not> list_ex (\<lambda>s. s \<in> set (map (\<lambda>f. nfc (f_name f)) (filter (\<lambda>f. f_dir f = Input) ?L))) (map (\<lambda>(s, _, _). nfc s) ups)"
    using n unfolding assert_name_uniqueness_def Let_def by (simp_all only: sum.distinct not_True_eq_False not_False_eq_True simp_thms split: if_splits)
  have b: "distinct (map (\<lambda>x. nfc (fst x)) ups)" using n'(1) by (simp add: case_prod_unfold)
  have c: "nfc (f_name f) \<noteq> nfc s" if "f \<in> set ?L" "f_dir f = Input" "(s, h, z) \<in> set ups" for f s h z
    using n'(2) that by (force simp: list_ex_iff)
  have "distinct (map (\<lambda>x. nfc (fst (snd x))) (filter (\<lambda>x. fst x = dir) (map face ?L @ map upload_face ups)))" for dir
  proof (cases "dir = Input")
    case True
    have "distinct (map (\<lambda>x. nfc (fst (snd x))) (filter (\<lambda>x. fst x = Input) (map face ?L)))" using p by (simp add: profile_ok_def)
    then show ?thesis using b True c by (auto simp: k ins upload_face_def o_def simp del: filter_map)
  next
    case False
    then show ?thesis using p by (simp add: k profile_ok_def del: filter_map)
  qed
  moreover have "\<forall>x\<in>set (map face ?L @ map upload_face ups). snd (snd x) \<le> max_single_file_bytes"
    using p a(2) by (auto simp: profile_ok_def upload_face_def)
  ultimately show ?thesis
    using a(1,3) unfolding profile_ok_def profile_of_def
    by (simp add: k ins upload_face_def o_def del: filter_map)
qed

lemma upload_keeps_files_ok:
  assumes ok: "files_ok nfc d" and run: "upload_tx nfc me i ups fids now d = Inr (rows, d')"
  shows "files_ok nfc d'"
proof (rule upload_tx_Inr [OF run])
  fix t :: task_row
  assume "lock_uploading_task me i d = Inr t"
    and rows: "rows = map (\<lambda>(fid, u). staged_row (t_id t) (t_owner t) now fid u) (zip fids ups)"
    and d': "d' = d\<lparr>files := files d @ rows\<rparr>" and ids: "distinct (map f_id (rows @ files d))"
    and s: "assert_upload_shape ups = Inr ()" and n: "assert_name_uniqueness nfc (live_files me (t_id t) d) ups = Inr ()"
    and l: "assert_upload_limits (live_files me (t_id t) d) ups = Inr ()"
  from \<open>lock_uploading_task me i d = Inr t\<close> have me: "t_owner t = me"
    using lock_uploading_Inr(1) lock_task_Inr_D by blast
  have r: "f_owner f = me \<and> f_task f = t_id t \<and> f_state f \<noteq> FDeleted \<and> file_row_ok f" if "f \<in> set rows" for f
    using that shape_names [OF s] me set_zip_rightD [of _ _ fids ups]
    by (auto simp: rows file_row_ok_def staged_row_def split: prod.splits) (metis fst_conv set_zip_rightD)
  have "map face rows = map (\<lambda>p. upload_face (snd p)) (zip fids ups)"
    by (auto simp: rows face_def upload_face_def staged_row_def split: prod.splits)
  also have "\<dots> = take (length fids) (map upload_face ups)"
    by (simp add: map_snd_zip_take take_map min_def flip: map_map [of upload_face snd, unfolded o_def])
  finally have "subseq (map face rows) (map upload_face ups)"
    using take_is_prefix prefix_imp_subseq by metis
  then have "subseq (profile_of me (t_id t) d @ map face rows) (profile_of me (t_id t) d @ map upload_face ups)"
    by (rule list_emb_append_mono [OF subseq_order.order_refl])
  note p = profile_ok_subseq [OF this upload_profile [OF ok n l]]
  show ?thesis
    by (rule files_ok_add [OF ok _ _ r p]) (use ids in \<open>auto simp: d'\<close>)
qed

text \<open>A registration replaces the live output of the same normalised name.\<close>

lemma retired_profile:
  assumes ok: "files_ok nfc d" and old: "old \<in> set (live_files me i d)" "f_dir old = Output"
    and F: "files d1 = upd (\<lambda>f. f_owner f = me \<and> f_task f = i \<and> f_id f = f_id old \<and> f_state f = Registered)
      (\<lambda>f. f\<lparr>f_state := FDeleted\<rparr>) (files d)"
  shows "live_files me i d1 = filter (\<lambda>f. f \<noteq> old) (live_files me i d)"
    and "sum_list (map f_size (live_files me i d)) = f_size old + sum_list (map f_size (live_files me i d1))"
proof -
  have o: "old \<in> set (files d)" "f_owner old = me" "f_task old = i" "f_state old = Registered"
    using old ok by (auto simp: live_files_def files_ok_def file_row_ok_def)
  have d: "distinct (map f_id (files d))" using ok by (simp add: files_ok_def)
  have same: "f = old" if "f \<in> set (files d)" "f_id f = f_id old" for f
    using d that o(1) by (metis distinct_key)
  have "upd (\<lambda>f. f_owner f = me \<and> f_task f = i \<and> f_id f = f_id old \<and> f_state f = Registered) (\<lambda>f. f\<lparr>f_state := FDeleted\<rparr>) (files d)
      = map (\<lambda>f. if f = old then old\<lparr>f_state := FDeleted\<rparr> else f) (files d)"
    using same o unfolding upd_def by (intro map_cong) auto
  moreover have "filter P (map (\<lambda>f. if f = old then g else f) xs) = filter (\<lambda>f. f \<noteq> old) (filter P xs)"
    if "\<not> P g" for P :: "file_row \<Rightarrow> bool" and g xs
    using that by (induction xs) auto
  ultimately show l: "live_files me i d1 = filter (\<lambda>f. f \<noteq> old) (live_files me i d)"
    by (simp add: live_files_def F)
  have "distinct (live_files me i d)" using d by (simp add: live_files_def distinct_map)
  then show "sum_list (map f_size (live_files me i d)) = f_size old + sum_list (map f_size (live_files me i d1))"
    using old(1) by (simp add: l sum_list_map_remove1 distinct_remove1_removeAll removeAll_filter_not_eq eq_commute)
qed

lemma sum_sort_key: "sum_list (map g (sort_key k xs)) = (sum_list (map g xs) :: nat)"
proof -
  have "sum_list (map g (insort_key k x ys)) = g x + sum_list (map g ys)" for x ys
    by (induction ys) auto
  then show ?thesis by (induction xs) simp_all
qed

lemma registered_profile:
  assumes ok: "files_ok nfc d" and old: "old = find_old_output_row nfc (scan_live_rows me i d) s"
    and size: "assert_size_limits n (sum_list (map f_size (scan_live_rows me i d)) - (case old of None \<Rightarrow> 0 | Some f \<Rightarrow> f_size f)) = Inr ()"
    and r: "(case old of None \<Rightarrow> Inr d | Some f \<Rightarrow> retire_old_row me i f d) = Inr d1"
  shows "files_ok nfc d1" "profile_ok nfc (profile_of me i d1 @ [(Output, s, n)])"
proof -
  let ?hit = "\<lambda>f. f_dir f = Output \<and> nfc (f_name f) = nfc s"
  have live: "set (scan_live_rows me i d) = set (live_files me i d)" by (simp add: scan_live_rows_def)
  have total: "sum_list (map f_size (scan_live_rows me i d)) = sum_list (map f_size (live_files me i d))"
    by (simp add: scan_live_rows_def sum_sort_key)
  have dist: "distinct (map (\<lambda>x. nfc (fst (snd x))) (filter (\<lambda>x. fst x = Output) (profile_of me i d)))"
    using ok by (simp add: files_ok_def profile_ok_def)
  have main: "files_kept (files d) (files d1) \<and> (\<forall>f\<in>set (live_files me i d1). \<not> ?hit f)
      \<and> sum_list (map f_size (live_files me i d1)) + n \<le> max_task_input_bytes"
  proof (cases old)
    case None
    have "\<not> ?hit f" if "f \<in> set (live_files me i d)" for f
      using old [symmetric] that unfolding None find_old_output_row_def find_None_iff live by blast
    moreover have "d1 = d" using r None by simp
    moreover have "sum_list (map f_size (live_files me i d)) + n \<le> max_task_input_bytes"
      using size None total by (simp add: assert_size_limits_def split: if_splits)
    ultimately show ?thesis by simp
  next
    case (Some f)
    have "f \<in> set (scan_live_rows me i d) \<and> ?hit f"
      using old [symmetric] unfolding Some find_old_output_row_def by (rule find_Some_D)
    then have f: "f \<in> set (live_files me i d)" "?hit f" unfolding live by blast+
    have F: "files d1 = upd (\<lambda>g. f_owner g = me \<and> f_task g = i \<and> f_id g = f_id f \<and> f_state g = Registered)
      (\<lambda>f. f\<lparr>f_state := FDeleted\<rparr>) (files d)" using retire_Inr(9) r Some by simp
    note rp = retired_profile [OF ok f(1) _ F]
    have "distinct (map (\<lambda>g. nfc (f_name g)) (filter (\<lambda>g. f_dir g = Output) (live_files me i d)))"
      using dist by (simp add: profile_of_def filter_map o_def)
    from distinct_key [OF this, of _ f] have "g = f" if "g \<in> set (live_files me i d)" "?hit g" for g
      using that f by simp
    then have "\<not> ?hit g" if "g \<in> set (live_files me i d1)" for g using that f(2) unfolding rp(1) [OF conjunct1 [OF f(2)]] by auto
    moreover have "files_kept (files d) (files d1)" unfolding F by (rule files_kept_upd) simp
    moreover have "sum_list (map f_size (live_files me i d1)) + n \<le> max_task_input_bytes"
      using size Some total rp(2) [OF conjunct1 [OF f(2)]] by (simp add: assert_size_limits_def split: if_splits)
    ultimately show ?thesis by blast
  qed
  then show ok1: "files_ok nfc d1" using files_ok_kept ok by blast
  have p1: "profile_ok nfc (profile_of me i d1)" using ok1 by (simp add: files_ok_def)
  have "n \<le> max_single_file_bytes" using size by (simp add: assert_size_limits_def split: if_splits)
  then show "profile_ok nfc (profile_of me i d1 @ [(Output, s, n)])"
    using p1 main by (auto simp: profile_ok_def profile_of_def o_def filter_map)
qed

lemma register_keeps_files_ok:
  assumes ok: "files_ok nfc d" and run: "register_tx nfc me i u r epoch fid now d = Inr ((row, old), d')"
  shows "files_ok nfc d'"
proof (rule register_tx_cases [OF run])
  fix t :: task_row and rid d1 d2
  assume "lock_task me i d = Inr t" and s: "validate_file_name (fst u) = Inr ()"
    and old: "old = find_old_output_row nfc (scan_live_rows me (t_id t) d) (fst u)"
    and size: "assert_size_limits (snd (snd u)) (sum_list (map f_size (scan_live_rows me (t_id t) d))
        - (case old of None \<Rightarrow> 0 | Some f \<Rightarrow> f_size f)) = Inr ()"
    and r: "(case old of None \<Rightarrow> Inr d | Some f \<Rightarrow> retire_old_row me (t_id t) f d) = Inr d1"
    and row: "row = registered_row (t_id t) (t_owner t) rid fid now u"
    and c: "charge_storage me (snd (snd u)) d1 = Inr d2" and ins: "insert_registered_row row d2 = Inr d'"
  from \<open>lock_task me i d = Inr t\<close> have me: "t_owner t = me" using lock_task_Inr_D by blast
  note p = registered_profile [OF ok old size r]
  have F: "files d2 = files d1" using writes_keep_files(3) [OF c] .
  then have F': "files d' = files d1 @ [row]" using insert_registered_Inr(1) [OF ins] by simp
  have "distinct (map f_id (files d1 @ [row]))" using insert_registered_Inr(2) [OF ins] F by auto
  moreover have "face row = (Output, fst u, snd (snd u))" by (auto simp: row registered_row_def face_def split: prod.split)
  moreover have "f_owner row = me \<and> f_task row = t_id t \<and> f_state row \<noteq> FDeleted \<and> file_row_ok row"
    using s me by (auto simp: row registered_row_def file_row_ok_def split: prod.split)
  ultimately show ?thesis
    by (intro files_ok_add [OF p(1) F', of me "t_id t"]) (use p(2) in auto)
qed

lemma exec_files_ok:
  assumes "files_ok (nfc_of X) d"
  shows "files_ok (nfc_of X) (exec X c d)"
proof (cases "adds_files c")
  case False
  then show ?thesis using exec_files files_ok_kept assms by blast
next
  case True
  then consider me i ups fids now where "c = Upload me i ups fids now" | me i u r epoch fid now where "c = Register me i u r epoch fid now"
    by (cases c) simp_all
  then show ?thesis
  proof cases
    case 1
    then show ?thesis
      using assms upload_keeps_files_ok [OF assms] by (simp add: committed_db_def split: sum.split prod.split)
  next
    case 2
    then show ?thesis
      using assms register_keeps_files_ok [OF assms] by (simp add: committed_db_def split: sum.split prod.split)
  qed
qed

end
