(* ===== verification/Task_Examples.thy ===== *)
theory Task_Examples
  imports Task_System "HOL-Library.Code_Target_Numeral"
begin

text \<open>
  A concrete run of the system, from the migrated database through a whole round: the inputs at
  which the witnesses of the properties evaluate. User 1 has one provider; revision 10 is
  published and uses one tool; the platform has two slots.
\<close>

definition ex_sha :: "pystr \<Rightarrow> string" where "ex_sha s = ''digest''"

definition ex_ext :: externals where
  "ex_ext = \<lparr>text_sha = ex_sha, nfc_of = (\<lambda>s. s), netloc_valid = (\<lambda>_. True)\<rparr>"

definition ex0 :: db where
  "ex0 = \<lparr>tasks = [], rounds = [], events = [], messages = [], files = [], resvs = [],
     quotas = Map.empty, usage = Map.empty, daily = Map.empty,
     slots = [\<lparr>s_no = 1, s_leased = False, s_task = None, s_until = None\<rparr>,
              \<lparr>s_no = 2, s_leased = False, s_task = None, s_until = None\<rparr>],
     pl_used = 0, pl_max = 1000,
     revisions = [\<lparr>rev_id = 10, rev_published = True\<rparr>, \<lparr>rev_id = 11, rev_published = False\<rparr>],
     rev_tools = [(10, ''grep'', ''1'')],
     tool_catalog = [\<lparr>tool_name = ''grep'', tool_version = ''1'', tool_enabled = True\<rparr>],
     providers = [\<lparr>p_id = 20, p_user = 1, p_catalog = None, p_model = [109],
                   p_url = pystr_of ''https://m.example'', p_cipher = ''c'', p_dek = ''k'', p_last4 = [49, 50, 51, 52],
                   p_keyver = 1, p_active = True, p_default = True, p_created = 0\<rparr>],
     mcp_servers = [\<lparr>ms_id = 30, ms_owner = 1, ms_name = [120], ms_transport = Http,
                     ms_enabled = True, ms_url = None\<rparr>]\<rparr>"

definition ex_req :: create_req where
  "ex_req = \<lparr>cr_revision = Uuid 10, cr_provider = Uuid 20, cr_message = [104, 105],
     cr_snapshot = \<lparr>sn_catalog = None, sn_model = Some [109], sn_keyver = Some 1\<rparr>,
     cr_refs = Some [Uuid 30, Uuid 30]\<rparr>"

definition ex_cand :: cand where "ex_cand = \<lparr>c_round = 300, c_task = 100, c_owner = 1\<rparr>"

definition ex_ctx :: round_ctx where
  "ex_ctx = \<lparr>x_task = 100, x_owner = 1, x_round = 300, x_epoch = 1, x_iid = ''i1''\<rparr>"

definition ex_create :: call where "ex_create = Create 1 ex_req 100 200 0 7"
definition ex_commit :: call where "ex_commit = Commit 1 (Uuid 100) [] 300 1"
definition ex_claim :: call where "ex_claim = Claim ''i1'' 90 ex_cand 2"
definition ex_settle :: call where "ex_settle = Settle ex_ctx (Some [111, 107]) ''stop'' [] 201"

definition ex_uploading :: db where "ex_uploading = exec ex_ext ex_create ex0"
definition ex_queued :: db where "ex_queued = exec ex_ext ex_commit ex_uploading"
definition ex_running :: db where "ex_running = exec ex_ext ex_claim ex_queued"
definition ex_ready :: db where "ex_ready = exec ex_ext ex_settle ex_running"
definition ex_cancelling :: db where "ex_cancelling = exec ex_ext (Abort 1 (Uuid 100)) ex_running"
definition ex_zombie :: db where "ex_zombie = exec ex_ext (Cancel ex_cand) ex_cancelling"
definition ex_aborted :: db where "ex_aborted = exec ex_ext (Reconcile (100, 1, Aborted)) ex_zombie"
definition ex_deleted :: db where "ex_deleted = exec ex_ext (Delete 1 (Uuid 100)) ex_ready"
definition ex_requeued :: db where "ex_requeued = exec ex_ext (Reclaim ex_cand (Some ''i1'') 1) ex_running"

text \<open>The same databases as states of the system.\<close>

definition ex_start :: sys where
  "ex_start = \<lparr>base = ex0, issued = {}, cands = {}, ctxs = {}, rests = {}, sweeps = {}, intact = True\<rparr>"

definition scanned :: "time \<Rightarrow> string \<Rightarrow> uuid \<Rightarrow> sys \<Rightarrow> sys" where
  "scanned now iid tid s = s\<lparr>cands := cands s \<union> set (dispatch_candidates (base s))
                          \<union> rc_cand ` set (reclaim_candidates now (base s)),
            ctxs := ctxs s \<union> set (scan_claimed iid tid (base s)),
            rests := rests s \<union> set (pending_terminal_candidates (base s)),
            sweeps := sweeps s \<union> set (terminal_candidates now (base s))\<rparr>"

definition after :: "call \<Rightarrow> sys \<Rightarrow> sys" where
  "after c s = s\<lparr>base := exec ex_ext c (base s), issued := issued s \<union> new_round_ids c\<rparr>"

lemma step_scanned: "step X s (scanned now iid tid s)"
  unfolding scanned_def by (rule step.scan)

lemma step_after: "ready c s \<Longrightarrow> step ex_ext s (after c s)"
  unfolding after_def by (rule step.transact)

lemma ex_start: "start ex_start"
  by (simp add: start_def ex_start_def empty_db_def ex0_def)


definition exs_uploading :: sys where "exs_uploading = after ex_create ex_start"
definition exs_queued :: sys where "exs_queued = scanned 1 ''i1'' 100 (after ex_commit exs_uploading)"
definition exs_running :: sys where "exs_running = scanned 1000 ''i1'' 100 (after ex_claim exs_queued)"
definition exs_ready :: sys where "exs_ready = after ex_settle exs_running"
definition exs_cancelling :: sys where "exs_cancelling = after (Abort 1 (Uuid 100)) exs_running"
definition exs_zombie :: sys where "exs_zombie = scanned 1000 ''i1'' 100 (after (Cancel ex_cand) exs_cancelling)"
definition exs_aborted :: sys where
  "exs_aborted = scanned 700000 ''i1'' 100 (after (Reconcile (100, 1, Aborted)) exs_zombie)"
definition exs_deleted :: sys where "exs_deleted = after (Delete 1 (Uuid 100)) exs_ready"
definition exs_requeued :: sys where
  "exs_requeued = scanned 1000 ''i1'' 100 (after (Reclaim ex_cand (Some ''i1'') 1) exs_running)"

lemmas exs_defs = exs_uploading_def exs_queued_def exs_running_def exs_ready_def exs_cancelling_def
  exs_zombie_def exs_aborted_def exs_deleted_def exs_requeued_def

lemma base_exs [simp]:
  "base exs_uploading = ex_uploading" "base exs_queued = ex_queued" "base exs_running = ex_running"
  "base exs_ready = ex_ready" "base exs_cancelling = ex_cancelling" "base exs_zombie = ex_zombie"
  "base exs_aborted = ex_aborted" "base exs_deleted = ex_deleted" "base exs_requeued = ex_requeued"
  by (simp_all add: exs_defs after_def scanned_def ex_start_def ex_uploading_def ex_queued_def ex_running_def
      ex_ready_def ex_cancelling_def ex_zombie_def ex_aborted_def ex_deleted_def ex_requeued_def)

lemma ex_ready_calls:
  "ready ex_create ex_start" "ready ex_commit exs_uploading" "ready ex_claim exs_queued"
  "ready ex_settle exs_running" "ready (Abort 1 (Uuid 100)) exs_running" "ready (Cancel ex_cand) exs_cancelling"
  "ready (Reconcile (100, 1, Aborted)) exs_zombie" "ready (Delete 1 (Uuid 100)) exs_ready"
  "ready (Reclaim ex_cand (Some ''i1'') 1) exs_running"
  by code_simp+

lemma ex_steps:
  "(step ex_ext)\<^sup>*\<^sup>* ex_start exs_uploading" "(step ex_ext)\<^sup>*\<^sup>* ex_start exs_queued"
  "(step ex_ext)\<^sup>*\<^sup>* ex_start exs_running" "(step ex_ext)\<^sup>*\<^sup>* ex_start exs_ready"
  "(step ex_ext)\<^sup>*\<^sup>* ex_start exs_cancelling" "(step ex_ext)\<^sup>*\<^sup>* ex_start exs_zombie"
  "(step ex_ext)\<^sup>*\<^sup>* ex_start exs_aborted" "(step ex_ext)\<^sup>*\<^sup>* ex_start exs_deleted"
  "(step ex_ext)\<^sup>*\<^sup>* ex_start exs_requeued"
proof -
  note r = rtranclp.rtrancl_into_rtrancl [where r = "step ex_ext"]
  show 1: "(step ex_ext)\<^sup>*\<^sup>* ex_start exs_uploading"
    unfolding exs_uploading_def using step_after [OF ex_ready_calls(1)] by (rule r_into_rtranclp)
  show 2: "(step ex_ext)\<^sup>*\<^sup>* ex_start exs_queued"
    unfolding exs_queued_def by (rule r [OF r [OF 1 step_after [OF ex_ready_calls(2)]] step_scanned])
  show 3: "(step ex_ext)\<^sup>*\<^sup>* ex_start exs_running"
    unfolding exs_running_def by (rule r [OF r [OF 2 step_after [OF ex_ready_calls(3)]] step_scanned])
  show 4: "(step ex_ext)\<^sup>*\<^sup>* ex_start exs_ready"
    unfolding exs_ready_def by (rule r [OF 3 step_after [OF ex_ready_calls(4)]])
  show 5: "(step ex_ext)\<^sup>*\<^sup>* ex_start exs_cancelling"
    unfolding exs_cancelling_def by (rule r [OF 3 step_after [OF ex_ready_calls(5)]])
  show 6: "(step ex_ext)\<^sup>*\<^sup>* ex_start exs_zombie"
    unfolding exs_zombie_def by (rule r [OF r [OF 5 step_after [OF ex_ready_calls(6)]] step_scanned])
  show "(step ex_ext)\<^sup>*\<^sup>* ex_start exs_aborted"
    unfolding exs_aborted_def by (rule r [OF r [OF 6 step_after [OF ex_ready_calls(7)]] step_scanned])
  show "(step ex_ext)\<^sup>*\<^sup>* ex_start exs_deleted"
    unfolding exs_deleted_def by (rule r [OF 4 step_after [OF ex_ready_calls(8)]])
  show "(step ex_ext)\<^sup>*\<^sup>* ex_start exs_requeued"
    unfolding exs_requeued_def by (rule r [OF r [OF 3 step_after [OF ex_ready_calls(9)]] step_scanned])
qed

lemmas ex_sys_good = ex_steps [THEN task_system.good_reachable [OF ex_start]]

lemma good_exs:
  "good ex_uploading" "good ex_queued" "good ex_running" "good ex_ready" "good ex_cancelling"
  "good ex_zombie" "good ex_aborted" "good ex_deleted" "good ex_requeued" "good ex0"
  using ex_sys_good start_good [OF ex_start] by (simp_all add: sys_good_def ex_start_def)

end
