(* ===== verification/Task_File_Outcomes.thy ===== *)
theory Task_File_Outcomes
  imports Task_File_Rules Task_Examples
begin

text \<open>
  What the file operations do to the database and the disk together, under any single disk fault:
  uploads are all or nothing, what was uploaded or registered is what is read back, and the download
  header is one line of printable ASCII that determines the file name.
\<close>

section \<open>Running disk operations\<close>

fun op_paths :: "file_op \<Rightarrow> path set" where
  "op_paths (Write p b) = {p}"
| "op_paths (Rename p q) = {p, q}"
| "op_paths (Unlink p) = {p}"

definition run_all :: "file_op list \<Rightarrow> disk \<Rightarrow> disk" where
  "run_all ops k = fold apply_op ops k"

lemma run_all_simps [simp]:
  "run_all [] k = k" "run_all (f # fs) k = run_all fs (apply_op f k)" "run_all (fs @ gs) k = run_all gs (run_all fs k)"
  by (simp_all add: run_all_def)

lemma run_ops_eq:
  "run_ops fault ops k =
     (case fault of
        None \<Rightarrow> (length ops, True, run_all ops k)
      | Some n \<Rightarrow> if n < length ops then (n, False, run_all (take n ops) k) else (length ops, True, run_all ops k))"
proof (induction ops arbitrary: fault k)
  case (Cons f ops)
  show ?case
  proof (cases fault)
    case None
    then show ?thesis using Cons by simp
  next
    case (Some n)
    then show ?thesis using Cons by (cases n) (auto split: prod.splits)
  qed
qed (simp split: option.split)

lemma run_all_frame: "(\<forall>f\<in>set ops. p \<notin> op_paths f) \<Longrightarrow> run_all ops k p = k p"
proof (induction ops arbitrary: k)
  case (Cons f ops)
  then show ?case by (cases f) auto
qed simp

lemma unlink_all_eq: "unlink_all ps k p = (if p \<in> set ps then None else k p)"
  unfolding unlink_all_def by (induction ps arbitrary: k) auto

section \<open>Uploads\<close>

abbreviation staging_writes :: "uuid \<Rightarrow> (uuid \<times> bytes) list \<Rightarrow> file_op list" where
  "staging_writes batch items \<equiv> map (\<lambda>(fid, b). Write (StagingPath batch fid) b) items"

abbreviation input_renames :: "uuid \<Rightarrow> uuid \<Rightarrow> (uuid \<times> bytes) list \<Rightarrow> file_op list" where
  "input_renames batch tid items \<equiv> map (\<lambda>(fid, _). Rename (StagingPath batch fid) (InputPath tid fid)) items"

lemma other_staged: "(\<And>c. (f, c) \<notin> set items) \<Longrightarrow> run_all (staging_writes batch items) k (StagingPath batch f) = k (StagingPath batch f)"
  by (rule run_all_frame) auto

lemma other_renamed: "(\<And>c. (f, c) \<notin> set items) \<Longrightarrow> run_all (input_renames batch tid items) k (InputPath tid f) = k (InputPath tid f)"
  by (rule run_all_frame) auto

lemma staged_bytes:
  "distinct (map fst items) \<Longrightarrow> (f, b) \<in> set items \<Longrightarrow> run_all (staging_writes batch items) k (StagingPath batch f) = Some b"
proof (induction items arbitrary: k)
  case (Cons x items)
  show ?case
  proof (cases "(f, b) = x")
    case True
    then have "(f, c) \<notin> set items" for c using Cons.prems(1) by (force simp: image_iff)
    then show ?thesis by (subst list.map, unfold True [symmetric]) (simp add: other_staged)
  qed (use Cons in \<open>auto split: prod.split\<close>)
qed simp

lemma renamed_bytes:
  assumes "distinct (map fst items)" and "\<forall>(f, b)\<in>set items. k (StagingPath batch f) = Some b" and "(f, b) \<in> set items"
  shows "run_all (input_renames batch tid items) k (InputPath tid f) = Some b"
  using assms
proof (induction items arbitrary: k)
  case (Cons x items)
  obtain g c where x: "x = (g, c)" by force
  let ?k = "apply_op (Rename (StagingPath batch g) (InputPath tid g)) k"
  show ?case
  proof (cases "f = g")
    case True
    then have "(f, e) \<notin> set items" for e using Cons.prems(1) x by (force simp: image_iff)
    moreover from this have "b = c" using Cons.prems(3) x True by simp
    ultimately show ?thesis using Cons.prems(2) x True by (simp add: other_renamed)
  next
    case False
    have st: "\<forall>(f, b)\<in>set items. ?k (StagingPath batch f) = Some b" using Cons.prems(1,2) x by (force simp: image_iff)
    have "run_all (input_renames batch tid items) ?k (InputPath tid f) = Some b"
      by (rule Cons.IH [OF _ st]) (use Cons.prems x False in auto)
    then show ?thesis by (simp only: x list.map prod.case run_all_simps)
  qed
qed simp

lemma store_uploads_outcome:
  assumes ids: "distinct (map fst items)" and fresh: "\<forall>f\<in>fst ` set items. k (InputPath tid f) = None"
    and empty: "\<forall>f. k (StagingPath batch f) = None" and run: "store_uploads fault batch tid items k = (ok, k')"
  shows "if ok then (\<forall>(f, b)\<in>set items. k' (InputPath tid f) = Some b)
       \<and> (\<forall>p. p \<notin> (\<lambda>(f, b). InputPath tid f) ` set items \<longrightarrow> k' p = k p)
     else k' = k"
proof -
  let ?W = "staging_writes batch items" and ?R = "input_renames batch tid items"
  have frame: "remove_staging batch (run_all (take n (staging_ops batch tid items)) k) p = k p"
    if "p \<notin> (\<lambda>(f, b). InputPath tid f) ` set (take (n - length items) items)" for n p
  proof (cases "\<exists>f. p = StagingPath batch f")
    case True
    then show ?thesis using empty by (auto simp: remove_staging_def)
  next
    case False
    have "\<forall>f\<in>set (take n ?W @ take (n - length items) ?R). p \<notin> op_paths f"
      using that False by (auto simp: take_map image_iff split: prod.splits)
    then show ?thesis using False
      by (auto simp: remove_staging_def staging_ops_def run_all_frame split: path.split)
  qed
  show ?thesis
  proof (cases ok)
    case False
    obtain n where "k' = remove_staging batch (unlink_all (map (\<lambda>(fid, _). InputPath tid fid) (take (n - length items) items))
        (run_all (take n (staging_ops batch tid items)) k))"
      using run False by (auto simp: store_uploads_def run_ops_eq split: option.splits if_splits)
    moreover have "k p = None" if "p \<in> (\<lambda>(f, b). InputPath tid f) ` set (take (n - length items) items)" for p
      using that fresh by (force dest: in_set_takeD)
    ultimately have "k' p = k p" for p
      using frame [of p n] by (auto simp: remove_staging_def unlink_all_eq case_prod_unfold empty split: path.splits)
    then show ?thesis using False by auto
  next
    case True
    then have k': "k' = remove_staging batch (run_all (?W @ ?R) k)"
      using run by (auto simp: store_uploads_def run_ops_eq staging_ops_def split: option.splits if_splits)
    have "run_all ?R (run_all ?W k) (InputPath tid f) = Some b" if "(f, b) \<in> set items" for f b
      using renamed_bytes [OF ids _ that] staged_bytes [OF ids] by blast
    moreover have "k' p = k p" if "p \<notin> (\<lambda>(f, b). InputPath tid f) ` set items" for p
      using frame [of p "2 * length items"] that by (simp add: k' staging_ops_def)
    ultimately show ?thesis using True by (auto simp: k' remove_staging_def)
  qed
qed

text \<open>Fresh identifiers and a fresh batch: what the generated UUIDs give.\<close>

definition fresh_upload :: "uuid list \<Rightarrow> uuid \<Rightarrow> nat \<Rightarrow> db \<Rightarrow> disk \<Rightarrow> bool" where
  "fresh_upload fids batch n d k \<longleftrightarrow> distinct fids \<and> length fids = n \<and> set fids \<inter> f_id ` set (files d) = {}
     \<and> (\<forall>f\<in>set fids. \<forall>t. k (InputPath t f) = None) \<and> (\<forall>f. k (StagingPath batch f) = None)"

lemma upload_gates_task: "upload_gates nfc me i ups d = Inr t \<Longrightarrow> lock_task me i d = Inr t"
  by (auto simp: upload_gates_def Let_def dest: lock_uploading_Inr(1))

lemma upload_files_cases:
  assumes fresh: "fresh_upload fids batch (length uploads) d k" and keys: "distinct (map f_id (files d))"
    and run: "upload_files hash nfc fault me i uploads batch fids now d k = (r, d', k')"
  obtains e where "r = Inl e" "d' = d" "k' = k"
  | t where "lock_task me i d = Inr t"
      "r = Inr (map (\<lambda>(f, s, b). staged_row (t_id t) me now f (s, hash b, length b)) (zip fids uploads))"
      "upload_tx nfc me i (map (\<lambda>(s, b). (s, hash b, length b)) uploads) fids now d
        = Inr (map (\<lambda>(f, s, b). staged_row (t_id t) me now f (s, hash b, length b)) (zip fids uploads), d')"
      "\<And>f s b. (f, s, b) \<in> set (zip fids uploads) \<Longrightarrow> k' (InputPath (t_id t) f) = Some b"
      "\<And>p. p \<notin> InputPath (t_id t) ` set fids \<Longrightarrow> k' p = k p"
proof -
  let ?ups = "map (\<lambda>(s, b). (s, hash b, length b)) uploads"
  have f: "distinct fids" "length fids = length uploads" "set fids \<inter> f_id ` set (files d) = {}"
    "\<forall>f\<in>set fids. \<forall>t. k (InputPath t f) = None" "\<forall>f. k (StagingPath batch f) = None"
    using fresh by (auto simp: fresh_upload_def)
  show thesis
  proof (cases "upload_gates nfc me i ?ups d")
    case (Inl e)
    then show thesis using run that(1) by (auto simp: upload_files_def Let_def)
  next
    case (Inr t)
    let ?items = "zip fids (map snd uploads)"
    obtain ok k1 where s: "store_uploads fault batch (t_id t) ?items k = (ok, k1)" by force
    have i: "map fst ?items = fids" using f(2) by simp
    have i2: "fst ` set ?items = set fids" using arg_cong [OF i, of set] by simp
    have o: "if ok then (\<forall>(f, b)\<in>set ?items. k1 (InputPath (t_id t) f) = Some b)
       \<and> (\<forall>p. p \<notin> (\<lambda>(f, b). InputPath (t_id t) f) ` set ?items \<longrightarrow> k1 p = k p) else k1 = k"
      by (rule store_uploads_outcome [OF _ _ f(5) s]) (use i i2 f in simp_all)
    show thesis
    proof (cases ok)
      case False
      then show thesis using run that(1) Inr s o by (auto simp: upload_files_def Let_def)
    next
      case True
      have me: "t_owner t = me" using upload_gates_task [OF Inr] lock_task_Inr_D by blast
      let ?rows = "map (\<lambda>(f, s, b). staged_row (t_id t) me now f (s, hash b, length b)) (zip fids uploads)"
      have rows: "map (\<lambda>(fid, u). staged_row (t_id t) (t_owner t) now fid u) (zip fids ?ups) = ?rows"
        by (simp add: zip_map2 me case_prod_unfold)
      have "map f_id ?rows = fids" using f(2) by (simp add: case_prod_unfold o_def)
      then have ins: "insert_files ?rows d = Inr (d\<lparr>files := files d @ ?rows\<rparr>)" 
        using f(1,3) keys by (auto simp: insert_files_def)
      have tx: "upload_tx nfc me i ?ups fids now d = Inr (?rows, d\<lparr>files := files d @ ?rows\<rparr>)"
        using Inr rows ins by (simp add: upload_tx_def Let_def)
      have e: "r = Inr ?rows" "d' = d\<lparr>files := files d @ ?rows\<rparr>" "k' = k1"
        using run Inr s True tx by (auto simp: upload_files_def Let_def)
      have b: "k1 (InputPath (t_id t) f) = Some b" if "(f, s, b) \<in> set (zip fids uploads)" for f s b
      proof -
        have "(f, b) \<in> set ?items" using that by (force simp: zip_map2)
        then show ?thesis using o True by auto
      qed
      have "(\<lambda>(f, b). InputPath (t_id t) f) ` set ?items = InputPath (t_id t) ` set fids"
        unfolding i2 [symmetric] by (simp add: image_image case_prod_unfold)
      then have "k1 p = k p" if "p \<notin> InputPath (t_id t) ` set fids" for p
        using o True that by simp
      then show thesis using that(2) [OF upload_gates_task [OF Inr]] e tx b by simp
    qed
  qed
qed

text \<open>C16: Uploads are all or nothing, on the database and on the disk: whichever single disk operation
  fails, a failing upload leaves both as they were (no row, no file, no staging remains), and a
  successful one adds exactly one staged row per file, with its name, length and digest, puts exactly
  its bytes under the row's input path, and changes no other file of the disk.\<close>

theorem upload_all_or_nothing:
  assumes "fresh_upload fids batch (length uploads) d k" and "files_ok nfc d"
    and "upload_files hash nfc fault me i uploads batch fids now d k = (r, d', k')"
  shows "case r of
      Inl e \<Rightarrow> d' = d \<and> k' = k
    | Inr rows \<Rightarrow> map (\<lambda>f. (f_id f, f_name f, f_sha f, f_size f)) rows
          = map (\<lambda>(f, s, b). (f, s, hash b, length b)) (zip fids uploads)
        \<and> (\<forall>f\<in>set rows. f_dir f = Input \<and> f_state f = Staged \<and> i = Uuid (f_task f) \<and> f_owner f = me)
        \<and> d' = d\<lparr>files := files d @ rows\<rparr>
        \<and> map (\<lambda>f. k' (InputPath (f_task f) (f_id f))) rows = map (\<lambda>(f, s, b). Some b) (zip fids uploads)
        \<and> (\<forall>p. (\<forall>f\<in>set rows. p \<noteq> InputPath (f_task f) (f_id f)) \<longrightarrow> k' p = k p)"
proof -
  have keys: "distinct (map f_id (files d))" using assms(2) by (simp add: files_ok_def)
  show ?thesis
  proof (rule upload_files_cases [OF assms(1) keys assms(3)])
    fix t :: task_row
    let ?rows = "map (\<lambda>(f, s, b). staged_row (t_id t) me now f (s, hash b, length b)) (zip fids uploads)"
    assume t: "lock_task me i d = Inr t" and r: "r = Inr ?rows"
      and tx: "upload_tx nfc me i (map (\<lambda>(s, b). (s, hash b, length b)) uploads) fids now d = Inr (?rows, d')"
      and b: "\<And>f s b. (f, s, b) \<in> set (zip fids uploads) \<Longrightarrow> k' (InputPath (t_id t) f) = Some b"
      and p: "\<And>p. p \<notin> InputPath (t_id t) ` set fids \<Longrightarrow> k' p = k p"
    have n: "length fids = length uploads" using assms(1) by (simp add: fresh_upload_def)
    have "InputPath (t_id t) ` set fids = (\<lambda>f. InputPath (f_task f) (f_id f)) ` set ?rows"
      unfolding arg_cong [OF map_fst_zip [OF n], of set, symmetric]
      by (simp add: image_image case_prod_unfold)
    then show ?thesis
      using lock_task_Inr_D [OF t] tx b p unfolding r
      by (auto simp: staged_row_def image_iff elim!: upload_tx_Inr)
  qed simp
qed

section \<open>Reading back\<close>

lemma input_by_name:
  assumes ok: "files_ok nfc d" and f: "f \<in> set (live_files u i d)" "f_dir f = Input"
  shows "filter (\<lambda>g. f_dir g = Input \<and> f_name g = f_name f) (live_files u i d) = [f]"
proof -
  let ?I = "filter (\<lambda>g. f_dir g = Input) (live_files u i d)"
  have "profile_ok nfc (profile_of u i d)" using ok by (simp add: files_ok_def)
  then have "distinct (map (\<lambda>g. nfc (f_name g)) ?I)" by (simp add: profile_ok_def profile_of_def filter_map o_def)
  then have "distinct (map f_name ?I)" by (auto simp: distinct_map inj_on_def)
  from filter_key [OF this, of f "\<lambda>_. True"] have "filter (\<lambda>g. f_name g = f_name f) ?I = [f]" using f by simp
  then show ?thesis by (simp add: conj_commute)
qed

text \<open>C22: What was uploaded is what the tools read: after a successful upload, reading a file of the batch
  by its name returns its bytes, whatever other files the task holds.\<close>

theorem upload_read_back:
  assumes "fresh_upload fids batch (length uploads) d k" and "files_ok nfc d"
    and "upload_files hash nfc fault me i uploads batch fids now d k = (Inr rows, d', k')" and "(s, b) \<in> set uploads"
  shows "read_input_bytes me i s d' k' = Inr b"
proof -
  have keys: "distinct (map f_id (files d))" using assms(2) by (simp add: files_ok_def)
  show ?thesis
  proof (rule upload_files_cases [OF assms(1) keys assms(3)])
    fix t :: task_row
    let ?rows = "map (\<lambda>(f, s, b). staged_row (t_id t) me now f (s, hash b, length b)) (zip fids uploads)"
    assume t: "lock_task me i d = Inr t"
      and tx: "upload_tx nfc me i (map (\<lambda>(s, b). (s, hash b, length b)) uploads) fids now d = Inr (?rows, d')"
      and k': "\<And>f s b. (f, s, b) \<in> set (zip fids uploads) \<Longrightarrow> k' (InputPath (t_id t) f) = Some b"
    have "length fids = length uploads" using assms(1) by (simp add: fresh_upload_def)
    then obtain f where f: "(f, s, b) \<in> set (zip fids uploads)"
      using assms(4) by (metis in_set_impl_in_set_zip2 set_zip_leftD)
    let ?r = "staged_row (t_id t) me now f (s, hash b, length b)"
    have F: "files d' = files d @ ?rows" "assert_upload_shape (map (\<lambda>(s, b). (s, hash b, length b)) uploads) = Inr ()"
      using tx by (auto elim!: upload_tx_Inr)
    have r: "?r \<in> set (live_files me (t_id t) d')" "f_dir ?r = Input" "f_name ?r = s"
      using f by (force simp: live_files_def F staged_row_def)+
    have "validate_file_name s = Inr ()" using shape_names [OF F(2), of "(s, hash b, length b)"] assms(4) by force
    then have s: "s \<noteq> []" by (auto simp: validate_file_name_def)
    note one = input_by_name [OF upload_keeps_files_ok [OF assms(2) tx] r(1,2), unfolded r(3)]
    show ?thesis
      using lock_task_Inr_D [OF t] one s k' [OF f] by (simp add: read_input_bytes_def staged_row_def)
  qed simp
qed

section \<open>Registered outputs\<close>

lemma write_physical_ok:
  assumes "write_physical fault tid fid b old k = (True, k')"
    and "\<And>f p q. old = Some f \<Longrightarrow> output_paths_of (f_key f) = Some (p, q) \<Longrightarrow> q \<noteq> ArtifactPath tid fid \<and> p \<noteq> OutputPath tid fid"
  shows "k' (ArtifactPath tid fid) = Some b \<and> k' (OutputPath tid fid) = Some b"
proof -
  have k': "k' = run_all (physical_ops tid fid b old) k"
    using assms(1) by (auto simp: write_physical_def run_ops_eq split: option.splits if_splits)
  show ?thesis
  proof (cases old)
    case None
    then show ?thesis by (simp add: k' physical_ops_def)
  next
    case (Some f)
    show ?thesis
    proof (cases "f_key f")
      case (Key t g)
      then show ?thesis using assms(2) [OF Some, of "OutputPath t g" "ArtifactPath t g"] Some
        by (auto simp: k' physical_ops_def)
    qed (simp add: k' physical_ops_def Some)
  qed
qed

text \<open>What a tool registered is what the owner downloads: after a successful registration, the download
  of the new file resolves to its artifact copy, with the registered name, digest and length, and that
  copy holds exactly the registered bytes.\<close>

theorem register_then_download:
  assumes "files_ok nfc d"
    and "register_output hash nfc fault me i s b rid epoch fid now d k = (Inr row, d', k')"
  shows "resolve_download me i (Uuid fid) d' k' = Inr (ArtifactPath (f_task row) fid, s, hash b, length b)
    \<and> k' (ArtifactPath (f_task row) fid) = Some b"
proof -
  obtain old where tx: "register_tx nfc me i (s, hash b, length b) rid epoch fid now d = Inr ((row, old), d')"
    and w: "write_physical fault (f_task row) fid b old k = (True, k')"
    using assms(2) by (auto simp: register_output_def split: sum.splits prod.splits bool.splits)
  from tx show ?thesis
  proof (rule register_tx_cases)
    fix t :: task_row and r d1 d2
    assume t: "lock_task me i d = Inr t" and old: "old = find_old_output_row nfc (scan_live_rows me (t_id t) d) (fst (s, hash b, length b))"
      and r: "(case old of None \<Rightarrow> Inr d | Some f \<Rightarrow> retire_old_row me (t_id t) f d) = Inr d1"
      and row: "row = registered_row (t_id t) (t_owner t) r fid now (s, hash b, length b)"
      and c: "charge_storage me (snd (snd (s, hash b, length b))) d1 = Inr d2" and ins: "insert_registered_row row d2 = Inr d'"
    note me = lock_task_Inr_D [OF t]
    have F: "files d2 = files d1" "tasks d2 = tasks d1" using c by (auto elim!: charge_storage_Inr)
    have T: "tasks d1 = tasks d" using r by (auto dest: retire_Inr(1) split: option.splits)
    have d': "files d' = files d1 @ [row]" "tasks d' = tasks d" using insert_registered_Inr(1) [OF ins] F T by simp_all
    have new: "fid \<notin> f_id ` set (files d1)" using insert_registered_Inr(2) [OF ins] F row by (simp add: registered_row_def)
    have "map f_id (files d1) = map f_id (files d)"
      using r by (auto simp: map_upd_key dest!: retire_Inr(9) split: option.splits)
    from arg_cong [OF this, of set] have ids: "f_id ` set (files d1) = f_id ` set (files d)" by simp
    have "f_id f \<noteq> fid \<and> f_key f = Key (f_task f) (f_id f)" if "old = Some f" for f
    proof -
      have "f \<in> set (scan_live_rows me (t_id t) d)" using old that unfolding find_old_output_row_def by (metis find_Some_D)
      then have "f \<in> set (files d)" by (simp add: scan_live_rows_def live_files_def)
      then show ?thesis using new ids assms(1) by (auto simp: files_ok_def file_row_ok_def)
    qed
    then have k': "k' (ArtifactPath (f_task row) fid) = Some b" using write_physical_ok [OF w] by fastforce
    have "find (\<lambda>f. f_owner f = me \<and> f_id f = fid \<and> f_task f = t_id t \<and> f_dir f = Output \<and> f_state f = Registered)
        (files d1 @ [row]) = Some row"
      using new me by (auto simp: find_snoc row registered_row_def find_None_iff image_iff split: option.splits dest!: find_Some_D)
    then show ?thesis
      using k' me d' by (auto simp: resolve_download_def row registered_row_def list_ex_iff)
  qed
qed

section \<open>Failing registrations\<close>

text \<open>A failing registration changes nothing in the database, and nothing on the disk either unless it
  replaces an older output: for any single disk fault, with identifiers not used before.\<close>

theorem failed_registration_leaves_nothing:
  assumes "register_output hash nfc fault me i s b rid epoch fid now d k = (Inl e, d', k')"
    and "\<forall>t. k (OutputPath t fid) = None \<and> k (ArtifactPath t fid) = None"
    and "\<forall>t\<in>set (tasks d). find_old_output_row nfc (scan_live_rows me (t_id t) d) s = None"
  shows "d' = d \<and> k' = k"
proof (cases "register_tx nfc me i (s, hash b, length b) rid epoch fid now d")
  case (Inl e')
  then show ?thesis using assms(1) by (simp add: register_output_def)
next
  case (Inr x)
  obtain row old d1 where x: "x = ((row, old), d1)" by (metis prod.exhaust)
  have w: "\<exists>k1. write_physical fault (f_task row) fid b old k = (False, k1) \<and> k' = k1 \<and> d' = d"
    using assms(1) Inr x by (auto simp: register_output_def split: prod.splits bool.splits)
  from Inr have "old = None"
    unfolding x by (rule register_tx_cases) (use assms(3) in \<open>auto dest!: lock_task_Inr_D\<close>)
  then show ?thesis
    using w assms(2) by (auto simp: write_physical_def run_ops_eq physical_ops_def unlink_all_def less_Suc_eq numeral_2_eq_2
        split: option.splits if_splits)
qed

text \<open>What a replacement loses: the older output stays registered, but its file is gone.\<close>

lemma failed_replacement_loses_file:
  assumes "register_tx nfc me i (s, hash b, length b) rid epoch fid now d = Inr ((row, Some old), d1)"
    and "f_key old = Key t f"
  shows "\<exists>k'. register_output hash nfc (Some 3) me i s b rid epoch fid now d k = (Inl OSError, d, k') \<and> k' (OutputPath t f) = None"
  using assms
  by (auto simp: register_output_def write_physical_def run_ops_eq physical_ops_def unlink_all_eq numeral_3_eq_3)

section \<open>Runs of the system\<close>

lemma reachable_files_ok:
  assumes "start s" and "(step X)\<^sup>*\<^sup>* s s'"
  shows "files_ok (nfc_of X) (base s')"
proof (rule task_system.stable_along [where Q = "\<lambda>s. files_ok (nfc_of X) (base s)", OF assms(2) start_good [OF assms(1)]])
  show "files_ok (nfc_of X) (base s)"
    using assms(1) by (simp add: start_def empty_db_def files_ok_def profile_of_def live_files_def profile_ok_def)
  show "files_ok (nfc_of X) (base b)" if "files_ok (nfc_of X) (base a)" "step X a b" for a b
    using that(2,1) by cases (simp_all add: exec_files_ok files_ok_cong [OF provider_files])
qed

text \<open>C15: The limits of a task's files hold in every reachable state: at most ten live inputs, no file over
  five MiB, at most ten MiB together, no two live inputs nor two live outputs with the same normalised
  name, and every row has a legal file name and the storage key of its own identifier.\<close>

theorem task_files_bounded:
  assumes "start s" and "(step X)\<^sup>*\<^sup>* s s'" and L: "L = live_files u i (base s')"
  shows "rowcount (\<lambda>f. f_dir f = Input) L \<le> max_files_per_task \<and> (\<forall>f\<in>set L. f_size f \<le> max_single_file_bytes)
    \<and> sum_list (map f_size L) \<le> max_task_input_bytes
    \<and> distinct (map (\<lambda>f. (f_dir f, nfc_of X (f_name f))) L)
    \<and> (\<forall>f\<in>set L. validate_file_name (f_name f) = Inr () \<and> f_key f = Key i (f_id f))"
proof -
  have "files_ok (nfc_of X) (base s')" by (rule reachable_files_ok [OF assms(1,2)])
  then have ok: "profile_ok (nfc_of X) (map face L)" "\<forall>f\<in>set L. file_row_ok f \<and> f_task f = i"
    by (auto simp: files_ok_def profile_of_def L live_files_def)
  have "distinct (map (\<lambda>f. nfc_of X (f_name f)) (filter (\<lambda>f. f_dir f = dir) L))" for dir
    using ok(1) by (simp add: profile_ok_def filter_map o_def)
  moreover have "distinct (map (\<lambda>f. (f_dir f, g f)) xs)" if "\<forall>dir. distinct (map g (filter (\<lambda>f. f_dir f = dir) xs))"
    for g :: "file_row \<Rightarrow> pystr" and xs
    using that by (induction xs) (auto simp: image_iff split: if_splits)
  ultimately show ?thesis
    using ok by (auto simp: profile_ok_def rowcount_def filter_map o_def file_row_ok_def)
qed

text \<open>C20: The provider table is well-formed in every reachable state: identifiers are unique, every row has a
  four-character key suffix, a key version of at least 1, a legal model name and an https address, a
  default is active, and no user has two defaults nor two active entries of the same address and model.\<close>

theorem providers_well_formed:
  assumes "start s" and "providers_wf (base s)" and "(step X)\<^sup>*\<^sup>* s s'"
  shows "providers_wf (base s')"
proof (rule task_system.stable_along [where Q = "\<lambda>s. providers_wf (base s)", OF assms(3) start_good [OF assms(1)] assms(2)])
  fix a b assume a: "sys_good a" "providers_wf (base a)" and st: "step X a b"
  have prov: "providers_wf (exec_provider X p (base a))" for p
  proof (cases p)
    case (AddProvider me u pid sealed now)
    then show ?thesis using a(2) create_provider_wf [OF a(2)] by (cases sealed) (auto simp: committed_db_def split: sum.split)
  next
    case (ChangeProvider me i u sealed)
    then show ?thesis using a(2) update_provider_wf [OF a(2), of "netloc_valid X" me i u sealed]
      by (simp add: committed_db_def split: sum.split)
  next
    case (DropProvider me i)
    then show ?thesis using a(2) revoke_provider_wf [OF a(2), of me i] by (simp add: committed_db_def split: sum.split)
  qed
  have "providers (exec X c (base a)) = providers (base a)" if "ready c a" for c
  proof -
    have "ok_job (actor c) (subject c) (base a) (exec X c (base a))"
      by (rule exec_ok_job [OF _ ready_pre [OF a(1) that]]) (use a(1) in \<open>simp add: sys_good_def\<close>)
    then show ?thesis unfolding ok_job_def touches_def by (elim conjE)
  qed
  then have task: "providers_wf (exec X c (base a))" if "ready c a" for c
    using providers_wf_cong a(2) that by blast
  from st show "providers_wf (base b)" by cases (use prov task a(2) in simp_all)
qed

section \<open>Revoking a key\<close>

lemma upd_nested:
  "(\<And>x. P (f x) = P x) \<Longrightarrow> upd P g (upd P f xs) = upd P (g \<circ> f) xs"
  by (simp add: upd_def)

lemma fail_unstarted_statuses:
  obtains n where "tasks (fail_unstarted me reason t d) = upd (\<lambda>x. t_owner x = me \<and> t_id x = t_id t)
      (\<lambda>x. x\<lparr>t_status := Failed, t_abort := Some reason, t_eseq := t_eseq x + n\<rparr>) (tasks d)"
proof (rule that)
  show "tasks (fail_unstarted me reason t d) = upd (\<lambda>x. t_owner x = me \<and> t_id x = t_id t)
      (\<lambda>x. x\<lparr>t_status := Failed, t_abort := Some reason, t_eseq := t_eseq x
        + (1 + (if fst (cancel_pending me (t_id t) (release_unstarted (t_id t) (t_owner t) d)) \<noteq> 0 then 1 else 0))\<rparr>) (tasks d)"
    by (simp add: fail_unstarted_def cancel_pending_def Let_def upd_tasks_def)
qed

lemma fail_unstarted_rows:
  "resvs (fail_unstarted me reason t d) = upd (\<lambda>v. v_task v = t_id t \<and> held v) (\<lambda>v. v\<lparr>v_state := Released\<rparr>) (resvs d)"
  "pl_used (fail_unstarted me reason t d) = pl_used d"
  "map_option u_storage (usage (fail_unstarted me reason t d) u) = map_option u_storage (usage d u)"
  by (auto simp: fail_unstarted_def cancel_pending_def Let_def upd_tasks_def mark_released_def release_unstarted_eq
      split: option.split)

definition decided :: "task_row \<Rightarrow> uuid \<times> uuid \<times> uuid \<times> status \<times> abort_reason option" where
  "decided t = (t_id t, t_owner t, t_provider t, t_status t, t_abort t)"

lemma fail_unstarted_fold:
  shows "map decided (tasks (fold (fail_unstarted me reason) ts d)) = map (\<lambda>t. if t_owner t = me \<and> t_id t \<in> t_id ` set ts
      then (t_id t, t_owner t, t_provider t, Failed, Some reason) else decided t) (tasks d)"
    and "resvs (fold (fail_unstarted me reason) ts d) = upd (\<lambda>v. v_task v \<in> t_id ` set ts \<and> held v) (\<lambda>v. v\<lparr>v_state := Released\<rparr>) (resvs d)"
    and "pl_used (fold (fail_unstarted me reason) ts d) = pl_used d"
    and "map_option u_storage (usage (fold (fail_unstarted me reason) ts d) u) = map_option u_storage (usage d u)"
proof (induction ts arbitrary: d)
  case (Cons t ts)
  {
    case 1
    let ?d = "fail_unstarted me reason t d"
    obtain n where n: "tasks ?d = upd (\<lambda>x. t_owner x = me \<and> t_id x = t_id t)
        (\<lambda>x. x\<lparr>t_status := Failed, t_abort := Some reason, t_eseq := t_eseq x + n\<rparr>) (tasks d)"
      by (rule fail_unstarted_statuses)
    show ?case using Cons.IH(1) [of ?d] unfolding n by (auto simp: upd_def decided_def)
  next
    case 2
    show ?case using Cons.IH(2) [of "fail_unstarted me reason t d"]
      by (auto simp: fail_unstarted_rows upd_def held_def)
  next
    case 3
    show ?case using Cons.IH(3) [of "fail_unstarted me reason t d"] by (simp add: fail_unstarted_rows)
  next
    case 4
    show ?case using Cons.IH(4) [of "fail_unstarted me reason t d"] by (simp add: fail_unstarted_rows)
  }
qed (simp_all add: upd_def)

text \<open>C19: Revoking a provider key fails exactly the tasks that wait on it (uploading, queued and ready ones)
  with the reason \<open>provider_key_revoked\<close>, releases every reservation they hold, and makes the provider
  unusable from then on; but no stored byte is given back, neither to the user nor to the platform.\<close>

theorem revoked_key_fails_waiting_tasks:
  assumes "distinct (map t_id (tasks d))" and "revoke_provider_tx me i d = Inr (pid, d')"
  shows "map decided (tasks d') = map (\<lambda>t. if t_owner t = me \<and> t_provider t = pid \<and> unstarted (t_status t)
        then (t_id t, me, pid, Failed, Some ProviderKeyRevoked) else decided t) (tasks d)
    \<and> (\<forall>t\<in>set (unstarted_tasks me pid d). \<forall>v\<in>set (resvs d'). v_task v = t_id t \<longrightarrow> \<not> held v)
    \<and> get_provider_row me (Uuid pid) d' = Inl (HttpDetail ''NOT_FOUND'' 404)
    \<and> (\<forall>u. map_option u_storage (usage d' u) = map_option u_storage (usage d u)) \<and> pl_used d' = pl_used d"
proof -
  obtain p where p: "get_provider_row me i d = Inr p" "pid = p_id p"
      "save_provider me (p\<lparr>p_active := False, p_default := False\<rparr>) (snd (fail_unstarted_tasks me pid ProviderKeyRevoked d)) = Inr d'"
    using assms(2) by (auto simp: revoke_provider_tx_def Let_def)
  let ?ts = "unstarted_tasks me pid d"
  have d': "d' = (fold (fail_unstarted me ProviderKeyRevoked) ?ts d)\<lparr>providers := upd (\<lambda>x. p_user x = me \<and> p_id x = pid)
      (\<lambda>_. p\<lparr>p_active := False, p_default := False\<rparr>) (providers d)\<rparr>"
    using provider_writes_Inr(2) [OF p(3)] p(2) by (simp add: fail_unstarted_tasks_def) (metis fail_unstarted_tasks_providers fail_unstarted_tasks_def snd_conv)
  have ids: "t_owner t = me \<and> t_id t \<in> t_id ` set ?ts \<longleftrightarrow> t_owner t = me \<and> t_provider t = pid \<and> unstarted (t_status t)"
    if "t \<in> set (tasks d)" for t
    using that assms(1) by (auto simp: unstarted_tasks_def image_iff dest: distinct_key)
  note f = fail_unstarted_fold [of me ProviderKeyRevoked ?ts d]
  have "map decided (tasks d') = map (\<lambda>t. if t_owner t = me \<and> t_provider t = pid \<and> unstarted (t_status t)
        then (t_id t, me, pid, Failed, Some ProviderKeyRevoked) else decided t) (tasks d)"
    using ids by (simp add: d' f(1) cong: if_cong)
  moreover have "\<forall>t\<in>set ?ts. \<forall>v\<in>set (resvs d'). v_task v = t_id t \<longrightarrow> \<not> held v"
    by (auto simp: d' f(2) set_upd held_def)
  moreover have "get_provider_row me (Uuid pid) d' = Inl (HttpDetail ''NOT_FOUND'' 404)"
  proof -
    have "find (\<lambda>r. p_user r = me \<and> p_id r = pid \<and> p_active r) (providers d') = None"
      by (auto simp: find_None_iff d' set_upd p(2))
    then show ?thesis by (simp add: get_provider_row_def)
  qed
  ultimately show ?thesis using f(3,4) by (simp add: d')
qed

section \<open>The download header\<close>

lemma concat_map_unique:
  assumes pf: "\<And>x y r r'. P x \<Longrightarrow> P y \<Longrightarrow> c x @ r = c y @ r' \<Longrightarrow> x = y" and ne: "\<And>x. c x \<noteq> []"
    and "\<forall>x\<in>set xs. P x" "\<forall>y\<in>set ys. P y" "concat (map c xs) = concat (map c ys)"
  shows "xs = ys"
  using assms(3-)
proof (induction xs arbitrary: ys)
  case Nil
  then show ?case by (cases ys) (simp_all add: ne)
next
  case (Cons x xs)
  have "ys \<noteq> []" using Cons.prems(3) ne [of x] by (cases ys) simp_all
  then obtain y ys' where ys: "ys = y # ys'" by (cases ys) blast+
  have "x = y" by (rule pf [of x y "concat (map c xs)" "concat (map c ys')"]) (use Cons.prems ys in simp_all)
  then show ?case using Cons.IH [of ys'] Cons.prems ys by simp
qed

lemma quote_byte_unique: "x < 256 \<Longrightarrow> y < 256 \<Longrightarrow> quote_byte x @ r = quote_byte y @ r' \<Longrightarrow> x = y"
proof -
  assume lt: "x < 256" "y < 256" and e: "quote_byte x @ r = quote_byte y @ r'"
  have h: "m = n" if "upper_hex m = upper_hex n" "m < 16" "n < 16" for m n
    using that by (auto simp: upper_hex_def split: if_splits)
  have u: "\<not> unreserved 37" by (simp add: unreserved_def)
  show "x = y"
  proof (cases "unreserved x \<or> unreserved y")
    case True
    then show ?thesis using e u by (auto simp: quote_byte_def split: if_splits)
  next
    case False
    then have "x div 16 = y div 16" "x mod 16 = y mod 16"
      using e h lt by (auto simp: quote_byte_def)
    then show ?thesis by (metis div_mult_mod_eq)
  qed
qed

lemma div_mod_step: "(c::nat) div (64 * n) = d div (64 * n) \<Longrightarrow> (c div n) mod 64 = (d div n) mod 64 \<Longrightarrow> c div n = d div n"
  by (metis div_mult2_eq div_mult_mod_eq mult.commute)

lemma utf8_unique: "utf8_encode x @ r = utf8_encode y @ r' \<Longrightarrow> x = y"
proof -
  assume e: "utf8_encode x @ r = utf8_encode y @ r'"
  have one: "x = y" if "x div 64 = y div 64" "x mod 64 = y mod 64" using that by (metis div_mult_mod_eq)
  have two: "x div 64 = y div 64" if "x div 4096 = y div 4096" "(x div 64) mod 64 = (y div 64) mod 64"
    using div_mod_step [of x 64 y] that by simp
  have three: "x div 4096 = y div 4096" if "x div 262144 = y div 262144" "(x div 4096) mod 64 = (y div 4096) mod 64"
    using div_mod_step [of x 4096 y] that by simp
  consider "x < 128" | "128 \<le> x" "x < 2048" | "2048 \<le> x" "x < 65536" | "65536 \<le> x" by linarith
  then show "x = y"
  proof cases
    case 1
    then show ?thesis using e by (simp add: utf8_encode_def split: if_splits)
  next
    case 2
    then have "x div 64 < 32" by simp
    then show ?thesis using 2 e one by (simp add: utf8_encode_def split: if_splits)
  next
    case 3
    then have "x div 4096 < 16" by simp
    moreover have "y div 64 < 32" if "y < 2048" using that by simp
    ultimately show ?thesis using 3 e one two by (simp add: utf8_encode_def split: if_splits)
  next
    case 4
    have "y div 64 < 32" if "y < 2048" using that by simp
    moreover have "y div 4096 < 16" if "y < 65536" using that by simp
    ultimately show ?thesis using 4 e one two three by (simp add: utf8_encode_def split: if_splits)
  qed
qed

lemma utf8_bytes: "c < 1114112 \<Longrightarrow> b \<in> set (utf8_encode c) \<Longrightarrow> b < 256"
  by (auto simp: utf8_encode_def split: if_splits)


lemma url_quote_unique:
  assumes "\<forall>c\<in>set s. c < 1114112" "\<forall>c\<in>set s'. c < 1114112" "url_quote s = url_quote s'"
  shows "s = s'"
proof -
  let ?b = "\<lambda>s. concat (map utf8_encode s)"
  have ne: "quote_byte b \<noteq> []" "utf8_encode b \<noteq> []" for b by (simp_all add: quote_byte_def utf8_encode_def)
  have byte: "\<forall>b\<in>set (?b s). b < 256" if "\<forall>c\<in>set s. c < 1114112" for s using that utf8_bytes by auto
  have "concat (map quote_byte (?b s)) = concat (map quote_byte (?b s'))" using assms(3) by (simp only: url_quote_def)
  from concat_map_unique [OF quote_byte_unique ne(1) byte [OF assms(1)] byte [OF assms(2)] this] have "?b s = ?b s'" .
  from concat_map_unique [where P = "\<lambda>_. True", OF utf8_unique ne(2) _ _ this] show ?thesis by simp
qed

lemma quoted_chars: "\<forall>c\<in>set s. c < 1114112 \<Longrightarrow> c \<in> set (url_quote s) \<Longrightarrow> unreserved c \<or> c = 37"
proof -
  assume lt: "\<forall>c\<in>set s. c < 1114112" and c: "c \<in> set (url_quote s)"
  have h: "n < 16 \<Longrightarrow> unreserved (upper_hex n)" for n by (auto simp: upper_hex_def unreserved_def)
  from c obtain x b where "x \<in> set s" "b \<in> set (utf8_encode x)" "c \<in> set (quote_byte b)"
    by (auto simp: url_quote_def)
  moreover from this have "b < 256" using lt utf8_bytes by blast
  ultimately show ?thesis using h by (auto simp: quote_byte_def split: if_splits)
qed

text \<open>The download header is safe: it is one line of printable ASCII whose only quotation marks are the two
  around the fallback name, whatever the file name contains; and it still determines the file name:
  two names with the same header are equal.\<close>

theorem download_header_safe:
  assumes "\<forall>c\<in>set s. c < 1114112"
  shows "(\<forall>c\<in>set (content_disposition s). 32 \<le> c \<and> c \<le> 126) \<and> rowcount (\<lambda>c. c = 34) (content_disposition s) = 2
    \<and> (\<forall>s'. (\<forall>c\<in>set s'. c < 1114112) \<longrightarrow> content_disposition s' = content_disposition s \<longrightarrow> s' = s)"
proof (intro conjI allI impI)
  have q: "c \<in> set (url_quote s) \<Longrightarrow> 32 \<le> c \<and> c \<le> 126 \<and> c \<noteq> 34" for c
    using quoted_chars [OF assms] by (force simp: unreserved_def)
  have f: "c \<in> set (ascii_fallback s) \<Longrightarrow> 32 \<le> c \<and> c \<le> 126 \<and> c \<noteq> 34" for c s
    by (auto simp: ascii_fallback_def split: if_splits)
  show "\<forall>c\<in>set (content_disposition s). 32 \<le> c \<and> c \<le> 126"
    using q f by (auto simp: content_disposition_def pystr_of_def)
  have "filter (\<lambda>c. c = 34) (url_quote s) = []" "filter (\<lambda>c. c = 34) (ascii_fallback s) = []"
    using q f by (auto simp: filter_empty_conv)
  then show "rowcount (\<lambda>c. c = 34) (content_disposition s) = 2"
    by (simp add: rowcount_def content_disposition_def pystr_of_def)
  fix s' assume l: "\<forall>c\<in>set s'. c < 1114112" and e: "content_disposition s' = content_disposition s"
  have split: "takeWhile (\<lambda>c. c \<noteq> 34) (ascii_fallback x @ [34] @ r) = ascii_fallback x" for x r
    using f [of _ x] by (simp add: takeWhile_append2)
  have e': "ascii_fallback s' @ [34] @ pystr_of ''; filename*=UTF-8'' @ [39, 39] @ url_quote s'
      = ascii_fallback s @ [34] @ pystr_of ''; filename*=UTF-8'' @ [39, 39] @ url_quote s"
    using e by (simp add: content_disposition_def)
  from arg_cong [OF this, of "takeWhile (\<lambda>c. c \<noteq> 34)"] have "ascii_fallback s' = ascii_fallback s" unfolding split .
  with e' have "url_quote s' = url_quote s" by simp
  then show "s' = s" using url_quote_unique [OF l assms] by simp
qed

section \<open>Examples\<close>

definition ex_hash :: "bytes \<Rightarrow> string" where "ex_hash b = ''h''"

definition ex_upload :: "nat option \<Rightarrow> (api_error + file_row list) \<times> db \<times> disk" where
  "ex_upload fault = upload_files ex_hash (nfc_of ex_ext) fault 1 (Uuid 100) [([97], [1, 2])] 5 [400] 9 ex_uploading Map.empty"

definition ex_register :: "nat option \<Rightarrow> (api_error + file_row) \<times> db \<times> disk" where
  "ex_register fault = register_output ex_hash (nfc_of ex_ext) fault 1 (Uuid 100) [111] [7] (Uuid 300) 1 401 9 ex_running Map.empty"

definition ex_put :: call where "ex_put = Upload 1 (Uuid 100) [([97], ''h'', 2)] [400] 9"
definition exs_uploaded :: sys where "exs_uploaded = after ex_put exs_uploading"

definition ex_new_provider :: provider_call where
  "ex_new_provider = AddProvider 1 \<lparr>pc_url = pystr_of ''https://n.example'', pc_model = [110], pc_key = pystr_of ''secret'', pc_default = True\<rparr>
     21 (''c2'', ''k2'') 3"

definition exs_provided :: sys where
  "exs_provided = ex_start\<lparr>base := exec_provider ex_ext ex_new_provider ex0, intact := True\<rparr>"

lemma ex_files_ok: "files_ok (nfc_of ex_ext) ex_uploading" "files_ok (nfc_of ex_ext) ex_running"
  using reachable_files_ok [OF ex_start ex_steps(1)] reachable_files_ok [OF ex_start ex_steps(3)] by simp_all

lemma ex_no_files: "files ex_uploading = []" "files ex_running = []"
  by code_simp+

lemma ex_fresh: "fresh_upload [400] 5 (length [([97 :: nat], [1, 2 :: 8 word])]) ex_uploading Map.empty"
  by (simp add: fresh_upload_def ex_no_files)

lemma exs_uploaded_step: "(step ex_ext)\<^sup>*\<^sup>* ex_start exs_uploaded"
  unfolding exs_uploaded_def
  by (rule rtranclp.rtrancl_into_rtrancl [OF ex_steps(1) step_after]) code_simp

lemma exs_provided_step: "(step ex_ext)\<^sup>*\<^sup>* ex_start exs_provided"
proof (rule r_into_rtranclp)
  have "step ex_ext ex_start (ex_start\<lparr>base := exec_provider ex_ext ex_new_provider (base ex_start),
      intact := intact ex_start \<and> keeps_keys ex_new_provider\<rparr>)"
    by (rule step.provide)
  then show "step ex_ext ex_start exs_provided"
    by (simp add: exs_provided_def ex_new_provider_def ex_start_def)
qed

theorem upload_all_or_nothing_witness:
  "fst (ex_upload (Some 1)) = Inl OSError \<and> fst (snd (ex_upload (Some 1))) = ex_uploading
   \<and> snd (snd (ex_upload (Some 1))) = Map.empty"
proof -
  have e: "fst (ex_upload (Some 1)) = Inl OSError" by code_simp
  obtain r d' k' where u: "ex_upload (Some 1) = (r, d', k')" by (cases "ex_upload (Some 1)") auto
  from upload_all_or_nothing [OF ex_fresh ex_files_ok(1) u [unfolded ex_upload_def]] show ?thesis
    using e u by simp
qed

theorem upload_read_back_witness:
  "read_input_bytes 1 (Uuid 100) [97] (fst (snd (ex_upload None))) (snd (snd (ex_upload None))) = Inr [1, 2]"
proof -
  have "\<not> isl (fst (ex_upload None))" by code_simp
  then obtain rows d' k' where u: "ex_upload None = (Inr rows, d', k')"
    by (cases "ex_upload None"; case_tac a) auto
  from upload_read_back [OF ex_fresh ex_files_ok(1) u [unfolded ex_upload_def], of "[97]" "[1, 2]"] show ?thesis
    using u by simp
qed

theorem register_then_download_witness:
  "resolve_download 1 (Uuid 100) (Uuid 401) (fst (snd (ex_register None))) (snd (snd (ex_register None)))
     = Inr (ArtifactPath 100 401, [111], ''h'', 1)"
proof -
  have "(case fst (ex_register None) of Inr f \<Rightarrow> f_task f = 100 | _ \<Rightarrow> False)" by code_simp
  then obtain row d' k' where u: "ex_register None = (Inr row, d', k')" "f_task row = 100"
    by (cases "ex_register None") (auto split: sum.splits)
  from register_then_download [OF ex_files_ok(2) u(1) [unfolded ex_register_def]] show ?thesis
    using u by (simp add: ex_hash_def)
qed

theorem failed_registration_leaves_nothing_witness:
  "fst (ex_register (Some 1)) = Inl OSError \<and> snd (snd (ex_register (Some 1))) = Map.empty"
proof -
  have e: "fst (ex_register (Some 1)) = Inl OSError" by code_simp
  then obtain d' k' where u: "ex_register (Some 1) = (Inl OSError, d', k')" by (cases "ex_register (Some 1)") auto
  have "\<forall>t\<in>set (tasks ex_running). find_old_output_row (nfc_of ex_ext) (scan_live_rows 1 (t_id t) ex_running) [111] = None"
    by (simp add: scan_live_rows_def live_files_def ex_no_files find_old_output_row_def)
  from failed_registration_leaves_nothing [OF u [unfolded ex_register_def] _ this] show ?thesis
    using u by simp
qed

theorem task_files_bounded_witness:
  "map f_size (live_files 1 100 (base exs_uploaded)) = [2]
   \<and> rowcount (\<lambda>f. f_dir f = Input) (live_files 1 100 (base exs_uploaded)) \<le> max_files_per_task"
proof -
  have "map f_size (live_files 1 100 (base exs_uploaded)) = [2]" by code_simp
  with task_files_bounded [OF ex_start exs_uploaded_step refl, of 1 100] show ?thesis by blast
qed

theorem providers_well_formed_witness:
  "map p_default (providers (base exs_provided)) = [False, True] \<and> providers_wf (base exs_provided)"
proof -
  have "map p_default (providers (base exs_provided)) = [False, True]" by code_simp
  moreover have "providers_wf (base ex_start)" by code_simp
  ultimately show ?thesis using providers_well_formed [OF ex_start _ exs_provided_step] by blast
qed

theorem revoked_key_fails_waiting_tasks_witness:
  "\<exists>d'. revoke_provider_tx 1 (Uuid 20) ex_queued = Inr (20, d')
     \<and> map decided (tasks d') = [(100, 1, 20, Failed, Some ProviderKeyRevoked)]"
proof -
  have "(case revoke_provider_tx 1 (Uuid 20) ex_queued of Inr (p, d') \<Rightarrow> p = 20 | _ \<Rightarrow> False)" by code_simp
  then obtain d' where d': "revoke_provider_tx 1 (Uuid 20) ex_queued = Inr (20, d')" by (auto split: sum.splits)
  have "distinct (map t_id (tasks ex_queued))" "map decided (tasks ex_queued) = [(100, 1, 20, Queued, None)]" by code_simp+
  then obtain t where "tasks ex_queued = [t]" "t_owner t = 1" "t_provider t = 20" "t_status t = Queued" "t_id t = 100"
    "distinct (map t_id (tasks ex_queued))"
    by (auto simp: decided_def)
  with revoked_key_fails_waiting_tasks [OF _ d'] d' show ?thesis by (auto simp: unstarted_def)
qed

theorem download_header_safe_witness:
  "content_disposition [228, 34, 10] = content_disposition [228, 34, 10] \<and> 32 \<le> hd (content_disposition [228, 34, 10])
   \<and> rowcount (\<lambda>c. c = 34) (content_disposition [228, 34, 10]) = 2"
proof -
  have "content_disposition [228, 34, 10] \<noteq> []" by (simp add: content_disposition_def)
  then show ?thesis using download_header_safe [of "[228, 34, 10]"] by simp
qed

end
