(* ===== verification/Task_Outcomes.thy ===== *)
theory Task_Outcomes
  imports Task_System
begin

text \<open>
  What the operations return on a consistent database: which errors the background jobs can meet
  (none but a dropped candidate, so one job never blocks the next), and what each user operation
  does in each state of its task.
\<close>

section \<open>The jobs do not fail\<close>

lemma insert_resv_free:
  assumes "held_task d i k = 0" and "\<And>v. v \<in> set (resvs_of d i) \<Longrightarrow> v_state v \<noteq> Consumed"
  shows "insert_resv (new_resv i u k f n) d = Inr (add_resv (new_resv i u k f n) d)"
proof -
  have "\<not> resv_clash (new_resv i u k f n) v" if "v \<in> set (resvs d)" for v
  proof
    assume c: "resv_clash (new_resv i u k f n) v"
    then have v: "v_task v = i" "v_kind v = k" "live_resv (v_state v)" by (simp_all add: resv_clash_def)
    then have "v \<in> set (resvs_of d i)" using that by (simp add: resvs_of_def)
    then have "held v" using assms(2) v(3) by (cases "v_state v") (auto simp: held_def)
    then show False using assms(1) that v by (auto simp: held_task_def rowcount_0_iff)
  qed
  then show ?thesis by (simp add: insert_resv_def add_resv_def list_ex_iff)
qed

lemma claim_parts:
  assumes "good d" and "cand_ok c d" and "r \<in> set (sel_rounds (c_owner c) (\<lambda>r. r_id r = c_round c \<and> r_state r = RPending) d)"
  obtains t where "task_at d (c_task c) = Some t" "t_owner t = c_owner c" "t_id t = c_task c"
    "t_status t = Queued" "find_task (c_owner c) (c_task c) d = Some t"
    "held_task d (c_task c) KRunning = 0" "\<And>v. v \<in> set (resvs_of d (c_task c)) \<Longrightarrow> v_state v \<noteq> Consumed"
proof -
  have r: "r \<in> set (rounds d)" "r_owner r = c_owner c" "r_id r = c_round c" "r_state r = RPending"
    using assms(3) sel_rounds_mem by auto
  have rt: "r_task r = c_task c" using assms(2) r by (auto simp: cand_ok_def)
  obtain t where t: "task_at d (c_task c) = Some t" "t_owner t = c_owner c" "t_status t = Queued"
    using active_round_task [OF assms(1) r(1)] r(2,4) rt by (metis active_state.simps(1))
  have "find_task (c_owner c) (c_task c) d = Some t"
    using find_task_task_at assms(1) t(1,2) by (auto simp: good_def)
  moreover have "held_task d (c_task c) KRunning = 0"
    using good_task(2) [OF assms(1) t(1)] t(3) by auto
  ultimately show thesis using that t task_at_D [OF t(1)] good_task(6) [OF assms(1) t(1)] by blast
qed

lemma claim_round_eq:
  assumes "good d" and "cand_ok c d"
    and sel: "sel_rounds (c_owner c) (\<lambda>r. r_id r = c_round c \<and> r_state r = RPending) d = r # rs"
  obtains d2 t where "claim_round iid ttl c now d =
      bindE (inc_running (c_owner c) d2) (\<lambda>d3. bindE (lease_slot (c_task c) (now + ttl) d3) (\<lambda>d4.
        bindE (alloc_seq (c_owner c) (c_task c) 2 d4) (\<lambda>(seq, d5).
          Inr ([status_frame seq Running None],
            add_event (c_task c) (c_owner c) (seq + 1) ERoundRunning (PRoundAttempt (c_round c) (r_attempt r + 1))
              None (Some (c_round c))
              (add_event (c_task c) (c_owner c) seq EStatusChanged (PStatus Running None) None None d5)))))"
    "find_task (c_owner c) (c_task c) d2 = Some t" "usage d2 = usage d" "quotas d2 = quotas d" "slots d2 = slots d"
proof -
  let ?me = "c_owner c" and ?i = "c_task c"
  from claim_parts [OF assms(1,2), of r] obtain t where
    t: "t_owner t = ?me" "t_id t = ?i" "t_status t = Queued" "find_task ?me ?i d = Some t"
    "held_task d ?i KRunning = 0" "\<And>v. v \<in> set (resvs_of d ?i) \<Longrightarrow> v_state v \<noteq> Consumed"
    using sel by (metis list.set_intros(1))
  define d1 where "d1 = upd_rounds ?me (\<lambda>r. r_id r = c_round c \<and> r_state r = RPending)
     (\<lambda>r. r\<lparr>r_state := RRunning, r_lease_owner := Some iid, r_epoch := r_epoch r + 1,
       r_expires := Some (now + ttl), r_attempt := r_attempt r + 1\<rparr>) d"
  define d2 where "d2 = upd_tasks ?me (\<lambda>t. t_id t = ?i \<and> t_status t = Queued) (\<lambda>t. t\<lparr>t_status := Running\<rparr>) d1"
  have f2: "find_task ?me ?i d2 = Some (t\<lparr>t_status := Running\<rparr>)" using t by (simp add: d2_def d1_def)
  have n: "n_tasks ?me (\<lambda>t. t_id t = ?i \<and> t_status t = Queued) d1 \<noteq> 0"
    using n_tasks_pos [of ?me ?i d1 t] t by (simp add: d1_def)
  let ?v = "new_resv ?i ?me KRunning None 0"
  have iv: "insert_resv ?v d2 = Inr (add_resv ?v d2)"
    using insert_resv_free [of d2 ?i KRunning ?me None 0] t(5,6) by (simp add: d2_def d1_def)
  show thesis
  proof (rule that)
    show "claim_round iid ttl c now d = bindE (inc_running ?me (add_resv ?v d2)) (\<lambda>d3. bindE (lease_slot ?i (now + ttl) d3) (\<lambda>d4.
        bindE (alloc_seq ?me ?i 2 d4) (\<lambda>(seq, d5).
          Inr ([status_frame seq Running None],
            add_event ?i ?me (seq + 1) ERoundRunning (PRoundAttempt (c_round c) (r_attempt r + 1))
              None (Some (c_round c)) (add_event ?i ?me seq EStatusChanged (PStatus Running None) None None d5)))))"
      unfolding claim_round_def Let_def sel list.case d1_def [symmetric] if_not_P [OF n] d2_def [symmetric] iv
        bindE_simps ..
    show "find_task ?me ?i (add_resv ?v d2) = Some (t\<lparr>t_status := Running\<rparr>)" using f2 by simp
  qed (simp_all add: d2_def d1_def)
qed

lemma inc_running_Inl: "inc_running me d = Inl e \<Longrightarrow> e = CandidateDropped"
  by (auto simp: inc_running_def split: option.splits if_splits)

lemma lease_slot_Inl: "lease_slot i u d = Inl e \<Longrightarrow> e = CandidateDropped"
  by (auto simp: lease_slot_def split: list.splits)

lemma inc_running_find: "inc_running me d = Inr d' \<Longrightarrow> find_task u i d' = find_task u i d"
  by (erule inc_running_Inr) simp

lemma lease_slot_find: "lease_slot j w d = Inr d' \<Longrightarrow> find_task u i d' = find_task u i d"
  by (erule lease_slot_Inr) simp

lemma alloc_seq_Inl_iff: "alloc_seq me i n d = Inl e \<longleftrightarrow> find_task me i d = None \<and> e = NoResultFound"
  by (auto simp: alloc_seq_def split: option.splits)

lemma claim_no_fault:
  assumes "good d" and "cand_ok c d" and "claim_round iid ttl c now d = Inl e"
  shows "e = CandidateDropped"
proof (cases "sel_rounds (c_owner c) (\<lambda>r. r_id r = c_round c \<and> r_state r = RPending) d")
  case Nil
  then show ?thesis using assms(3) by (simp add: claim_round_def)
next
  case (Cons r rs)
  obtain d2 t where eq: "claim_round iid ttl c now d =
      bindE (inc_running (c_owner c) d2) (\<lambda>d3. bindE (lease_slot (c_task c) (now + ttl) d3) (\<lambda>d4.
        bindE (alloc_seq (c_owner c) (c_task c) 2 d4) (\<lambda>(seq, d5).
          Inr ([status_frame seq Running None],
            add_event (c_task c) (c_owner c) (seq + 1) ERoundRunning (PRoundAttempt (c_round c) (r_attempt r + 1))
              None (Some (c_round c))
              (add_event (c_task c) (c_owner c) seq EStatusChanged (PStatus Running None) None None d5)))))"
    and f: "find_task (c_owner c) (c_task c) d2 = Some t"
    by (rule claim_round_eq [OF assms(1,2) Cons])
  show ?thesis
    using assms(3) unfolding eq
    by (auto simp: bindE_Inl_iff inc_running_find lease_slot_find f alloc_seq_Inl_iff
        dest: inc_running_Inl lease_slot_Inl)
qed

text \<open>A pending round whose owner is below the running limit is claimed as soon as a slot is free.\<close>

lemma claim_progress:
  assumes "good d" and "r \<in> set (rounds d)" and "r_state r = RPending"
    and "usage d (r_owner r) = Some u" and "quotas d (r_owner r) = Some q" and "u_running u < q_running q"
    and "s \<in> set (slots d)" and "\<not> s_leased s"
  shows "\<exists>out d'. claim_round iid ttl (cand_of r) now d = Inr (out, d')"
proof -
  let ?c = "cand_of r"
  have c: "cand_ok ?c d" using scanned_rounds [OF assms(1,2)] by simp
  have "r \<in> set (sel_rounds (c_owner ?c) (\<lambda>x. r_id x = c_round ?c \<and> r_state x = RPending) d)"
    using assms(2,3) by (simp add: sel_rounds_mem cand_of_def)
  then obtain q' qs where sel: "sel_rounds (c_owner ?c) (\<lambda>x. r_id x = c_round ?c \<and> r_state x = RPending) d = q' # qs"
    by (cases "sel_rounds (c_owner ?c) (\<lambda>x. r_id x = c_round ?c \<and> r_state x = RPending) d") auto
  obtain d2 t where eq: "claim_round iid ttl ?c now d =
      bindE (inc_running (c_owner ?c) d2) (\<lambda>d3. bindE (lease_slot (c_task ?c) (now + ttl) d3) (\<lambda>d4.
        bindE (alloc_seq (c_owner ?c) (c_task ?c) 2 d4) (\<lambda>(seq, d5).
          Inr ([status_frame seq Running None],
            add_event (c_task ?c) (c_owner ?c) (seq + 1) ERoundRunning (PRoundAttempt (c_round ?c) (r_attempt q' + 1))
              None (Some (c_round ?c))
              (add_event (c_task ?c) (c_owner ?c) seq EStatusChanged (PStatus Running None) None None d5)))))"
    and f: "find_task (c_owner ?c) (c_task ?c) d2 = Some t" "usage d2 = usage d" "quotas d2 = quotas d" "slots d2 = slots d"
    by (rule claim_round_eq [OF assms(1) c sel])
  have own: "c_owner ?c = r_owner r" by (simp add: cand_of_def)
  define d3 where "d3 = d2\<lparr>usage := (usage d2)(r_owner r \<mapsto> u\<lparr>u_running := u_running u + 1\<rparr>)\<rparr>"
  have 3: "inc_running (c_owner ?c) d2 = Inr d3"
    using assms(4-6) f(2,3) by (simp add: inc_running_def own d3_def)
  have "s \<in> set (sort_key s_no (filter (\<lambda>s. \<not> s_leased s) (slots d3)))"
    using assms(7,8) f(4) by (simp add: d3_def)
  then obtain d4 where 4: "lease_slot (c_task ?c) (now + ttl) d3 = Inr d4"
    by (cases "sort_key s_no (filter (\<lambda>s. \<not> s_leased s) (slots d3))") (auto simp: lease_slot_def)
  have "find_task (c_owner ?c) (c_task ?c) d4 = Some t"
    using lease_slot_find [OF 4] inc_running_find [OF 3] f(1) by simp
  then show ?thesis unfolding eq by (simp add: 3 4 alloc_seq_def)
qed

text \<open>The other jobs.\<close>

lemma reclaim_no_fault:
  assumes "good d" and "cand_ok c d" and "reclaim_expired_round c lo le d = Inl e"
  shows "e = CandidateDropped"
proof -
  let ?me = "c_owner c" and ?i = "c_task c"
  let ?F = "\<lambda>r. r_id r = c_round c \<and> r_state r = RRunning \<and> owns_lease lo le r"
  show ?thesis
  proof (cases "sel_rounds ?me ?F d")
    case Nil
    then show ?thesis using assms(3) by (simp add: reclaim_expired_round_def)
  next
    case (Cons r rs)
    then have r: "r \<in> set (rounds d)" "r_owner r = ?me" "r_id r = c_round c" "r_state r = RRunning"
      using sel_rounds_mem [of r ?me ?F d] by auto
    have rt: "r_task r = ?i" using assms(2) r by (auto simp: cand_ok_def)
    obtain t where t: "task_at d ?i = Some t" "t_owner t = ?me"
      using active_round_task [OF assms(1) r(1)] r(2,4) rt by (metis active_state.simps(2))
    have "find_task ?me ?i d = Some t"
      using find_task_task_at assms(1) t(1,2) by (auto simp: good_def)
    then show ?thesis
      using assms(3) Cons
      by (auto simp: reclaim_expired_round_def Let_def bindE_Inl_iff alloc_seq_Inl_iff split: if_splits)
  qed
qed

lemma cancel_no_fault:
  assumes "good d" and "cand_ok c d" and "cancel_cancelling_round c d = Inl e"
  shows "e = CandidateDropped"
proof (cases "sel_rounds (c_owner c) (\<lambda>r. r_id r = c_round c \<and> r_state r = RCancelling) d = []")
  case True
  then show ?thesis using assms(3) by (simp add: cancel_cancelling_round_def)
next
  case False
  let ?me = "c_owner c" and ?i = "c_task c"
  obtain r where "r \<in> set (sel_rounds ?me (\<lambda>r. r_id r = c_round c \<and> r_state r = RCancelling) d)"
    by (rule sel_rounds_Cons [OF False])
  then have r: "r \<in> set (rounds d)" "r_owner r = ?me" "r_id r = c_round c" "r_state r = RCancelling"
    using sel_rounds_mem by auto
  have rt: "r_task r = ?i" using assms(2) r by (auto simp: cand_ok_def)
  obtain t where t: "task_at d ?i = Some t" "t_owner t = ?me"
    using active_round_task [OF assms(1) r(1)] r(2,4) rt by (metis active_state.simps(3))
  have "find_task ?me ?i d = Some t"
    using find_task_task_at assms(1) t(1,2) by (auto simp: good_def)
  then show ?thesis
    using assms(3) False
    by (auto simp: cancel_cancelling_round_def Let_def bindE_Inl_iff alloc_seq_Inl_iff split: if_splits)
qed

lemma sweep_upload_no_fault:
  assumes "good d" and "sweep_upload_task c d = Inl e"
  shows "e = CandidateDropped"
proof (cases "n_tasks (snd c) (\<lambda>t. t_id t = fst c \<and> t_status t = Uploading) d = 0")
  case True
  then show ?thesis using assms(2) by (simp add: sweep_upload_task_def Let_def)
next
  case False
  from n_tasks_find [OF goodD(1) [OF assms(1)] False]
  obtain t where t: "task_at d (fst c) = Some t" "t_owner t = snd c" by metis
  have "find_task (snd c) (fst c) d = Some t"
    using find_task_task_at assms(1) t by (auto simp: good_def)
  then show ?thesis
    using assms(2) False
    by (auto simp: sweep_upload_task_def Let_def bindE_Inl_iff alloc_seq_Inl_iff split: if_splits)
qed

text \<open>A batch whose items cannot fail runs to its end.\<close>

lemma run_batch_total:
  assumes "I d" and "\<And>c d e. c \<in> set cs \<Longrightarrow> I d \<Longrightarrow> f c d = Inl e \<Longrightarrow> e = CandidateDropped"
    and "\<And>c d x d'. c \<in> set cs \<Longrightarrow> I d \<Longrightarrow> f c d = Inr (x, d') \<Longrightarrow> I d'"
  shows "\<exists>d' xs. run_batch f cs d = (d', xs, None) \<and> I d'"
  using assms
proof (induction cs arbitrary: d)
  case (Cons c cs)
  show ?case
  proof (cases "f c d")
    case (Inl e)
    then have e: "e = CandidateDropped" using Cons.prems by (meson list.set_intros(1))
    obtain d' xs where "run_batch f cs d = (d', xs, None)" "I d'"
      using Cons.IH [of d] Cons.prems by (meson list.set_intros(2))
    then show ?thesis using Inl e by simp
  next
    case (Inr p)
    obtain x d1 where p: "p = (x, d1)" by force
    then have "I d1" using Cons.prems Inr by (meson list.set_intros(1))
    then obtain d' xs where "run_batch f cs d1 = (d', xs, None)" "I d'"
      using Cons.IH [of d1] Cons.prems(2,3) by (meson list.set_intros(2))
    then show ?thesis using Inr p by simp
  qed
qed simp

definition batch_ok :: "cand set \<Rightarrow> db \<Rightarrow> bool" where
  "batch_ok C d \<longleftrightarrow> good d \<and> (\<forall>c\<in>C. cand_ok c d)"

lemma batch_ok_step:
  assumes "batch_ok C d" and "ok_step me i d d'" and "rows_evolve {} (rounds d) (rounds d')"
  shows "batch_ok C d'"
  using assms cand_ok_evolve [OF assms(3)] by (auto simp: batch_ok_def ok_step_def)

lemma dispatch_once_total:
  assumes "good d"
  shows "\<exists>d' xs. dispatch_once b iid now d = (d', xs, None) \<and> good d'"
proof -
  let ?C = "set (dispatch_candidates d)"
  have 0: "batch_ok ?C d"
    using assms scanned_rounds(1) [OF assms] dispatch_candidates_mem by (fastforce simp: batch_ok_def)
  have "\<exists>d' xs. run_batch (\<lambda>c. claim_round iid lease_ttl_seconds c now) (dispatch_candidates d) d = (d', xs, None)
      \<and> batch_ok ?C d'"
  proof (rule run_batch_total [where I = "batch_ok ?C"], rule 0)
    fix c d e assume "c \<in> ?C" "batch_ok ?C d" "claim_round iid lease_ttl_seconds c now d = Inl e"
    then show "e = CandidateDropped" using claim_no_fault by (auto simp: batch_ok_def)
  next
    fix c d x d' assume c: "c \<in> ?C" and b: "batch_ok ?C d" and r: "claim_round iid lease_ttl_seconds c now d = Inr (x, d')"
    then have "ok_step (c_owner c) (c_task c) d d'" using claim_round_ok by (auto simp: batch_ok_def)
    from batch_ok_step [OF b this claim_rounds [OF r]] show "batch_ok ?C d'" .
  qed
  then show ?thesis using assms by (auto simp: dispatch_once_def batch_ok_def)
qed

lemma reclaim_once_total:
  assumes "good d"
  shows "\<exists>d' xs. reclaim_once alive now d = (d', xs, None) \<and> good d'"
proof -
  let ?C = "rc_cand ` set (reclaim_candidates now d)"
  have 0: "batch_ok ?C d"
    using assms scanned_rounds(1) [OF assms] reclaim_candidates_mem by (fastforce simp: batch_ok_def)
  have "\<exists>d' xs. run_batch (reclaim_one alive) (reclaim_candidates now d) d = (d', xs, None) \<and> batch_ok ?C d'"
  proof (rule run_batch_total [where I = "batch_ok ?C"], rule 0)
    fix c d1 e assume "c \<in> set (reclaim_candidates now d)" "batch_ok ?C d1" "reclaim_one alive c d1 = Inl e"
    then show "e = CandidateDropped"
      using reclaim_no_fault cancel_no_fault
      by (auto simp: batch_ok_def reclaim_one_def split: if_splits option.splits bool.splits)
  next
    fix c d1 x d' assume c: "c \<in> set (reclaim_candidates now d)" and b: "batch_ok ?C d1"
      and r: "reclaim_one alive c d1 = Inr (x, d')"
    have g: "good d1" "cand_ok (rc_cand c) d1" using b c by (auto simp: batch_ok_def)
    from r consider
        "cancel_cancelling_round (rc_cand c) d1 = Inr (x, d')"
      | "reclaim_expired_round (rc_cand c) (rc_lease_owner c) (rc_epoch c) d1 = Inr (x, d')"
      by (auto simp: reclaim_one_def split: if_splits option.splits bool.splits)
    then show "batch_ok ?C d'"
    proof cases
      case 1
      from batch_ok_step [OF b cancel_cancelling_round_ok [OF g 1] cancel_rounds [OF 1]] show ?thesis .
    next
      case 2
      from batch_ok_step [OF b reclaim_expired_round_ok [OF g 2] reclaim_rounds [OF 2]] show ?thesis .
    qed
  qed
  then show ?thesis by (auto simp: reclaim_once_def batch_ok_def)
qed

section \<open>What the user operations return\<close>

lemma lock_task_found:
  "find_task me i d = Some t \<Longrightarrow>
   lock_task me (Uuid i) d = (if t_status t = Deleted then Inl (app_error TASK_NOT_FOUND 404) else Inr t)"
  by (simp add: lock_task_def)

lemma lock_task_missing:
  "find_task me i d = None \<Longrightarrow> lock_task me (Uuid i) d = Inl (app_error TASK_NOT_FOUND 404)"
  by (simp add: lock_task_def)

text \<open>Terminal intents on a task that does not run.\<close>

lemma terminate_queued_returns:
  assumes "find_task me i d = Some t" and "t_status t = Queued" and "terminal \<in> {Completed, Aborted}"
  shows "\<exists>v d' t'. terminate_with terminal reason me (Uuid i) d = Inr ((v, False), d')
     \<and> find_task me i d' = Some t' \<and> t_status t' = terminal \<and> t_abort t' = reason \<and> tv_status v = terminal"
proof -
  let ?d1 = "snd (cancel_pending me i d)"
  have ti: "t_id t = i" "t_owner t = me" using find_task_Some_D [OF assms(1)] by auto
  have f1: "find_task me i ?d1 = Some t" using assms(1) by (simp add: cancel_pending_def Let_def)
  have tr: "terminal \<in> set (valid_transitions Queued)" using assms(3) by auto
  obtain n d1 where p: "cancel_pending me i d = (n, d1)" by force
  then have f: "find_task me i d1 = Some t" using f1 by simp
  show ?thesis
    using assms(2,3) ti f flip_task_Inr [OF f assms(2)] tr
    by (auto simp: terminate_with_def lock_task_found [OF assms(1)] terminalize_queued_def p Let_def
        alloc_seq_def view_of_def)
qed

lemma terminate_ready_returns:
  assumes "find_task me i d = Some t" and "t_status t = Ready" and "terminal \<in> {Completed, Aborted}"
  shows "\<exists>v d' t'. terminate_with terminal reason me (Uuid i) d = Inr ((v, False), d')
     \<and> find_task me i d' = Some t' \<and> t_status t' = terminal \<and> t_abort t' = reason \<and> tv_status v = terminal"
proof -
  have ti: "t_id t = i" "t_owner t = me" using find_task_Some_D [OF assms(1)] by auto
  have tr: "terminal \<in> set (valid_transitions Ready)" using assms(3) by auto
  show ?thesis
    using assms ti flip_task_Inr [OF assms(1,2)] tr
    by (auto simp: terminate_with_def lock_task_found [OF assms(1)] finalize_terminal_def Let_def
        alloc_seq_def view_of_def)
qed

lemma terminate_refused:
  assumes "find_task me i d = Some t" and "t_status t \<in> {Uploading, Completed, Failed, Aborted}"
    and "terminal \<in> {Completed, Aborted}"
  shows "terminate_with terminal reason me (Uuid i) d = Inl (app_error TASK_INVALID_TRANSITION 409)"
proof -
  have "terminal \<notin> set (valid_transitions (t_status t))" using assms(2,3) by auto
  then show ?thesis
    using assms(2) by (auto simp: terminate_with_def lock_task_found [OF assms(1)] finalize_terminal_def
        assert_transition_def)
qed

text \<open>Terminal intents on a running task: the round is told to stop, the intent is recorded.\<close>

lemma terminate_running_returns:
  assumes "good d" and "find_task me i d = Some t" and "t_status t = Running"
  shows "\<exists>v d'. terminate_with terminal reason me (Uuid i) d = Inr ((v, act_of d i \<noteq> []), d')
     \<and> (act_of d i = [] \<longrightarrow> d' = d)
     \<and> (act_of d i \<noteq> [] \<longrightarrow> find_task me i d' = Some (t\<lparr>t_pending := Some terminal\<rparr>)
          \<and> map r_state (act_of d' i) = [RCancelling] \<and> map r_id (act_of d' i) = map r_id (act_of d i))"
proof -
  have pk: "pkeys d" using assms(1) by (simp add: good_def)
  have ti: "t_id t = i" "t_owner t = me" using find_task_Some_D [OF assms(2)] by auto
  have at: "task_at d i = Some t" using find_task_task_at [OF pk] assms(2) by simp
  let ?hit = "\<lambda>r. r_task r = i \<and> active_state (r_state r)"
  have sel: "sel_rounds me ?hit d = act_of d i" by (rule sel_active [OF assms(1) at ti(2)])
  show ?thesis using assms(1) at assms(3)
  proof (cases rule: running_rounds)
    case none
    then show ?thesis
      using assms(2,3) ti sel
      by (auto simp: terminate_with_def lock_task_found [OF assms(2)] request_terminal_while_running_def Let_def)
  next
    case (one r)
    let ?d1 = "upd_rounds me ?hit (\<lambda>r. r\<lparr>r_state := RCancelling\<rparr>) d"
    have f1: "find_task me i ?d1 = Some t" using assms(2) by simp
    have n: "n_tasks me (\<lambda>x. t_id x = i \<and> t_status x = Running) ?d1 \<noteq> 0"
      using n_tasks_pos [OF f1, of "\<lambda>x. t_status x = Running"] assms(3) by simp
    have act: "act_of ?d1 i = [r\<lparr>r_state := RCancelling\<rparr>]"
      using act_of_cancel [OF one(1), of me ?hit] one(2-5) ti(2) by auto
    show ?thesis
      using assms(2,3) ti sel one(1) n act
      by (auto simp: terminate_with_def lock_task_found [OF assms(2)] request_terminal_while_running_def Let_def)
  qed
qed

lemma delete_returns:
  assumes "find_task me i d = Some t" and "t_status t \<noteq> Deleted"
  shows "\<exists>d' t'. delete_task me (Uuid i) d = Inr (i, d') \<and> find_task me i d' = Some t' \<and> t_status t' = Deleted"
proof -
  have ti: "t_id t = i" "t_owner t = me" using find_task_Some_D [OF assms(1)] by auto
  obtain c d1 where p: "pre_delete me i (t_status t) d = (c, d1)" by force
  have "\<exists>u. find_task me i d1 = Some u \<and> t_status u = t_status t"
    using p assms(1) by (auto simp: pre_delete_def cancel_pending_def Let_def split: if_splits)
  then obtain u where u: "find_task me i d1 = Some u" "t_status u = t_status t" by blast
  have ui: "t_id u = i" "t_owner u = me" using find_task_Some_D [OF u(1)] by auto
  show ?thesis
    using assms ti p u ui flip_task_Inr [OF u] delete_always_allowed [OF assms(2)]
    by (auto simp: delete_task_def lock_task_found [OF assms(1)] Let_def alloc_seq_def)
qed

text \<open>Under the invariant a task in a terminal state holds no slot, no running and no active
  reservation; a deleted one holds nothing.\<close>

lemma terminal_holds_nothing:
  assumes "good d" and "task_at d i = Some t" and "terminal_status (t_status t)"
  shows "held_task d i KActive = 0" "held_task d i KRunning = 0" "leased_to d i = 0"
proof -
  have "phase_ok (t_status t) (t_pending t) (map r_state (act_of d i)) (held_task d i KActive) (held_task d i KRunning)"
    by (rule good_task(2) [OF assms(1,2)])
  then show "held_task d i KActive = 0" "held_task d i KRunning = 0"
    using assms(3) by (cases "t_status t"; auto)+
  then show "leased_to d i = 0" using good_task(3) [OF assms(1,2)] by simp
qed

lemma delete_releases_all:
  assumes "good d" and "delete_task me (Uuid i) d = Inr (i, d')"
  shows "held_task d' i k = 0"
proof -
  have ok: "ok_step me i d d'" using delete_task_ok [OF assms] by simp
  obtain t where l: "lock_task me (Uuid i) d = Inr t" using assms(2) by (auto simp: delete_task_def)
  note lt = lock_task_good [OF assms(1) l]
  have ti: "t_id t = i" using lt(1) by simp
  obtain c d1 where p: "pre_delete me i (t_status t) d = (c, d1)" by force
  have pd: "touches me i d d1 \<and> resvs d1 = resvs d \<and> usage d1 = usage d \<and> slots d1 = slots d \<and> pl_used d1 = pl_used d"
    using pre_delete_facts [OF assms(1) lt(2)[unfolded ti] lt(3,4) p] by blast
  obtain d5 where d5: "d' = release_task_holdings me i d5" "resvs d5 = resvs d1" "usage d5 = usage d1" "pl_used d5 = pl_used d1"
  proof -
    obtain d2 q d3 where "flip_task me i (t_status t) (\<lambda>x. x\<lparr>t_status := Deleted\<rparr>) d1 = Inr d2"
      "alloc_seq me i (1 + (if c then 1 else 0)) d2 = Inr (q, d3)"
      "d' = release_task_holdings me i (if c then add_event i me (q + 1) ERoundCancelled (PReason None) None None
          (add_event i me q EStatusChanged (PStatus Deleted None) None None d3)
        else add_event i me q EStatusChanged (PStatus Deleted None) None None d3)"
      using assms(2) l ti p by (auto simp: delete_task_def Let_def)
    then show thesis using that by (auto simp: flip_task_def alloc_seq_Inr_iff split: if_splits)
  qed
  have a: "acct d5" using acct_cong [of d5 d] d5 pd assms(1) by (simp add: good_def)
  have o: "owns_resvs me i d5"
    using good_task(1) [OF assms(1) lt(2)] ti lt(3) d5 pd by (auto simp: owned_def owns_resvs_def resvs_of_def)
  have "find_task me i d' = find_task me i d5" using d5 by simp
  moreover obtain t' where t': "find_task me i d' = Some t'" "t_status t' = Deleted"
    using delete_returns [OF lt(5)[unfolded ti] lt(4)] assms(2) by auto
  ultimately have "d' = rel_booking me i (freed Deleted) d5"
    using release_task_holdings_booking [OF a o, of t'] d5(1) by simp
  then show ?thesis by simp
qed

section \<open>Messages and input\<close>

lemma ready_no_rounds:
  assumes "good d" and "find_task me i d = Some t" and "t_status t = Ready"
  shows "sel_rounds me (\<lambda>r. r_task r = i \<and> active_state (r_state r)) d = []" "act_of d i = []"
proof -
  have at: "task_at d i = Some t" "t_owner t = me"
    using find_task_task_at assms(1,2) by (auto simp: good_def)
  show "act_of d i = []" using good_task(2) [OF assms(1) at(1)] assms(3) by auto
  with sel_active [OF assms(1) at] show "sel_rounds me (\<lambda>r. r_task r = i \<and> active_state (r_state r)) d = []" by simp
qed

lemma send_returns:
  assumes "good d" and "find_task me i d = Some t" and "t_status t = Ready"
    and "validate_initial_message content = Inr ()"
    and "\<forall>r\<in>set (rounds d). r_id r \<noteq> rid \<and> r_source r \<noteq> mid"
  shows "\<exists>fs d' t'. send_message me (Uuid i) content mid rid now d
       = Inr (((mid, t_eseq t + 1, t_eseq t + 3, rid), fs), d')
     \<and> find_task me i d' = Some t' \<and> t_status t' = Queued \<and> t_eseq t' = t_eseq t + 3
     \<and> act_of d' i = [new_round rid i me mid now]
     \<and> map m_content (msgs_of d' i) = map m_content (msgs_of d i) @ [content]
     \<and> map frame_seq fs = [Some (t_eseq t + 1), Some (t_eseq t + 2), Some (t_eseq t + 3)]"
proof -
  have ti: "t_id t = i" "t_owner t = me" using find_task_Some_D [OF assms(2)] by auto
  note nr = ready_no_rounds [OF assms(1-3)]
  define d3 where "d3 = add_event i me (t_eseq t + 1) EMessageSaved (PMessage mid (t_eseq t + 1) User) (Some mid) None
     (add_message mid i me (t_eseq t + 1) User content
       (upd_tasks me (\<lambda>x. t_id x = i) (\<lambda>x. x\<lparr>t_eseq := t_eseq x + 1\<rparr>) d))"
  have f3: "find_task me i d3 = Some (t\<lparr>t_eseq := t_eseq t + 1\<rparr>)" using assms(2) ti by (simp add: d3_def)
  define d6 where "d6 = add_event i me (t_eseq t + 2) EStatusChanged (PStatus Queued None) None None
     (upd_tasks me (\<lambda>x. t_id x = i) (\<lambda>x. x\<lparr>t_eseq := t_eseq x + 2\<rparr>)
       (upd_tasks me (\<lambda>x. t_id x = i \<and> t_status x = Ready) (\<lambda>x. x\<lparr>t_status := Queued\<rparr>) d3))"
  let ?r = "new_round rid i me mid now"
  have "\<not> list_ex (\<lambda>x. r_task x = i \<and> active_state (r_state x)) (rounds d)"
    using nr(2) by (auto simp: act_of_def list_ex_iff filter_empty_conv)
  then have ins: "insert_round ?r d6 = Inr (add_round ?r d6)"
    using assms(5) by (auto simp: insert_round_def add_round_def d6_def d3_def list_ex_iff)
  have "send_message me (Uuid i) content mid rid now d = Inr (((mid, t_eseq t + 1, t_eseq t + 3, rid),
      [FMessage (Some mid) (Some (t_eseq t + 1)) (Some User), status_frame (t_eseq t + 2) Queued None,
       queued_frame (t_eseq t + 3) rid]),
      add_event i me (t_eseq t + 3) ERoundQueued (PRound rid) None (Some rid) (add_round ?r d6))"
    using assms(2,3,4) ti nr(1) flip_task_Inr [OF f3] f3 ins
    by (simp add: send_message_def lock_task_found [OF assms(2)] Let_def alloc_seq_def d3_def [symmetric, simplified]
        d6_def [symmetric, simplified] map_round_conflict_def eval_nat_numeral)
  then show ?thesis
    using assms(2,3) ti nr(2) by (simp add: d6_def d3_def status_frame_def queued_frame_def)
qed

lemma send_busy:
  assumes "good d" and "find_task me i d = Some t" and "t_status t \<noteq> Deleted" and "act_of d i \<noteq> []"
  shows "send_message me (Uuid i) content mid rid now d = Inl round_busy"
proof -
  have at: "task_at d i = Some t" "t_owner t = me"
    using find_task_task_at assms(1,2) by (auto simp: good_def)
  have ti: "t_id t = i" using task_at_D [OF at(1)] by simp
  from sel_active [OF assms(1) at] show ?thesis
    using assms(3,4) ti by (simp add: send_message_def lock_task_found [OF assms(2)] Let_def)
qed

lemma send_wrong_state:
  assumes "good d" and "find_task me i d = Some t" and "t_status t \<notin> {Deleted, Ready}" and "act_of d i = []"
  shows "send_message me (Uuid i) content mid rid now d = Inl (app_error TASK_INVALID_TRANSITION 409)"
proof -
  have at: "task_at d i = Some t" "t_owner t = me"
    using find_task_task_at assms(1,2) by (auto simp: good_def)
  have ti: "t_id t = i" using task_at_D [OF at(1)] by simp
  from sel_active [OF assms(1) at] show ?thesis
    using assms(3,4) ti by (simp add: send_message_def lock_task_found [OF assms(2)] Let_def)
qed

text \<open>What a successful commit leaves behind.\<close>

lemma commit_effect:
  assumes "good d" and "commit_input sha me (Uuid i) manifest rid now d = Inr ((v, h, rd, q), d')"
  shows "rd = rid \<and> h = sha (canonical_json (JArr manifest))
    \<and> (\<exists>t'. find_task me i d' = Some t' \<and> t_status t' = Queued \<and> t_committed t' = Some now \<and> t_manifest t' = Some h)
    \<and> (\<exists>w\<in>set (resvs_of d' i). v_kind w = KTaskRoot \<and> held w \<and> v_bytes w = committed_bytes me i d')
    \<and> filter (\<lambda>f. f_owner f = me \<and> f_task f = i \<and> f_state f = Staged) (files d') = []"
proof -
  obtain t where l: "lock_task me (Uuid i) d = Inr t"
    using assms(2) by (auto simp: commit_input_def)
  note lt = lock_task_good [OF assms(1) l]
  have ti: "t_id t = i" using lt(1) by simp
  have st: "t_status t = Uploading"
    using assms(2) l lt(4)
    by (cases "t_status t") (auto simp: commit_input_def commit_gate_def split: if_splits)
  define h' where "h' = sha (canonical_json (JArr manifest))"
  define d2 where "d2 = upd_files me (\<lambda>f. f_task f = i \<and> f_state f = Staged) (\<lambda>f. f\<lparr>f_state := Committed\<rparr>)
     (upd_tasks me (\<lambda>x. t_id x = i) (\<lambda>x. x\<lparr>t_manifest := Some h', t_committed := Some now\<rparr>) d)"
  define n where "n = committed_bytes me i d2"
  let ?v = "new_resv i me KTaskRoot None n"
  obtain d3 d4 src d5 where d3: "insert_resv ?v d2 = Inr d3" and d4: "charge_storage me n d3 = Inr d4"
    and d5: "insert_round (new_round rid i me src now) d4 = Inr d5"
    and rest: "bindE (flip_task me i Uploading (\<lambda>x. x\<lparr>t_status := Queued\<rparr>) d5) (\<lambda>d6.
       bindE (alloc_seq me i 2 d6) (\<lambda>(seq, d7).
       let d8 = add_event i me seq EStatusChanged (PStatus Queued None) None None d7;
           d9 = add_event i me (seq + 1) ERoundQueued (PRound rid) None (Some rid) d8
       in bindE (load_task_view me i d9) (\<lambda>v. Inr ((v, h', rid, seq + 1), d9)))) = Inr ((v, h, rd, q), d')"
    using assms(2) l ti unfolding commit_input_def Let_def h'_def d2_def n_def
    by (auto simp del: parse_id_Inr_iff split: option.splits)
  obtain u where d4': "d4 = d3\<lparr>usage := (usage d3)(me \<mapsto> u\<lparr>u_storage := u_storage u + n\<rparr>), pl_used := pl_used d3 + n\<rparr>"
    using charge_storage_Inr [OF d4] by metis
  note d5' = insert_round_Inr [OF d5] and d3' = insert_resv_Inr [OF d3]
  define t2 where "t2 = t\<lparr>t_manifest := Some h', t_committed := Some now\<rparr>"
  have f5: "find_task me i d5 = Some t2"
    using lt(3,5) ti by (simp add: d5' d4' d3' d2_def t2_def)
  have s2: "t_status t2 = Uploading" "t_owner t2 = me" "t_id t2 = i" using st lt(3) ti by (simp_all add: t2_def)
  have f5': "files d5 = files d2" "resvs d5 = resvs d @ [?v]" by (simp_all add: d5' d4' d3' d2_def add_round_def add_resv_def)
  define d9 where "d9 = add_event i me (t_eseq t2 + 2) ERoundQueued (PRound rid) None (Some rid)
     (add_event i me (t_eseq t2 + 1) EStatusChanged (PStatus Queued None) None None
     (upd_tasks me (\<lambda>x. t_id x = i) (\<lambda>x. x\<lparr>t_eseq := t_eseq x + 2\<rparr>)
       (upd_tasks me (\<lambda>x. t_id x = i \<and> t_status x = Uploading) (\<lambda>x. x\<lparr>t_status := Queued\<rparr>) d5)))"
  have r: "rd = rid" "h = h'" "d' = d9"
    using rest f5 flip_task_Inr [OF f5 s2(1)] s2 by (auto simp: alloc_seq_Inr_iff Let_def d9_def)
  have fd: "find_task me i d9 = Some (t2\<lparr>t_status := Queued, t_eseq := t_eseq t2 + 2\<rparr>)"
    using f5 s2 by (simp add: d9_def)
  have fl: "files d9 = files d2" "resvs d9 = resvs d @ [?v]" using f5' by (simp_all add: d9_def)
  have "committed_bytes me i d9 = n" using fl by (simp add: committed_bytes_def n_def)
  moreover have "?v \<in> set (resvs_of d9 i)" by (simp add: resvs_of_def fl)
  moreover have "filter (\<lambda>f. f_owner f = me \<and> f_task f = i \<and> f_state f = Staged) (files d9) = []"
    by (auto simp: fl d2_def filter_empty_conv)
  ultimately show ?thesis using r fd by (force simp: h'_def t2_def)
qed

section \<open>Reclaim and settle\<close>

lemma reclaim_effect:
  assumes "good d" and "cand_ok c d" and "r \<in> set (rounds d)" and "r_id r = c_round c" and "r_owner r = c_owner c"
    and "reclaim_expired_round c lo le d = Inr (out, d')"
  shows "\<exists>t'. task_at d' (c_task c) = Some t' \<and> leased_to d' (c_task c) = 0
     \<and> (if attempt_limit \<le> r_attempt r
        then t_status t' = Failed \<and> t_abort t' = Some RoundFailed \<and> act_of d' (c_task c) = []
        else t_status t' = Queued \<and> map r_state (act_of d' (c_task c)) = [RPending])"
proof -
  let ?me = "c_owner c" and ?i = "c_task c"
  let ?F = "\<lambda>r. r_id r = c_round c \<and> r_state r = RRunning \<and> owns_lease lo le r"
  obtain r' rs where sel: "sel_rounds ?me ?F d = r' # rs"
    using assms(6) by (auto simp: reclaim_expired_round_def Let_def split: list.splits)
  then have r': "r' \<in> set (rounds d)" "r_owner r' = ?me" "r_id r' = c_round c" "r_state r' = RRunning"
    using sel_rounds_mem [of r' ?me ?F d] by auto
  have rr: "r' = r" using same_round [OF goodD(1) [OF assms(1)] assms(3) r'(1)] r'(3) assms(4) by simp
  have rt: "r_task r = ?i" using assms(2-5) by (auto simp: cand_ok_def)
  obtain t where t: "task_at d ?i = Some t" "t_owner t = ?me" "t_status t = Running"
    using active_round_task [OF assms(1) r'(1)] r'(2,4) rt rr by (metis active_state.simps(2))
  have ti: "t_id t = ?i" using task_at_D [OF t(1)] by simp
  have ft: "find_task ?me ?i d = Some t" using find_task_task_at assms(1) t(1,2) by (auto simp: good_def)
  have ok: "ok_step ?me ?i d d'" by (rule reclaim_expired_round_ok [OF assms(1,2,6)])
  then have g': "good d'" by (simp add: ok_step_def)
  obtain t' where t': "find_task ?me ?i d' = Some t'"
    "t_status t' = (if attempt_limit \<le> r_attempt r then Failed else Queued)"
    "attempt_limit \<le> r_attempt r \<longrightarrow> t_abort t' = Some RoundFailed"
    using assms(6) sel ft t(2,3) ti rr
    by (auto simp: reclaim_expired_round_def Let_def alloc_seq_Inr_iff split: if_splits)
  have at: "task_at d' ?i = Some t'" using find_task_task_at g' t'(1) by (auto simp: good_def)
  note p = good_task(2,3) [OF g' at]
  show ?thesis
    using p t'(2,3) at by (cases "attempt_limit \<le> r_attempt r") auto
qed

lemma settle_effect:
  assumes "good d" and "ctx_ok x d" and "settle x p finish used mid d = Inr (True, d')"
  shows "\<exists>t'. task_at d' (x_task x) = Some t' \<and> leased_to d' (x_task x) = 0 \<and> act_of d' (x_task x) = []
     \<and> (t_status t' = Ready \<or> t_status t' = Aborted \<and> t_abort t' = Some ProviderKeyRevoked)
     \<and> map m_content (msgs_of d' (x_task x)) = map m_content (msgs_of d (x_task x))
         @ (case p of None \<Rightarrow> [] | Some c \<Rightarrow> [c])"
proof -
  note f = settle_full [OF assms]
  then have g': "good d'" by (simp add: ok_step_def)
  from f obtain t' where at: "task_at d' (x_task x) = Some t'"
    and s: "t_status t' = Ready \<or> t_status t' = Aborted \<and> t_abort t' = Some ProviderKeyRevoked"
    and m: "map m_content (msgs_of d' (x_task x)) = map m_content (msgs_of d (x_task x))
         @ (case p of None \<Rightarrow> [] | Some c \<Rightarrow> [c])" by auto
  have "act_of d' (x_task x) = []" "leased_to d' (x_task x) = 0"
    using good_task(2,3) [OF g' at] s by auto
  then show ?thesis using at s m by blast
qed

section \<open>The cancellation protocol\<close>

lemma cancel_returns:
  assumes "good d" and "r \<in> set (rounds d)" and "r_state r = RCancelling"
    and "find_task (r_owner r) (r_task r) d = Some t"
  shows "\<exists>out d'. cancel_cancelling_round (cand_of r) d = Inr (out, d')
     \<and> find_task (r_owner r) (r_task r) d' = Some (t\<lparr>t_eseq := t_eseq t + 1\<rparr>) \<and> act_of d' (r_task r) = []"
proof -
  let ?me = "r_owner r" and ?i = "r_task r"
  let ?P = "\<lambda>x. r_id x = r_id r \<and> r_state x = RCancelling"
  let ?f = "\<lambda>r. r\<lparr>r_state := RCancelled, r_lease_owner := None, r_expires := None\<rparr>"
  have ti: "t_owner t = ?me" "t_id t = ?i" using find_task_Some_D [OF assms(4)] by auto
  have "r \<in> set (sel_rounds ?me ?P d)" using assms(2,3) by (simp add: sel_rounds_mem)
  then have sel: "sel_rounds ?me ?P d \<noteq> []" by auto
  have act: "act_of (upd_rounds ?me ?P ?f d) ?i = []"
    using act_by_id [where P = ?P and f = ?f, OF assms(1,2) _ refl] assms(3) by simp
  show ?thesis
    using sel assms(4) ti act
    by (auto simp: cancel_cancelling_round_def cand_of_def Let_def alloc_seq_def)
qed

lemma reconcile_returns:
  assumes "good d" and "find_task me i d = Some t" and "t_status t = Running" and "t_pending t = Some s"
  shows "\<exists>out d' t'. reconcile_one (i, me, s) d = Inr (out, d') \<and> find_task me i d' = Some t' \<and> t_status t' = s
     \<and> t_abort t' = (if s = Aborted then Some UserCancel else None) \<and> t_pending t' = None"
proof -
  have ti: "t_owner t = me" "t_id t = i" using find_task_Some_D [OF assms(2)] by auto
  have "n_tasks me (\<lambda>t. t_id t = i \<and> t_status t = Running \<and> t_pending t = Some s) d \<noteq> 0"
    using n_tasks_pos [OF assms(2), of "\<lambda>t. t_status t = Running \<and> t_pending t = Some s"] assms(3,4) by simp
  then show ?thesis
    using assms(2-4) ti by (auto simp: reconcile_one_def Let_def alloc_seq_def)
qed

lemma pending_terminal_mem:
  assumes "find_task me i d = Some t" and "t_status t = Running" and "t_pending t = Some s" and "act_of d i = []"
  shows "(i, me, s) \<in> set (pending_terminal_candidates d)"
proof -
  have t: "t \<in> set (tasks d)" "t_owner t = me" "t_id t = i" using find_task_Some_D [OF assms(1)] by auto
  have "\<not> list_ex (\<lambda>r. r_task r = i \<and> active_state (r_state r)) (rounds d)"
    using assms(4) by (auto simp: act_of_def list_ex_iff filter_empty_conv)
  then show ?thesis
    using t assms(2,3) by (force simp: pending_terminal_candidates_def map_filter_def)
qed

lemma cancellation_completes:
  assumes "good d" and "find_task me i d = Some t" and "t_status t = Running" and "act_of d i = [r]"
    and "terminal \<in> {Completed, Aborted}"
  shows "\<exists>v d1 fs d2 gs d3 t'. terminate_with terminal reason me (Uuid i) d = Inr ((v, True), d1)
     \<and> cancel_cancelling_round (cand_of r) d1 = Inr (fs, d2)
     \<and> (i, me, terminal) \<in> set (pending_terminal_candidates d2)
     \<and> reconcile_one (i, me, terminal) d2 = Inr (gs, d3)
     \<and> find_task me i d3 = Some t' \<and> t_status t' = terminal \<and> act_of d3 i = []
     \<and> held_task d3 i KActive = 0 \<and> held_task d3 i KRunning = 0 \<and> leased_to d3 i = 0"
proof -
  have rm: "r \<in> set (act_of d i)" using assms(4) by simp
  from terminate_running_returns [OF assms(1-3), of terminal reason] assms(4)
  obtain v d1 where 1: "terminate_with terminal reason me (Uuid i) d = Inr ((v, True), d1)"
    "find_task me i d1 = Some (t\<lparr>t_pending := Some terminal\<rparr>)"
    "map r_state (act_of d1 i) = [RCancelling]" "map r_id (act_of d1 i) = [r_id r]" by auto
  have g1: "good d1" using terminate_with_ok [OF assms(1,5) 1(1)] by (auto simp: ok_step_def)
  then have at1: "task_at d1 i = Some (t\<lparr>t_pending := Some terminal\<rparr>)" "t_owner t = me"
    using find_task_task_at 1(2) find_task_Some_D [OF assms(2)] by (auto simp: good_def)
  from 1(3,4) obtain r1 where a1: "act_of d1 i = [r1]" "r_state r1 = RCancelling" "r_id r1 = r_id r" by auto
  then have r1: "r1 \<in> set (rounds_of d1 i)" using act_of_mem [of r1 d1 i] by simp
  then have r1': "r1 \<in> set (rounds d1)" "r_task r1 = i" by (simp_all add: rounds_of_def)
  have o1: "r_owner r1 = me" using good_task(1) [OF g1 at1(1)] r1 at1(2) by (auto simp: owned_def)
  have "task_at d i = Some t" using find_task_task_at assms(1,2) by (auto simp: good_def)
  then have or: "r_owner r = me" "r_task r = i"
    using good_task(1) [OF assms(1)] rm act_of_mem [of r d i] rounds_of_task [of r d i] at1(2)
    by (auto simp: owned_def)
  have c1: "cand_of r1 = cand_of r" using a1(3) o1 or r1'(2) by (simp add: cand_of_def)
  from cancel_returns [OF g1 r1'(1) a1(2), of "t\<lparr>t_pending := Some terminal\<rparr>"] 1(2) o1 r1'(2) c1
  obtain fs d2 where 2: "cancel_cancelling_round (cand_of r) d1 = Inr (fs, d2)"
    "find_task me i d2 = Some (t\<lparr>t_pending := Some terminal, t_eseq := t_eseq t + 1\<rparr>)" "act_of d2 i = []"
    by auto
  have "cand_ok (cand_of r) d1" using scanned_rounds(1) [OF g1 r1'(1)] c1 by simp
  then have g2: "good d2" using cancel_cancelling_round_ok [OF g1 _ 2(1)] by (auto simp: ok_step_def)
  let ?t2 = "t\<lparr>t_pending := Some terminal, t_eseq := t_eseq t + 1\<rparr>"
  have s2: "t_status ?t2 = Running" "t_pending ?t2 = Some terminal" using assms(3) by simp_all
  have c2: "(i, me, terminal) \<in> set (pending_terminal_candidates d2)"
    by (rule pending_terminal_mem [OF 2(2) s2 2(3)])
  from reconcile_returns [OF g2 2(2) s2] obtain gs d3 t' where 3: "reconcile_one (i, me, terminal) d2 = Inr (gs, d3)"
    "find_task me i d3 = Some t'" "t_status t' = terminal" by auto
  have g3: "good d3"
    using reconcile_one_ok [OF g2 pending_terminal_rest [OF g2 c2] 3(1)] by (simp add: ok_step_def)
  then have at3: "task_at d3 i = Some t'" using find_task_task_at 3(2) by (auto simp: good_def)
  have "act_of d3 i = []" using good_task(2) [OF g3 at3] 3(3) assms(5) by auto
  then show ?thesis
    using 1(1) 2(1) c2 3 terminal_holds_nothing [OF g3 at3] assms(5) by auto
qed

end
