(* ===== verification/Task_Counting.thy ===== *)
theory Task_Counting
  imports Task_System
begin

text \<open>
  Counting over the tables: the per-user counters and the platform slots, which the code keeps
  incrementally, equal or bound the numbers of tasks and rounds in the corresponding states.
\<close>

section \<open>Grouping a count by a key\<close>

lemma sum_list_bump:
  assumes "distinct ids" and "x \<in> set ids"
  shows "(\<Sum>i\<leftarrow>ids. if x = i then Suc (f i) else f i) = Suc (\<Sum>i\<leftarrow>ids. f i)"
  using assms
proof (induction ids)
  case (Cons a ids)
  show ?case
  proof (cases "x = a")
    case True
    then have "(\<Sum>i\<leftarrow>ids. if x = i then Suc (f i) else f i) = (\<Sum>i\<leftarrow>ids. f i)"
      using Cons.prems(1) by (intro arg_cong [where f = sum_list] map_cong) auto
    then show ?thesis using True by simp
  next
    case False
    then show ?thesis using Cons by simp
  qed
qed simp

lemma rowcount_group:
  assumes "distinct ids" and "\<And>v. v \<in> set vs \<Longrightarrow> P v \<Longrightarrow> k v \<in> set ids"
  shows "rowcount P vs = (\<Sum>i\<leftarrow>ids. rowcount (\<lambda>v. P v \<and> k v = i) vs)"
  using assms(2)
proof (induction vs)
  case (Cons v vs)
  then have IH: "rowcount P vs = (\<Sum>i\<leftarrow>ids. rowcount (\<lambda>v. P v \<and> k v = i) vs)" by simp
  show ?case
  proof (cases "P v")
    case True
    then have "k v \<in> set ids" using Cons.prems by simp
    from sum_list_bump [OF assms(1) this, of "\<lambda>i. rowcount (\<lambda>v. P v \<and> k v = i) vs"]
    show ?thesis using True IH by simp
  next
    case False
    then show ?thesis using IH by simp
  qed
qed simp

lemma rowcount_group_le:
  assumes "distinct ids"
  shows "(\<Sum>i\<leftarrow>ids. rowcount (\<lambda>v. P v \<and> k v = Some i) vs) \<le> rowcount P vs"
proof (induction vs)
  case (Cons v vs)
  show ?case
  proof (cases "P v \<and> (\<exists>i\<in>set ids. k v = Some i)")
    case True
    then obtain i where i: "i \<in> set ids" "k v = Some i" "P v" by blast
    have "(\<Sum>j\<leftarrow>ids. rowcount (\<lambda>v. P v \<and> k v = Some j) (v # vs))
        = (\<Sum>j\<leftarrow>ids. if i = j then Suc (rowcount (\<lambda>v. P v \<and> k v = Some j) vs)
            else rowcount (\<lambda>v. P v \<and> k v = Some j) vs)"
      by (intro arg_cong [where f = sum_list] map_cong) (auto simp: i)
    also have "\<dots> = Suc (\<Sum>j\<leftarrow>ids. rowcount (\<lambda>v. P v \<and> k v = Some j) vs)"
      by (rule sum_list_bump [OF assms i(1)])
    finally show ?thesis using Cons i(3) by simp
  next
    case False
    then have "(\<Sum>j\<leftarrow>ids. rowcount (\<lambda>v. P v \<and> k v = Some j) (v # vs))
        = (\<Sum>j\<leftarrow>ids. rowcount (\<lambda>v. P v \<and> k v = Some j) vs)"
      by (intro arg_cong [where f = sum_list] map_cong) auto
    then show ?thesis using Cons by simp
  qed
qed (induction ids, simp_all)

lemma sum_list_indicator: "(\<Sum>x\<leftarrow>filter P xs. if Q x then 1 else 0) = rowcount (\<lambda>x. P x \<and> Q x) xs"
  by (induction xs) auto

lemma sum_list_le: "(\<And>x. x \<in> set xs \<Longrightarrow> f x \<le> (g x :: nat)) \<Longrightarrow> sum_list (map f xs) \<le> sum_list (map g xs)"
  by (induction xs) (auto intro: add_mono)

section \<open>Counters\<close>

lemma task_at_mem:
  assumes "pkeys d" and "t \<in> set (tasks d)"
  shows "task_at d (t_id t) = Some t"
proof -
  have "distinct (map t_id (tasks d))" using assms(1) by (simp add: pkeys_def)
  from find_key [OF this assms(2), of "\<lambda>_. True"] show ?thesis by (simp add: task_at_def)
qed

lemma resv_task:
  assumes "good d" and "v \<in> set (resvs d)"
  obtains t where "task_at d (v_task v) = Some t" "t_owner t = v_user v"
proof -
  have v: "v \<in> set (resvs_of d (v_task v))" using assms(2) by (simp add: resvs_of_def)
  then obtain t where t: "task_at d (v_task v) = Some t"
    using none_task(2) [OF assms(1), of "v_task v"] by (cases "task_at d (v_task v)") auto
  then have "t_owner t = v_user v" using good_task(1) [OF assms(1) t] v by (auto simp: owned_def)
  with t show thesis by (rule that)
qed

lemma held_user_tasks:
  assumes "good d"
  shows "held_user d u k = (\<Sum>t\<leftarrow>filter (\<lambda>t. t_owner t = u) (tasks d). held_task d (t_id t) k)"
proof -
  let ?ts = "filter (\<lambda>t. t_owner t = u) (tasks d)"
  have pk: "pkeys d" using assms by (simp add: good_def)
  have dist: "distinct (map t_id ?ts)" using pk by (simp add: pkeys_def distinct_map_filter)
  have mem: "v_task v \<in> set (map t_id ?ts)" if "v \<in> set (resvs d)" "v_user v = u \<and> v_kind v = k \<and> held v" for v
  proof -
    from resv_task [OF assms that(1)] obtain t where "task_at d (v_task v) = Some t" "t_owner t = v_user v" .
    then show ?thesis using task_at_D that(2) by force
  qed
  have "held_user d u k = (\<Sum>i\<leftarrow>map t_id ?ts. rowcount (\<lambda>v. (v_user v = u \<and> v_kind v = k \<and> held v) \<and> v_task v = i) (resvs d))"
    unfolding held_user_def by (rule rowcount_group [OF dist mem])
  also have "\<dots> = (\<Sum>i\<leftarrow>map t_id ?ts. held_task d i k)"
  proof (intro arg_cong [where f = sum_list] map_cong refl)
    fix i assume "i \<in> set (map t_id ?ts)"
    then obtain t where t: "t \<in> set (tasks d)" "t_owner t = u" "t_id t = i" by auto
    have "owned d i u" using good_task(1) [OF assms] task_at_mem [OF pk t(1)] t by auto
    then have "v_user v = u" if "v \<in> set (resvs d)" "v_task v = i" for v
      using that by (auto simp: owned_def resvs_of_def)
    then show "rowcount (\<lambda>v. (v_user v = u \<and> v_kind v = k \<and> held v) \<and> v_task v = i) (resvs d) = held_task d i k"
      unfolding held_task_def by (intro rowcount_cong) auto
  qed
  finally show ?thesis by (simp add: comp_def)
qed

lemma phase_active: "phase_ok s p a na nr \<Longrightarrow> na = (if terminal_status s then 0 else 1)"
  by (cases s) auto

lemma phase_running: "phase_ok s p a na nr \<Longrightarrow> nr = (if s = Running \<and> a \<noteq> [] then 1 else 0)"
  by (cases s) auto

lemma held_active_count:
  assumes "good d"
  shows "held_user d u KActive = rowcount (\<lambda>t. t_owner t = u \<and> \<not> terminal_status (t_status t)) (tasks d)"
proof -
  have "held_task d (t_id t) KActive = (if \<not> terminal_status (t_status t) then 1 else 0)"
    if "t \<in> set (tasks d)" for t
    using phase_active [OF good_task(2) [OF assms task_at_mem [OF goodD(1) [OF assms] that]]] by simp
  then have "(\<Sum>t\<leftarrow>filter (\<lambda>t. t_owner t = u) (tasks d). held_task d (t_id t) KActive)
      = (\<Sum>t\<leftarrow>filter (\<lambda>t. t_owner t = u) (tasks d). if \<not> terminal_status (t_status t) then 1 else 0)"
    by (intro arg_cong [where f = sum_list] map_cong) auto
  then show ?thesis using held_user_tasks [OF assms] by (simp add: sum_list_indicator)
qed

lemma held_running_count:
  assumes "good d"
  shows "held_user d u KRunning
     = rowcount (\<lambda>t. t_owner t = u \<and> t_status t = Running \<and> act_of d (t_id t) \<noteq> []) (tasks d)"
proof -
  have "held_task d (t_id t) KRunning = (if t_status t = Running \<and> act_of d (t_id t) \<noteq> [] then 1 else 0)"
    if "t \<in> set (tasks d)" for t
    using phase_running [OF good_task(2) [OF assms task_at_mem [OF goodD(1) [OF assms] that]]] by simp
  then have "(\<Sum>t\<leftarrow>filter (\<lambda>t. t_owner t = u) (tasks d). held_task d (t_id t) KRunning)
      = (\<Sum>t\<leftarrow>filter (\<lambda>t. t_owner t = u) (tasks d).
            if t_status t = Running \<and> act_of d (t_id t) \<noteq> [] then 1 else 0)"
    by (intro arg_cong [where f = sum_list] map_cong) auto
  then show ?thesis using held_user_tasks [OF assms] by (simp add: sum_list_indicator)
qed

section \<open>Slots\<close>

lemma running_rounds_slots:
  assumes "good d"
  shows "rowcount (\<lambda>r. r_state r = RRunning) (rounds d) \<le> rowcount s_leased (slots d)"
proof -
  have pk: "pkeys d" using assms by (simp add: good_def)
  have dist: "distinct (map t_id (tasks d))" using pk by (simp add: pkeys_def)
  have mem: "r_task r \<in> set (map t_id (tasks d))" if "r \<in> set (rounds d)" "r_state r = RRunning" for r
  proof -
    have "active_state (r_state r)" using that(2) by simp
    from active_round_task [OF assms that(1) this] obtain t where "task_at d (r_task r) = Some t" by metis
    from task_at_D [OF this] show ?thesis by force
  qed
  have "rowcount (\<lambda>r. r_state r = RRunning) (rounds d)
      = (\<Sum>i\<leftarrow>map t_id (tasks d). rowcount (\<lambda>r. r_state r = RRunning \<and> r_task r = i) (rounds d))"
    by (rule rowcount_group [OF dist mem])
  also have "\<dots> \<le> (\<Sum>i\<leftarrow>map t_id (tasks d). leased_to d i)"
  proof (rule sum_list_le)
    fix i assume "i \<in> set (map t_id (tasks d))"
    then obtain t where t: "t \<in> set (tasks d)" "t_id t = i" by auto
    have at: "task_at d i = Some t" using task_at_mem [OF pk t(1)] t(2) by simp
    note g = good_task [OF assms at]
    have "rowcount (\<lambda>r. r_state r = RRunning \<and> r_task r = i) (rounds d)
        = length (filter (\<lambda>r. r_state r = RRunning) (act_of d i))"
      by (auto simp: rowcount_def act_of_def intro!: arg_cong [where f = length] filter_cong)
    also have "\<dots> \<le> held_task d i KRunning"
    proof (cases "act_of d i")
      case (Cons r rs)
      then show ?thesis using g(2) by (cases "t_status t") auto
    qed simp
    finally show "rowcount (\<lambda>r. r_state r = RRunning \<and> r_task r = i) (rounds d) \<le> leased_to d i"
      using g(3) by simp
  qed
  also have "\<dots> \<le> rowcount s_leased (slots d)"
    unfolding leased_to_def by (rule rowcount_group_le [OF dist])
  finally show ?thesis .
qed

end
