(* ===== verification/Base64.thy ===== *)
theory Base64
  imports AC_Prelude "HOL-Library.Word"
begin

text \<open>
  Base 64 as the standard library's \<open>base64\<close> module does it: the strict decoder of the tool callbacks
  (\<open>backend/api/internal.py\<close>) and the lenient one of the URL-safe alphabet, which the envelopes of
  \<open>backend/utils/crypto.py\<close> use without padding.
\<close>

type_synonym octets = "8 word list"

section \<open>The standard alphabet\<close>

text \<open>A digit is a number below 64, a byte an 8-bit word.\<close>

definition b64_char :: "nat \<Rightarrow> nat" where
  "b64_char n = (if n < 26 then 65 + n else if n < 52 then 71 + n else if n < 62 then n - 4 else if n = 62 then 43 else 47)"

definition b64_value :: "nat \<Rightarrow> nat option" where
  "b64_value c =
     (if 65 \<le> c \<and> c \<le> 90 then Some (c - 65) else if 97 \<le> c \<and> c \<le> 122 then Some (c - 71)
      else if 48 \<le> c \<and> c \<le> 57 then Some (c + 4) else if c = 43 then Some 62 else if c = 47 then Some 63 else None)"

fun b64_digits :: "nat list \<Rightarrow> nat list" where
  "b64_digits (x # y # z # r) =
     x div 4 # ((x mod 4) * 16 + y div 16) # ((y mod 16) * 4 + z div 64) # z mod 64 # b64_digits r"
| "b64_digits [x, y] = [x div 4, (x mod 4) * 16 + y div 16, (y mod 16) * 4]"
| "b64_digits [x] = [x div 4, (x mod 4) * 16]"
| "b64_digits [] = []"

fun b64_values :: "nat list \<Rightarrow> nat list" where
  "b64_values (a # b # c # d # r) =
     (a * 4 + b div 16) # ((b mod 16) * 16 + c div 4) # ((c mod 4) * 64 + d) # b64_values r"
| "b64_values [a, b, c] = [a * 4 + b div 16, (b mod 16) * 16 + c div 4]"
| "b64_values [a, b] = [a * 4 + b div 16]"
| "b64_values _ = []"

definition b64_padding :: "nat \<Rightarrow> nat" where
  "b64_padding n = (if n mod 4 = 2 then 2 else if n mod 4 = 3 then 1 else 0)"

text \<open>\<open>base64.b64encode\<close> and \<open>base64.b64decode(.., validate=True)\<close> (\<open>None\<close> is \<open>binascii.Error\<close>): padding
  is checked after an incomplete group, and ignored after complete ones.\<close>

definition b64_encode :: "octets \<Rightarrow> pystr" where
  "b64_encode bs = (let ds = b64_digits (map unat bs) in map b64_char ds @ replicate (b64_padding (length ds)) 61)"

definition b64_decode :: "pystr \<Rightarrow> octets option" where
  "b64_decode s =
     (let ds = List.map_filter b64_value (takeWhile (\<lambda>c. b64_value c \<noteq> None) s);
          pads = dropWhile (\<lambda>c. b64_value c \<noteq> None) s
      in if list_ex (\<lambda>c. c \<noteq> 61) pads \<or> length ds mod 4 = 1 \<or> (ds = [] \<and> pads \<noteq> [])
            \<or> (length ds mod 4 \<noteq> 0 \<and> length pads \<noteq> b64_padding (length ds))
         then None else Some (map of_nat (b64_values ds)))"

lemma b64_value_char: "n < 64 \<Longrightarrow> b64_value (b64_char n) = Some n"
  by (auto simp: b64_value_def b64_char_def)

lemma small_div: "(x :: nat) < 256 \<Longrightarrow> x div 4 < 64 \<and> x div 16 < 16 \<and> x div 64 < 4"
  by (simp add: less_mult_imp_div_less)

lemma mod_bounds: "(x :: nat) mod 4 < 4 \<and> x mod 16 < 16 \<and> x mod 64 < 64"
  by simp

lemma packed: "q < n \<Longrightarrow> (m * n + q) div n = m \<and> (m * n + q) mod n = (q :: nat)"
  by simp

lemma pack_bound:
  "a < 4 \<Longrightarrow> q < 16 \<Longrightarrow> a * 16 + q < (64 :: nat)" "a < 16 \<Longrightarrow> q < 4 \<Longrightarrow> a * 4 + q < (64 :: nat)"
  "a < 4 \<Longrightarrow> a * 16 < (64 :: nat)" "a < 16 \<Longrightarrow> a * 4 < (64 :: nat)"
  by simp_all

lemma b64_digits_bound: "\<forall>x\<in>set xs. x < 256 \<Longrightarrow> \<forall>d\<in>set (b64_digits xs). d < 64"
proof (induction xs rule: b64_digits.induct)
  case (1 x y z r)
  then have "x < 256" "y < 256" "z < 256" "\<forall>d\<in>set (b64_digits r). d < 64" by simp_all
  then show ?case
    using small_div [of x] small_div [of y] small_div [of z] mod_bounds [of x] mod_bounds [of y] mod_bounds [of z]
      pack_bound(1) [of "x mod 4" "y div 16"] pack_bound(2) [of "y mod 16" "z div 64"]
    by (simp only: b64_digits.simps list.set ball_simps simp_thms)
next
  case (2 x y)
  then have "x < 256" "y < 256" by simp_all
  then show ?case
    using small_div [of x] small_div [of y] mod_bounds [of x] mod_bounds [of y]
      pack_bound(1) [of "x mod 4" "y div 16"] pack_bound(4) [of "y mod 16"]
    by (simp only: b64_digits.simps list.set ball_simps simp_thms)
next
  case (3 x)
  then have "x < 256" by simp
  then show ?case
    using small_div [of x] mod_bounds [of x] pack_bound(3) [of "x mod 4"]
    by (simp only: b64_digits.simps list.set ball_simps simp_thms)
qed simp

lemma group4: "Suc (Suc (Suc (Suc n))) mod 4 = n mod 4"
proof -
  have "Suc (Suc (Suc (Suc n))) = n + 4" by simp
  then show ?thesis by (simp only: mod_add_self2)
qed

lemma b64_values_digits: "\<forall>x\<in>set xs. x < 256 \<Longrightarrow> b64_values (b64_digits xs) = xs \<and> length (b64_digits xs) mod 4 \<noteq> 1"
proof (induction xs rule: b64_digits.induct)
  case (1 x y z r)
  then have "y < 256" "z < 256" "b64_values (b64_digits r) = r" "length (b64_digits r) mod 4 \<noteq> 1" by simp_all
  then show ?case
    using packed [of "y div 16" 16 "x mod 4"] packed [of "z div 64" 4 "y mod 16"] small_div [of y] small_div [of z]
    by (simp only: b64_digits.simps b64_values.simps div_mult_mod_eq list.size add_Suc_right Nat.add_0_right group4 simp_thms list.inject)
next
  case (2 x y)
  then have "y < 256" by simp
  then show ?case
    using packed [of "y div 16" 16 "x mod 4"] small_div [of y]
    by (simp only: b64_digits.simps b64_values.simps) simp
next
  case (3 x)
  then show ?case by (simp only: b64_digits.simps b64_values.simps) simp
qed simp

lemma octets_back: "map of_nat (map unat bs) = (bs :: 8 word list)"
  by (simp add: map_idI)

lemma b64_decode_encode: "b64_decode (b64_encode bs) = Some bs"
proof -
  let ?xs = "map unat bs" let ?ds = "b64_digits ?xs" let ?p = "replicate (b64_padding (length ?ds)) 61"
  have lt: "\<forall>x\<in>set ?xs. x < 256" using unsigned_less [where 'b = 8] by auto
  note b = b64_digits_bound [OF lt] and v = b64_values_digits [OF lt]
  have some: "\<forall>c\<in>set (map b64_char ?ds). b64_value c \<noteq> None" using b by (auto simp: b64_value_char)
  have none: "b64_value 61 = None" by (simp add: b64_value_def)
  have pad: "takeWhile (\<lambda>c. b64_value c \<noteq> None) (replicate n 61) = []"
    "dropWhile (\<lambda>c. b64_value c \<noteq> None) (replicate n 61) = replicate n 61" for n
    by (cases n; simp add: none)+
  have pre: "takeWhile (\<lambda>c. b64_value c \<noteq> None) (us @ replicate n 61) = us"
    "dropWhile (\<lambda>c. b64_value c \<noteq> None) (us @ replicate n 61) = replicate n 61"
    if "\<forall>c\<in>set us. b64_value c \<noteq> None" for us n
    using that by (induction us) (simp_all add: none)
  note t = pre [OF some]
  have "List.map_filter b64_value (map b64_char ds) = ds" if "\<forall>x\<in>set ds. x < 64" for ds
    using that by (induction ds) (simp_all add: List.map_filter_simps b64_value_char)
  note m = this [OF b]
  have e: "?p = []" if "?ds = []" using that by (simp add: b64_padding_def)
  show ?thesis
    unfolding b64_encode_def b64_decode_def Let_def t m
    using v e octets_back by (auto simp: list_ex_iff)
qed

section \<open>The URL-safe alphabet\<close>

text \<open>\<open>urlsafe_b64encode\<close> and \<open>urlsafe_b64decode\<close> swap two characters around the standard functions. The
  decoder is not strict: characters outside the alphabet are skipped, and enough padding ends the input.\<close>

definition to_url :: "nat \<Rightarrow> nat" where "to_url c = (if c = 43 then 45 else if c = 47 then 95 else c)"
definition of_url :: "nat \<Rightarrow> nat" where "of_url c = (if c = 45 then 43 else if c = 95 then 47 else c)"

text \<open>\<open>q\<close> counts the digits of the open group, \<open>p\<close> the padding seen in it; \<open>None\<close> is \<open>binascii.Error\<close>.\<close>

fun lenient_digits :: "nat \<Rightarrow> nat \<Rightarrow> pystr \<Rightarrow> nat list option" where
  "lenient_digits q p [] = (if q = 0 then Some [] else None)"
| "lenient_digits q p (c # cs) =
     (if c = 61 then (if 2 \<le> q then (if 4 \<le> q + p + 1 then Some [] else lenient_digits q (p + 1) cs)
                      else lenient_digits q p cs)
      else (case b64_value c of
              None \<Rightarrow> lenient_digits q p cs
            | Some n \<Rightarrow> map_option ((#) n) (lenient_digits ((q + 1) mod 4) 0 cs)))"

definition lenient_decode :: "pystr \<Rightarrow> octets option" where
  "lenient_decode s =
     (if list_ex (\<lambda>c. 128 \<le> c) s then None
      else map_option (\<lambda>ds. map of_nat (b64_values ds)) (lenient_digits 0 0 s))"

definition strip_pads :: "pystr \<Rightarrow> pystr" where
  "strip_pads s = rev (dropWhile (\<lambda>c. c = 61) (rev s))"

text \<open>\<open>_b64url_encode\<close> and \<open>_b64url_decode\<close> (\<open>None\<close> is \<open>EncryptionError\<close>).\<close>

definition b64url_encode :: "octets \<Rightarrow> pystr" where
  "b64url_encode bs = strip_pads (map to_url (b64_encode bs))"

definition b64url_decode :: "pystr \<Rightarrow> octets option" where
  "b64url_decode s = lenient_decode (map of_url (s @ replicate ((4 - length s mod 4) mod 4) 61))"

lemma url_char: "n < 64 \<Longrightarrow> of_url (to_url (b64_char n)) = b64_char n \<and> to_url (b64_char n) \<noteq> 61"
  by (auto simp: of_url_def to_url_def b64_char_def)

lemma char_range: "n < 64 \<Longrightarrow> b64_char n < 128 \<and> b64_char n \<noteq> 61"
  by (auto simp: b64_char_def)

lemma strip_pads: "\<forall>c\<in>set s. c \<noteq> 61 \<Longrightarrow> strip_pads (s @ replicate n 61) = s"
proof -
  assume a: "\<forall>c\<in>set s. c \<noteq> 61"
  have "dropWhile (\<lambda>c. c = 61) (replicate n 61 @ rev s) = rev s"
    using a by (induction n) (auto simp: dropWhile_eq_self_iff hd_rev)
  then show ?thesis by (simp add: strip_pads_def)
qed

lemma lenient_digits_pads:
  "q < 4 \<Longrightarrow> q \<noteq> 1 \<Longrightarrow> lenient_digits q 0 (replicate ((4 - q) mod 4) 61) = Some []"
proof -
  assume "q < 4" "q \<noteq> 1"
  then have "q = 0 \<or> q = 2 \<or> q = 3" by linarith
  then show ?thesis by (auto simp: numeral_2_eq_2)
qed

lemma lenient_digits_chars:
  "\<forall>d\<in>set ds. d < 64 \<Longrightarrow> (q + length ds) mod 4 \<noteq> 1 \<Longrightarrow> q < 4 \<Longrightarrow>
   lenient_digits q 0 (map b64_char ds @ replicate ((4 - (q + length ds) mod 4) mod 4) 61) = Some ds"
proof (induction ds arbitrary: q)
  case Nil
  then show ?case using lenient_digits_pads [of q] by simp
next
  case (Cons d ds)
  have e: "((q + 1) mod 4 + length ds) mod 4 = (q + length (d # ds)) mod 4"
    by (simp add: mod_add_left_eq)
  have "lenient_digits ((q + 1) mod 4) 0
      (map b64_char ds @ replicate ((4 - ((q + 1) mod 4 + length ds) mod 4) mod 4) 61) = Some ds"
    using Cons.prems e by (intro Cons.IH) simp_all
  then show ?case
    using Cons.prems char_range [of d] b64_value_char [of d] by (simp only: e) simp
qed

lemma b64url_encode_text: "b64url_encode bs = map (to_url \<circ> b64_char) (b64_digits (map unat bs))"
proof -
  have lt: "\<forall>x\<in>set (map unat bs). x < 256" using unsigned_less [where 'b = 8] by auto
  have "map to_url (b64_encode bs) = map (to_url \<circ> b64_char) (b64_digits (map unat bs))
      @ replicate (b64_padding (length (b64_digits (map unat bs)))) 61"
    by (simp add: b64_encode_def Let_def to_url_def)
  then show ?thesis using b64_digits_bound [OF lt] url_char by (simp add: b64url_encode_def strip_pads)
qed

lemma b64url_decode_encode: "b64url_decode (b64url_encode bs) = Some bs"
proof -
  let ?ds = "b64_digits (map unat bs)"
  have lt: "\<forall>x\<in>set (map unat bs). x < 256" using unsigned_less [where 'b = 8] by auto
  note b = b64_digits_bound [OF lt] and v = b64_values_digits [OF lt]
  note e = b64url_encode_text [of bs]
  have u: "map of_url (map (to_url \<circ> b64_char) ?ds @ replicate n 61) = map b64_char ?ds @ replicate n 61" for n
    using b url_char by (simp add: of_url_def)
  have a: "\<not> list_ex (\<lambda>c. 128 \<le> c) (map b64_char ?ds @ replicate n 61)" for n
    using b char_range by (fastforce simp: list_ex_iff)
  have m: "lenient_digits 0 0 (map b64_char ?ds @ replicate ((4 - length ?ds mod 4) mod 4) 61) = Some ?ds"
    using lenient_digits_chars [OF b, of 0] v by simp
  show ?thesis
    by (simp only: b64url_decode_def e length_map lenient_decode_def u a m v octets_back if_False option.map)
qed

end
