(* ===== verification/Key_Sealing.thy ===== *)
theory Key_Sealing
  imports Base64 Content_Hash Task_Files
begin

text \<open>
  Envelope encryption (\<open>backend/utils/crypto.py\<close>) and the two-level sealing of provider keys and MCP
  launch material (\<open>backend/v2/provider_crypto.py\<close>). AES-GCM and \<open>json.loads\<close> are parameters; the
  random bytes are arguments.
\<close>

section \<open>UTF-8\<close>

definition scalar :: "nat \<Rightarrow> bool" where
  "scalar c \<longleftrightarrow> c < 55296 \<or> 57344 \<le> c \<and> c < 1114112"

text \<open>\<open>str.encode\<close> refuses surrogates.\<close>

definition encode_utf8 :: "pystr \<Rightarrow> octets option" where
  "encode_utf8 s = (if list_all scalar s then Some (map of_nat (concat (map utf8_encode s))) else None)"

definition cont :: "nat \<Rightarrow> bool" where
  "cont b \<longleftrightarrow> 128 \<le> b \<and> b < 192"

text \<open>\<open>bytes.decode\<close>, strict: no overlong form, no surrogate, nothing above the last code point.\<close>

fun decode_bytes :: "nat list \<Rightarrow> pystr option" where
  "decode_bytes [] = Some []"
| "decode_bytes (a # r) =
     (if a < 128 then map_option ((#) a) (decode_bytes r)
      else if 194 \<le> a \<and> a < 224 then
        (case r of
           b # r' \<Rightarrow> if cont b then map_option ((#) ((a - 192) * 64 + (b - 128))) (decode_bytes r') else None
         | _ \<Rightarrow> None)
      else if 224 \<le> a \<and> a < 240 then
        (case r of
           b # c # r' \<Rightarrow>
             (let n = ((a - 224) * 64 + (b - 128)) * 64 + (c - 128)
              in if cont b \<and> cont c \<and> 2048 \<le> n \<and> scalar n then map_option ((#) n) (decode_bytes r') else None)
         | _ \<Rightarrow> None)
      else if 240 \<le> a \<and> a < 245 then
        (case r of
           b # c # e # r' \<Rightarrow>
             (let n = (((a - 240) * 64 + (b - 128)) * 64 + (c - 128)) * 64 + (e - 128)
              in if cont b \<and> cont c \<and> cont e \<and> 65536 \<le> n \<and> scalar n then map_option ((#) n) (decode_bytes r') else None)
         | _ \<Rightarrow> None)
      else None)"

definition decode_utf8 :: "octets \<Rightarrow> pystr option" where
  "decode_utf8 bs = decode_bytes (map unat bs)"

lemma split64: "(c :: nat) div 64 * 64 + c mod 64 = c"
  by simp

lemma decode_encode_char: "scalar c \<Longrightarrow> decode_bytes (utf8_encode c @ r) = map_option ((#) c) (decode_bytes r)"
proof -
  assume sc: "scalar c"
  have m: "cont (128 + x mod 64)" "128 + x mod 64 - 128 = x mod 64" for x by (simp_all add: cont_def)
  have q: "c div 4096 = c div 64 div 64" "c div 262144 = c div 64 div 64 div 64" by (simp_all add: div_mult2_eq [symmetric])
  consider "c < 128" | "128 \<le> c" "c < 2048" | "2048 \<le> c" "c < 65536" | "65536 \<le> c" by linarith
  then show ?thesis
  proof cases
    case 1
    then show ?thesis by (simp add: utf8_encode_def)
  next
    case 2
    then have "2 \<le> c div 64" "c div 64 < 32" by (simp_all add: less_mult_imp_div_less div_le_mono [of 128 c 64, simplified])
    then show ?thesis using 2 m by (simp add: utf8_encode_def)
  next
    case 3
    then have "c div 4096 < 16" by (simp add: less_mult_imp_div_less)
    then show ?thesis using 3 sc m split64 [of "c div 64"] by (simp add: utf8_encode_def Let_def q)
  next
    case 4
    then have "c div 262144 < 5" using sc by (simp add: less_mult_imp_div_less scalar_def)
    moreover have "4096 * (c div 64 div 64) + c div 64 mod 64 * 64 + c mod 64 = c"
      using split64 [of c] split64 [of "c div 64"] by linarith
    ultimately show ?thesis using 4 sc m split64 [of "c div 64 div 64"]
      by (simp add: utf8_encode_def Let_def q)
  qed
qed

lemma utf8_octet: "scalar c \<Longrightarrow> b \<in> set (utf8_encode c) \<Longrightarrow> b < 256"
  by (auto simp: utf8_encode_def scalar_def split: if_splits)

lemma decode_encode_utf8: "encode_utf8 s = Some bs \<Longrightarrow> decode_utf8 bs = Some s"
proof -
  assume e: "encode_utf8 s = Some bs"
  then have sc: "\<forall>c\<in>set s. scalar c" and bs: "bs = map of_nat (concat (map utf8_encode s))"
    by (auto simp: encode_utf8_def list_all_iff split: if_splits)
  have w: "map unat (map of_nat ns :: 8 word list) = ns" if "\<forall>n\<in>set ns. n < 256" for ns
    using that by (induction ns) (simp_all add: unat_of_nat)
  have "\<forall>n\<in>set (concat (map utf8_encode s)). n < 256" using sc utf8_octet by auto
  then have u: "map unat bs = concat (map utf8_encode s)" unfolding bs by (rule w)
  have "decode_bytes (concat (map utf8_encode s)) = Some s"
    using sc by (induction s) (simp_all add: decode_encode_char)
  then show ?thesis by (simp add: decode_utf8_def u)
qed

section \<open>Envelopes\<close>

text \<open>What a call of this layer can raise.\<close>

datatype seal_error = EncryptionError | BadSetting | Unhashable | Unencodable

text \<open>AES-256-GCM: key, nonce, text and associated data; the sealed text is the ciphertext followed by the
  tag of 16 bytes.\<close>

record aead =
  aes_seal :: "octets \<Rightarrow> octets \<Rightarrow> octets \<Rightarrow> octets \<Rightarrow> octets"
  aes_open :: "octets \<Rightarrow> octets \<Rightarrow> octets \<Rightarrow> octets \<Rightarrow> octets option"

text \<open>What the code relies on, for the associated data \<open>S\<close> in use: opening gives the text back, and fails
  (\<open>InvalidTag\<close>) under any other associated data of \<open>S\<close>. (A tag of fixed length cannot tell all
  conceivable associated data apart.)\<close>

definition aead_ok :: "aead \<Rightarrow> pystr set \<Rightarrow> bool" where
  "aead_ok A S \<longleftrightarrow> (\<forall>k n p. \<forall>x\<in>S. \<forall>a. encode_utf8 x = Some a \<longrightarrow>
     length (aes_seal A k n p a) = length p + 16
     \<and> (\<forall>y\<in>S. \<forall>b. encode_utf8 y = Some b \<longrightarrow>
          aes_open A k n (aes_seal A k n p a) b = (if a = b then Some p else None)))"

type_synonym keyring = "pystr \<rightharpoonup> octets"

definition nonce_bytes :: nat where "nonce_bytes = 12"
definition tag_bytes :: nat where "tag_bytes = 16"
definition key_bytes :: nat where "key_bytes = 32"

definition k_v :: pystr where "k_v = pystr_of ''v''"
definition k_alg :: pystr where "k_alg = pystr_of ''alg''"
definition k_kid :: pystr where "k_kid = pystr_of ''kid''"
definition k_nonce :: pystr where "k_nonce = pystr_of ''nonce''"
definition k_text :: pystr where "k_text = pystr_of ''ciphertext''"
definition k_tag :: pystr where "k_tag = pystr_of ''tag''"
definition a256gcm :: pystr where "a256gcm = pystr_of ''A256GCM''"

definition encrypt_text ::
  "aead \<Rightarrow> octets \<Rightarrow> pystr \<Rightarrow> pystr \<Rightarrow> keyring \<Rightarrow> pystr \<Rightarrow> seal_error + json" where
  "encrypt_text A nonce plaintext aad ring active =
     (if plaintext = [] then Inl EncryptionError
      else (case ring active of
        None \<Rightarrow> Inl EncryptionError
      | Some key \<Rightarrow>
          (case (encode_utf8 plaintext, encode_utf8 aad) of
             (Some p, Some a) \<Rightarrow>
               (let s = aes_seal A key nonce p a; m = length s - tag_bytes
                in Inr (JObj [(k_v, JInt 1), (k_alg, JStr a256gcm), (k_kid, JStr active),
                     (k_nonce, JStr (b64url_encode nonce)), (k_text, JStr (b64url_encode (take m s))),
                     (k_tag, JStr (b64url_encode (drop m s)))]))
           | _ \<Rightarrow> Inl Unencodable)))"

text \<open>\<open>envelope[k]\<close>: a missing key, and indexing anything but an object, are the same \<open>EncryptionError\<close>.\<close>

definition field :: "pystr \<Rightarrow> json \<Rightarrow> seal_error + json" where
  "field k env =
     (case env of JObj fs \<Rightarrow> (case map_of fs k of None \<Rightarrow> Inl EncryptionError | Some j \<Rightarrow> Inr j)
      | _ \<Rightarrow> Inl EncryptionError)"

definition octets_field :: "pystr \<Rightarrow> json \<Rightarrow> seal_error + octets" where
  "octets_field k env =
     bindE (field k env) (\<lambda>j. case j of
       JStr s \<Rightarrow> (case b64url_decode s of None \<Rightarrow> Inl EncryptionError | Some b \<Rightarrow> Inr b)
     | _ \<Rightarrow> Inl EncryptionError)"

text \<open>\<open>envelope.get("v") == 1\<close> also holds for \<open>True\<close>; a list or an object as \<open>kid\<close> cannot be looked up in
  the keyring, a \<open>TypeError\<close>.\<close>

definition decrypt_text :: "aead \<Rightarrow> json \<Rightarrow> pystr \<Rightarrow> keyring \<Rightarrow> seal_error + pystr" where
  "decrypt_text A env aad ring =
     bindE (field k_kid env) (\<lambda>kid.
     bindE (octets_field k_nonce env) (\<lambda>nonce.
     bindE (octets_field k_text env) (\<lambda>ct.
     bindE (octets_field k_tag env) (\<lambda>tag.
     if field k_v env \<notin> {Inr (JInt 1), Inr (JBool True)} \<or> field k_alg env \<noteq> Inr (JStr a256gcm)
     then Inl EncryptionError
     else (case kid of
       JArr _ \<Rightarrow> Inl Unhashable
     | JObj _ \<Rightarrow> Inl Unhashable
     | JStr k \<Rightarrow>
         (case ring k of
            None \<Rightarrow> Inl EncryptionError
          | Some key \<Rightarrow>
              if length nonce \<noteq> nonce_bytes \<or> length tag \<noteq> tag_bytes then Inl EncryptionError
              else (case encode_utf8 aad of
                 None \<Rightarrow> Inl EncryptionError
               | Some a \<Rightarrow>
                   (case aes_open A key nonce (ct @ tag) a of
                      None \<Rightarrow> Inl EncryptionError
                    | Some p \<Rightarrow> (case decode_utf8 p of None \<Rightarrow> Inl EncryptionError | Some s \<Rightarrow> Inr s))))
     | _ \<Rightarrow> Inl EncryptionError)))))"

section \<open>Keyrings\<close>

fun split_on :: "nat \<Rightarrow> pystr \<Rightarrow> pystr list" where
  "split_on c [] = [[]]"
| "split_on c (x # xs) =
     (if x = c then [] # split_on c xs
      else (case split_on c xs of [] \<Rightarrow> [[x]] | y # ys \<Rightarrow> (x # y) # ys))"

fun read_entries :: "pystr list \<Rightarrow> pystr option \<Rightarrow> keyring \<Rightarrow> seal_error + pystr option \<times> keyring" where
  "read_entries [] first ring = Inr (first, ring)"
| "read_entries (e # es) first ring =
     (let entry = py_strip e;
          kid = py_strip (takeWhile (\<lambda>c. c \<noteq> 58) entry);
          encoded = drop 1 (dropWhile (\<lambda>c. c \<noteq> 58) entry)
      in if 58 \<notin> set entry then Inl EncryptionError
         else (case b64url_decode encoded of
           None \<Rightarrow> Inl EncryptionError
         | Some key \<Rightarrow>
             if length key \<noteq> key_bytes \<or> kid = [] then Inl EncryptionError
             else read_entries es (case first of None \<Rightarrow> Some kid | Some f \<Rightarrow> Some f) (ring(kid \<mapsto> key))))"

definition make_keyring :: "pystr \<Rightarrow> pystr option \<Rightarrow> seal_error + pystr \<times> keyring" where
  "make_keyring raw active =
     (if py_strip raw = [] then Inl EncryptionError
      else bindE (read_entries (split_on 44 raw) None Map.empty) (\<lambda>(first, ring).
        case first of
          None \<Rightarrow> Inl EncryptionError
        | Some f \<Rightarrow>
            (case active of
               None \<Rightarrow> Inr (f, ring)
             | Some a \<Rightarrow> if ring a = None then Inl EncryptionError else Inr (a, ring))))"

section \<open>Sealing a provider key\<close>

definition primary :: "pystr \<Rightarrow> pystr" where "primary raw = pystr_of ''primary:'' @ raw"

definition provider_key_aad :: "pystr \<Rightarrow> pystr" where
  "provider_key_aad pid = pystr_of ''agentcraft:user_providers'' @ [58] @ pid @ pystr_of '':key:v1''"

definition provider_dek_aad :: "pystr \<Rightarrow> pystr" where
  "provider_dek_aad pid = pystr_of ''agentcraft:user_providers'' @ [58] @ pid @ pystr_of '':dek:v1''"

text \<open>\<open>_provider_kek_keyring\<close>: the setting is read at every call; its decoding errors are \<open>ValueError\<close>s.\<close>

definition provider_kek_keyring :: "pystr \<Rightarrow> seal_error + pystr \<times> keyring" where
  "provider_kek_keyring raw =
     (if raw = [] then Inl BadSetting
      else (case b64url_decode raw of
        None \<Rightarrow> Inl BadSetting
      | Some material \<Rightarrow>
          if length material \<noteq> key_bytes then Inl BadSetting else make_keyring (primary raw) None))"

text \<open>\<open>KeySealer.seal\<close> with the bytes \<open>os.urandom\<close> returned: the data key, and one nonce per envelope.\<close>

definition seal :: "aead \<Rightarrow> pystr \<Rightarrow> octets \<times> octets \<times> octets \<Rightarrow> pystr \<Rightarrow> pystr \<Rightarrow> seal_error + pystr \<times> pystr" where
  "seal A kek rnd plaintext pid =
     (case rnd of (d, n1, n2) \<Rightarrow>
       (let dek = b64url_encode d
        in bindE (provider_kek_keyring kek) (\<lambda>(kid, kek_ring).
           bindE (encrypt_text A n1 dek (provider_dek_aad pid) kek_ring kid) (\<lambda>wrapped.
           bindE (make_keyring (primary dek) None) (\<lambda>(dkid, dek_ring).
           bindE (encrypt_text A n2 plaintext (provider_key_aad pid) dek_ring dkid) (\<lambda>sealed.
           Inr (canonical_json sealed, canonical_json wrapped)))))))"

definition loads :: "(pystr \<Rightarrow> json option) \<Rightarrow> pystr \<Rightarrow> seal_error + json" where
  "loads parse s = (case parse s of None \<Rightarrow> Inl EncryptionError | Some j \<Rightarrow> Inr j)"

text \<open>\<open>KeySealer.open\<close>.\<close>

definition unseal ::
  "aead \<Rightarrow> (pystr \<Rightarrow> json option) \<Rightarrow> pystr \<Rightarrow> pystr \<Rightarrow> pystr \<Rightarrow> pystr \<Rightarrow> seal_error + pystr" where
  "unseal A parse kek key_ciphertext dek_wrapped pid =
     bindE (provider_kek_keyring kek) (\<lambda>(_, kek_ring).
     bindE (loads parse dek_wrapped) (\<lambda>wrapped.
     bindE (decrypt_text A wrapped (provider_dek_aad pid) kek_ring) (\<lambda>dek.
     bindE (make_keyring (primary dek) None) (\<lambda>(_, dek_ring).
     bindE (loads parse key_ciphertext) (\<lambda>sealed.
     decrypt_text A sealed (provider_key_aad pid) dek_ring)))))"

definition mask_key_hint :: "pystr \<Rightarrow> pystr" where
  "mask_key_hint s =
     (if length s < 8 then (if s = [] then [] else pystr_of ''****'') else pystr_of ''****'' @ drop (length s - 4) s)"

section \<open>What was sealed opens, under its own identifier only\<close>

lemma map_of_sorted: "distinct (map fst fs) \<Longrightarrow> map_of (sort_fields fs) = map_of fs"
proof (rule map_of_eqI)
  have "mset (sort_fields fs) = mset fs" for fs :: "(pystr \<times> 'a) list"
  proof (induction fs)
    case (Cons f fs)
    have "mset (insert_field f gs) = add_mset f (mset gs)" for gs by (induction gs) auto
    then show ?case using Cons by (simp add: sort_fields_def)
  qed (simp add: sort_fields_def)
  note m = this
  assume d: "distinct (map fst fs)"
  show "set (map fst (sort_fields fs)) = set (map fst fs)" by simp
  show "\<forall>k\<in>set (map fst (sort_fields fs)). map_of (sort_fields fs) k = map_of fs k"
  proof
    fix k assume "k \<in> set (map fst (sort_fields fs))"
    then obtain v where v: "(k, v) \<in> set fs" by auto
    have "mset (map fst (sort_fields fs)) = mset (map fst fs)" using arg_cong [OF m [of fs], of "image_mset fst"] by simp
    then have "distinct (map fst (sort_fields fs))" using d mset_eq_imp_distinct_iff by blast
    then show "map_of (sort_fields fs) k = map_of fs k" using v d by simp
  qed
qed

lemma decrypt_sorted:
  assumes "distinct (map fst fs)" and "\<forall>f\<in>set fs. sorted_json (snd f) = snd f"
  shows "decrypt_text A (sorted_json (JObj fs)) aad ring = decrypt_text A (JObj fs) aad ring"
proof -
  have "map (\<lambda>(k, v). (k, sorted_json v)) fs = fs" using assms(2) by (intro map_idI) auto
  then show ?thesis
    by (simp add: decrypt_text_def octets_field_def field_def map_of_sorted [OF assms(1)])
qed

lemma key_names [simp]:
  "k_v \<noteq> k_alg" "k_v \<noteq> k_kid" "k_v \<noteq> k_nonce" "k_v \<noteq> k_text" "k_v \<noteq> k_tag"
  "k_alg \<noteq> k_v" "k_alg \<noteq> k_kid" "k_alg \<noteq> k_nonce" "k_alg \<noteq> k_text" "k_alg \<noteq> k_tag"
  "k_kid \<noteq> k_v" "k_kid \<noteq> k_alg" "k_kid \<noteq> k_nonce" "k_kid \<noteq> k_text" "k_kid \<noteq> k_tag"
  "k_nonce \<noteq> k_v" "k_nonce \<noteq> k_alg" "k_nonce \<noteq> k_kid" "k_nonce \<noteq> k_text" "k_nonce \<noteq> k_tag"
  "k_text \<noteq> k_v" "k_text \<noteq> k_alg" "k_text \<noteq> k_kid" "k_text \<noteq> k_nonce" "k_text \<noteq> k_tag"
  "k_tag \<noteq> k_v" "k_tag \<noteq> k_alg" "k_tag \<noteq> k_kid" "k_tag \<noteq> k_nonce" "k_tag \<noteq> k_text"
  by code_simp+

text \<open>An envelope read back from its text opens to its plaintext under its own associated data, and not
  under any other.\<close>

lemma decrypt_encrypt:
  assumes A: "aead_ok A S" "aad \<in> S" "aad' \<in> S" and n: "length nonce = nonce_bytes"
    and e: "encrypt_text A nonce s aad ring kid = Inr env"
  shows "decrypt_text A (sorted_json env) aad' ring = (if aad' = aad then Inr s else Inl EncryptionError)"
proof -
  obtain key p a where k: "ring kid = Some key" and p: "encode_utf8 s = Some p" and a: "encode_utf8 aad = Some a"
    and env': "env = JObj [(k_v, JInt 1), (k_alg, JStr a256gcm), (k_kid, JStr kid), (k_nonce, JStr (b64url_encode nonce)),
       (k_text, JStr (b64url_encode (take (length (aes_seal A key nonce p a) - 16) (aes_seal A key nonce p a)))),
       (k_tag, JStr (b64url_encode (drop (length (aes_seal A key nonce p a) - 16) (aes_seal A key nonce p a))))]"
    using e by (auto simp: encrypt_text_def tag_bytes_def Let_def split: if_splits option.splits)
  have len: "length (aes_seal A key nonce p a) = length p + 16" using A a by (simp add: aead_ok_def)
  note env = env' [unfolded len add_diff_cancel_right']
  have op: "aes_open A key nonce (aes_seal A key nonce p a) b = (if a = b then Some p else None)"
    if "encode_utf8 aad' = Some b" for b
    using A a that by (simp add: aead_ok_def)
  have inj: "aad' = aad" if "encode_utf8 aad' = Some a"
    using decode_encode_utf8 [OF that] decode_encode_utf8 [OF a] by simp
  have "field k_kid env = Inr (JStr kid)" "field k_v env = Inr (JInt 1)" "field k_alg env = Inr (JStr a256gcm)"
    "octets_field k_nonce env = Inr nonce" "octets_field k_text env = Inr (take (length p) (aes_seal A key nonce p a))"
    "octets_field k_tag env = Inr (drop (length p) (aes_seal A key nonce p a))"
    by (simp_all add: env field_def octets_field_def b64url_decode_encode)
  then have "decrypt_text A env aad' ring =
      (case encode_utf8 aad' of None \<Rightarrow> Inl EncryptionError
       | Some a' \<Rightarrow> (case aes_open A key nonce (aes_seal A key nonce p a) a' of None \<Rightarrow> Inl EncryptionError
           | Some q \<Rightarrow> (case decode_utf8 q of None \<Rightarrow> Inl EncryptionError | Some t \<Rightarrow> Inr t)))"
    by (simp add: decrypt_text_def k n len tag_bytes_def cong: option.case_cong)
  also have "\<dots> = (if aad' = aad then Inr s else Inl EncryptionError)"
  proof (cases "aad' = aad")
    case True
    then show ?thesis using a op [of a] by (simp add: decode_encode_utf8 [OF p])
  next
    case False
    then have "encode_utf8 aad' \<noteq> Some a" using inj by blast
    then show ?thesis using False by (cases "encode_utf8 aad'") (auto simp: op)
  qed
  finally have "decrypt_text A env aad' ring = (if aad' = aad then Inr s else Inl EncryptionError)" .
  then show ?thesis
    unfolding env by (subst decrypt_sorted) simp_all
qed

text \<open>A keyring of one entry made of a random key.\<close>

lemma split_on_none: "c \<notin> set xs \<Longrightarrow> split_on c xs = [xs]"
  by (induction xs) auto

lemma py_strip_clean: "\<forall>c\<in>set xs. \<not> py_space c \<Longrightarrow> py_strip xs = xs"
proof -
  assume a: "\<forall>c\<in>set xs. \<not> py_space c"
  have "dropWhile py_space ys = ys" if "\<forall>c\<in>set ys. \<not> py_space c" for ys
    using that by (cases ys) auto
  from this [of xs] this [of "rev xs"] a show ?thesis by (simp add: py_strip_def)
qed

definition url_safe :: "nat \<Rightarrow> bool" where
  "url_safe c \<longleftrightarrow> c = 45 \<or> (48 \<le> c \<and> c \<le> 57) \<or> (65 \<le> c \<and> c \<le> 90) \<or> c = 95 \<or> (97 \<le> c \<and> c \<le> 122)"

lemma url_safe_text: "\<forall>c\<in>set (b64url_encode bs). url_safe c"
proof -
  have "\<forall>x\<in>set (map unat bs). x < 256" using unsigned_less [where 'b = 8] by auto
  note b = b64_digits_bound [OF this]
  have c: "url_safe (to_url (b64_char n))" if "n < 64" for n
    using that by (auto simp: url_safe_def to_url_def b64_char_def)
  show ?thesis unfolding b64url_encode_text using b c by auto
qed

lemma key_entry:
  assumes "length d = key_bytes"
  shows "make_keyring (primary (b64url_encode d)) None = Inr (pystr_of ''primary'', [pystr_of ''primary'' \<mapsto> d])"
proof -
  let ?k = "pystr_of ''primary''" let ?e = "b64url_encode d"
  have p: "primary ?e = ?k @ 58 # ?e" by (simp add: primary_def pystr_of_def of_char_def)
  have u: "\<forall>c\<in>set ?e. \<not> py_space c \<and> c \<noteq> 44" using url_safe_text [of d] by (auto simp: url_safe_def py_space_def)
  have k: "\<forall>c\<in>set ?k. \<not> py_space c \<and> c \<noteq> 44 \<and> c \<noteq> 58" by code_simp
  have colon: "\<not> py_space 58" by code_simp
  have w: "\<forall>c\<in>set (?k @ 58 # ?e). \<not> py_space c" "44 \<notin> set (?k @ 58 # ?e)" using u k colon by auto
  have t: "takeWhile (\<lambda>c. c \<noteq> 58) (?k @ 58 # ?e) = ?k" "dropWhile (\<lambda>c. c \<noteq> 58) (?k @ 58 # ?e) = 58 # ?e"
    using k by (simp_all add: takeWhile_append2 dropWhile_append2)
  have ne: "?k \<noteq> []" by (simp add: pystr_of_def)
  have sk: "py_strip ?k = ?k" using k by (intro py_strip_clean) blast
  show ?thesis
    unfolding p make_keyring_def split_on_none [OF w(2)] py_strip_clean [OF w(1)]
    by (simp add: py_strip_clean [OF w(1)] t sk ne b64url_decode_encode assms Let_def)
qed

lemma read_entries_first:
  "read_entries es first ring = Inr (Some f, ring') \<Longrightarrow> (\<forall>g. first = Some g \<longrightarrow> ring g \<noteq> None) \<Longrightarrow> ring' f \<noteq> None"
proof (induction es arbitrary: first ring)
  case (Cons e es)
  let ?k = "py_strip (takeWhile (\<lambda>c. c \<noteq> 58) (py_strip e))"
  let ?f = "case first of None \<Rightarrow> Some ?k | Some f \<Rightarrow> Some f"
  obtain key where r: "read_entries es ?f (ring(?k \<mapsto> key)) = Inr (Some f, ring')"
    using Cons.prems(1) unfolding read_entries.simps Let_def by (auto split: if_splits option.splits)
  have "\<forall>g. ?f = Some g \<longrightarrow> (ring(?k \<mapsto> key)) g \<noteq> None" using Cons.prems(2) by (auto split: option.splits)
  then show ?case by (rule Cons.IH [OF r])
qed simp

lemma make_keyring_active: "make_keyring raw None = Inr (kid, ring) \<Longrightarrow> ring kid \<noteq> None"
  by (auto simp: make_keyring_def split: if_splits option.splits dest: read_entries_first)

text \<open>What the store relies on of \<open>json.loads\<close>: it gives back what \<open>json.dumps\<close> wrote, fields in the order
  of the text.\<close>

definition parses_back :: "(pystr \<Rightarrow> json option) \<Rightarrow> pystr \<Rightarrow> bool" where
  "parses_back parse s \<longleftrightarrow> (\<forall>j. canonical_json j = s \<longrightarrow> parse s = Some (sorted_json j))"

lemma encrypt_succeeds:
  assumes "plaintext \<noteq> []" and "list_all scalar plaintext" and "list_all scalar aad" and "ring active \<noteq> None"
  shows "\<exists>env. encrypt_text A nonce plaintext aad ring active = Inr env"
  using assms by (auto simp: encrypt_text_def encode_utf8_def Let_def)

lemma scalar_aads:
  "list_all scalar pid \<Longrightarrow> list_all scalar (provider_key_aad pid) \<and> list_all scalar (provider_dek_aad pid)"
proof -
  have "list_all scalar (pystr_of ''agentcraft:user_providers'' @ [58])" "list_all scalar (pystr_of '':key:v1'')"
    "list_all scalar (pystr_of '':dek:v1'')"
    by code_simp+
  then show "list_all scalar pid \<Longrightarrow> ?thesis" by (simp add: provider_key_aad_def provider_dek_aad_def)
qed

lemma aads_injective: "provider_key_aad a = provider_key_aad b \<longleftrightarrow> a = b" "provider_dek_aad a = provider_dek_aad b \<longleftrightarrow> a = b"
  by (simp_all add: provider_key_aad_def provider_dek_aad_def)

definition aads :: "pystr set \<Rightarrow> pystr set" where
  "aads ids = provider_key_aad ` ids \<union> provider_dek_aad ` ids"

lemma unseal_sealed:
  assumes "aead_ok A (aads ids)" and "length d = key_bytes" and "length n1 = nonce_bytes" and "length n2 = nonce_bytes"
    and "seal A kek (d, n1, n2) plaintext pid = Inr (ct, dk)" and "pid \<in> ids" and "pid' \<in> ids"
    and "parses_back parse ct" and "parses_back parse dk"
  shows "unseal A parse kek ct dk pid' = (if pid' = pid then Inr plaintext else Inl EncryptionError)"
proof -
  let ?p = "pystr_of ''primary''"
  obtain kid ring w e where k: "provider_kek_keyring kek = Inr (kid, ring)"
    and w: "encrypt_text A n1 (b64url_encode d) (provider_dek_aad pid) ring kid = Inr w"
    and e: "encrypt_text A n2 plaintext (provider_key_aad pid) [?p \<mapsto> d] ?p = Inr e"
    and t: "ct = canonical_json e" "dk = canonical_json w"
    using assms(5) by (auto simp: seal_def Let_def key_entry [OF assms(2)])
  have m: "provider_dek_aad i \<in> aads ids" "provider_key_aad i \<in> aads ids" if "i \<in> ids" for i
    using that by (simp_all add: aads_def)
  note m = m [OF assms(6)] m [OF assms(7)]
  have "loads parse ct = Inr (sorted_json e)" "loads parse dk = Inr (sorted_json w)"
    using assms(8,9) by (simp_all add: loads_def parses_back_def t)
  then show ?thesis
    using decrypt_encrypt [OF assms(1) m(1,3) assms(3) w] decrypt_encrypt [OF assms(1) m(2,2) assms(4) e]
    by (simp add: unseal_def k aads_injective key_entry [OF assms(2)])
qed

text \<open>C21: A provider key that was sealed opens again: with a usable master key, sealing any non-empty key
  succeeds, and opening the two stored texts gives the key back under the provider's own identifier and
  fails, as a decryption error, under every other identifier of the table. The cipher is any authenticated
  encryption that tells the identifiers of the table apart.\<close>

theorem sealed_key_opens:
  assumes "aead_ok A (aads ids)" and "provider_kek_keyring kek = Inr kr"
    and "length d = key_bytes" and "length n1 = nonce_bytes" and "length n2 = nonce_bytes"
    and "plaintext \<noteq> []" and "list_all scalar plaintext" and "list_all scalar pid" and "pid \<in> ids"
  shows "\<exists>ct dk. seal A kek (d, n1, n2) plaintext pid = Inr (ct, dk)
    \<and> (\<forall>parse. \<forall>pid'\<in>ids. parses_back parse ct \<and> parses_back parse dk \<longrightarrow>
         unseal A parse kek ct dk pid' = (if pid' = pid then Inr plaintext else Inl EncryptionError))"
proof -
  let ?dek = "b64url_encode d" let ?p = "pystr_of ''primary''"
  obtain kid ring where kr: "kr = (kid, ring)" by (cases kr)
  have kek: "ring kid \<noteq> None" using assms(2) make_keyring_active
    by (auto simp: kr provider_kek_keyring_def split: if_splits option.splits)
  have dek: "list_all scalar ?dek" using url_safe_text [of d] by (auto simp: list_all_iff url_safe_def scalar_def)
  have "?dek \<noteq> []"
  proof
    assume "?dek = []"
    then have "b64_digits (map unat d) = []" by (simp add: b64url_encode_text)
    then have "d = []" by (cases "map unat d" rule: b64_digits.cases) auto
    then show False using assms(3) by (simp add: key_bytes_def)
  qed
  then obtain w where w: "encrypt_text A n1 ?dek (provider_dek_aad pid) ring kid = Inr w"
    using encrypt_succeeds dek scalar_aads [OF assms(8)] kek by meson
  obtain e where e: "encrypt_text A n2 plaintext (provider_key_aad pid) [?p \<mapsto> d] ?p = Inr e"
    using encrypt_succeeds [OF assms(6,7)] scalar_aads [OF assms(8)] by (metis fun_upd_same option.discI)
  have s: "seal A kek (d, n1, n2) plaintext pid = Inr (canonical_json e, canonical_json w)"
    by (simp add: seal_def Let_def assms(2) kr w key_entry [OF assms(3)] e)
  then show ?thesis using unseal_sealed [OF assms(1,3-5) s assms(9)] by blast
qed

text \<open>A concrete cipher for the examples: it leaves the text as it is, and its tag is the sum of the
  associated data.\<close>

definition ex_aead :: aead where
  "ex_aead = \<lparr>aes_seal = (\<lambda>k n p a. p @ replicate 16 (sum_list a)),
     aes_open = (\<lambda>k n c a. if drop (length c - 16) c = replicate 16 (sum_list a) then Some (take (length c - 16) c) else None)\<rparr>"

definition ex_kek :: pystr where "ex_kek = b64url_encode (replicate 32 7)"

definition ex_random :: "octets \<times> octets \<times> octets" where
  "ex_random = (replicate 32 9, replicate 12 1, replicate 12 2)"

definition ex_ids :: "pystr set" where "ex_ids = {[50, 48], [50, 49]}"

lemma ex_aead_ok: "aead_ok ex_aead (aads ex_ids)"
proof -
  have d: "\<forall>x\<in>aads ex_ids. \<forall>y\<in>aads ex_ids.
      map_option sum_list (encode_utf8 x) = map_option sum_list (encode_utf8 y) \<longrightarrow> x = y"
    unfolding aads_def ex_ids_def by code_simp
  show ?thesis
    unfolding aead_ok_def
  proof (intro allI ballI impI conjI)
    fix k n p :: octets and x a y b
    assume x: "x \<in> aads ex_ids" "encode_utf8 x = Some a" and y: "y \<in> aads ex_ids" "encode_utf8 y = Some b"
    have "sum_list a = sum_list b \<Longrightarrow> a = b" using d x y by (metis option.map(2) option.inject)
    then show "aes_open ex_aead k n (aes_seal ex_aead k n p a) b = (if a = b then Some p else None)"
      by (auto simp: ex_aead_def)
  qed (simp add: ex_aead_def)
qed

lemma ex_kek_ok: "provider_kek_keyring ex_kek = Inr (pystr_of ''primary'', [pystr_of ''primary'' \<mapsto> replicate 32 7])"
proof -
  have "ex_kek \<noteq> []" by code_simp
  then show ?thesis
    by (simp add: provider_kek_keyring_def ex_kek_def b64url_decode_encode key_bytes_def key_entry)
qed

text \<open>A parser that knows the documents of a list.\<close>

definition ex_parse :: "json list \<Rightarrow> pystr \<Rightarrow> json option" where
  "ex_parse docs s = map_option sorted_json (find (\<lambda>j. canonical_json j = s) docs)"

lemma ex_parse_back: "j \<in> set docs \<Longrightarrow> parses_back (ex_parse docs) (canonical_json j)"
  unfolding parses_back_def ex_parse_def
proof (intro allI impI)
  fix i assume j: "j \<in> set docs" and i: "canonical_json i = canonical_json j"
  then obtain h where h: "find (\<lambda>x. canonical_json x = canonical_json j) docs = Some h"
    by (cases "find (\<lambda>x. canonical_json x = canonical_json j) docs") (auto simp: find_None_iff)
  then have "canonical_json h = canonical_json j" by (auto simp: find_Some_iff)
  then have "enc_json (sorted_json h) @ [] = enc_json (sorted_json i) @ []" using i by (simp add: canonical_enc_json)
  from enc_json_unique [OF this] show "map_option sorted_json (find (\<lambda>x. canonical_json x = canonical_json j) docs) = Some (sorted_json i)"
    by (simp add: h)
qed

definition ex_key :: pystr where "ex_key = pystr_of ''sk-1''"

definition ex_docs :: "json list" where
  "ex_docs = map projr [encrypt_text ex_aead (replicate 12 2) ex_key (provider_key_aad [50, 48])
       [pystr_of ''primary'' \<mapsto> replicate 32 9] (pystr_of ''primary''),
     encrypt_text ex_aead (replicate 12 1) (b64url_encode (replicate 32 9)) (provider_dek_aad [50, 48])
       [pystr_of ''primary'' \<mapsto> replicate 32 7] (pystr_of ''primary'')]"

definition ex_sealed :: "pystr \<times> pystr" where
  "ex_sealed = projr (seal ex_aead ex_kek ex_random ex_key [50, 48])"

lemma ex_sealing: "seal ex_aead ex_kek ex_random ex_key [50, 48] = Inr (canonical_json (ex_docs ! 0), canonical_json (ex_docs ! 1))"
proof -
  let ?p = "pystr_of ''primary''"
  have "list_all scalar (b64url_encode (replicate 32 9))" "b64url_encode (replicate 32 9) \<noteq> []"
    "ex_key \<noteq> []" "list_all scalar ex_key" "list_all scalar [50, 48]"
    by code_simp+
  then obtain e w where e: "encrypt_text ex_aead (replicate 12 2) ex_key (provider_key_aad [50, 48]) [?p \<mapsto> replicate 32 9] ?p = Inr e"
    and w: "encrypt_text ex_aead (replicate 12 1) (b64url_encode (replicate 32 9)) (provider_dek_aad [50, 48])
       [?p \<mapsto> replicate 32 7] ?p = Inr w"
    using encrypt_succeeds [of ex_key "provider_key_aad [50, 48]" "[?p \<mapsto> replicate 32 9]" ?p ex_aead "replicate 12 2"]
      encrypt_succeeds [of "b64url_encode (replicate 32 9)" "provider_dek_aad [50, 48]" "[?p \<mapsto> replicate 32 7]" ?p ex_aead "replicate 12 1"]
      scalar_aads [of "[50, 48]"] by auto
  have k: "length (replicate 32 (9 :: 8 word)) = key_bytes" by (simp add: key_bytes_def)
  have s: "seal ex_aead ex_kek ex_random ex_key [50, 48] = Inr (canonical_json e, canonical_json w)"
    unfolding seal_def ex_random_def Let_def prod.case key_entry [OF k] ex_kek_ok by (simp only: bindE_simps prod.case e w)
  show ?thesis
    unfolding s by (simp only: ex_docs_def e w list.map sum.sel nth_Cons_0 nth_Cons_Suc One_nat_def)
qed

lemma ex_sealed_docs: "canonical_json (ex_docs ! 0) = fst ex_sealed" "canonical_json (ex_docs ! 1) = snd ex_sealed"
  by (simp_all add: ex_sealed_def ex_sealing)

lemma ex_sealed_parse: "parses_back (ex_parse ex_docs) (fst ex_sealed)" "parses_back (ex_parse ex_docs) (snd ex_sealed)"
  using ex_parse_back [of "ex_docs ! 0" ex_docs] ex_parse_back [of "ex_docs ! 1" ex_docs]
  unfolding ex_sealed_docs by (simp_all add: ex_docs_def)

theorem sealed_key_opens_witness:
  "unseal ex_aead (ex_parse ex_docs) ex_kek (fst ex_sealed) (snd ex_sealed) [50, 48] = Inr (pystr_of ''sk-1'')
   \<and> unseal ex_aead (ex_parse ex_docs) ex_kek (fst ex_sealed) (snd ex_sealed) [50, 49] = Inl EncryptionError"
proof -
  have i: "[50, 48] \<in> ex_ids" "[50, 49] \<in> ex_ids" "list_all scalar [50, 48]" "list_all scalar ex_key" "ex_key \<noteq> []"
    unfolding ex_ids_def by code_simp+
  have r: "length (replicate 32 (9 :: 8 word)) = key_bytes" "length (replicate 12 (1 :: 8 word)) = nonce_bytes"
    "length (replicate 12 (2 :: 8 word)) = nonce_bytes"
    by (simp_all add: key_bytes_def nonce_bytes_def)
  from sealed_key_opens [OF ex_aead_ok ex_kek_ok r i(5,4,3,1)] obtain ct dk
    where s: "seal ex_aead ex_kek ex_random ex_key [50, 48] = Inr (ct, dk)"
      and u: "\<forall>parse. \<forall>pid'\<in>ex_ids. parses_back parse ct \<and> parses_back parse dk \<longrightarrow>
         unseal ex_aead parse ex_kek ct dk pid' = (if pid' = [50, 48] then Inr ex_key else Inl EncryptionError)"
    unfolding ex_random_def by blast
  have d: "ex_sealed = (ct, dk)" by (simp add: ex_sealed_def s)
  then show ?thesis using ex_sealed_parse u i(1,2) by (auto simp: d ex_key_def)
qed

end
