(* ===== verification/Tool_Callbacks.thy ===== *)
theory Tool_Callbacks
  imports Task_File_Outcomes Task_Views Key_Sealing
begin

text \<open>
  What a container may ask of the control plane (\<open>backend/api/internal.py\<close>,
  \<open>backend/v2/task_token.py\<close>): the claims of a task token, the four tool callbacks with their fence and
  their permissions (\<open>backend/engine/platform_tools.py\<close>), the gate of a user's MCP tools and the provider
  grant of the proxy. The signature of a token, \<open>uuid.UUID\<close> on a text, \<open>str\<close> of an identifier and
  \<open>isoformat\<close> are parameters (a malformed owner text is also refused by the database's own parser, in
  \<open>set_current_owner\<close>); the registry of issued tokens is an argument.
\<close>

section \<open>Task tokens\<close>

type_synonym jwt_payload = "(pystr \<times> json) list"

record runtime_lib =
  jwt_verify :: "time \<Rightarrow> pystr \<Rightarrow> jwt_payload option"
  jwt_sign :: "jwt_payload \<Rightarrow> pystr"
  to_id :: "pystr \<Rightarrow> raw_id"
  id_text :: "uuid \<Rightarrow> pystr"
  iso_text :: "time \<Rightarrow> pystr"

record claims =
  cl_task :: pystr
  cl_owner :: pystr
  cl_round :: pystr
  cl_instance :: pystr
  cl_epoch :: int

definition token_aud :: pystr where "token_aud = pystr_of ''agentcraft:v2-task-token''"

definition c_task_id :: pystr where "c_task_id = pystr_of ''task_id''"
definition c_owner_id :: pystr where "c_owner_id = pystr_of ''owner_id''"
definition c_round_id :: pystr where "c_round_id = pystr_of ''round_id''"
definition c_lease_epoch :: pystr where "c_lease_epoch = pystr_of ''lease_epoch''"
definition c_instance :: pystr where "c_instance = pystr_of ''instance''"

definition token_payload :: "claims \<Rightarrow> time \<Rightarrow> int \<Rightarrow> jwt_payload" where
  "token_payload c now ttl_hours =
     [(c_task_id, JStr (cl_task c)), (c_owner_id, JStr (cl_owner c)), (c_round_id, JStr (cl_round c)),
      (c_lease_epoch, JInt (cl_epoch c)), (c_instance, JStr (cl_instance c)), (pystr_of ''aud'', JStr token_aud),
      (pystr_of ''iat'', JInt now), (pystr_of ''exp'', JInt (now + ttl_hours * 3600))]"

definition create_task_token :: "runtime_lib \<Rightarrow> claims \<Rightarrow> time \<Rightarrow> int \<Rightarrow> pystr" where
  "create_task_token L c now ttl_hours = jwt_sign L (token_payload c now ttl_hours)"

definition str_claim :: "pystr \<Rightarrow> jwt_payload \<Rightarrow> pystr option" where
  "str_claim k p = (case map_of p k of Some (JStr s) \<Rightarrow> if s = [] then None else Some s | _ \<Rightarrow> None)"

text \<open>\<open>decode_v2_task_token\<close>; \<open>None\<close> is \<open>TaskTokenInvalid\<close>. A boolean is no epoch.\<close>

definition decode_task_token :: "runtime_lib \<Rightarrow> time \<Rightarrow> pystr \<Rightarrow> claims option" where
  "decode_task_token L now token =
     (case jwt_verify L now token of
        None \<Rightarrow> None
      | Some p \<Rightarrow>
          (case (str_claim c_task_id p, str_claim c_owner_id p, str_claim c_round_id p, str_claim c_instance p,
                 map_of p c_lease_epoch) of
             (Some t, Some u, Some r, Some i, Some (JInt e)) \<Rightarrow>
               Some \<lparr>cl_task = t, cl_owner = u, cl_round = r, cl_instance = i, cl_epoch = e\<rparr>
           | _ \<Rightarrow> None))"

section \<open>The checks of a callback\<close>

text \<open>\<open>TaskTokenUnauthorized\<close>: one answer for every layer (the detail is a message text).\<close>

definition token_unauthorized :: api_error where "token_unauthorized = HttpDetail '''' 401"

text \<open>\<open>executor.tokens\<close>: round to token; no executor, no registry.\<close>

type_synonym token_registry = "(pystr \<rightharpoonup> pystr) option"

definition require_task_token :: "runtime_lib \<Rightarrow> time \<Rightarrow> token_registry \<Rightarrow> pystr \<Rightarrow> pystr \<Rightarrow> api_error + claims" where
  "require_task_token L now reg token task_id =
     (case decode_task_token L now token of
        None \<Rightarrow> Inl token_unauthorized
      | Some c \<Rightarrow>
          if cl_task c \<noteq> task_id then Inl token_unauthorized
          else (case (case reg of None \<Rightarrow> None | Some f \<Rightarrow> f (cl_round c)) of
             None \<Rightarrow> Inl token_unauthorized
           | Some t \<Rightarrow> if t \<noteq> token then Inl token_unauthorized else Inr c))"

text \<open>\<open>owner_session(claims["owner_id"])\<close>: the cast to \<open>uuid\<close> may fail.\<close>

definition as_owner :: "runtime_lib \<Rightarrow> claims \<Rightarrow> (uuid \<Rightarrow> api_error + 'a) \<Rightarrow> api_error + 'a" where
  "as_owner L c body =
     (case to_id L (cl_owner c) of
        Malformed _ \<Rightarrow> Inl (DatabaseError ''invalid_text_representation'')
      | Uuid me \<Rightarrow> body me)"

definition assert_round_live :: "runtime_lib \<Rightarrow> uuid \<Rightarrow> claims \<Rightarrow> db \<Rightarrow> api_error + unit" where
  "assert_round_live L me c d =
     (case to_id L (cl_round c) of
        Malformed _ \<Rightarrow> Inl ValueError
      | Uuid rid \<Rightarrow>
          (case sel_rounds me (\<lambda>r. r_id r = rid) d of
             [] \<Rightarrow> Inl token_unauthorized
           | r # _ \<Rightarrow>
               if r_state r \<noteq> RRunning \<or> int (r_epoch r) \<noteq> cl_epoch c then Inl token_unauthorized else Inr ()))"

text \<open>\<open>PLATFORM_TOOLS\<close>: the descriptors, all of version 1.\<close>

record permissions =
  pm_paths :: "string list option"
  pm_exclude :: "string list option"
  pm_network :: "bool option"

record platform_tool =
  pt_id :: string
  pt_version :: string
  pt_kind :: string
  pt_callback :: "string option"
  pt_required :: "string list"
  pt_permissions :: "permissions option"

definition descriptor :: "string \<Rightarrow> string \<Rightarrow> string \<Rightarrow> string list \<Rightarrow> string list option \<Rightarrow> string list option \<Rightarrow> platform_tool" where
  "descriptor i k cb req paths excl =
     \<lparr>pt_id = i, pt_version = ''1'', pt_kind = k, pt_callback = Some cb, pt_required = req,
      pt_permissions = Some \<lparr>pm_paths = paths, pm_exclude = excl, pm_network = Some False\<rparr>\<rparr>"

definition platform_tools :: "platform_tool list" where
  "platform_tools =
     [descriptor ''check_code_style'' ''harness'' ''/internal/harness/check-code-style'' []
        (Some [''/task-files'', ''/outputs'']) None,
      descriptor ''read_task_file'' ''container'' ''/internal/tools/read-task-file'' [''file_name'']
        (Some [''/task-files'']) None,
      descriptor ''write_output_file'' ''container'' ''/internal/tools/write-output-file'' [''file_name'', ''content_base64'']
        (Some [''/outputs'']) None,
      descriptor ''list_task_files'' ''container'' ''/internal/tools/list-task-files'' []
        (Some [''/task-files'', ''/outputs'']) None,
      descriptor ''query_task_state'' ''container'' ''/internal/tools/query-task-state'' []
        None (Some [''lease_owner'', ''lease_epoch''])]"

definition find_tool :: "string \<Rightarrow> platform_tool option" where
  "find_tool i = find (\<lambda>t. pt_id t = i \<and> pt_version t = ''1'') platform_tools"

definition assert_tool_permissions :: "string \<Rightarrow> string list \<Rightarrow> api_error + unit" where
  "assert_tool_permissions i needed =
     (case Option.bind (find_tool i) pt_permissions of
        None \<Rightarrow> Inl tool_call_rejected
      | Some p \<Rightarrow>
          if pm_network p \<noteq> Some False then Inl tool_call_rejected
          else (let declared = (case pm_paths p of None \<Rightarrow> [] | Some l \<Rightarrow> l)
                in if list_all (\<lambda>x. x \<in> set declared) needed then Inr () else Inl tool_call_rejected))"

definition reject_traversal :: "pystr \<Rightarrow> api_error + unit" where
  "reject_traversal s =
     (if s = [] \<or> 47 \<in> set s \<or> 92 \<in> set s \<or> s = [46] \<or> s = [46, 46] then Inl tool_call_rejected else Inr ())"

section \<open>The tool callbacks\<close>

text \<open>\<open>_strip_lease_fields\<close>: at every depth, no key with the prefix \<open>lease_\<close> and none of \<open>excluded\<close>.\<close>

definition lease_prefix :: pystr where "lease_prefix = pystr_of ''lease_''"

definition hidden :: "pystr list \<Rightarrow> pystr \<Rightarrow> bool" where
  "hidden excluded k \<longleftrightarrow> take 6 k = lease_prefix \<or> k \<in> set excluded"

fun strip_lease_fields :: "pystr list \<Rightarrow> json \<Rightarrow> json" where
  "strip_lease_fields ex (JObj fs) =
     JObj (filter (\<lambda>(k, _). \<not> hidden ex k) (map (\<lambda>(k, v). (k, strip_lease_fields ex v)) fs))"
| "strip_lease_fields ex (JArr xs) = JArr (map (strip_lease_fields ex) xs)"
| "strip_lease_fields ex j = j"

fun status_text :: "status \<Rightarrow> string" where
  "status_text Uploading = ''uploading''" | "status_text Queued = ''queued''"
| "status_text Running = ''running''" | "status_text Ready = ''ready''"
| "status_text Completed = ''completed''" | "status_text Failed = ''failed''"
| "status_text Aborted = ''aborted''" | "status_text Deleted = ''deleted''"

fun round_text :: "round_state \<Rightarrow> string" where
  "round_text RPending = ''pending''" | "round_text RRunning = ''running''"
| "round_text RCancelling = ''cancelling''" | "round_text RSettled = ''settled''"
| "round_text RFailed = ''failed''" | "round_text RCancelled = ''cancelled''"

fun abort_text :: "abort_reason \<Rightarrow> string" where
  "abort_text UserCancel = ''user_cancel''" | "abort_text RoundFailed = ''round_failed''"
| "abort_text UploadExpired = ''upload_expired''" | "abort_text ProviderKeyRevoked = ''provider_key_revoked''"
| "abort_text ToolRevoked = ''tool_revoked''" | "abort_text AdminSuspended = ''admin_suspended''"

fun transport_text :: "transport \<Rightarrow> string" where
  "transport_text Stdio = ''stdio''" | "transport_text Http = ''http''"

definition obj :: "(string \<times> json) list \<Rightarrow> json" where
  "obj fs = JObj (map (\<lambda>(k, v). (pystr_of k, v)) fs)"

definition jtext :: "string \<Rightarrow> json" where "jtext s = JStr (pystr_of s)"

definition jopt :: "('a \<Rightarrow> json) \<Rightarrow> 'a option \<Rightarrow> json" where
  "jopt f x = (case x of None \<Rightarrow> JNull | Some y \<Rightarrow> f y)"

definition round_json :: "runtime_lib \<Rightarrow> round_out \<Rightarrow> json" where
  "round_json L r = obj [(''id'', JStr (id_text L (ro_id r))), (''state'', jtext (round_text (ro_state r))),
                         (''attempt'', JInt (int (ro_attempt r)))]"

definition mcp_json :: "runtime_lib \<Rightarrow> mcp_ref \<Rightarrow> json" where
  "mcp_json L m = obj [(''server_id'', JStr (id_text L (mref_server m))), (''name'', JStr (mref_name m)),
                       (''transport_kind'', jtext (transport_text (mref_transport m)))]"

text \<open>The view as JSON; \<open>show\<close> gives the two display fields, \<open>expert\<close> and \<open>provider\<close>.\<close>

definition view_json :: "runtime_lib \<Rightarrow> json \<times> json \<Rightarrow> task_view \<Rightarrow> json" where
  "view_json L display v = obj
     [(''id'', JStr (id_text L (tv_id v))), (''status'', jtext (status_text (tv_status v))),
      (''abort_reason'', jopt (\<lambda>a. jtext (abort_text a)) (tv_abort v)), (''created_at'', JStr (iso_text L (tv_created v))),
      (''input_committed'', JBool (tv_committed v)), (''input_manifest_sha256'', jopt jtext (tv_manifest v)),
      (''event_sequence'', JInt (int (tv_eseq v))), (''active_round'', jopt (round_json L) (tv_active v)),
      (''initial_round'', jopt (round_json L) (tv_initial v)),
      (''counts'', obj [(''inputs'', JInt (int (tv_inputs v))), (''outputs'', JInt (int (tv_outputs v)))]),
      (''expert'', fst display), (''provider'', snd display), (''mcp_servers'', JArr (map (mcp_json L) (tv_mcp v)))]"

datatype tool_request =
    ReadTaskFile pystr
  | WriteOutputFile pystr pystr
  | ListTaskFiles
  | QueryTaskState

datatype tool_answer =
    FileContent pystr pystr nat
  | Written file_row
  | FileList "(uuid \<times> pystr \<times> string \<times> nat) list"
  | TaskState json

fun tool_of :: "tool_request \<Rightarrow> string" where
  "tool_of (ReadTaskFile _) = ''read_task_file''"
| "tool_of (WriteOutputFile _ _) = ''write_output_file''"
| "tool_of ListTaskFiles = ''list_task_files''"
| "tool_of QueryTaskState = ''query_task_state''"

fun needs_paths :: "tool_request \<Rightarrow> string list" where
  "needs_paths (ReadTaskFile _) = [''/task-files'']"
| "needs_paths (WriteOutputFile _ _) = [''/outputs'']"
| "needs_paths ListTaskFiles = [''/task-files'', ''/outputs'']"
| "needs_paths QueryTaskState = []"

text \<open>The order of the checks, common to the four handlers: token, fence, catalogue, permissions.\<close>

definition tool_gates ::
  "runtime_lib \<Rightarrow> time \<Rightarrow> token_registry \<Rightarrow> pystr \<Rightarrow> pystr \<Rightarrow> tool_request \<Rightarrow> db \<Rightarrow> api_error + claims \<times> uuid" where
  "tool_gates L now reg token task_id req d =
     bindE (require_task_token L now reg token task_id) (\<lambda>c.
     as_owner L c (\<lambda>me.
     bindE (assert_round_live L me c d) (\<lambda>_.
     bindE (assert_tool_enabled (tool_of req) ''1'' 403 d) (\<lambda>_.
     bindE (assert_tool_permissions (tool_of req) (needs_paths req)) (\<lambda>_.
     Inr (c, me))))))"

text \<open>What the callback server has beside the database: the library, digests, Unicode normalisation, the
  display fields of a task, and for a write the fault, the new file identifier.\<close>

record callback_env =
  cb_lib :: runtime_lib
  cb_hash :: "bytes \<Rightarrow> string"
  cb_nfc :: "pystr \<Rightarrow> pystr"
  cb_display :: "task_view \<Rightarrow> json \<times> json"
  cb_fault :: "nat option"
  cb_fid :: uuid
  cb_now :: time

definition excluded_fields :: "string \<Rightarrow> pystr list" where
  "excluded_fields i =
     (case Option.bind (find_tool i) pt_permissions of
        None \<Rightarrow> []
      | Some p \<Rightarrow> (case pm_exclude p of None \<Rightarrow> [] | Some l \<Rightarrow> map pystr_of l))"

fun tool_body :: "callback_env \<Rightarrow> claims \<Rightarrow> uuid \<Rightarrow> tool_request \<Rightarrow> db \<Rightarrow> disk \<Rightarrow> (api_error + tool_answer) \<times> db \<times> disk" where
  "tool_body E c me (ReadTaskFile s) d k =
     (bindE (reject_traversal s) (\<lambda>_.
      bindE (read_input_bytes me (to_id (cb_lib E) (cl_task c)) s d k) (\<lambda>b.
      Inr (FileContent s (b64_encode b) (length b)))), d, k)"
| "tool_body E c me (WriteOutputFile s content) d k =
     (case bindE (reject_traversal s) (\<lambda>_. case b64_decode content of None \<Rightarrow> Inl tool_call_rejected | Some b \<Rightarrow> Inr b) of
        Inl e \<Rightarrow> (Inl e, d, k)
      | Inr b \<Rightarrow>
          (case register_output (cb_hash E) (cb_nfc E) (cb_fault E) me (to_id (cb_lib E) (cl_task c)) s b
                  (to_id (cb_lib E) (cl_round c)) (nat (cl_epoch c)) (cb_fid E) (cb_now E) d k of
             (Inl e, d', k') \<Rightarrow> (Inl e, d', k')
           | (Inr row, d', k') \<Rightarrow> (Inr (Written row), d', k')))"
| "tool_body E c me ListTaskFiles d k =
     (bindE (list_input_meta me (to_id (cb_lib E) (cl_task c)) d) (\<lambda>l. Inr (FileList l)), d, k)"
| "tool_body E c me QueryTaskState d k =
     (bindE (get_task_view me (to_id (cb_lib E) (cl_task c)) d) (\<lambda>v.
      Inr (TaskState (strip_lease_fields (excluded_fields ''query_task_state'')
        (view_json (cb_lib E) (cb_display E v) v)))), d, k)"

definition tool_callback ::
  "callback_env \<Rightarrow> token_registry \<Rightarrow> pystr \<Rightarrow> pystr \<Rightarrow> tool_request \<Rightarrow> db \<Rightarrow> disk \<Rightarrow> (api_error + tool_answer) \<times> db \<times> disk" where
  "tool_callback E reg token task_id req d k =
     (case tool_gates (cb_lib E) (cb_now E) reg token task_id req d of
        Inl e \<Rightarrow> (Inl e, d, k)
      | Inr (c, me) \<Rightarrow> tool_body E c me req d k)"

section \<open>User MCP tools and the provider grant\<close>

record mcp_tool_row =
  mt_server :: uuid
  mt_name :: pystr
  mt_enabled :: bool

definition mcp_revoked :: api_error where "mcp_revoked = app_error TOOL_REVOKED 403"

text \<open>The server the call is dispatched to, after the gates of \<open>call_user_mcp_tool\<close>; \<open>cache\<close> is the table
  of discovered tools, visible through its server.\<close>

definition mcp_gate ::
  "runtime_lib \<Rightarrow> time \<Rightarrow> token_registry \<Rightarrow> pystr \<Rightarrow> pystr \<Rightarrow> pystr \<Rightarrow> pystr \<Rightarrow> mcp_tool_row list \<Rightarrow> db \<Rightarrow> api_error + mcp_server_row" where
  "mcp_gate L now reg token task_id server_id tool_nm cache d =
     bindE (require_task_token L now reg token task_id) (\<lambda>c.
     case to_id L server_id of
       Malformed _ \<Rightarrow> Inl mcp_revoked
     | Uuid sid \<Rightarrow>
         as_owner L c (\<lambda>me.
         bindE (assert_round_live L me c d) (\<lambda>_.
         case to_id L (cl_task c) of
           Malformed _ \<Rightarrow> Inl ValueError
         | Uuid tid \<Rightarrow>
             (let mounted = (case find_task me tid d of None \<Rightarrow> []
                  | Some t \<Rightarrow> (case t_mcp t of None \<Rightarrow> [] | Some l \<Rightarrow> map (\<lambda>m. id_text L (mref_server m)) l))
              in if server_id \<notin> set mounted then Inl mcp_revoked
                 else (case find (\<lambda>m. ms_owner m = me \<and> ms_id m = sid) (mcp_servers d) of
                   None \<Rightarrow> Inl mcp_revoked
                 | Some m \<Rightarrow>
                     if \<not> ms_enabled m then Inl mcp_revoked
                     else (case find (\<lambda>t. mt_server t = ms_id m \<and> mt_name t = tool_nm) cache of
                       None \<Rightarrow> Inl mcp_revoked
                     | Some t \<Rightarrow> if mt_enabled t then Inr m else Inl mcp_revoked))))))"

record grant_audit =
  ga_task :: uuid
  ga_round :: pystr
  ga_provider :: uuid

record grant =
  gr_model :: pystr
  gr_key :: pystr
  gr_url :: pystr

text \<open>A grant fails with an answer, with a failed audit insert, or when the key does not open.\<close>

datatype grant_error = Answer api_error | AuditFailed | Sealed seal_error

definition require_proxy_grant_credential :: "pystr \<Rightarrow> pystr \<Rightarrow> api_error + unit" where
  "require_proxy_grant_credential expected provided =
     (if expected = [] \<or> provided = [] \<or> provided \<noteq> expected then Inl token_unauthorized else Inr ())"

text \<open>The row the key is taken from, and the task it is for: token, fence, task, active provider.\<close>

definition grant_rows :: "runtime_lib \<Rightarrow> time \<Rightarrow> pystr \<Rightarrow> db \<Rightarrow> api_error + claims \<times> task_row \<times> provider_row" where
  "grant_rows L now token d =
     (case decode_task_token L now token of
        None \<Rightarrow> Inl token_unauthorized
      | Some c \<Rightarrow>
          as_owner L c (\<lambda>me.
          bindE (assert_round_live L me c d) (\<lambda>_.
          case to_id L (cl_task c) of
            Malformed _ \<Rightarrow> Inl ValueError
          | Uuid tid \<Rightarrow>
              (case find_task me tid d of
                 None \<Rightarrow> Inl token_unauthorized
               | Some t \<Rightarrow>
                   (case find (\<lambda>p. p_user p = me \<and> p_id p = t_provider t) (providers d) of
                      None \<Rightarrow> Inl token_unauthorized
                    | Some p \<Rightarrow> if p_active p then Inr (c, t, p) else Inl token_unauthorized)))))"

text \<open>\<open>provider_grant\<close>: the audit row is committed before the key is opened. Output: the answer, and the
  audit trail.\<close>

definition provider_grant ::
  "runtime_lib \<Rightarrow> (pystr \<Rightarrow> pystr \<Rightarrow> pystr \<Rightarrow> seal_error + pystr) \<Rightarrow> bool \<Rightarrow> pystr \<Rightarrow> pystr \<Rightarrow> pystr \<Rightarrow> time \<Rightarrow> db \<Rightarrow>
   grant_audit list \<Rightarrow> (grant_error + grant) \<times> grant_audit list" where
  "provider_grant L unlock audit_fails expected provided token now d trail =
     (case bindE (require_proxy_grant_credential expected provided) (\<lambda>_. grant_rows L now token d) of
        Inl e \<Rightarrow> (Inl (Answer e), trail)
      | Inr (c, t, p) \<Rightarrow>
          if audit_fails then (Inl AuditFailed, trail)
          else
            (let trail' = trail @ [\<lparr>ga_task = t_id t, ga_round = cl_round c, ga_provider = p_id p\<rparr>]
             in case unlock (pystr_of (p_cipher p)) (pystr_of (p_dek p)) (id_text L (p_id p)) of
                  Inl e \<Rightarrow> (Inl (Sealed e), trail')
                | Inr key \<Rightarrow> (Inr \<lparr>gr_model = t_model t, gr_key = key, gr_url = p_url p\<rparr>, trail')))"

section \<open>What the checks let through\<close>

lemma assert_round_live_Inr:
  "assert_round_live L me c d = Inr u \<Longrightarrow>
     \<exists>r\<in>set (rounds d). to_id L (cl_round c) = Uuid (r_id r) \<and> r_owner r = me \<and> r_state r = RRunning
       \<and> int (r_epoch r) = cl_epoch c"
proof -
  assume a: "assert_round_live L me c d = Inr u"
  then obtain rid r rs where r: "to_id L (cl_round c) = Uuid rid" "sel_rounds me (\<lambda>r. r_id r = rid) d = r # rs"
    "r_state r = RRunning" "int (r_epoch r) = cl_epoch c"
    by (auto simp: assert_round_live_def split: raw_id.splits list.splits if_splits)
  have "r \<in> set (sel_rounds me (\<lambda>r. r_id r = rid) d)" by (simp add: r(2))
  then show ?thesis using r by (auto simp: sel_rounds_def)
qed

lemma dead_not_live:
  assumes "fence_dead x d" and "to_id L (cl_round c) = Uuid (x_round x)" and "cl_epoch c = int (x_epoch x)"
  shows "assert_round_live L (x_owner x) c d = Inl token_unauthorized"
proof (cases "assert_round_live L (x_owner x) c d")
  case (Inl e)
  then show ?thesis using assms(2) by (auto simp: assert_round_live_def split: list.splits if_splits)
next
  case (Inr u)
  from assert_round_live_Inr [OF this] show ?thesis using assms by (auto simp: fence_dead_def)
qed

lemma assert_tool_enabled_Inr:
  "assert_tool_enabled tool v http d = Inr u \<Longrightarrow>
     \<exists>r\<in>set (tool_catalog d). tool_name r = tool \<and> tool_version r = v \<and> tool_enabled r"
  by (auto simp: assert_tool_enabled_def split: option.splits if_splits dest!: find_Some_D)

lemma require_task_token_Inr:
  "require_task_token L now reg token task_id = Inr c \<longleftrightarrow>
     decode_task_token L now token = Some c \<and> cl_task c = task_id \<and> Option.bind reg (\<lambda>f. f (cl_round c)) = Some token"
  by (auto simp: require_task_token_def split: option.splits)

lemma as_owner_Inr [simp]: "as_owner L c body = Inr y \<longleftrightarrow> (\<exists>me. to_id L (cl_owner c) = Uuid me \<and> body me = Inr y)"
  by (auto simp: as_owner_def split: raw_id.splits)

lemma tool_gates_Inr:
  assumes "tool_gates L now reg token task_id req d = Inr (c, me)"
  obtains r where "decode_task_token L now token = Some c" "cl_task c = task_id"
    "Option.bind reg (\<lambda>f. f (cl_round c)) = Some token" "to_id L (cl_owner c) = Uuid me"
    "r \<in> set (rounds d)" "to_id L (cl_round c) = Uuid (r_id r)" "r_owner r = me" "r_state r = RRunning"
    "int (r_epoch r) = cl_epoch c"
    "\<exists>t\<in>set (tool_catalog d). tool_name t = tool_of req \<and> tool_version t = ''1'' \<and> tool_enabled t"
proof -
  obtain u v where "require_task_token L now reg token task_id = Inr c" "to_id L (cl_owner c) = Uuid me"
    "assert_round_live L me c d = Inr u" "assert_tool_enabled (tool_of req) ''1'' 403 d = Inr v"
    using assms by (auto simp: tool_gates_def)
  then show thesis
    using that assert_round_live_Inr assert_tool_enabled_Inr unfolding require_task_token_Inr by metis
qed

text \<open>Each of the five platform tools passes the permission check of its own handler.\<close>

lemma permissions_declared: "assert_tool_permissions (tool_of req) (needs_paths req) = Inr ()"
  by (cases req) (simp_all, code_simp+)

lemma decode_created_token:
  assumes "jwt_verify L now' (create_task_token L c now ttl) = Some (token_payload c now ttl)"
    and "cl_task c \<noteq> []" and "cl_owner c \<noteq> []" and "cl_round c \<noteq> []" and "cl_instance c \<noteq> []"
  shows "decode_task_token L now' (create_task_token L c now ttl) = Some c"
proof -
  have k: "distinct [c_task_id, c_owner_id, c_round_id, c_lease_epoch, c_instance]" by code_simp
  have "str_claim c_task_id (token_payload c now ttl) = Some (cl_task c)"
    "str_claim c_owner_id (token_payload c now ttl) = Some (cl_owner c)"
    "str_claim c_round_id (token_payload c now ttl) = Some (cl_round c)"
    "str_claim c_instance (token_payload c now ttl) = Some (cl_instance c)"
    "map_of (token_payload c now ttl) c_lease_epoch = Some (JInt (cl_epoch c))"
    using k assms(2-5) by (auto simp: str_claim_def token_payload_def)
  then show ?thesis by (simp add: decode_task_token_def assms(1))
qed

text \<open>C3: A fenced container is locked out: once an executor's fence has failed in a reachable state, then in
  every later state every tool callback that presents a token of that executor's lease (its owner, round
  and epoch) is answered 401 and changes neither a table nor a file, its MCP calls reach no server, and
  the proxy gets no provider key for it and leaves no audit row.\<close>

theorem fenced_token_rejected:
  assumes "start s0" and "(step X)\<^sup>*\<^sup>* s0 s" and "x \<in> ctxs s" and "\<not> round_recheck x (base s)"
    and "(step X)\<^sup>*\<^sup>* s s'"
    and "decode_task_token (cb_lib E) (cb_now E) token = Some c" and "to_id (cb_lib E) (cl_owner c) = Uuid (x_owner x)"
    and "to_id (cb_lib E) (cl_round c) = Uuid (x_round x)" and "cl_epoch c = int (x_epoch x)"
  shows "tool_callback E reg token task_id req (base s') k = (Inl token_unauthorized, base s', k)
    \<and> mcp_gate (cb_lib E) (cb_now E) reg token task_id server_id tool_nm cache (base s')
        \<in> {Inl token_unauthorized, Inl mcp_revoked}
    \<and> provider_grant (cb_lib E) unlock audit_fails expected provided token (cb_now E) (base s') trail
        = (Inl (Answer token_unauthorized), trail)"
proof -
  have g: "sys_good s" by (rule task_system.good_reachable [OF assms(1,2)])
  have "ctx_behind x (base s)" using behind_reachable [OF assms(1,2)] assms(3) by blast
  then have "fence_dead x (base s)"
    using recheck_dead g assms(4) by (auto simp: sys_good_def)
  then have dead: "assert_round_live (cb_lib E) (x_owner x) c (base s') = Inl token_unauthorized"
    using dead_not_live [OF dead_along [OF assms(5) g assms(3)]] assms(8,9) by blast
  have r: "require_task_token (cb_lib E) (cb_now E) reg token task_id \<in> {Inl token_unauthorized, Inr c}"
    using assms(6) by (auto simp: require_task_token_def split: option.splits)
  have "tool_gates (cb_lib E) (cb_now E) reg token task_id req (base s') = Inl token_unauthorized"
    using r dead by (auto simp: tool_gates_def as_owner_def assms(7))
  moreover have "mcp_gate (cb_lib E) (cb_now E) reg token task_id server_id tool_nm cache (base s')
      \<in> {Inl token_unauthorized, Inl mcp_revoked}"
    using r dead by (auto simp: mcp_gate_def as_owner_def assms(7) split: raw_id.splits)
  moreover have "grant_rows (cb_lib E) (cb_now E) token (base s') = Inl token_unauthorized"
    by (simp add: grant_rows_def assms(6,7) as_owner_def dead)
  ultimately show ?thesis
    by (simp add: tool_callback_def provider_grant_def require_proxy_grant_credential_def)
qed

section \<open>What a callback changes and returns\<close>

fun path_task :: "uuid \<Rightarrow> path \<Rightarrow> bool" where
  "path_task i (OutputPath t f) = (t = i)"
| "path_task i (ArtifactPath t f) = (t = i)"
| "path_task i _ = False"

text \<open>Writing an output touches the two output directories of its task only, whatever fails.\<close>

lemma write_physical_frame:
  assumes "\<And>f. old = Some f \<Longrightarrow> f_key f = Key tid (f_id f)"
  shows "\<not> path_task tid p \<Longrightarrow> snd (write_physical fault tid fid b old k) p = k p"
proof -
  assume p: "\<not> path_task tid p"
  have q: "\<forall>f\<in>set (physical_ops tid fid b old). p \<notin> op_paths f"
    using p assms by (cases old) (auto simp: physical_ops_def)
  then have "run_all (physical_ops tid fid b old) k p = k p" "run_all (take n (physical_ops tid fid b old)) k p = k p" for n
    by (auto intro!: run_all_frame dest: in_set_takeD)
  moreover have "p \<notin> set (take n [OutputPath tid fid, ArtifactPath tid fid])" for n
    using p set_take_subset [of n "[OutputPath tid fid, ArtifactPath tid fid]"] by auto
  ultimately show ?thesis
    by (auto simp: write_physical_def run_ops_eq unlink_all_eq split: option.splits)
qed

text \<open>The registration inside a write: the database takes the transaction or stays, and only files of the
  task change.\<close>

lemma register_output_changes:
  assumes ok: "files_ok nfc d"
    and run: "register_output hash nfc fault me task_id s b round_id epoch fid now d k = (res, d', k')"
  shows "(d' = d \<or> (\<forall>X. nfc_of X = nfc \<longrightarrow> d' = exec X (Register me task_id (s, hash b, length b) round_id epoch fid now) d))
    \<and> (\<forall>p. \<not> path_task (uuid_of task_id) p \<longrightarrow> k' p = k p)"
proof (cases "register_tx nfc me task_id (s, hash b, length b) round_id epoch fid now d")
  case (Inl e)
  then show ?thesis using run by (simp add: register_output_def)
next
  case (Inr x)
  then obtain row old d1 where x: "register_tx nfc me task_id (s, hash b, length b) round_id epoch fid now d = Inr ((row, old), d1)"
    by (metis prod.exhaust)
  have "f_key f = Key (f_task row) (f_id f) \<and> f_task row = uuid_of task_id" if "old = Some f" for f
    using x
  proof (rule register_tx_cases)
    fix t :: task_row and r d1 d2
    assume t: "lock_task me task_id d = Inr t" and old: "old = find_old_output_row nfc (scan_live_rows me (t_id t) d) (fst (s, hash b, length b))"
      and row: "row = registered_row (t_id t) (t_owner t) r fid now (s, hash b, length b)"
    have "f \<in> set (scan_live_rows me (t_id t) d)" using old that unfolding find_old_output_row_def by (metis find_Some_D)
    then have "f \<in> set (files d) \<and> f_task f = t_id t" by (simp add: scan_live_rows_def live_files_def)
    then show ?thesis using ok lock_task_Inr_D [OF t] by (auto simp: files_ok_def file_row_ok_def row registered_row_def)
  qed
  moreover have "f_task row = uuid_of task_id"
    using x by (rule register_tx_cases) (auto simp: registered_row_def dest: lock_task_Inr_D)
  ultimately have "snd (write_physical fault (uuid_of task_id) fid b old k) p = k p" if "\<not> path_task (uuid_of task_id) p" for p
    using write_physical_frame [OF _ that] by metis
  then show ?thesis
    using run x \<open>f_task row = uuid_of task_id\<close>
    by (auto simp: register_output_def committed_db_def split: prod.splits bool.splits)
qed

text \<open>C4: A tool callback acts only under a live lease: if it answers with success or changes anything, its
  token decoded, names the task of the request and is the one registered for its round; that round belongs
  to the token's owner, is running and has the token's epoch, and the catalogue has the tool enabled. What
  it changes is one registration transaction of that owner, task and round, and on the disk only output
  files of that task.\<close>

theorem callback_authorised:
  assumes "tool_callback E reg token task_id req d k = (res, d', k')"
    and "\<not> isl res \<or> d' \<noteq> d \<or> k' \<noteq> k" and "files_ok (cb_nfc E) d"
  shows "\<exists>c me r. decode_task_token (cb_lib E) (cb_now E) token = Some c \<and> cl_task c = task_id
    \<and> Option.bind reg (\<lambda>f. f (cl_round c)) = Some token \<and> to_id (cb_lib E) (cl_owner c) = Uuid me
    \<and> r \<in> set (rounds d) \<and> to_id (cb_lib E) (cl_round c) = Uuid (r_id r) \<and> r_owner r = me \<and> r_state r = RRunning
    \<and> int (r_epoch r) = cl_epoch c
    \<and> (\<exists>t\<in>set (tool_catalog d). tool_name t = tool_of req \<and> tool_version t = ''1'' \<and> tool_enabled t)
    \<and> (d' = d \<or> (\<exists>s b. \<forall>X. nfc_of X = cb_nfc E \<longrightarrow> d' = exec X (Register me (to_id (cb_lib E) task_id)
          (s, cb_hash E b, length b) (Uuid (r_id r)) (r_epoch r) (cb_fid E) (cb_now E)) d))
    \<and> (\<forall>p. \<not> path_task (uuid_of (to_id (cb_lib E) task_id)) p \<longrightarrow> k' p = k p)"
proof (cases "tool_gates (cb_lib E) (cb_now E) reg token task_id req d")
  case (Inl e)
  then show ?thesis using assms(1,2) by (auto simp: tool_callback_def)
next
  case (Inr x)
  then obtain c me where x: "tool_gates (cb_lib E) (cb_now E) reg token task_id req d = Inr (c, me)" by (cases x) auto
  then have body: "tool_body E c me req d k = (res, d', k')" using assms(1) by (simp add: tool_callback_def)
  from x show ?thesis
  proof (rule tool_gates_Inr)
    fix r assume g: "decode_task_token (cb_lib E) (cb_now E) token = Some c" "cl_task c = task_id"
      "Option.bind reg (\<lambda>f. f (cl_round c)) = Some token" "to_id (cb_lib E) (cl_owner c) = Uuid me"
      "r \<in> set (rounds d)" "to_id (cb_lib E) (cl_round c) = Uuid (r_id r)" "r_owner r = me" "r_state r = RRunning"
      "int (r_epoch r) = cl_epoch c"
      "\<exists>t\<in>set (tool_catalog d). tool_name t = tool_of req \<and> tool_version t = ''1'' \<and> tool_enabled t"
    have ep: "nat (cl_epoch c) = r_epoch r" using g(9) by linarith
    let ?change = "(d' = d \<or> (\<exists>s b. \<forall>X. nfc_of X = cb_nfc E \<longrightarrow> d' = exec X (Register me (to_id (cb_lib E) task_id)
          (s, cb_hash E b, length b) (Uuid (r_id r)) (r_epoch r) (cb_fid E) (cb_now E)) d))
      \<and> (\<forall>p. \<not> path_task (uuid_of (to_id (cb_lib E) task_id)) p \<longrightarrow> k' p = k p)"
    have ?change
    proof (cases "\<exists>s b res'. register_output (cb_hash E) (cb_nfc E) (cb_fault E) me (to_id (cb_lib E) task_id) s b
        (Uuid (r_id r)) (r_epoch r) (cb_fid E) (cb_now E) d k = (res', d', k')")
      case True
      then show ?thesis using register_output_changes [OF assms(3)] by blast
    next
      case False
      then have "d' = d \<and> k' = k"
        using body g(2,6) ep by (cases req) (auto split: sum.splits prod.splits)
      then show ?thesis by blast
    qed
    then show ?thesis using g by blast
  qed
qed

text \<open>No key of a JSON value, at any depth, is hidden.\<close>

fun shows_no_lease :: "pystr list \<Rightarrow> json \<Rightarrow> bool" where
  "shows_no_lease ex (JObj fs) = list_all (\<lambda>(k, v). \<not> hidden ex k \<and> shows_no_lease ex v) fs"
| "shows_no_lease ex (JArr xs) = list_all (shows_no_lease ex) xs"
| "shows_no_lease ex j = True"

lemma strip_hides: "shows_no_lease ex (strip_lease_fields ex j)"
  by (induction ex j rule: strip_lease_fields.induct) (auto simp: list_all_iff split: prod.splits)

text \<open>C18: What a callback answers: a file is read from a live input of the token's own task and travels
  unharmed through its encoding, a listing shows live inputs of that task only, and a task state has no
  lease field at any depth.\<close>

theorem callback_answers:
  assumes "tool_callback E reg token task_id req d k = (Inr a, d', k')"
  shows "\<exists>c me tid. decode_task_token (cb_lib E) (cb_now E) token = Some c \<and> to_id (cb_lib E) (cl_owner c) = Uuid me
    \<and> to_id (cb_lib E) task_id = Uuid tid
    \<and> (case a of
         FileContent n enc m \<Rightarrow> req = ReadTaskFile n
           \<and> (\<exists>f\<in>set (live_files me tid d). f_dir f = Input \<and> f_name f = n
                \<and> (\<exists>p b. input_path_of (f_key f) = Some p \<and> k p = Some b \<and> b64_decode enc = Some b \<and> m = length b))
       | Written row \<Rightarrow> f_owner row = me \<and> f_task row = tid \<and> f_state row = Registered
       | FileList l \<Rightarrow> set l = (\<lambda>f. (f_id f, f_name f, f_sha f, f_size f)) ` {f \<in> set (live_files me tid d). f_dir f = Input}
       | TaskState j \<Rightarrow> shows_no_lease [pystr_of ''lease_owner'', pystr_of ''lease_epoch''] j)"
proof (cases "tool_gates (cb_lib E) (cb_now E) reg token task_id req d")
  case (Inl e)
  then show ?thesis using assms by (simp add: tool_callback_def)
next
  case (Inr x)
  then obtain c me where x: "tool_gates (cb_lib E) (cb_now E) reg token task_id req d = Inr (c, me)" by (cases x) auto
  then have body: "tool_body E c me req d k = (Inr a, d', k')" using assms by (simp add: tool_callback_def)
  from x have g: "decode_task_token (cb_lib E) (cb_now E) token = Some c" "cl_task c = task_id" "to_id (cb_lib E) (cl_owner c) = Uuid me"
    by (auto elim: tool_gates_Inr)
  have ex: "excluded_fields ''query_task_state'' = [pystr_of ''lease_owner'', pystr_of ''lease_epoch'']" by code_simp
  show ?thesis
  proof (cases req)
    case (ReadTaskFile n)
    then obtain b where b: "read_input_bytes me (to_id (cb_lib E) task_id) n d k = Inr b"
      and a: "a = FileContent n (b64_encode b) (length b)" using body g(2) by auto
    then obtain tid f p where t: "to_id (cb_lib E) task_id = Uuid tid"
      and f: "filter (\<lambda>f. f_dir f = Input \<and> f_name f = n) (live_files me tid d) = [f]"
      and p: "input_path_of (f_key f) = Some p" "k p = Some b"
      by (auto simp: read_input_bytes_def split: if_splits list.splits option.splits)
    have "f \<in> set (filter (\<lambda>f. f_dir f = Input \<and> f_name f = n) (live_files me tid d))" by (simp add: f)
    then show ?thesis using g t p b64_decode_encode ReadTaskFile by (auto simp: a)
  next
    case (WriteOutputFile s content)
    then obtain b row where r: "register_output (cb_hash E) (cb_nfc E) (cb_fault E) me (to_id (cb_lib E) task_id) s b
        (to_id (cb_lib E) (cl_round c)) (nat (cl_epoch c)) (cb_fid E) (cb_now E) d k = (Inr row, d', k')" and a: "a = Written row"
      using body g(2) by (auto split: sum.splits prod.splits)
    then obtain old where tx: "register_tx (cb_nfc E) me (to_id (cb_lib E) task_id) (s, cb_hash E b, length b)
        (to_id (cb_lib E) (cl_round c)) (nat (cl_epoch c)) (cb_fid E) (cb_now E) d = Inr ((row, old), d')"
      by (auto simp: register_output_def split: sum.splits prod.splits bool.splits)
    then have "\<exists>tid. to_id (cb_lib E) task_id = Uuid tid \<and> f_owner row = me \<and> f_task row = tid \<and> f_state row = Registered"
      by (rule register_tx_cases) (auto simp: registered_row_def dest!: lock_task_Inr_D)
    then show ?thesis using g by (auto simp: a)
  next
    case ListTaskFiles
    then show ?thesis using body g by (auto simp: list_input_meta_def)
  next
    case QueryTaskState
    then obtain tid where "to_id (cb_lib E) task_id = Uuid tid" using body g(2) by (auto simp: get_task_view_def)
    then show ?thesis using QueryTaskState body g strip_hides by (auto simp: ex)
  qed
qed

text \<open>C17: What a tool wrote is what the owner downloads: after a successful write callback, whose content
  travels in base 64, the download of the new file resolves to its artifact copy with the written name,
  digest and length, and that copy holds exactly the bytes the container sent.\<close>

theorem written_then_downloaded:
  assumes "files_ok (cb_nfc E) d"
    and "tool_callback E reg token task_id (WriteOutputFile s (b64_encode b)) d k = (Inr a, d', k')"
  shows "\<exists>c me row. decode_task_token (cb_lib E) (cb_now E) token = Some c \<and> to_id (cb_lib E) (cl_owner c) = Uuid me
    \<and> a = Written row \<and> f_round row = Some (uuid_of (to_id (cb_lib E) (cl_round c)))
    \<and> resolve_download me (to_id (cb_lib E) task_id) (Uuid (cb_fid E)) d' k'
        = Inr (ArtifactPath (f_task row) (cb_fid E), s, cb_hash E b, length b)
    \<and> k' (ArtifactPath (f_task row) (cb_fid E)) = Some b"
proof (cases "tool_gates (cb_lib E) (cb_now E) reg token task_id (WriteOutputFile s (b64_encode b)) d")
  case (Inl e)
  then show ?thesis using assms(2) by (simp add: tool_callback_def)
next
  case (Inr x)
  then obtain c me where x: "tool_gates (cb_lib E) (cb_now E) reg token task_id (WriteOutputFile s (b64_encode b)) d = Inr (c, me)"
    by (cases x) auto
  then have g: "decode_task_token (cb_lib E) (cb_now E) token = Some c" "cl_task c = task_id" "to_id (cb_lib E) (cl_owner c) = Uuid me"
    by (auto elim: tool_gates_Inr)
  have "tool_body E c me (WriteOutputFile s (b64_encode b)) d k = (Inr a, d', k')"
    using assms(2) x by (simp add: tool_callback_def)
  then obtain row where r: "register_output (cb_hash E) (cb_nfc E) (cb_fault E) me (to_id (cb_lib E) task_id) s b
        (to_id (cb_lib E) (cl_round c)) (nat (cl_epoch c)) (cb_fid E) (cb_now E) d k = (Inr row, d', k')" and a: "a = Written row"
    using g(2) by (auto simp: b64_decode_encode split: sum.splits prod.splits)
  obtain old where "register_tx (cb_nfc E) me (to_id (cb_lib E) task_id) (s, cb_hash E b, length b)
        (to_id (cb_lib E) (cl_round c)) (nat (cl_epoch c)) (cb_fid E) (cb_now E) d = Inr ((row, old), d')"
    using r by (auto simp: register_output_def split: sum.splits prod.splits bool.splits)
  then have "f_round row = Some (uuid_of (to_id (cb_lib E) (cl_round c)))"
    by (rule register_tx_cases) (simp add: registered_row_def)
  then show ?thesis using g a register_then_download [OF assms(1) r] by blast
qed

section \<open>The grant\<close>

text \<open>C8: A provider key leaves the control plane only for a running round, and only after it was audited: a
  grant that answers with a key was asked with the proxy's secret and a token whose round is the owner's,
  running, under the token's epoch; model, address and key come from the task's own active provider; and
  the audit trail has grown by exactly this grant. The key is the one that was sealed for that provider.\<close>

theorem grant_audited:
  assumes "provider_grant L (unseal A parse kek) audit_fails expected provided token now d trail = (Inr g, trail')"
  shows "\<exists>c me r t p. expected \<noteq> [] \<and> provided = expected \<and> \<not> audit_fails \<and> decode_task_token L now token = Some c
    \<and> to_id L (cl_owner c) = Uuid me
    \<and> r \<in> set (rounds d) \<and> to_id L (cl_round c) = Uuid (r_id r) \<and> r_owner r = me \<and> r_state r = RRunning
    \<and> int (r_epoch r) = cl_epoch c
    \<and> t \<in> set (tasks d) \<and> t_owner t = me \<and> to_id L (cl_task c) = Uuid (t_id t)
    \<and> p \<in> set (providers d) \<and> p_user p = me \<and> p_id p = t_provider t \<and> p_active p
    \<and> gr_model g = t_model t \<and> gr_url g = p_url p
    \<and> trail' = trail @ [\<lparr>ga_task = t_id t, ga_round = cl_round c, ga_provider = p_id p\<rparr>]
    \<and> (\<forall>ids dkey n1 n2 key. aead_ok A (aads ids) \<and> id_text L (p_id p) \<in> ids
         \<and> length dkey = key_bytes \<and> length n1 = nonce_bytes \<and> length n2 = nonce_bytes
         \<and> parses_back parse (pystr_of (p_cipher p)) \<and> parses_back parse (pystr_of (p_dek p))
         \<and> seal A kek (dkey, n1, n2) key (id_text L (p_id p)) = Inr (pystr_of (p_cipher p), pystr_of (p_dek p))
         \<longrightarrow> gr_key g = key)"
proof -
  obtain c t p where rows: "grant_rows L now token d = Inr (c, t, p)"
    and sec: "expected \<noteq> []" "provided = expected" and af: "\<not> audit_fails"
    and key: "unseal A parse kek (pystr_of (p_cipher p)) (pystr_of (p_dek p)) (id_text L (p_id p)) = Inr (gr_key g)"
    and g: "gr_model g = t_model t" "gr_url g = p_url p"
    and tr: "trail' = trail @ [\<lparr>ga_task = t_id t, ga_round = cl_round c, ga_provider = p_id p\<rparr>]"
    using assms by (auto simp: provider_grant_def require_proxy_grant_credential_def Let_def split: sum.splits if_splits prod.splits)
  obtain me u tid where dc: "decode_task_token L now token = Some c" and me: "to_id L (cl_owner c) = Uuid me"
    and live: "assert_round_live L me c d = Inr u" and ti: "to_id L (cl_task c) = Uuid tid" "find_task me tid d = Some t"
    and p: "find (\<lambda>p. p_user p = me \<and> p_id p = t_provider t) (providers d) = Some p" "p_active p"
    using rows unfolding grant_rows_def as_owner_def by (auto split: option.split_asm raw_id.split_asm if_split_asm)
  have t: "to_id L (cl_task c) = Uuid (t_id t)" "t \<in> set (tasks d)" "t_owner t = me"
    using ti find_task_Some_D [OF ti(2)] by simp_all
  obtain r where r: "r \<in> set (rounds d)" "to_id L (cl_round c) = Uuid (r_id r)" "r_owner r = me" "r_state r = RRunning"
    "int (r_epoch r) = cl_epoch c"
    using assert_round_live_Inr [OF live] by blast
  have pp: "p \<in> set (providers d)" "p_user p = me" "p_id p = t_provider t" using p(1) by (auto dest!: find_Some_D)
  have same: "gr_key g = s" if "aead_ok A (aads ids)" "id_text L (p_id p) \<in> ids" "length dkey = key_bytes"
      "length n1 = nonce_bytes" "length n2 = nonce_bytes" "parses_back parse (pystr_of (p_cipher p))"
      "parses_back parse (pystr_of (p_dek p))"
      "seal A kek (dkey, n1, n2) s (id_text L (p_id p)) = Inr (pystr_of (p_cipher p), pystr_of (p_dek p))" for ids dkey n1 n2 s
    using unseal_sealed [OF that(1,3,4,5,8,2,2,6,7)] key by simp
  have sealed: "\<forall>ids dkey n1 n2 key. aead_ok A (aads ids) \<and> id_text L (p_id p) \<in> ids
         \<and> length dkey = key_bytes \<and> length n1 = nonce_bytes \<and> length n2 = nonce_bytes
         \<and> parses_back parse (pystr_of (p_cipher p)) \<and> parses_back parse (pystr_of (p_dek p))
         \<and> seal A kek (dkey, n1, n2) key (id_text L (p_id p)) = Inr (pystr_of (p_cipher p), pystr_of (p_dek p))
         \<longrightarrow> gr_key g = key"
    by (intro allI impI, elim conjE) (rule same)
  show ?thesis
    by (intro exI [of _ c] exI [of _ me] exI [of _ r] exI [of _ t] exI [of _ p] conjI)
      (rule sec af dc me r t pp p(2) g tr sealed)+
qed

section \<open>A container of the example run\<close>

definition ex_claims :: claims where
  "ex_claims = \<lparr>cl_task = digits 100, cl_owner = digits 1, cl_round = digits 300, cl_instance = [105], cl_epoch = 1\<rparr>"

definition ex_token :: pystr where "ex_token = [116, 107]"

definition ex_lib :: runtime_lib where
  "ex_lib = \<lparr>jwt_verify = (\<lambda>now t. if t = ex_token then Some (token_payload ex_claims 0 24) else None),
     jwt_sign = (\<lambda>p. ex_token),
     to_id = (\<lambda>s. if s \<noteq> [] \<and> list_all (\<lambda>c. 48 \<le> c \<and> c \<le> 57) s then Uuid (digits_value s) else Malformed s),
     id_text = digits, iso_text = (\<lambda>t. [])\<rparr>"

definition ex_cb :: callback_env where
  "ex_cb = \<lparr>cb_lib = ex_lib, cb_hash = ex_hash, cb_nfc = nfc_of ex_ext, cb_display = (\<lambda>v. (JNull, JNull)),
     cb_fault = None, cb_fid = 401, cb_now = 5\<rparr>"

definition ex_registry :: token_registry where "ex_registry = Some [digits 300 \<mapsto> ex_token]"

text \<open>The running example with the platform tools in the catalogue, and then with a sealed provider key.\<close>

definition ex_tools :: db where
  "ex_tools = ex_running\<lparr>tool_catalog := map (\<lambda>t. \<lparr>tool_name = pt_id t, tool_version = pt_version t, tool_enabled = True\<rparr>) platform_tools\<rparr>"

definition seal_row :: "provider_row \<Rightarrow> provider_row" where
  "seal_row p = p\<lparr>p_cipher := map char_of (fst ex_sealed), p_dek := map char_of (snd ex_sealed)\<rparr>"

definition ex_grantable :: db where
  "ex_grantable = ex_tools\<lparr>providers := map seal_row (providers ex_tools)\<rparr>"

definition ex_write :: "(api_error + tool_answer) \<times> db \<times> disk" where
  "ex_write = tool_callback ex_cb ex_registry ex_token (digits 100) (WriteOutputFile [111] (b64_encode [1])) ex_tools Map.empty"

lemma ex_decoded: "decode_task_token ex_lib now ex_token = Some ex_claims"
  by (cases "now = 0") (simp_all add: decode_task_token_def ex_lib_def, code_simp+)

lemma ex_tools_ok: "files_ok (cb_nfc ex_cb) ex_tools"
  using ex_files_ok(2) files_ok_cong [of ex_tools ex_running] by (simp add: ex_cb_def ex_tools_def)

lemma ex_write_ok: "(case fst ex_write of Inr (Written f) \<Rightarrow> f_task f = 100 | _ \<Rightarrow> False)"
  unfolding ex_write_def by code_simp

lemma ex_written: obtains row d' k' where "ex_write = (Inr (Written row), d', k')" "f_task row = 100"
proof -
  obtain r d' k' where e: "ex_write = (r, d', k')" by (cases ex_write)
  have "(case r of Inr (Written f) \<Rightarrow> f_task f = 100 | _ \<Rightarrow> False)" using ex_write_ok by (simp only: e fst_conv)
  then obtain row where "r = Inr (Written row)" "f_task row = 100" by (auto split: sum.splits tool_answer.splits)
  then show thesis using e that by blast
qed

theorem fenced_token_rejected_witness:
  "tool_callback ex_cb ex_registry ex_token (digits 100) ListTaskFiles (base (after ex_claim exs_requeued)) Map.empty
     = (Inl token_unauthorized, base (after ex_claim exs_requeued), Map.empty)"
proof -
  have x: "ex_ctx \<in> ctxs exs_requeued" "\<not> round_recheck ex_ctx (base exs_requeued)" by code_simp+
  have s: "(step ex_ext)\<^sup>*\<^sup>* exs_requeued (after ex_claim exs_requeued)"
    by (rule r_into_rtranclp, rule step_after) code_simp
  have c: "to_id (cb_lib ex_cb) (cl_owner ex_claims) = Uuid (x_owner ex_ctx)"
    "to_id (cb_lib ex_cb) (cl_round ex_claims) = Uuid (x_round ex_ctx)" "cl_epoch ex_claims = int (x_epoch ex_ctx)"
    by code_simp+
  have "decode_task_token (cb_lib ex_cb) (cb_now ex_cb) ex_token = Some ex_claims"
    using ex_decoded by (simp add: ex_cb_def)
  from fenced_token_rejected [OF ex_start ex_steps(9) x s this c] show ?thesis by blast
qed

theorem callback_authorised_witness:
  "\<exists>r\<in>set (rounds ex_tools). r_id r = 300 \<and> r_state r = RRunning \<and> int (r_epoch r) = 1"
proof (rule ex_written)
  fix row d' k' assume w: "ex_write = (Inr (Written row), d', k')"
  have "to_id ex_lib (cl_round ex_claims) = Uuid 300" "cl_epoch ex_claims = 1" by code_simp+
  then show ?thesis
    using callback_authorised [OF w [unfolded ex_write_def] _ ex_tools_ok] ex_decoded by (auto simp: ex_cb_def)
qed

theorem callback_answers_witness:
  "\<exists>j d' k'. tool_callback ex_cb ex_registry ex_token (digits 100) QueryTaskState ex_tools Map.empty = (Inr (TaskState j), d', k')
     \<and> shows_no_lease [pystr_of ''lease_owner'', pystr_of ''lease_epoch''] j"
proof -
  let ?q = "tool_callback ex_cb ex_registry ex_token (digits 100) QueryTaskState ex_tools Map.empty"
  have "(case fst ?q of Inr (TaskState j) \<Rightarrow> True | _ \<Rightarrow> False)" by code_simp
  then obtain j d' k' where q: "?q = (Inr (TaskState j), d', k')"
    by (cases ?q) (auto split: sum.splits tool_answer.splits)
  from callback_answers [OF q] q show ?thesis by auto
qed

theorem written_then_downloaded_witness:
  "resolve_download 1 (Uuid 100) (Uuid 401) (fst (snd ex_write)) (snd (snd ex_write)) = Inr (ArtifactPath 100 401, [111], ''h'', 1)
   \<and> snd (snd ex_write) (ArtifactPath 100 401) = Some [1]"
proof (rule ex_written)
  fix row d' k' assume w: "ex_write = (Inr (Written row), d', k')" "f_task row = 100"
  have "to_id ex_lib (digits 100) = Uuid 100" "to_id ex_lib (cl_owner ex_claims) = Uuid 1" by code_simp+
  then show ?thesis
    using written_then_downloaded [OF ex_tools_ok w(1) [unfolded ex_write_def]] ex_decoded w(2)
    by (auto simp: w(1) ex_cb_def ex_hash_def)
qed

lemma find_mapped_row: "(\<And>x. P (f x) = P x) \<Longrightarrow> find P (map f xs) = map_option f (find P xs)"
  by (induction xs) auto

lemma grant_rows_sealed:
  assumes "grant_rows L now token d = Inr (c, t, p)"
  shows "grant_rows L now token (d\<lparr>providers := map seal_row (providers d)\<rparr>) = Inr (c, t, seal_row p)"
proof -
  have "find (\<lambda>p. p_user p = me \<and> p_id p = i) (map seal_row ps) = map_option seal_row (find (\<lambda>p. p_user p = me \<and> p_id p = i) ps)" for me i ps
    by (rule find_mapped_row) (simp add: seal_row_def)
  moreover have "sel_rounds me P (d\<lparr>providers := ps\<rparr>) = sel_rounds me P d" for me P ps by (simp add: sel_rounds_def)
  then have "assert_round_live L me c (d\<lparr>providers := map seal_row (providers d)\<rparr>) = assert_round_live L me c d" for me c
    by (simp add: assert_round_live_def split: raw_id.split)
  ultimately show ?thesis
    using assms unfolding grant_rows_def as_owner_def
    by (auto simp: find_task_def seal_row_def split: option.split_asm raw_id.split_asm if_split_asm)
qed

theorem grant_audited_witness:
  "\<exists>g trail. provider_grant ex_lib (unseal ex_aead (ex_parse ex_docs) ex_kek) False [112] [112] ex_token 5 ex_grantable [] = (Inr g, trail)
     \<and> gr_key g = pystr_of ''sk-1'' \<and> length trail = 1"
proof -
  have r: "length (replicate 32 (9 :: 8 word)) = key_bytes" "length (replicate 12 (1 :: 8 word)) = nonce_bytes"
    "length (replicate 12 (2 :: 8 word)) = nonce_bytes"
    by (simp_all add: key_bytes_def nonce_bytes_def)
  have i: "[50, 48] \<in> ex_ids" by (simp add: ex_ids_def)
  have s: "seal ex_aead ex_kek (replicate 32 9, replicate 12 1, replicate 12 2) ex_key [50, 48] = Inr (fst ex_sealed, snd ex_sealed)"
    by (rule ex_sealing [unfolded ex_random_def ex_sealed_docs])
  have "list_all (\<lambda>c. c < 256) (canonical_json (ex_docs ! 0))" "list_all (\<lambda>c. c < 256) (canonical_json (ex_docs ! 1))"
    by code_simp+
  then have t: "pystr_of (map char_of (fst ex_sealed)) = fst ex_sealed" "pystr_of (map char_of (snd ex_sealed)) = snd ex_sealed"
    unfolding ex_sealed_docs by (auto simp: pystr_of_def list_all_iff intro!: map_idI)
  have "(case grant_rows ex_lib 5 ex_token ex_tools of Inr (c, t, p) \<Rightarrow> p_id p = 20 | _ \<Rightarrow> False)" by code_simp
  then obtain c u p where "grant_rows ex_lib 5 ex_token ex_tools = Inr (c, u, p)" and p: "p_id p = 20"
    by (auto split: sum.splits)
  then have rows: "grant_rows ex_lib 5 ex_token ex_grantable = Inr (c, u, seal_row p)"
    unfolding ex_grantable_def by (intro grant_rows_sealed)
  have q: "id_text ex_lib (p_id (seal_row p)) = [50, 48]" "pystr_of (p_cipher (seal_row p)) = fst ex_sealed"
      "pystr_of (p_dek (seal_row p)) = snd ex_sealed"
    by (simp_all add: seal_row_def p t) code_simp
  have "unseal ex_aead (ex_parse ex_docs) ex_kek (fst ex_sealed) (snd ex_sealed) [50, 48] = Inr ex_key"
    using unseal_sealed [OF ex_aead_ok r s i i ex_sealed_parse] by simp
  then obtain g trail where g: "provider_grant ex_lib (unseal ex_aead (ex_parse ex_docs) ex_kek) False [112] [112] ex_token 5 ex_grantable [] = (Inr g, trail)"
    and k: "gr_key g = ex_key"
    by (simp add: provider_grant_def require_proxy_grant_credential_def rows q)
  have "length trail = 1" using grant_audited [OF g] by auto
  then show ?thesis using g k by (auto simp: ex_key_def)
qed

end
