(* ===== verification/Rate_Limit.thy ===== *)
theory Rate_Limit
  imports AC_Prelude "HOL-Library.Code_Target_Numeral"
begin

text \<open>
  The sliding-window limiter (\<open>backend/v2/rate_limit.py\<close>): the table of registered limits, one
  \<open>enforce\<close> transaction over the event table, and sequences of such transactions. Times are
  microseconds; \<open>now\<close> is the transaction's timestamp. The HMAC is a parameter. The lemmas compare
  the table the code keeps (it deletes what left the window) with the full history of admitted
  events.
\<close>

section \<open>The code\<close>

definition limits :: "(string \<times> nat \<times> nat) list" where
  "limits =
     [(''login'', 10, 900), (''invitation_accept'', 5, 3600), (''email_verify_resend'', 3, 3600),
      (''password_reset_request'', 3, 3600), (''deletion_cancel_invalid'', 10, 3600),
      (''deletion_cancel_attempt'', 10, 3600), (''mfa_failure'', 10, 900),
      (''password_change_totp'', 5, 900), (''provider_test'', 10, 3600), (''mcp_discover'', 10, 3600),
      (''report'', 10, 86400), (''discover'', 60, 3600), (''task_create'', 30, 86400),
      (''upload'', 60, 3600), (''send_message'', 60, 3600), (''sse_connect'', 60, 3600),
      (''admin_kill_switch'', 10, 3600)]"

datatype rl_error =
    RLValueError
  | TooManyRequests int   \<comment> \<open>429 with \<open>Retry-After\<close>\<close>

definition hmac_subject :: "(pystr \<Rightarrow> string) \<Rightarrow> string \<Rightarrow> pystr \<Rightarrow> rl_error + string" where
  "hmac_subject hmac kind v =
     (if kind \<notin> {''email'', ''ip'', ''user'', ''task''} then Inl RLValueError
      else Inr (hmac (pystr_of (kind @ '':'') @ v)))"

record rl_event =
  ev_scope :: string
  ev_subject :: string
  ev_at :: time

definition micros :: "nat \<Rightarrow> int" where "micros s = int s * 1000000"

text \<open>\<open>_EVENT_COUNT_SQL\<close>: per-subject counts in the window, their maximum, and the oldest event.\<close>

definition in_window :: "string \<Rightarrow> nat \<Rightarrow> time \<Rightarrow> rl_event \<Rightarrow> bool" where
  "in_window scope w now e \<longleftrightarrow> ev_scope e = scope \<and> now - micros w < ev_at e"

definition event_count ::
  "string \<Rightarrow> nat \<Rightarrow> string list \<Rightarrow> time \<Rightarrow> rl_event list \<Rightarrow> nat \<times> time option" where
  "event_count scope w subjects now evs =
     (let rows = filter (\<lambda>e. in_window scope w now e \<and> ev_subject e \<in> set subjects) evs;
          counts = map (\<lambda>s. rowcount (\<lambda>e. ev_subject e = s) rows) (remdups (map ev_subject rows))
      in (fold max counts 0, if rows = [] then None else Some (Min (set (map ev_at rows)))))"

text \<open>\<open>math.ceil\<close> of a quotient.\<close>

definition ceil_div :: "int \<Rightarrow> int \<Rightarrow> int" where "ceil_div a b = - ((- a) div b)"

definition retry_after :: "nat \<Rightarrow> time \<Rightarrow> time option \<Rightarrow> int" where
  "retry_after w now oldest =
     (case oldest of None \<Rightarrow> int w
      | Some t \<Rightarrow> max 1 (ceil_div (micros w - (now - t)) 1000000))"

definition enforce ::
  "string \<Rightarrow> string list \<Rightarrow> time \<Rightarrow> rl_event list \<Rightarrow> rl_error + rl_event list" where
  "enforce scope subjects now evs =
     (case map_of limits scope of
        None \<Rightarrow> Inl RLValueError
      | Some (limit, w) \<Rightarrow>
          if subjects = [] then Inl RLValueError
          else
            (case event_count scope w subjects now evs of
               (cnt, oldest) \<Rightarrow>
                 if limit \<le> cnt then Inl (TooManyRequests (retry_after w now oldest))
                 else Inr (filter (\<lambda>e. \<not> (ev_scope e = scope \<and> ev_at e \<le> now - micros w))
                        (evs @ map (\<lambda>h. \<lparr>ev_scope = scope, ev_subject = h, ev_at = now\<rparr>) subjects))))"

section \<open>Counting\<close>

lemma fold_max_less_iff: "fold max xs (a::nat) < n \<longleftrightarrow> a < n \<and> (\<forall>x\<in>set xs. x < n)"
  by (induction xs arbitrary: a) auto

definition subject_count :: "string \<Rightarrow> nat \<Rightarrow> time \<Rightarrow> string \<Rightarrow> rl_event list \<Rightarrow> nat" where
  "subject_count scope w now s evs = rowcount (\<lambda>e. in_window scope w now e \<and> ev_subject e = s) evs"

lemma count_below_iff:
  assumes "0 < n"
  shows "fst (event_count scope w subjects now evs) < n
     \<longleftrightarrow> (\<forall>s\<in>set subjects. subject_count scope w now s evs < n)"
proof -
  let ?rows = "filter (\<lambda>e. in_window scope w now e \<and> ev_subject e \<in> set subjects) evs"
  have c: "rowcount (\<lambda>e. ev_subject e = s) ?rows = subject_count scope w now s evs" if "s \<in> set subjects" for s
    unfolding rowcount_def subject_count_def filter_filter
    by (rule arg_cong [where f = length], rule filter_cong) (use that in auto)
  have z: "subject_count scope w now s evs = 0" if "s \<in> set subjects" "s \<notin> set (map ev_subject ?rows)" for s
    using that by (auto simp: subject_count_def rowcount_def filter_empty_conv)
  have f: "fst (event_count scope w subjects now evs) < n
      \<longleftrightarrow> (\<forall>s\<in>set (map ev_subject ?rows). subject_count scope w now s evs < n)"
    using assms c by (auto simp: event_count_def Let_def fold_max_less_iff)
  show ?thesis
  proof (intro iffI ballI)
    fix s assume "fst (event_count scope w subjects now evs) < n" and s: "s \<in> set subjects"
    then show "subject_count scope w now s evs < n"
      using f z [OF s] assms by (cases "s \<in> set (map ev_subject ?rows)") (blast, simp)
  next
    assume "\<forall>s\<in>set subjects. subject_count scope w now s evs < n"
    then show "fst (event_count scope w subjects now evs) < n" using f by auto
  qed
qed

section \<open>Sequences of calls\<close>

type_synonym rl_call = "time \<times> string \<times> string list"

text \<open>The calls of a history one after the other; the admitted ones are collected.\<close>

fun serve :: "rl_call list \<Rightarrow> rl_event list \<Rightarrow> rl_event list \<times> rl_call list" where
  "serve [] evs = (evs, [])"
| "serve ((now, scope, subjects) # cs) evs =
     (case enforce scope subjects now evs of
        Inl _ \<Rightarrow> serve cs evs
      | Inr evs' \<Rightarrow> (case serve cs evs' of (fin, adm) \<Rightarrow> (fin, (now, scope, subjects) # adm)))"

text \<open>The reference: the same decision on the full log, from which nothing is deleted.\<close>

definition admits :: "string \<Rightarrow> string list \<Rightarrow> time \<Rightarrow> rl_event list \<Rightarrow> bool" where
  "admits scope subjects now evs \<longleftrightarrow>
     (case map_of limits scope of
        None \<Rightarrow> False
      | Some (limit, w) \<Rightarrow> subjects \<noteq> [] \<and> (\<forall>s\<in>set subjects. subject_count scope w now s evs < limit))"

definition events_of :: "rl_call \<Rightarrow> rl_event list" where
  "events_of c = (case c of (now, scope, subjects) \<Rightarrow>
     map (\<lambda>h. \<lparr>ev_scope = scope, ev_subject = h, ev_at = now\<rparr>) subjects)"

fun serve_full :: "rl_call list \<Rightarrow> rl_event list \<Rightarrow> rl_event list \<times> rl_call list" where
  "serve_full [] evs = (evs, [])"
| "serve_full (c # cs) evs =
     (case c of (now, scope, subjects) \<Rightarrow>
        if admits scope subjects now evs
        then (case serve_full cs (evs @ events_of c) of (fin, adm) \<Rightarrow> (fin, c # adm))
        else serve_full cs evs)"

lemma limits_positive: "map_of limits scope = Some (l, w) \<Longrightarrow> 0 < l \<and> 0 < w"
  by (auto simp: limits_def split: if_splits)

lemma enforce_admits: "(\<exists>evs'. enforce scope subjects now evs = Inr evs') \<longleftrightarrow> admits scope subjects now evs"
proof (cases "map_of limits scope")
  case None
  then show ?thesis by (simp add: enforce_def admits_def)
next
  case (Some lw)
  obtain l w where lw: "lw = (l, w)" by fastforce
  have "0 < l" using Some limits_positive lw by blast
  from count_below_iff [OF this, of scope w subjects now evs] show ?thesis
    by (cases "event_count scope w subjects now evs") (auto simp: enforce_def admits_def Some lw not_le)
qed

lemma enforce_Inr_D:
  assumes "enforce scope subjects now evs = Inr evs'" and "map_of limits scope = Some (l, w)"
  shows "evs' = filter (\<lambda>e. \<not> (ev_scope e = scope \<and> ev_at e \<le> now - micros w)) (evs @ events_of (now, scope, subjects))"
  using assms by (auto simp: enforce_def events_of_def split: prod.splits if_splits)

text \<open>The table agrees with the full log on everything a call at \<open>T\<close> or later can look at.\<close>

definition agree :: "time \<Rightarrow> rl_event list \<Rightarrow> rl_event list \<Rightarrow> bool" where
  "agree T tab full \<longleftrightarrow> (\<forall>scope l w now. map_of limits scope = Some (l, w) \<longrightarrow> T \<le> now \<longrightarrow>
     filter (in_window scope w now) tab = filter (in_window scope w now) full)"

lemma agree_admits:
  assumes "agree T tab full" and "T \<le> now"
  shows "admits scope subjects now tab = admits scope subjects now full"
proof (cases "map_of limits scope")
  case None
  then show ?thesis by (simp add: admits_def)
next
  case (Some lw)
  obtain l w where lw: "map_of limits scope = Some (l, w)" using Some by (cases lw) simp
  have f: "filter (in_window scope w now) tab = filter (in_window scope w now) full"
    using assms lw unfolding agree_def by blast
  have s: "subject_count scope w now s xs = length (filter (\<lambda>e. ev_subject e = s) (filter (in_window scope w now) xs))" for s xs
    by (simp add: subject_count_def rowcount_def conj_commute)
  show ?thesis by (simp add: admits_def lw s f)
qed

lemma agree_step:
  assumes a: "agree T tab full" and t: "T \<le> now" and e: "enforce scope subjects now tab = Inr tab'"
  shows "agree now tab' (full @ events_of (now, scope, subjects))"
  unfolding agree_def
proof (intro allI impI)
  fix scope' l' w' now'
  assume l: "map_of limits scope' = Some (l', w')" and n: "now \<le> now'"
  obtain l w where lw: "map_of limits scope = Some (l, w)"
    using e by (cases "map_of limits scope") (auto simp: enforce_def)
  have f: "filter (in_window scope' w' now') tab = filter (in_window scope' w' now') full"
    using a l n t unfolding agree_def by (meson order_trans)
  have "filter (in_window scope' w' now') (filter (\<lambda>e. \<not> (ev_scope e = scope \<and> ev_at e \<le> now - micros w)) xs)
      = filter (in_window scope' w' now') xs" for xs
    unfolding filter_filter by (rule filter_cong) (use n l lw in \<open>auto simp: in_window_def\<close>)
  then show "filter (in_window scope' w' now') tab'
      = filter (in_window scope' w' now') (full @ events_of (now, scope, subjects))"
    unfolding enforce_Inr_D [OF e lw] using f by simp
qed

text \<open>Times do not decrease along a history.\<close>

fun ordered_from :: "time \<Rightarrow> rl_call list \<Rightarrow> bool" where
  "ordered_from T [] = True"
| "ordered_from T ((now, _) # cs) = (T \<le> now \<and> ordered_from now cs)"

lemma serve_agrees:
  "ordered_from T cs \<Longrightarrow> agree T tab full \<Longrightarrow> snd (serve cs tab) = snd (serve_full cs full)"
proof (induction cs arbitrary: T tab full)
  case (Cons c cs)
  obtain now scope subjects where c: "c = (now, scope, subjects)" by (cases c) auto
  have t: "T \<le> now" "ordered_from now cs" using Cons.prems(1) by (auto simp: c)
  have later: "agree now tab full"
    using Cons.prems(2) t(1) unfolding agree_def by (meson order_trans)
  show ?case
  proof (cases "enforce scope subjects now tab")
    case (Inl err)
    then have "\<not> admits scope subjects now full"
      using enforce_admits [of scope subjects now tab] agree_admits [OF Cons.prems(2) t(1)] by auto
    then show ?thesis using Cons.IH [OF t(2) later] Inl by (simp add: c)
  next
    case (Inr tab')
    then have "admits scope subjects now full"
      using enforce_admits [of scope subjects now tab] agree_admits [OF Cons.prems(2) t(1)] by auto
    then show ?thesis using Cons.IH [OF t(2) agree_step [OF Cons.prems(2) t(1) Inr]] Inr
      by (cases "serve cs tab'"; cases "serve_full cs (full @ events_of (now, scope, subjects))") (simp add: c)
  qed
qed simp

section \<open>The bound\<close>

text \<open>Events of a subject in the half-open window \<open>(t - w, t]\<close>.\<close>

definition seen :: "string \<Rightarrow> string \<Rightarrow> int \<Rightarrow> time \<Rightarrow> rl_event list \<Rightarrow> nat" where
  "seen scope s w t evs = rowcount (\<lambda>e. ev_scope e = scope \<and> ev_subject e = s \<and> t - w < ev_at e \<and> ev_at e \<le> t) evs"

definition bounded_log :: "time \<Rightarrow> rl_event list \<Rightarrow> bool" where
  "bounded_log T full \<longleftrightarrow> (\<forall>e\<in>set full. ev_at e \<le> T)
     \<and> (\<forall>scope l w s t. map_of limits scope = Some (l, w) \<longrightarrow> seen scope s (micros w) t full \<le> l)"

lemma rowcount_append: "rowcount P (xs @ ys) = rowcount P xs + rowcount P ys"
  by (simp add: rowcount_def)

lemma seen_events_of:
  assumes "distinct subjects"
  shows "seen scope s w t (events_of (now, scope', subjects))
    = (if scope = scope' \<and> s \<in> set subjects \<and> t - w < now \<and> now \<le> t then 1 else 0)"
  using assms by (induction subjects) (auto simp: seen_def events_of_def rowcount_def filter_empty_conv)

lemma seen_append: "seen scope s w t (xs @ ys) = seen scope s w t xs + seen scope s w t ys"
  by (simp add: seen_def rowcount_append)

lemma bounded_log_step:
  assumes b: "bounded_log T full" and t: "T \<le> now" and a: "admits scope subjects now full" and d: "distinct subjects"
  shows "bounded_log now (full @ events_of (now, scope, subjects))"
  unfolding bounded_log_def
proof (intro conjI ballI allI impI)
  fix e assume "e \<in> set (full @ events_of (now, scope, subjects))"
  then show "ev_at e \<le> now" using b t by (auto simp: bounded_log_def events_of_def)
next
  fix scope' l w s u
  assume l: "map_of limits scope' = Some (l, w)"
  have old: "seen scope' s (micros w) u full \<le> l" using b l unfolding bounded_log_def by blast
  show "seen scope' s (micros w) u (full @ events_of (now, scope, subjects)) \<le> l"
  proof (cases "scope' = scope \<and> s \<in> set subjects \<and> u - micros w < now \<and> now \<le> u")
    case False
    have "seen scope' s (micros w) u (events_of (now, scope, subjects)) = 0"
      unfolding seen_events_of [OF d] using False by (simp only: if_False)
    with old show ?thesis by (simp add: seen_append)
  next
    case True
    then have "subject_count scope w now s full < l" using a l by (auto simp: admits_def)
    moreover have "seen scope s (micros w) u full \<le> subject_count scope w now s full"
      unfolding seen_def subject_count_def by (rule rowcount_mono) (use True in \<open>auto simp: in_window_def\<close>)
    ultimately show ?thesis using True by (simp add: seen_append seen_events_of [OF d])
  qed
qed

definition log_of_calls :: "rl_call list \<Rightarrow> rl_event list" where
  "log_of_calls cs = concat (map events_of cs)"

lemma serve_full_log: "fst (serve_full cs full) = full @ log_of_calls (snd (serve_full cs full))"
proof (induction cs arbitrary: full)
  case (Cons c cs)
  obtain now scope subjects where c: "c = (now, scope, subjects)" by (cases c) auto
  obtain fin adm where f: "serve_full cs (full @ events_of c) = (fin, adm)" by fastforce
  show ?case using Cons.IH [of full] Cons.IH [of "full @ events_of c"] f
    by (auto simp: c log_of_calls_def)
qed (simp add: log_of_calls_def)

lemma serve_full_bounded:
  assumes "ordered_from T cs" and "bounded_log T full" and "\<forall>c\<in>set cs. distinct (snd (snd c))"
  shows "\<exists>T'. bounded_log T' (fst (serve_full cs full))"
  using assms
proof (induction cs arbitrary: T full)
  case (Cons c cs)
  obtain now scope subjects where c: "c = (now, scope, subjects)" by (cases c) auto
  have t: "T \<le> now" "ordered_from now cs" "distinct subjects" and d: "\<forall>c\<in>set cs. distinct (snd (snd c))"
    using Cons.prems by (auto simp: c)
  have b: "bounded_log now full" using Cons.prems(2) t(1) by (auto simp: bounded_log_def)
  show ?case
  proof (cases "admits scope subjects now full")
    case True
    from Cons.IH [OF t(2) bounded_log_step [OF Cons.prems(2) t(1) True t(3)] d]
    show ?thesis using True by (cases "serve_full cs (full @ events_of (now, scope, subjects))") (simp add: c)
  next
    case False
    with Cons.IH [OF t(2) b d] show ?thesis by (simp add: c)
  qed
qed auto

lemma seen_Nil [simp]: "seen scope s w t [] = 0"
  by (simp add: seen_def rowcount_def)

lemma bounded_log_Nil: "bounded_log T []"
  by (simp add: bounded_log_def)

lemma agree_refl: "agree T evs evs"
  by (simp add: agree_def)

section \<open>Retry-After\<close>

lemma serve_table:
  assumes "ordered_from T cs" and "agree T tab full" and "bounded_log T full" and "\<forall>e\<in>set tab. ev_at e \<le> T"
    and "\<forall>c\<in>set cs. distinct (snd (snd c)) \<and> fst c \<le> now" and "T \<le> now"
  shows "\<exists>full' T'. T' \<le> now \<and> agree T' (fst (serve cs tab)) full' \<and> bounded_log T' full'
     \<and> (\<forall>e\<in>set (fst (serve cs tab)). ev_at e \<le> now)"
  using assms
proof (induction cs arbitrary: T tab full)
  case Nil
  then show ?case by (intro exI [of _ full] exI [of _ T]) auto
next
  case (Cons c cs)
  obtain u scope subjects where c: "c = (u, scope, subjects)" by (cases c) auto
  have t: "T \<le> u" "ordered_from u cs" "distinct subjects" "u \<le> now"
    and d: "\<forall>c\<in>set cs. distinct (snd (snd c)) \<and> fst c \<le> now"
    using Cons.prems(1,5) by (auto simp: c)
  have later: "agree u tab full" using Cons.prems(2) t(1) unfolding agree_def by (meson order_trans)
  have lb: "bounded_log u full" "\<forall>e\<in>set tab. ev_at e \<le> u"
    using Cons.prems(3,4) t(1) by (auto simp: bounded_log_def)
  show ?case
  proof (cases "enforce scope subjects u tab")
    case (Inl err)
    with Cons.IH [OF t(2) later lb d t(4)] show ?thesis by (simp add: c)
  next
    case (Inr tab')
    then have "admits scope subjects u full"
      using enforce_admits [of scope subjects u tab] agree_admits [OF Cons.prems(2) t(1)] by auto
    note b = bounded_log_step [OF Cons.prems(3) t(1) this t(3)]
    obtain l w where "map_of limits scope = Some (l, w)"
      using Inr by (cases "map_of limits scope") (auto simp: enforce_def)
    then have "\<forall>e\<in>set tab'. ev_at e \<le> u" using enforce_Inr_D [OF Inr] lb(2) by (auto simp: events_of_def)
    from Cons.IH [OF t(2) agree_step [OF Cons.prems(2) t(1) Inr] b this d t(4)]
    show ?thesis using Inr by (cases "serve cs tab'") (simp add: c)
  qed
qed

lemma agree_count:
  assumes "agree T tab full" and "T \<le> now" and "map_of limits scope = Some (l, w)"
  shows "subject_count scope w now s tab = subject_count scope w now s full"
proof -
  have f: "filter (in_window scope w now) tab = filter (in_window scope w now) full"
    using assms unfolding agree_def by blast
  have "subject_count scope w now s xs = length (filter (\<lambda>e. ev_subject e = s) (filter (in_window scope w now) xs))" for xs
    by (simp add: subject_count_def rowcount_def conj_commute)
  then show ?thesis by (simp only: f)
qed

lemma ceil_div_bounds: "a \<le> ceil_div a 1000000 * 1000000" "(ceil_div a 1000000 - 1) * 1000000 < a"
proof -
  obtain q m where q: "q = - a div 1000000" "m = - a mod (1000000 :: int)" by blast
  have "- a = q * 1000000 + m" "0 \<le> m" "m < 1000000" unfolding q by simp_all
  then show "a \<le> ceil_div a 1000000 * 1000000" "(ceil_div a 1000000 - 1) * 1000000 < a"
    unfolding ceil_div_def q(1) [symmetric] by (simp_all add: algebra_simps)
qed

lemma rowcount_less:
  "(\<And>x. x \<in> set xs \<Longrightarrow> P x \<Longrightarrow> Q x) \<Longrightarrow> y \<in> set xs \<Longrightarrow> Q y \<Longrightarrow> \<not> P y \<Longrightarrow> rowcount P xs < rowcount Q xs"
proof (induction xs)
  case (Cons x xs)
  have le: "rowcount P xs \<le> rowcount Q xs" by (rule rowcount_mono) (use Cons.prems(1) in auto)
  show ?case
  proof (cases "y \<in> set xs")
    case True
    with Cons have "rowcount P xs < rowcount Q xs" by auto
    then show ?thesis using Cons.prems(1) by (auto simp: rowcount_def)
  next
    case False
    with Cons.prems(2) have "x = y" by simp
    with le Cons.prems(3,4) show ?thesis by (simp add: rowcount_def)
  qed
qed simp

lemma retry_after_single:
  assumes lw: "map_of limits scope = Some (l, w)" and rej: "enforce scope [s] now evs = Inl (TooManyRequests r)"
    and cnt: "subject_count scope w now s evs \<le> l" and past: "\<forall>e\<in>set evs. ev_at e \<le> now"
  shows "1 \<le> r \<and> r \<le> int w \<and> admits scope [s] (now + r * 1000000) evs
     \<and> (\<forall>k. 0 \<le> k \<longrightarrow> k < r \<longrightarrow> \<not> admits scope [s] (now + k * 1000000) evs)"
proof -
  let ?hit = "\<lambda>e. in_window scope w now e \<and> ev_subject e \<in> set [s]"
  let ?rows = "filter ?hit evs"
  have l: "0 < l" using limits_positive lw by blast
  have na: "\<not> admits scope [s] now evs" using rej enforce_admits [of scope "[s]" now evs] by auto
  then have full: "subject_count scope w now s evs = l" using cnt by (auto simp: admits_def lw)
  then have ne: "?rows \<noteq> []" using l by (auto simp: subject_count_def rowcount_def)
  define p where "p = Min (set (map ev_at ?rows))"
  have "p \<in> set (map ev_at ?rows)" unfolding p_def by (rule Min_in) (use ne in \<open>simp_all only: list.map_disc_iff set_empty finite_set not_False_eq_True\<close>)
  then obtain e where e: "e \<in> set evs" "?hit e" "ev_at e = p" by auto
  have least: "p \<le> ev_at f" if "f \<in> set evs" "?hit f" for f
    unfolding p_def by (rule Min_le) (use that in auto)
  have "r = retry_after w now (Some p)"
    using rej ne by (simp add: enforce_def lw event_count_def Let_def p_def split: if_splits)
  moreover define a where "a = micros w - (now - p)"
  moreover have "0 < a" using e(2,3) by (simp add: a_def in_window_def)
  ultimately have r: "r = ceil_div a 1000000"
    using ceil_div_bounds(1) [of a] by (simp add: retry_after_def)
  have rb: "a \<le> r * 1000000" "(r - 1) * 1000000 < a" using ceil_div_bounds [of a] by (simp_all add: r)
  have "a \<le> micros w" using past e(1,3) by (auto simp: a_def)
  then have "r \<le> int w" using rb(2) by (simp add: micros_def)
  moreover have "1 \<le> r" using rb(1) \<open>0 < a\<close> by simp
  moreover have "admits scope [s] (now + r * 1000000) evs"
  proof -
    have "subject_count scope w (now + r * 1000000) s evs < subject_count scope w now s evs"
      unfolding subject_count_def
      by (rule rowcount_less [OF _ e(1)]) (use e(2,3) rb(1) \<open>1 \<le> r\<close> in \<open>auto simp: in_window_def a_def\<close>)
    then show ?thesis using full by (simp add: admits_def lw)
  qed
  moreover have "\<not> admits scope [s] (now + k * 1000000) evs" if "0 \<le> k" "k < r" for k
  proof -
    have "k * 1000000 < a" using rb(2) that(2) by (smt (verit))
    then have "subject_count scope w now s evs \<le> subject_count scope w (now + k * 1000000) s evs"
      unfolding subject_count_def
      by (intro rowcount_mono) (use least in \<open>fastforce simp: in_window_def a_def\<close>)
    then show ?thesis using full by (simp add: admits_def lw)
  qed
  ultimately show ?thesis by blast
qed

section \<open>Properties\<close>

text \<open>Deleting what left the window changes no decision: over any history of calls with non-decreasing
  timestamps the limiter admits exactly the calls the same rule admits on the complete, never
  cleaned log.\<close>

theorem cleanup_changes_no_decision:
  assumes "ordered_from T cs"
  shows "snd (serve cs evs) = snd (serve_full cs evs)"
  by (rule serve_agrees [OF assms agree_refl])

definition ex_calls :: "rl_call list" where
  "ex_calls = map (\<lambda>k. (k * 300000000, ''email_verify_resend'', [''s''])) [0, 1, 2, 3, 12, 13]"

theorem cleanup_changes_no_decision_witness:
  "snd (serve ex_calls []) = snd (serve_full ex_calls [])
    \<and> map fst (snd (serve ex_calls [])) = [0, 300000000, 600000000, 3600000000, 3900000000]
    \<and> length (fst (serve ex_calls [])) = 3"
proof -
  have "ordered_from 0 ex_calls" by (simp add: ex_calls_def)
  moreover have "map fst (snd (serve ex_calls [])) = [0, 300000000, 600000000, 3600000000, 3900000000]"
    "length (fst (serve ex_calls [])) = 3" by code_simp+
  ultimately show ?thesis using cleanup_changes_no_decision by blast
qed



text \<open>\<open>Retry-After\<close> is exact for a single subject: a call the limiter refuses after any history would be
  admitted that many seconds later if nothing else happened, at no whole second earlier, and the
  value lies between one second and the length of the window.\<close>

theorem retry_after_exact:
  assumes "ordered_from T cs" and "\<forall>c\<in>set cs. distinct (snd (snd c)) \<and> fst c \<le> now" and "T \<le> now"
    and "map_of limits scope = Some (l, w)"
    and "enforce scope [s] now (fst (serve cs [])) = Inl (TooManyRequests r)"
  shows "1 \<le> r \<and> r \<le> int w
    \<and> (\<exists>evs'. enforce scope [s] (now + r * 1000000) (fst (serve cs [])) = Inr evs')
    \<and> (\<forall>k. 0 \<le> k \<longrightarrow> k < r \<longrightarrow> (\<nexists>evs'. enforce scope [s] (now + k * 1000000) (fst (serve cs [])) = Inr evs'))"
proof -
  obtain full' T' where f: "T' \<le> now" "agree T' (fst (serve cs [])) full'" "bounded_log T' full'"
    and p: "\<forall>e\<in>set (fst (serve cs [])). ev_at e \<le> now"
    using serve_table [OF assms(1) agree_refl bounded_log_Nil _ assms(2,3)] by auto
  have "subject_count scope w now s full' \<le> seen scope s (micros w) now full'"
    unfolding subject_count_def seen_def
    by (rule rowcount_mono) (use f(1,3) in \<open>force simp: in_window_def bounded_log_def\<close>)
  also have "\<dots> \<le> l" using f(3) assms(4) unfolding bounded_log_def by blast
  finally have "subject_count scope w now s (fst (serve cs [])) \<le> l"
    using agree_count [OF f(2,1) assms(4)] by simp
  from retry_after_single [OF assms(4,5) this p] show ?thesis by (simp add: enforce_admits)
qed

theorem retry_after_exact_witness:
  "enforce ''email_verify_resend'' [''s''] 900000000 (fst (serve (take 3 ex_calls) [])) = Inl (TooManyRequests 2700)
    \<and> (\<exists>evs'. enforce ''email_verify_resend'' [''s''] 3600000000 (fst (serve (take 3 ex_calls) [])) = Inr evs')"
proof -
  have r: "enforce ''email_verify_resend'' [''s''] 900000000 (fst (serve (take 3 ex_calls) [])) = Inl (TooManyRequests 2700)"
    by code_simp
  have "ordered_from 0 (take 3 ex_calls)" "\<forall>c\<in>set (take 3 ex_calls). distinct (snd (snd c)) \<and> fst c \<le> 900000000"
    "(0::int) \<le> 900000000" "map_of limits ''email_verify_resend'' = Some (3, 3600)"
    by (simp_all add: ex_calls_def limits_def)
  from retry_after_exact [OF this r] r show ?thesis by simp
qed

text \<open>With several subjects the oldest event may belong to a subject below its limit, and the announced time
  is too short: a login refused because of its address may be told one second and be refused again.\<close>

lemma retry_after_short_for_pairs:
  "(let evs = \<lparr>ev_scope = ''login'', ev_subject = ''mail'', ev_at = 0\<rparr>
        # map (\<lambda>k. \<lparr>ev_scope = ''login'', ev_subject = ''ip'', ev_at = 890000000 + k\<rparr>) [0..9]
    in enforce ''login'' [''mail'', ''ip''] 899000000 evs = Inl (TooManyRequests 1)
     \<and> enforce ''login'' [''mail'', ''ip''] 900000000 evs = Inl (TooManyRequests 890))"
  by code_simp

end
