(* ===== verification/Idempotency.thy ===== *)
theory Idempotency
  imports Content_Hash
begin

text \<open>
  The idempotency engine (\<open>backend/v2/idempotency.py\<close>): the redacted request hash, the lookup that
  replays a recorded answer, and the insert under the unique index \<open>idempotency_route_key\<close>. The
  database clock and the application clock are separate arguments, in seconds; SHA-256 is a
  parameter. Answers are JSON values.
\<close>

section \<open>The code\<close>

definition credential_fields :: "pystr list" where
  "credential_fields = map pystr_of
     [''password'', ''new_password'', ''invitation_token'', ''verify_token'', ''reset_token'',
      ''cancel_token'', ''api_key'', ''totp_code'']"

definition redacted_placeholder :: pystr where
  "redacted_placeholder = pystr_of ''***IDEMPOTENCY-REDACTED***''"

definition redacted_null_placeholder :: pystr where
  "redacted_null_placeholder = pystr_of ''***IDEMPOTENCY-REDACTED-NULL***''"

definition redact_value :: "pystr \<Rightarrow> json \<Rightarrow> json" where
  "redact_value k v =
     (if k \<notin> set credential_fields then v
      else if v = JNull then JStr redacted_null_placeholder else JStr redacted_placeholder)"

definition redact :: "(pystr \<times> json) list \<Rightarrow> (pystr \<times> json) list" where
  "redact fs = map (\<lambda>(k, v). (k, redact_value k v)) fs"

definition request_text :: "(pystr \<times> json) list option \<Rightarrow> pystr" where
  "request_text payload = canonical_json (case payload of None \<Rightarrow> JNull | Some fs \<Rightarrow> JObj (redact fs))"

definition request_hash :: "(pystr \<Rightarrow> string) \<Rightarrow> (pystr \<times> json) list option \<Rightarrow> string" where
  "request_hash sha256 payload = sha256 (request_text payload)"

record idem_row =
  ir_subject :: string
  ir_route :: string
  ir_key :: pystr
  ir_hash :: string
  ir_status :: nat
  ir_response :: json
  ir_expires :: time

definition record_ttl :: int where "record_ttl = 24 * 3600"
definition key_max_length :: nat where "key_max_length = 100"

definition same_slot :: "string \<Rightarrow> string \<Rightarrow> pystr \<Rightarrow> idem_row \<Rightarrow> bool" where
  "same_slot subject route key r \<longleftrightarrow> ir_subject r = subject \<and> ir_route r = route \<and> ir_key r = key"

text \<open>\<open>_lookup\<close>: a hit is replayed or refused; a miss deletes every expired row.\<close>

definition lookup_record ::
  "string \<Rightarrow> string \<Rightarrow> pystr \<Rightarrow> string \<Rightarrow> time \<Rightarrow> idem_row list \<Rightarrow>
     api_error + (nat \<times> json) option \<times> idem_row list" where
  "lookup_record subject route key h now rows =
     (case find (\<lambda>r. same_slot subject route key r \<and> now < ir_expires r) rows of
        None \<Rightarrow> Inr (None, filter (\<lambda>r. \<not> ir_expires r \<le> now) rows)
      | Some r \<Rightarrow>
          if ir_hash r \<noteq> h then Inl (app_error IDEMPOTENCY_CONFLICT 409)
          else Inr (Some (ir_status r, ir_response r), rows))"

text \<open>\<open>begin\<close> with its own committing transaction: the state after it, whatever it answers.\<close>

definition begin_request ::
  "string \<Rightarrow> string \<Rightarrow> pystr \<Rightarrow> string \<Rightarrow> time \<Rightarrow> idem_row list \<Rightarrow>
     (api_error + (nat \<times> json) option) \<times> idem_row list" where
  "begin_request subject route key h now rows =
     (case lookup_record subject route key h now rows of
        Inl e \<Rightarrow> (Inl e, rows)
      | Inr (a, rows') \<Rightarrow> (Inr a, rows'))"

definition store_record ::
  "string \<Rightarrow> string \<Rightarrow> pystr \<Rightarrow> string \<Rightarrow> nat \<Rightarrow> json \<Rightarrow> time \<Rightarrow> time \<Rightarrow> idem_row list \<Rightarrow>
     api_error + idem_row list" where
  "store_record subject route key h status response now app_now rows =
     (let rows' = filter (\<lambda>r. \<not> (same_slot subject route key r \<and> ir_expires r \<le> now)) rows
      in if list_ex (same_slot subject route key) rows' then Inl (app_error IDEMPOTENCY_CONFLICT 409)
         else Inr (rows' @ [\<lparr>ir_subject = subject, ir_route = route, ir_key = key, ir_hash = h,
                ir_status = status, ir_response = response, ir_expires = app_now + record_ttl\<rparr>]))"

definition require_key_header :: "pystr option \<Rightarrow> api_error + pystr" where
  "require_key_header header =
     (case header of
        None \<Rightarrow> Inl validation_error
      | Some key \<Rightarrow> if key = [] then Inl validation_error
          else if length key > key_max_length then Inl validation_error else Inr key)"

section \<open>The record of a request while it lives\<close>

text \<open>What other requests do to the table.\<close>

datatype idem_op =
    IBegin string string pystr string time
  | IStore string string pystr string nat json time time

fun run_op :: "idem_op \<Rightarrow> idem_row list \<Rightarrow> idem_row list" where
  "run_op (IBegin s ro k h now) rows = snd (begin_request s ro k h now rows)"
| "run_op (IStore s ro k h st resp now app_now) rows =
     (case store_record s ro k h st resp now app_now rows of Inl _ \<Rightarrow> rows | Inr rows' \<Rightarrow> rows')"

fun op_time :: "idem_op \<Rightarrow> time" where
  "op_time (IBegin s ro k h now) = now"
| "op_time (IStore s ro k h st resp now app_now) = now"

lemma find_single: "filter P xs = [x] \<Longrightarrow> Q x \<Longrightarrow> find (\<lambda>y. P y \<and> Q y) xs = Some x"
proof (induction xs)
  case (Cons a xs)
  then show ?case by (cases "P a") (auto simp: filter_empty_conv)
qed simp

lemma begin_rows:
  "snd (begin_request s ro k h now rows) = rows
   \<or> snd (begin_request s ro k h now rows) = filter (\<lambda>r. \<not> ir_expires r \<le> now) rows"
  by (auto simp: begin_request_def lookup_record_def split: option.splits)

lemma only_row_kept:
  assumes "filter (same_slot s ro k) rows = [r]" and "op_time c < ir_expires r"
  shows "filter (same_slot s ro k) (run_op c rows) = [r]"
proof (cases c)
  case (IBegin s' ro' k' h' now)
  have "filter (same_slot s ro k) (filter (\<lambda>r. \<not> ir_expires r \<le> now) rows)
      = filter (\<lambda>r. \<not> ir_expires r \<le> now) (filter (same_slot s ro k) rows)"
    by (simp add: conj_commute)
  then show ?thesis using begin_rows [of s' ro' k' h' now rows] assms by (auto simp: IBegin)
next
  case (IStore s' ro' k' h' st' resp' now app_now)
  let ?rows = "filter (\<lambda>r. \<not> (same_slot s' ro' k' r \<and> ir_expires r \<le> now)) rows"
  have "filter (same_slot s ro k) ?rows
      = filter (\<lambda>r. \<not> (same_slot s' ro' k' r \<and> ir_expires r \<le> now)) (filter (same_slot s ro k) rows)"
    unfolding filter_filter by (rule filter_cong) auto
  then have kept: "filter (same_slot s ro k) ?rows = [r]" using assms by (simp add: IStore)
  show ?thesis
  proof (cases "s' = s \<and> ro' = ro \<and> k' = k")
    case True
    then have "list_ex (same_slot s' ro' k') ?rows"
      using kept by (metis filter_empty_conv list.distinct(1) list_ex_iff)
    then show ?thesis using assms(1) by (simp add: IStore store_record_def Let_def)
  next
    case False
    then show ?thesis using kept assms(1) by (auto simp: IStore store_record_def Let_def same_slot_def)
  qed
qed

lemma only_row_kept_fold:
  "filter (same_slot s ro k) rows = [r] \<Longrightarrow> (\<forall>c\<in>set cs. op_time c < ir_expires r) \<Longrightarrow>
     filter (same_slot s ro k) (fold run_op cs rows) = [r]"
  by (induction cs arbitrary: rows) (auto simp: only_row_kept)

lemma store_only_row:
  assumes "store_record s ro k h st resp now app_now rows = Inr rows'"
  shows "filter (same_slot s ro k) rows' = [\<lparr>ir_subject = s, ir_route = ro, ir_key = k, ir_hash = h,
                ir_status = st, ir_response = resp, ir_expires = app_now + record_ttl\<rparr>]"
proof -
  let ?rows = "filter (\<lambda>r. \<not> (same_slot s ro k r \<and> ir_expires r \<le> now)) rows"
  have "\<not> list_ex (same_slot s ro k) ?rows"
    and "rows' = ?rows @ [\<lparr>ir_subject = s, ir_route = ro, ir_key = k, ir_hash = h,
                ir_status = st, ir_response = resp, ir_expires = app_now + record_ttl\<rparr>]"
    using assms by (auto simp: store_record_def Let_def split: if_splits)
  moreover from this(1) have "filter (same_slot s ro k) ?rows = []" by (simp add: filter_empty_conv list_ex_iff)
  ultimately show ?thesis by (simp add: same_slot_def)
qed

section \<open>The hash and the credentials\<close>

lemma placeholders_differ: "redacted_placeholder \<noteq> redacted_null_placeholder"
  by code_simp

lemma sorted_json_JStr: "sorted_json v = JStr s \<Longrightarrow> v = JStr s"
  by (cases v) auto

lemma redact_mem: "(k, w) \<in> set (redact fs) \<longleftrightarrow> (\<exists>v. (k, v) \<in> set fs \<and> w = redact_value k v)"
  unfolding redact_def by (induction fs) auto

lemma redact_JStr:
  assumes "k \<in> set credential_fields"
  shows "(k, JStr redacted_null_placeholder) \<in> set (redact fs) \<longleftrightarrow> (k, JNull) \<in> set fs"
    and "(k, JStr redacted_placeholder) \<in> set (redact fs) \<longleftrightarrow> (\<exists>v. v \<noteq> JNull \<and> (k, v) \<in> set fs)"
proof -
  have v: "redact_value k v = (if v = JNull then JStr redacted_null_placeholder else JStr redacted_placeholder)" for v
    using assms by (simp only: redact_value_def not_True_eq_False if_False simp_thms)
  have n: "JStr redacted_null_placeholder = redact_value k v \<longleftrightarrow> v = JNull"
    "JStr redacted_placeholder = redact_value k v \<longleftrightarrow> v \<noteq> JNull" for v
    unfolding v using placeholders_differ by (cases "v = JNull"; simp)+
  show "(k, JStr redacted_null_placeholder) \<in> set (redact fs) \<longleftrightarrow> (k, JNull) \<in> set fs"
    and "(k, JStr redacted_placeholder) \<in> set (redact fs) \<longleftrightarrow> (\<exists>v. v \<noteq> JNull \<and> (k, v) \<in> set fs)"
    unfolding redact_mem n by blast+
qed

lemma redact_sorted:
  assumes "request_text (Some fs) = request_text (Some gs)" and "(k, JStr s) \<in> set (redact fs)"
  shows "(k, JStr s) \<in> set (redact gs)"
proof -
  let ?f = "\<lambda>(k, v). (k, sorted_json v)"
  have "sorted_json (JObj (redact fs)) = sorted_json (JObj (redact gs))"
    using enc_json_unique [of "sorted_json (JObj (redact fs))" "[]" "sorted_json (JObj (redact gs))" "[]"] assms(1)
    by (simp only: request_text_def option.case canonical_enc_json append_Nil2 item_end_simps simp_thms)
  then have "sort_fields (map ?f (redact fs)) = sort_fields (map ?f (redact gs))"
    by (simp only: sorted_json.simps json.inject)
  from arg_cong [where f = set, OF this] have "set (map ?f (redact fs)) = set (map ?f (redact gs))"
    by (simp only: set_sort_fields)
  moreover have "?f (k, JStr s) \<in> set (map ?f (redact fs))"
    unfolding set_map by (rule imageI) (rule assms(2))
  ultimately have "(k, JStr s) \<in> ?f ` set (redact gs)" by simp
  then obtain v where "(k, v) \<in> set (redact gs)" "sorted_json v = JStr s" by (elim imageE) auto
  then show ?thesis using sorted_json_JStr [of v s] by simp
qed

definition same_but_credentials :: "pystr \<times> json \<Rightarrow> pystr \<times> json \<Rightarrow> bool" where
  "same_but_credentials p q \<longleftrightarrow> fst p = fst q
     \<and> (if fst p \<in> set credential_fields then (snd p = JNull) = (snd q = JNull) else snd p = snd q)"

section \<open>Properties\<close>

text \<open>C31: A stored answer is replayed until it expires: whatever other requests do in the meantime, the same
  request with the same key gets exactly the recorded status and body, a different request with
  that key gets 409, and the business transaction cannot be recorded a second time.\<close>

theorem stored_answer_replayed:
  assumes "store_record s ro k h st resp now app_now rows = Inr rows'"
    and "\<forall>c\<in>set cs. op_time c < app_now + record_ttl" and "t < app_now + record_ttl"
  shows "fst (begin_request s ro k h t (fold run_op cs rows')) = Inr (Some (st, resp))
    \<and> (h' \<noteq> h \<longrightarrow> fst (begin_request s ro k h' t (fold run_op cs rows')) = Inl (app_error IDEMPOTENCY_CONFLICT 409))
    \<and> store_record s ro k h' st' resp' t app_t (fold run_op cs rows') = Inl (app_error IDEMPOTENCY_CONFLICT 409)"
proof -
  define r where "r = \<lparr>ir_subject = s, ir_route = ro, ir_key = k, ir_hash = h, ir_status = st,
    ir_response = resp, ir_expires = app_now + record_ttl\<rparr>"
  let ?tab = "fold run_op cs rows'"
  have f: "filter (same_slot s ro k) ?tab = [r]"
    by (rule only_row_kept_fold) (use store_only_row [OF assms(1)] assms(2) in \<open>auto simp: r_def\<close>)
  have "find (\<lambda>y. same_slot s ro k y \<and> t < ir_expires y) ?tab = Some r"
    by (rule find_single [OF f]) (simp add: r_def assms(3))
  moreover have "r \<in> set (filter (same_slot s ro k) ?tab)" unfolding f by simp
  then have "list_ex (same_slot s ro k) (filter (\<lambda>r. \<not> (same_slot s ro k r \<and> ir_expires r \<le> t)) ?tab)"
    using assms(3) by (auto simp: list_ex_iff r_def)
  ultimately show ?thesis by (simp add: begin_request_def lookup_record_def store_record_def r_def Let_def)
qed

theorem stored_answer_replayed_witness:
  "\<exists>rows'. store_record ''u'' ''POST /x'' [107] ''h'' 201 (JInt 5) 0 1 [] = Inr rows'
    \<and> fst (begin_request ''u'' ''POST /x'' [107] ''h'' 86400 (fold run_op [IBegin ''v'' ''POST /x'' [107] ''g'' 7] rows'))
        = Inr (Some (201, JInt 5))"
proof -
  have s: "store_record ''u'' ''POST /x'' [107] ''h'' 201 (JInt 5) 0 1 []
      = Inr [\<lparr>ir_subject = ''u'', ir_route = ''POST /x'', ir_key = [107], ir_hash = ''h'', ir_status = 201,
              ir_response = JInt 5, ir_expires = 86401\<rparr>]"
    by (simp add: store_record_def record_ttl_def)
  have "\<forall>c\<in>set [IBegin ''v'' ''POST /x'' [107] ''g'' 7]. op_time c < 1 + record_ttl" "86400 < 1 + record_ttl"
    by (simp_all add: record_ttl_def)
  from stored_answer_replayed [OF s this] s show ?thesis by blast
qed

text \<open>Credentials in the request hash: two requests that differ only in credential values (not in which
  credentials are absent, null or given) hash alike, and whenever two requests have the same
  hashed text they agree, for every credential field, on absent, null or given.\<close>

theorem credentials_hashed_by_presence:
  assumes "list_all2 same_but_credentials fs gs" and "request_text (Some xs) = request_text (Some ys)"
    and "k \<in> set credential_fields"
  shows "request_hash sha (Some fs) = request_hash sha (Some gs)
    \<and> ((k, JNull) \<in> set xs \<longleftrightarrow> (k, JNull) \<in> set ys)
    \<and> ((\<exists>v. v \<noteq> JNull \<and> (k, v) \<in> set xs) \<longleftrightarrow> (\<exists>v. v \<noteq> JNull \<and> (k, v) \<in> set ys))"
proof -
  have "redact fs = redact gs"
    using assms(1) by (induction rule: list_all2_induct)
      (auto simp: redact_def redact_value_def same_but_credentials_def split: prod.splits if_splits)
  moreover note redact_sorted [OF assms(2)] redact_sorted [OF assms(2) [symmetric]]
  then have "(k, JStr s) \<in> set (redact xs) \<longleftrightarrow> (k, JStr s) \<in> set (redact ys)" for s by blast
  ultimately show ?thesis unfolding redact_JStr [OF assms(3), symmetric]
    by (simp add: request_hash_def request_text_def)
qed

theorem credentials_hashed_by_presence_witness:
  "\<forall>sha. request_hash sha (Some [(pystr_of ''password'', JStr [97]), (pystr_of ''x'', JInt 1)])
   = request_hash sha (Some [(pystr_of ''password'', JStr [98]), (pystr_of ''x'', JInt 1)])"
proof -
  have "list_all2 same_but_credentials [(pystr_of ''password'', JStr [97]), (pystr_of ''x'', JInt 1)]
      [(pystr_of ''password'', JStr [98]), (pystr_of ''x'', JInt 1)]" by code_simp
  moreover have "pystr_of ''password'' \<in> set credential_fields" by code_simp
  ultimately show ?thesis using credentials_hashed_by_presence [OF _ refl] by blast
qed

end
