(* ===== verification/Outbox.thy ===== *)
theory Outbox
  imports AC_Prelude
begin

text \<open>
  The transactional outbox and its leased dispatcher (\<open>backend/v2/outbox.py\<close>): the payload gate,
  enqueueing, claiming a batch, and the final write of one delivery. Decryption and transport are
  one outcome bit per row; the worker name, the clock (seconds) and the identifiers are arguments,
  the address check is a parameter. Workers interleave freely in the step relation, which
  remembers what each claim returned.
\<close>

section \<open>The code\<close>

datatype mail_state = MPending | MSent | MFailed

record mail =
  o_id :: uuid
  o_user :: "uuid option"
  o_purpose :: string
  o_payload :: "string \<times> pystr \<times> pystr"   \<comment> \<open>template, recipient, action token\<close>
  o_state :: mail_state
  o_attempts :: nat
  o_next :: "time option"
  o_lease_owner :: "string option"
  o_lease_exp :: "time option"
  o_created :: time

text \<open>Validity of the mailed link, in half hours.\<close>

definition valid_hours :: "(string \<times> nat) list" where
  "valid_hours = [(''invitation'', 336), (''email_verify'', 144), (''password_reset'', 1), (''deletion_cancel'', 672)]"

definition max_attempts :: nat where "max_attempts = 5"
definition lease_minutes :: int where "lease_minutes = 5"
definition backoff_seconds :: "int list" where "backoff_seconds = [60, 300, 900, 1800]"
definition payload_vars_keys :: "string list" where "payload_vars_keys = [''action_token'', ''valid_hours'']"

definition build_payload ::
  "(pystr \<Rightarrow> pystr option) \<Rightarrow> string \<Rightarrow> pystr \<Rightarrow> pystr \<Rightarrow> string list \<Rightarrow> (string \<times> pystr \<times> pystr) option" where
  "build_payload address purpose recipient token extra =
     (if map_of valid_hours purpose = None then None
      else if \<not> set extra \<subseteq> set payload_vars_keys then None
      else map_option (\<lambda>r. (purpose, r, token)) (address (py_strip recipient)))"

text \<open>\<open>enqueue\<close> in the caller's transaction; \<open>None\<close> is a \<open>ValueError\<close> or a taken identifier.\<close>

definition enqueue ::
  "(pystr \<Rightarrow> pystr option) \<Rightarrow> string \<Rightarrow> uuid option \<Rightarrow> pystr \<Rightarrow> pystr \<Rightarrow> uuid \<Rightarrow> time \<Rightarrow> mail list \<Rightarrow> mail list option" where
  "enqueue address purpose user recipient token oid now ms =
     (case build_payload address purpose recipient token [] of
        None \<Rightarrow> None
      | Some p \<Rightarrow>
          if list_ex (\<lambda>m. o_id m = oid) ms then None
          else Some (ms @ [\<lparr>o_id = oid, o_user = user, o_purpose = purpose, o_payload = p, o_state = MPending,
                 o_attempts = 0, o_next = None, o_lease_owner = None, o_lease_exp = None, o_created = now\<rparr>]))"

definition due :: "time \<Rightarrow> mail \<Rightarrow> bool" where
  "due now m \<longleftrightarrow> o_state m = MPending
     \<and> (case o_next m of None \<Rightarrow> True | Some t \<Rightarrow> t \<le> now)
     \<and> (case o_lease_exp m of None \<Rightarrow> True | Some t \<Rightarrow> t < now)"

text \<open>\<open>_CLAIM_SQL\<close>: the oldest due rows get a lease; \<open>(id, attempts)\<close> of each is returned.\<close>

definition claim ::
  "string \<Rightarrow> time \<Rightarrow> nat \<Rightarrow> mail list \<Rightarrow> (uuid \<times> nat) list \<times> mail list" where
  "claim worker now batch ms =
     (let picked = take batch (sort_key o_created (filter (due now) ms));
          ids = map o_id picked
      in (map (\<lambda>m. (o_id m, o_attempts m)) picked,
          upd (\<lambda>m. o_id m \<in> set ids)
            (\<lambda>m. m\<lparr>o_lease_owner := Some worker, o_lease_exp := Some (now + lease_minutes * 60)\<rparr>) ms))"

text \<open>\<open>_finalize_row\<close>: sent, dead or retried, guarded by the lease owner.\<close>

definition final_write :: "time \<Rightarrow> nat \<Rightarrow> bool \<Rightarrow> mail \<Rightarrow> mail" where
  "final_write now attempts ok m =
     (let n = attempts + 1
      in if ok then m\<lparr>o_state := MSent, o_lease_owner := None, o_lease_exp := None\<rparr>
         else if max_attempts \<le> n
         then m\<lparr>o_state := MFailed, o_lease_owner := None, o_lease_exp := None, o_attempts := n\<rparr>
         else m\<lparr>o_lease_owner := None, o_lease_exp := None, o_attempts := n,
                o_next := Some (now + backoff_seconds ! (n - 1))\<rparr>)"

definition finalize ::
  "string \<Rightarrow> time \<Rightarrow> uuid \<times> nat \<Rightarrow> bool \<Rightarrow> mail list \<Rightarrow> bool \<times> mail list" where
  "finalize worker now row ok ms =
     (let mine = (\<lambda>m. o_id m = fst row \<and> o_lease_owner m = Some worker)
      in (ok \<and> rowcount mine ms = 1, upd mine (final_write now (snd row) ok) ms))"

fun finalize_all ::
  "string \<Rightarrow> time \<Rightarrow> (uuid \<Rightarrow> bool) \<Rightarrow> (uuid \<times> nat) list \<Rightarrow> mail list \<Rightarrow> nat \<times> mail list" where
  "finalize_all worker now deliver [] ms = (0, ms)"
| "finalize_all worker now deliver (r # rs) ms =
     (case finalize worker now r (deliver (fst r)) ms of
        (sent, ms') \<Rightarrow> (case finalize_all worker now deliver rs ms' of
          (n, ms'') \<Rightarrow> ((if sent then 1 else 0) + n, ms'')))"

text \<open>\<open>dispatch_once\<close>: the number of rows sent; \<open>None\<close> is the \<open>ValueError\<close> of an empty batch.\<close>

definition dispatch_mail ::
  "string \<Rightarrow> time \<Rightarrow> nat \<Rightarrow> (uuid \<Rightarrow> bool) \<Rightarrow> mail list \<Rightarrow> (nat \<times> mail list) option" where
  "dispatch_mail worker now batch deliver ms =
     (if batch < 1 then None
      else (case claim worker now batch ms of (rows, ms') \<Rightarrow> Some (finalize_all worker now deliver rows ms')))"

section \<open>Interleaved workers\<close>

record post =
  mails :: "mail list"
  claims :: "(string \<times> uuid \<times> nat) set"

inductive post_step :: "post \<Rightarrow> post \<Rightarrow> bool" where
  enqueue: "enqueue address purpose user recipient token oid now (mails p) = Some ms \<Longrightarrow>
     post_step p (p\<lparr>mails := ms\<rparr>)"
| claim: "claim w now batch (mails p) = (rows, ms) \<Longrightarrow>
     post_step p (p\<lparr>mails := ms, claims := claims p \<union> Pair w ` set rows\<rparr>)"
| finalize: "(w, oid, n) \<in> claims p \<Longrightarrow> finalize w now (oid, n) ok (mails p) = (sent, ms) \<Longrightarrow>
     post_step p (p\<lparr>mails := ms\<rparr>)"

inductive_cases post_step_cases: "post_step p q"

definition post_start :: "post \<Rightarrow> bool" where
  "post_start p \<longleftrightarrow> mails p = [] \<and> claims p = {}"

definition mail_ok :: "mail \<Rightarrow> bool" where
  "mail_ok m \<longleftrightarrow> (o_lease_owner m = None \<longleftrightarrow> o_lease_exp m = None)
     \<and> (o_state m \<noteq> MPending \<longrightarrow> o_lease_owner m = None)
     \<and> (if o_state m = MFailed then o_attempts m = max_attempts else o_attempts m < max_attempts)"

definition post_ok :: "post \<Rightarrow> bool" where
  "post_ok p \<longleftrightarrow> distinct (map o_id (mails p)) \<and> (\<forall>m\<in>set (mails p). mail_ok m)
     \<and> (\<forall>(w, oid, n)\<in>claims p. n < max_attempts)"

lemma map_upd_id: "(\<And>x. k (f x) = k x) \<Longrightarrow> map k (upd P f xs) = map k xs"
  by (simp add: upd_def)

lemma final_write_id [simp]: "o_id (final_write now n ok m) = o_id m"
  by (simp add: final_write_def Let_def)

lemma final_write_ok: "o_state m = MPending \<Longrightarrow> n < max_attempts \<Longrightarrow> mail_ok m \<Longrightarrow> mail_ok (final_write now n ok m)"
  by (auto simp: final_write_def mail_ok_def Let_def max_attempts_def)

lemma claim_rows:
  assumes "claim w now batch ms = (rows, ms')"
  shows "\<And>oid n. (oid, n) \<in> set rows \<Longrightarrow> \<exists>m\<in>set ms. due now m \<and> o_id m = oid \<and> o_attempts m = n"
    and "ms' = upd (\<lambda>m. o_id m \<in> fst ` set rows)
           (\<lambda>m. m\<lparr>o_lease_owner := Some w, o_lease_exp := Some (now + lease_minutes * 60)\<rparr>) ms"
proof -
  let ?p = "take batch (sort_key o_created (filter (due now) ms))"
  have "set ?p \<subseteq> set (sort_key o_created (filter (due now) ms))" by (rule set_take_subset)
  then have sub: "set ?p \<subseteq> {m \<in> set ms. due now m}" by simp
  have r: "rows = map (\<lambda>m. (o_id m, o_attempts m)) ?p" using assms by (auto simp: claim_def Let_def)
  then show "\<exists>m\<in>set ms. due now m \<and> o_id m = oid \<and> o_attempts m = n" if "(oid, n) \<in> set rows" for oid n
    using that sub by auto
  have "fst ` set rows = set (map o_id ?p)" unfolding r by force
  then show "ms' = upd (\<lambda>m. o_id m \<in> fst ` set rows)
           (\<lambda>m. m\<lparr>o_lease_owner := Some w, o_lease_exp := Some (now + lease_minutes * 60)\<rparr>) ms"
    using assms by (auto simp: claim_def Let_def)
qed

lemma claimed_pending:
  assumes "distinct (map o_id ms)" and "claim w now batch ms = (rows, ms')" and "m \<in> set ms" and "o_id m \<in> fst ` set rows"
  shows "due now m \<and> (o_id m, o_attempts m) \<in> set rows"
proof -
  from assms(4) obtain n where n: "(o_id m, n) \<in> set rows" by auto
  then obtain m' where "m' \<in> set ms" "due now m'" "o_id m' = o_id m" "o_attempts m' = n"
    using claim_rows(1) [OF assms(2)] by blast
  moreover from this assms(1,3) have "m' = m" by (metis distinct_map inj_onD)
  ultimately show ?thesis using n by simp
qed

lemma post_ok_step: "post_ok p \<Longrightarrow> post_step p q \<Longrightarrow> post_ok q"
proof (elim post_step_cases)
  fix address purpose user recipient token oid now ms
  assume "post_ok p" "enqueue address purpose user recipient token oid now (mails p) = Some ms" "q = p\<lparr>mails := ms\<rparr>"
  then show "post_ok q"
    by (auto simp: post_ok_def enqueue_def mail_ok_def max_attempts_def list_ex_iff split: option.splits if_splits)
next
  fix w now batch rows ms
  assume ok: "post_ok p" and c: "claim w now batch (mails p) = (rows, ms)"
    and q: "q = p\<lparr>mails := ms, claims := claims p \<union> Pair w ` set rows\<rparr>"
  have d: "distinct (map o_id (mails p))" using ok by (simp add: post_ok_def)
  have "mail_ok (m\<lparr>o_lease_owner := Some w, o_lease_exp := Some t\<rparr>)"
    if "m \<in> set (mails p)" "o_id m \<in> fst ` set rows" for m t
    using claimed_pending [OF d c that] ok that(1) by (auto simp: post_ok_def mail_ok_def due_def)
  then have "\<forall>m\<in>set ms. mail_ok m"
    using ok unfolding claim_rows(2) [OF c] by (auto simp: post_ok_def set_upd)
  moreover have "n < max_attempts" if "(oid, n) \<in> set rows" for oid n
    using claim_rows(1) [OF c that] ok by (auto simp: post_ok_def mail_ok_def due_def split: if_splits)
  moreover have "distinct (map o_id ms)" using d by (simp add: claim_rows(2) [OF c] map_upd_id)
  ultimately show "post_ok q" using ok by (auto simp: q post_ok_def)
next
  fix w oid n now ok sent ms
  assume ok: "post_ok p" and c: "(w, oid, n) \<in> claims p" and f: "finalize w now (oid, n) ok (mails p) = (sent, ms)"
    and q: "q = p\<lparr>mails := ms\<rparr>"
  have "n < max_attempts" using ok c by (auto simp: post_ok_def)
  then have w: "mail_ok (final_write now n ok m)" if "m \<in> set (mails p)" "o_lease_owner m = Some w" for m
  proof -
    have "mail_ok m" using that(1) ok by (simp add: post_ok_def)
    moreover from this have "o_state m = MPending" using that(2) by (auto simp: mail_ok_def)
    ultimately show ?thesis using \<open>n < max_attempts\<close> by (intro final_write_ok)
  qed
  have ms: "ms = upd (\<lambda>m. o_id m = oid \<and> o_lease_owner m = Some w) (final_write now n ok) (mails p)"
    using f by (simp add: finalize_def Let_def)
  have "\<forall>m\<in>set ms. mail_ok m" using w ok unfolding ms by (auto simp: post_ok_def set_upd)
  moreover have "distinct (map o_id ms)" using ok by (simp add: ms map_upd_id post_ok_def)
  ultimately show "post_ok q" using ok by (simp add: q post_ok_def)
qed

interpretation post_office: transition_system post_start post_step post_ok
proof
  show "post_ok p" if "post_start p" for p using that by (simp add: post_start_def post_ok_def)
qed (rule post_ok_step)

text \<open>A settled mail is never written again.\<close>

definition settled :: "mail \<Rightarrow> bool" where "settled m \<longleftrightarrow> o_state m \<noteq> MPending"

lemma settled_step:
  assumes "post_ok p" and "m \<in> set (mails p)" and "settled m" and "post_step p q"
  shows "m \<in> set (mails q)"
  using assms(4)
proof (cases pred: post_step)
  case enqueue
  then show ?thesis using assms(2) by (auto simp: enqueue_def split: option.splits if_splits)
next
  case (claim w now batch rows ms)
  have d: "distinct (map o_id (mails p))" using assms(1) by (simp add: post_ok_def)
  have "o_id m \<notin> fst ` set rows"
    using claimed_pending [OF d claim(2) assms(2)] assms(3) by (auto simp: settled_def due_def)
  then show ?thesis using assms(2) unfolding claim(1) claim_rows(2) [OF claim(2)] by (force simp: set_upd)
next
  case (finalize w oid n now ok sent ms)
  have "o_lease_owner m = None" using assms(1-3) by (auto simp: post_ok_def mail_ok_def settled_def)
  then show ?thesis using assms(2) finalize by (force simp: finalize_def Let_def set_upd)
qed

section \<open>Work left\<close>

definition mail_work :: "mail \<Rightarrow> nat" where
  "mail_work m = (if o_state m = MPending then max_attempts - o_attempts m else 0)"

definition work :: "mail list \<Rightarrow> nat" where "work ms = sum_list (map mail_work ms)"

lemma work_single:
  assumes "distinct (map o_id ms)" and "m \<in> set ms" and "P m" and "\<And>x. P x \<Longrightarrow> o_id x = o_id m"
  shows "work (upd P f ms) + mail_work m = work ms + mail_work (f m)"
proof -
  obtain xs ys where ms: "ms = xs @ m # ys" using assms(2) by (meson split_list)
  have "\<not> P x" if "x \<in> set xs \<union> set ys" for x
    using that assms(1,4) by (auto simp: ms rev_image_eqI)
  then have "upd P f xs = xs" "upd P f ys = ys" by (auto simp: upd_def intro!: map_idI)
  then show ?thesis using assms(3) by (simp add: ms work_def)
qed

lemma final_write_work:
  "o_state m = MPending \<Longrightarrow> o_attempts m < max_attempts \<Longrightarrow> mail_work (final_write now (o_attempts m) ok m) < mail_work m"
  by (auto simp: final_write_def mail_work_def Let_def max_attempts_def)

text \<open>A row of a claimed batch that is still in the worker's hands.\<close>

definition in_hand :: "string \<Rightarrow> mail list \<Rightarrow> uuid \<times> nat \<Rightarrow> bool" where
  "in_hand w ms r \<longleftrightarrow> (\<exists>m\<in>set ms. o_id m = fst r \<and> o_attempts m = snd r \<and> o_state m = MPending
     \<and> o_lease_owner m = Some w \<and> o_attempts m < max_attempts)"

lemma finalize_work:
  assumes "distinct (map o_id ms)" and "in_hand w ms r" and "finalize w now r ok ms = (sent, ms')"
  shows "work ms' < work ms" and "distinct (map o_id ms')"
    and "\<And>q. in_hand w ms q \<Longrightarrow> fst q \<noteq> fst r \<Longrightarrow> in_hand w ms' q"
proof -
  obtain m where m: "m \<in> set ms" "o_id m = fst r" "o_attempts m = snd r" "o_state m = MPending"
    "o_lease_owner m = Some w" "o_attempts m < max_attempts" using assms(2) by (auto simp: in_hand_def)
  let ?P = "\<lambda>m. o_id m = fst r \<and> o_lease_owner m = Some w"
  have ms': "ms' = upd ?P (final_write now (snd r) ok) ms" using assms(3) by (simp add: finalize_def Let_def)
  have "work ms' + mail_work m = work ms + mail_work (final_write now (snd r) ok m)"
    unfolding ms' by (rule work_single [OF assms(1) m(1)]) (use m(2,5) in auto)
  then show "work ms' < work ms" using final_write_work [OF m(4,6), of now ok] m(3) by simp
  show "distinct (map o_id ms')" using assms(1) by (simp add: ms' map_upd_id)
  show "in_hand w ms' q" if "in_hand w ms q" "fst q \<noteq> fst r" for q
    using that by (force simp: in_hand_def ms' set_upd)
qed

lemma finalize_all_work:
  "distinct (map o_id ms) \<Longrightarrow> distinct (map fst rs) \<Longrightarrow> (\<And>r. r \<in> set rs \<Longrightarrow> in_hand w ms r) \<Longrightarrow>
     work (snd (finalize_all w now deliver rs ms)) + length rs \<le> work ms"
proof (induction rs arbitrary: ms)
  case (Cons r rs)
  obtain sent ms' where f: "finalize w now r (deliver (fst r)) ms = (sent, ms')" by fastforce
  note w = finalize_work [OF Cons.prems(1) Cons.prems(3) [of r] f]
  have "in_hand w ms' q" if "q \<in> set rs" for q
    by (rule w(3)) (use that Cons.prems(2,3) in \<open>auto simp: rev_image_eqI\<close>)
  then have "work (snd (finalize_all w now deliver rs ms')) + length rs \<le> work ms'"
    using Cons.IH [OF w(2)] Cons.prems(2) by simp
  then show ?case using w(1)
    by (cases "finalize_all w now deliver rs ms'") (simp add: f)
qed simp

lemma claim_in_hand:
  assumes "distinct (map o_id ms)" and "\<forall>m\<in>set ms. mail_ok m" and "claim w now batch ms = (rows, ms')"
  shows "distinct (map o_id ms')" and "work ms' = work ms" and "r \<in> set rows \<Longrightarrow> in_hand w ms' r"
    and "distinct (map fst rows)" and "length rows = min batch (length (filter (due now) ms))"
proof -
  note c = claim_rows [OF assms(3)]
  show "distinct (map o_id ms')" using assms(1) by (simp add: c(2) map_upd_id)
  show "work ms' = work ms" unfolding c(2) work_def by (induction ms) (auto simp: mail_work_def)
  have r: "rows = map (\<lambda>m. (o_id m, o_attempts m)) (take batch (sort_key o_created (filter (due now) ms)))"
    using assms(3) by (auto simp: claim_def Let_def)
  show "length rows = min batch (length (filter (due now) ms))" by (simp add: r min.commute)
  have d: "distinct (map o_id (sort_key o_created (filter (due now) ms)))"
  proof -
    have "distinct ms" and inj: "inj_on o_id (set ms)" using assms(1) by (auto simp: distinct_map)
    then show ?thesis by (auto simp: distinct_map inj_on_def)
  qed
  have "map fst rows = take batch (map o_id (sort_key o_created (filter (due now) ms)))"
    by (simp add: r take_map comp_def)
  then show "distinct (map fst rows)" using d by simp
  show "in_hand w ms' r" if in_rows: "r \<in> set rows"
  proof -
    obtain oid n where on: "r = (oid, n)" by fastforce
    obtain m where m: "m \<in> set ms" "due now m" "o_id m = oid" "o_attempts m = n" using c(1) in_rows on by blast
    let ?m = "m\<lparr>o_lease_owner := Some w, o_lease_exp := Some (now + lease_minutes * 60)\<rparr>"
    have "o_id m \<in> fst ` set rows" using in_rows on m(3) by force
    then have "?m \<in> set ms'" using m(1) unfolding c(2) by (auto simp: set_upd intro!: image_eqI [of _ _ m])
    moreover have "o_state m = MPending" "o_attempts m < max_attempts"
      using m(1,2) assms(2) by (auto simp: due_def mail_ok_def split: if_splits)
    ultimately show ?thesis using m by (auto simp: in_hand_def on intro!: bexI [of _ ?m])
  qed
qed

section \<open>Properties\<close>



definition ex_mail :: mail where
  "ex_mail = \<lparr>o_id = 1, o_user = Some 7, o_purpose = ''invitation'', o_payload = (''invitation'', [97], [116]),
     o_state = MPending, o_attempts = 0, o_next = None, o_lease_owner = None, o_lease_exp = None, o_created = 0\<rparr>"

definition post0 :: post where "post0 = \<lparr>mails = [], claims = {}\<rparr>"

lemma post_ex_steps:
  "post_step\<^sup>*\<^sup>* post0 (post0\<lparr>mails := [ex_mail]\<rparr>)"
  "post_step\<^sup>*\<^sup>* post0 \<lparr>mails = [ex_mail\<lparr>o_state := MSent\<rparr>], claims = {(''w'', 1, 0)}\<rparr>"
proof -
  let ?p1 = "post0\<lparr>mails := [ex_mail]\<rparr>"
  have "enqueue Some ''invitation'' (Some 7) [97] [116] 1 0 (mails post0) = Some [ex_mail]"
    by (simp add: enqueue_def build_payload_def valid_hours_def post0_def ex_mail_def py_strip_def py_space_def)
  from post_step.enqueue [OF this] have 1: "post_step post0 ?p1" .
  let ?m = "ex_mail\<lparr>o_lease_owner := Some ''w'', o_lease_exp := Some 310\<rparr>"
  have "claim ''w'' 10 1 (mails ?p1) = ([(1, 0)], [?m])"
    by (simp add: claim_def due_def ex_mail_def lease_minutes_def)
  from post_step.claim [OF this] have 2: "post_step ?p1 \<lparr>mails = [?m], claims = {(''w'', 1, 0)}\<rparr>"
    by (simp add: post0_def)
  have "finalize ''w'' 11 (1, 0) True [?m] = (True, [ex_mail\<lparr>o_state := MSent\<rparr>])"
    by (simp add: finalize_def final_write_def ex_mail_def rowcount_def)
  then have 3: "post_step \<lparr>mails = [?m], claims = {(''w'', 1, 0)}\<rparr> \<lparr>mails = [ex_mail\<lparr>o_state := MSent\<rparr>], claims = {(''w'', 1, 0)}\<rparr>"
    using post_step.finalize [of "''w''" 1 0 "\<lparr>mails = [?m], claims = {(''w'', 1, 0)}\<rparr>" 11 True] by simp
  show "post_step\<^sup>*\<^sup>* post0 ?p1" using 1 by blast
  show "post_step\<^sup>*\<^sup>* post0 \<lparr>mails = [ex_mail\<lparr>o_state := MSent\<rparr>], claims = {(''w'', 1, 0)}\<rparr>"
    using 1 2 3 by (meson rtranclp.rtrancl_into_rtrancl rtranclp.rtrancl_refl)
qed



end
