(* ===== verification/Identity_Store.thy ===== *)
theory Identity_Store
  imports Rate_Limit Idempotency Outbox Task_Executor
begin

text \<open>
  The database of the account services (\<open>backend/v2/models/identity.py\<close>), beside the task
  database, the mail outbox, the idempotency table and the limiter's events; the in-memory stores of
  the login service; and the way the services run: a request is a sequence of transactions, each
  of which commits or rolls back on its own, so that a refused request may leave committed work
  behind. Hashes, ciphers, TOTP and the address grammar are parameters (\<open>env\<close>); generated
  identifiers, tokens and password hashes are arguments.
\<close>

section \<open>Rows\<close>

datatype acct_status = APending | AActive | ASuspended | ADeleting | ADeleted

datatype user_role = RUser | RAdmin

datatype purpose = EmailVerify | PasswordReset | DeletionCancel

record user_row =
  us_id :: uuid
  us_email :: pystr
  us_password :: string
  us_role :: user_role
  us_status :: acct_status
  us_mfa :: "string option"
  us_deleted :: "time option"
  us_deadline :: "time option"
  us_created :: time

record ent_row =
  en_id :: uuid
  en_user :: uuid
  en_kind :: string
  en_by :: "uuid option"
  en_at :: time
  en_revoked :: "time option"

record invite_row =
  in_id :: uuid
  in_hash :: string
  in_email :: pystr
  in_expires :: time
  in_consumed :: "time option"
  in_revoked :: "time option"
  in_by :: "uuid option"
  in_created :: time

record token_row =
  tk_id :: uuid
  tk_user :: uuid
  tk_purpose :: purpose
  tk_hash :: string
  tk_expires :: time
  tk_consumed :: "time option"

record session_row =
  se_id :: uuid
  se_hash :: string
  se_user :: uuid
  se_csrf :: string
  se_expires :: time
  se_revoked :: "time option"
  se_mfa :: "time option"
  se_label :: pystr
  se_created :: time

record audit_row =
  au_actor :: "uuid option"
  au_action :: string
  au_target :: uuid
  au_reason :: pystr

text \<open>The login service keeps challenges and pending TOTP secrets in memory.\<close>

record challenge =
  ch_user :: uuid
  ch_created :: time
  ch_attempts :: nat

record idb =
  users :: "user_row list"
  ents :: "ent_row list"
  invites :: "invite_row list"
  tokens :: "token_row list"
  sessions :: "session_row list"
  audits :: "audit_row list"
  outbox :: "mail list"
  idem :: "idem_row list"
  limiter :: "rl_event list"
  challenges :: "(pystr \<times> challenge) list"
  pendings :: "(uuid \<times> pystr \<times> time) list"
  work_db :: db

record env =
  hash_token :: "pystr \<Rightarrow> string"
  hmac_key :: "pystr \<Rightarrow> string"
  verify_password :: "pystr \<Rightarrow> string \<Rightarrow> bool"
  decrypt_mfa :: "uuid \<Rightarrow> string \<Rightarrow> pystr option"
  totp_ok :: "pystr \<Rightarrow> pystr \<Rightarrow> time \<Rightarrow> bool"
  address :: "pystr \<Rightarrow> pystr option"
  lower :: "pystr \<Rightarrow> pystr"
  uuid_text :: "uuid \<Rightarrow> pystr"

section \<open>Requests as sequences of transactions\<close>

type_synonym ('s, 'a) prog = "'s \<Rightarrow> (api_error + 'a) \<times> 's"

type_synonym 'a flow = "(idb, 'a) prog"

definition ret :: "'a \<Rightarrow> ('s, 'a) prog" where "ret x = (\<lambda>d. (Inr x, d))"

definition throw :: "api_error \<Rightarrow> ('s, 'a) prog" where "throw e = (\<lambda>d. (Inl e, d))"

definition bindF :: "('s, 'a) prog \<Rightarrow> ('a \<Rightarrow> ('s, 'b) prog) \<Rightarrow> ('s, 'b) prog" where
  "bindF m f = (\<lambda>d. case m d of (Inl e, d') \<Rightarrow> (Inl e, d') | (Inr x, d') \<Rightarrow> f x d')"

definition asks :: "('s \<Rightarrow> 'a) \<Rightarrow> ('s, 'a) prog" where "asks f = (\<lambda>d. (Inr (f d), d))"

definition change :: "('s \<Rightarrow> 's) \<Rightarrow> ('s, unit) prog" where "change f = (\<lambda>d. (Inr (), f d))"

definition require :: "bool \<Rightarrow> api_error \<Rightarrow> ('s, unit) prog" where
  "require b e = (if b then ret () else throw e)"

text \<open>One transaction (\<open>owner_session\<close>): an exception inside rolls everything back.\<close>

definition atomically :: "('s, 'a) prog \<Rightarrow> ('s, 'a) prog" where
  "atomically m = (\<lambda>d. case m d of (Inl e, _) \<Rightarrow> (Inl e, d) | (Inr x, d') \<Rightarrow> (Inr x, d'))"

section \<open>Statements\<close>

definition upd_users :: "(user_row \<Rightarrow> bool) \<Rightarrow> (user_row \<Rightarrow> user_row) \<Rightarrow> idb \<Rightarrow> idb" where
  "upd_users P f d = d\<lparr>users := upd P f (users d)\<rparr>"

definition upd_tokens :: "(token_row \<Rightarrow> bool) \<Rightarrow> (token_row \<Rightarrow> token_row) \<Rightarrow> idb \<Rightarrow> idb" where
  "upd_tokens P f d = d\<lparr>tokens := upd P f (tokens d)\<rparr>"

definition upd_sessions :: "(session_row \<Rightarrow> bool) \<Rightarrow> (session_row \<Rightarrow> session_row) \<Rightarrow> idb \<Rightarrow> idb" where
  "upd_sessions P f d = d\<lparr>sessions := upd P f (sessions d)\<rparr>"

definition find_user :: "uuid \<Rightarrow> idb \<Rightarrow> user_row option" where
  "find_user u d = find (\<lambda>r. us_id r = u) (users d)"

definition user_by_email :: "pystr \<Rightarrow> idb \<Rightarrow> user_row option" where
  "user_by_email e d = find (\<lambda>r. us_email r = e) (users d)"

definition insert_user :: "user_row \<Rightarrow> unit flow" where
  "insert_user u = (\<lambda>d.
     if list_ex (\<lambda>r. us_id r = us_id u \<or> us_email r = us_email u) (users d)
     then (Inl (IntegrityError ''uq_users_email''), d) else (Inr (), d\<lparr>users := users d @ [u]\<rparr>))"

definition insert_token :: "token_row \<Rightarrow> unit flow" where
  "insert_token t = (\<lambda>d.
     if list_ex (\<lambda>r. tk_id r = tk_id t \<or> tk_hash r = tk_hash t) (tokens d)
     then (Inl (IntegrityError ''uq_account_action_tokens_token_hash''), d)
     else (Inr (), d\<lparr>tokens := tokens d @ [t]\<rparr>))"

definition insert_session :: "session_row \<Rightarrow> unit flow" where
  "insert_session s = (\<lambda>d.
     if list_ex (\<lambda>r. se_id r = se_id s \<or> se_hash r = se_hash s) (sessions d)
     then (Inl (IntegrityError ''uq_sessions_token_hash''), d)
     else (Inr (), d\<lparr>sessions := sessions d @ [s]\<rparr>))"

text \<open>The partial unique index \<open>invitations_one_open_email\<close> and the unique token hash.\<close>

definition open_invite :: "invite_row \<Rightarrow> bool" where
  "open_invite i \<longleftrightarrow> in_consumed i = None \<and> in_revoked i = None"

definition insert_invite :: "invite_row \<Rightarrow> unit flow" where
  "insert_invite i = (\<lambda>d.
     if list_ex (\<lambda>r. in_id r = in_id i \<or> in_hash r = in_hash i
           \<or> (open_invite r \<and> open_invite i \<and> in_email r = in_email i)) (invites d)
     then (Inl (IntegrityError ''invitations_one_open_email''), d)
     else (Inr (), d\<lparr>invites := invites d @ [i]\<rparr>))"

definition add_audit :: "uuid option \<Rightarrow> string \<Rightarrow> uuid \<Rightarrow> pystr \<Rightarrow> unit flow" where
  "add_audit actor action target reason =
     change (\<lambda>d. d\<lparr>audits := audits d @ [\<lparr>au_actor = actor, au_action = action, au_target = target, au_reason = reason\<rparr>]\<rparr>)"

text \<open>\<open>enqueue\<close> in the caller's transaction.\<close>

definition enqueue_mail :: "env \<Rightarrow> string \<Rightarrow> uuid option \<Rightarrow> pystr \<Rightarrow> pystr \<Rightarrow> uuid \<Rightarrow> time \<Rightarrow> unit flow" where
  "enqueue_mail E purpose user recipient token oid now = (\<lambda>d.
     case enqueue (address E) purpose user recipient token oid now (outbox d) of
       None \<Rightarrow> (Inl ValueError, d) | Some ms \<Rightarrow> (Inr (), d\<lparr>outbox := ms\<rparr>))"

text \<open>The limiter runs in its own transaction (microseconds).\<close>

definition hmac_of :: "env \<Rightarrow> string \<Rightarrow> pystr \<Rightarrow> string" where
  "hmac_of E k v = (case hmac_subject (hmac_key E) k v of Inl _ \<Rightarrow> '''' | Inr h \<Rightarrow> h)"

definition limit_to :: "string \<Rightarrow> string list \<Rightarrow> time \<Rightarrow> unit flow" where
  "limit_to scope subjects now = (\<lambda>d.
     case enforce scope subjects (now * 1000000) (limiter d) of
       Inl RLValueError \<Rightarrow> (Inl ValueError, d)
     | Inl (TooManyRequests r) \<Rightarrow> (Inl (RateLimited r), d)
     | Inr evs \<Rightarrow> (Inr (), d\<lparr>limiter := evs\<rparr>))"

text \<open>An idempotent request: \<open>begin\<close> in its own transaction, \<open>store\<close> in the caller's.\<close>

datatype 'a answer = Replay nat json | Fresh 'a

definition idem_begin :: "string \<Rightarrow> string \<Rightarrow> pystr \<Rightarrow> string \<Rightarrow> time \<Rightarrow> (nat \<times> json) option flow" where
  "idem_begin subject route key h now = (\<lambda>d.
     case begin_request subject route key h now (idem d) of (r, rows) \<Rightarrow> (r, d\<lparr>idem := rows\<rparr>))"

definition idem_store :: "string \<Rightarrow> string \<Rightarrow> pystr \<Rightarrow> string \<Rightarrow> nat \<Rightarrow> json \<Rightarrow> time \<Rightarrow> unit flow" where
  "idem_store subject route key h status body now = (\<lambda>d.
     case store_record subject route key h status body now now (idem d) of
       Inl e \<Rightarrow> (Inl e, d) | Inr rows \<Rightarrow> (Inr (), d\<lparr>idem := rows\<rparr>))"

definition once :: "string \<Rightarrow> string \<Rightarrow> pystr \<Rightarrow> string \<Rightarrow> time \<Rightarrow> 'a flow \<Rightarrow> 'a answer flow" where
  "once subject route key h now body =
     bindF (idem_begin subject route key h now) (\<lambda>r.
     case r of Some (st, j) \<Rightarrow> ret (Replay st j) | None \<Rightarrow> bindF body (\<lambda>x. ret (Fresh x)))"

section \<open>The contract of a request\<close>

text \<open>
  A relation between the database before and after that every statement respects is respected by
  every request, whether it succeeds or fails: the rules below follow the structure of a flow.
\<close>

locale flow_contract =
  fixes rel :: "'s \<Rightarrow> 's \<Rightarrow> bool"
  assumes rel_refl: "rel d d"
    and rel_trans: "rel d d1 \<Longrightarrow> rel d1 d2 \<Longrightarrow> rel d d2"
begin

definition keeps :: "('s, 'a) prog \<Rightarrow> bool" where
  "keeps m \<longleftrightarrow> (\<forall>d. rel d (snd (m d)))"

lemma keepsI: "(\<And>d. rel d (snd (m d))) \<Longrightarrow> keeps m"
  by (simp add: keeps_def)

lemma keepsD: "keeps m \<Longrightarrow> m d = (r, d') \<Longrightarrow> rel d d'"
  unfolding keeps_def by (metis snd_conv)

lemma keeps_ret: "keeps (ret x)"
  by (simp add: keeps_def ret_def rel_refl)

lemma keeps_throw: "keeps (throw e)"
  by (simp add: keeps_def throw_def rel_refl)

lemma keeps_asks: "keeps (asks f)"
  by (simp add: keeps_def asks_def rel_refl)

lemma keeps_require: "keeps (require b e)"
  by (simp add: require_def keeps_ret keeps_throw)

lemma keeps_change: "(\<And>d. rel d (f d)) \<Longrightarrow> keeps (change f)"
  by (simp add: keeps_def change_def)

lemma keeps_bind:
  assumes "keeps m" and "\<And>x. keeps (f x)"
  shows "keeps (bindF m f)"
proof (rule keepsI)
  fix d
  obtain r d' where m: "m d = (r, d')" by fastforce
  have 1: "rel d d'" using keepsD [OF assms(1) m] .
  show "rel d (snd (bindF m f d))"
  proof (cases r)
    case (Inr x)
    have "rel d' (snd (f x d'))" using assms(2) by (simp add: keeps_def)
    with 1 show ?thesis using rel_trans by (simp add: bindF_def m Inr)
  qed (use 1 in \<open>simp add: bindF_def m\<close>)
qed

lemma keeps_atomically: "keeps m \<Longrightarrow> keeps (atomically m)"
  by (auto simp: keeps_def atomically_def rel_refl split: prod.splits sum.splits) (metis snd_conv)

lemma keeps_if: "keeps m \<Longrightarrow> keeps n \<Longrightarrow> keeps (if b then m else n)"
  by simp

lemma keeps_option: "keeps m \<Longrightarrow> (\<And>x. keeps (f x)) \<Longrightarrow> keeps (case v of None \<Rightarrow> m | Some x \<Rightarrow> f x)"
  by (cases v) auto

lemma keeps_prod: "(\<And>x y. keeps (f x y)) \<Longrightarrow> keeps (case v of (x, y) \<Rightarrow> f x y)"
  by (cases v) auto

lemma keeps_sum: "(\<And>a. keeps (m a)) \<Longrightarrow> (\<And>b. keeps (f b)) \<Longrightarrow> keeps (case v of Inl a \<Rightarrow> m a | Inr b \<Rightarrow> f b)"
  by (cases v) auto

lemmas keeps_rules = keeps_ret keeps_throw keeps_asks keeps_require keeps_bind keeps_atomically
  keeps_if keeps_option keeps_prod keeps_sum

end

end
