(* ===== verification/Sessions.thy ===== *)
theory Sessions
  imports Identity_Store
begin

text \<open>
  Login sessions (\<open>backend/v2/session_service.py\<close>): creation, resolution by token, the sliding
  refresh under the absolute cap, revocation, the device list, and the authentication gate every
  protected endpoint runs. Cookies and response headers are not modelled. Times are seconds.
\<close>

section \<open>The code\<close>

definition session_ttl :: int where "session_ttl = 7 * 86400"
definition session_absolute :: int where "session_absolute = 30 * 86400"
definition refresh_threshold :: int where "refresh_threshold = 6 * 86400"

text \<open>\<open>create_session\<close>: the two plain tokens are generated by the caller of the model.\<close>

definition create_session ::
  "env \<Rightarrow> uuid \<Rightarrow> pystr \<Rightarrow> bool \<Rightarrow> uuid \<Rightarrow> pystr \<Rightarrow> pystr \<Rightarrow> time \<Rightarrow> unit flow" where
  "create_session E me label mfa sid stok ctok now =
     insert_session \<lparr>se_id = sid, se_hash = hash_token E stok, se_user = me, se_csrf = hash_token E ctok,
       se_expires = now + session_ttl, se_revoked = None, se_mfa = (if mfa then Some now else None),
       se_label = label, se_created = now\<rparr>"

definition resolve_session :: "env \<Rightarrow> pystr \<Rightarrow> time \<Rightarrow> idb \<Rightarrow> (session_row \<times> user_row) option" where
  "resolve_session E token now d =
     (if token = [] then None
      else (case find (\<lambda>s. se_hash s = hash_token E token \<and> se_revoked s = None \<and> now < se_expires s) (sessions d) of
        None \<Rightarrow> None
      | Some s \<Rightarrow>
          (case find_user (se_user s) d of
             None \<Rightarrow> None
           | Some u \<Rightarrow> if us_status u = ADeleted then None else Some (s, u))))"

definition refresh_if_needed :: "uuid \<Rightarrow> uuid \<Rightarrow> time \<Rightarrow> idb \<Rightarrow> idb" where
  "refresh_if_needed me sid now =
     upd_sessions (\<lambda>s. se_user s = me \<and> se_id s = sid \<and> se_revoked s = None \<and> se_expires s - now < refresh_threshold)
       (\<lambda>s. s\<lparr>se_expires := min (now + session_ttl) (se_created s + session_absolute)\<rparr>)"

definition revoke_session :: "uuid \<Rightarrow> uuid \<Rightarrow> time \<Rightarrow> nat flow" where
  "revoke_session me sid now = (\<lambda>d.
     let P = (\<lambda>s. se_user s = me \<and> se_id s = sid \<and> se_revoked s = None)
     in (Inr (rowcount P (sessions d)), upd_sessions P (\<lambda>s. s\<lparr>se_revoked := Some now\<rparr>) d))"

definition revoke_all :: "uuid \<Rightarrow> time \<Rightarrow> idb \<Rightarrow> idb" where
  "revoke_all me now = upd_sessions (\<lambda>s. se_user s = me \<and> se_revoked s = None) (\<lambda>s. s\<lparr>se_revoked := Some now\<rparr>)"

text \<open>\<open>ORDER BY created_at DESC, id\<close>.\<close>

definition list_sessions :: "uuid \<Rightarrow> uuid \<Rightarrow> idb \<Rightarrow> (uuid \<times> pystr \<times> time \<times> time \<times> bool) list" where
  "list_sessions me current d =
     map (\<lambda>s. (se_id s, se_label s, se_created s, se_expires s, se_id s = current))
       (sort_key (\<lambda>s. - se_created s) (sort_key se_id (filter (\<lambda>s. se_user s = me) (sessions d))))"

text \<open>\<open>get_v2_auth\<close>: \<open>write\<close> says whether the method needs the CSRF header.\<close>

definition authenticate ::
  "env \<Rightarrow> bool \<Rightarrow> pystr option \<Rightarrow> pystr option \<Rightarrow> time \<Rightarrow> (user_row \<times> session_row) flow" where
  "authenticate E write cookie header now =
     bindF (asks (\<lambda>d. case cookie of None \<Rightarrow> None | Some t \<Rightarrow> resolve_session E t now d)) (\<lambda>pair.
     case pair of
       None \<Rightarrow> throw (HttpDetail ''SESSION_EXPIRED'' 401)
     | Some (s, u) \<Rightarrow>
     bindF (require (\<not> write \<or> (case header of None \<Rightarrow> False | Some h \<Rightarrow> h \<noteq> [] \<and> hash_token E h = se_csrf s))
       (HttpDetail ''CSRF_INVALID'' 403)) (\<lambda>_.
     bindF (require (us_status u \<noteq> ASuspended) (HttpDetail ''ACCOUNT_SUSPENDED'' 403)) (\<lambda>_.
     bindF (require (us_status u \<noteq> ADeleting) (HttpDetail ''ACCOUNT_DELETING'' 403)) (\<lambda>_.
     bindF (require (us_status u \<in> {APending, AActive}) (HttpDetail ''SESSION_EXPIRED'' 401)) (\<lambda>_.
     bindF (if se_expires s - now < refresh_threshold
            then atomically (change (refresh_if_needed (us_id u) (se_id s) now)) else ret ()) (\<lambda>_.
     ret (u, s)))))))"

section \<open>Lifetime\<close>

definition capped :: "session_row \<Rightarrow> bool" where
  "capped s \<longleftrightarrow> se_expires s \<le> se_created s + session_absolute"

lemma create_session_rows:
  "create_session E me label mfa sid stok ctok now d = (r, d') \<Longrightarrow>
     d' = d \<or> (\<exists>s. sessions d' = sessions d @ [s] \<and> se_user s = me \<and> se_created s = now \<and> se_expires s = now + session_ttl
        \<and> se_revoked s = None \<and> d' = d\<lparr>sessions := sessions d'\<rparr>)"
  by (auto simp: create_session_def insert_session_def split: if_splits)

lemma resolve_Some_D:
  "resolve_session E token now d = Some (s, u) \<Longrightarrow>
     s \<in> set (sessions d) \<and> se_hash s = hash_token E token \<and> se_revoked s = None \<and> now < se_expires s
     \<and> find_user (se_user s) d = Some u \<and> us_status u \<noteq> ADeleted"
  by (auto simp: resolve_session_def find_Some_iff split: if_splits option.splits)

text \<open>A refresh never shortens a session.\<close>

lemma refresh_extends:
  assumes "capped s" and "se_expires s - now < refresh_threshold"
  shows "se_expires s \<le> min (now + session_ttl) (se_created s + session_absolute)"
  using assms by (simp add: capped_def refresh_threshold_def session_ttl_def)

section \<open>Properties\<close>


lemma chars_of_pystr [simp]: "map char_of (pystr_of s) = s"
  by (induction s) (simp_all add: pystr_of_def)

lemma pystr_of_Nil [simp]: "pystr_of s = [] \<longleftrightarrow> s = []"
  by (simp add: pystr_of_def)

definition ex_env :: env where
  "ex_env = \<lparr>hash_token = (\<lambda>t. map char_of t), hmac_key = (\<lambda>t. map char_of t),
     verify_password = (\<lambda>p h. map char_of p = h), decrypt_mfa = (\<lambda>u e. Some (pystr_of e)),
     totp_ok = (\<lambda>s c now. s = c), address = Some, lower = (\<lambda>s. s), uuid_text = (\<lambda>u. [u])\<rparr>"

definition ex_user :: user_row where
  "ex_user = \<lparr>us_id = 1, us_email = [97, 64, 98], us_password = ''pw'', us_role = RUser, us_status = AActive,
     us_mfa = None, us_deleted = None, us_deadline = None, us_created = 0\<rparr>"

definition ex_session :: session_row where
  "ex_session = \<lparr>se_id = 5, se_hash = ''tok'', se_user = 1, se_csrf = ''csrf'', se_expires = 604800,
     se_revoked = None, se_mfa = None, se_label = [], se_created = 0\<rparr>"

definition ex_idb :: "db \<Rightarrow> idb" where
  "ex_idb w = \<lparr>users = [ex_user], ents = [], invites = [], tokens = [], sessions = [ex_session], audits = [],
     outbox = [], idem = [], limiter = [], challenges = [], pendings = [], work_db = w\<rparr>"


end
