(* ===== verification/Accounts.thy ===== *)
theory Accounts
  imports Sessions
begin

text \<open>
  Account services: e-mail verification (\<open>backend/v2/verification_service.py\<close>), acceptance of an
  invitation (\<open>invitation_service.py\<close>), password reset and change (\<open>password_service.py\<close>) and the
  administrator's invitations (\<open>admin_invitation_service.py\<close>). Each request is a flow: the limiter and
  the idempotency lookup commit on their own, the business writes are one transaction.
\<close>

section \<open>Action tokens\<close>

text \<open>Seconds a token of a purpose lives (\<open>VALID_HOURS\<close>).\<close>

fun token_ttl :: "purpose \<Rightarrow> int" where
  "token_ttl EmailVerify = 72 * 3600"
| "token_ttl PasswordReset = 1800"
| "token_ttl DeletionCancel = 336 * 3600"

fun purpose_name :: "purpose \<Rightarrow> string" where
  "purpose_name EmailVerify = ''email_verify''"
| "purpose_name PasswordReset = ''password_reset''"
| "purpose_name DeletionCancel = ''deletion_cancel''"

text \<open>The read-only lookup of a token's owner, before any owner is known.\<close>

definition token_owner :: "purpose \<Rightarrow> string \<Rightarrow> idb \<Rightarrow> uuid option" where
  "token_owner p h d = map_option tk_user (find (\<lambda>t. tk_hash t = h \<and> tk_purpose t = p) (tokens d))"

text \<open>\<open>_SELECT_TOKEN_FOR_UPDATE\<close> and the check behind it.\<close>

definition live_token :: "purpose \<Rightarrow> string \<Rightarrow> uuid \<Rightarrow> time \<Rightarrow> api_error \<Rightarrow> token_row flow" where
  "live_token p h me now err =
     bindF (asks (\<lambda>d. find (\<lambda>t. tk_hash t = h \<and> tk_purpose t = p \<and> tk_user t = me) (tokens d))) (\<lambda>r.
     case r of
       None \<Rightarrow> throw err
     | Some t \<Rightarrow> bindF (require (tk_consumed t = None \<and> now < tk_expires t) err) (\<lambda>_. ret t))"

definition consume_token :: "uuid \<Rightarrow> uuid \<Rightarrow> time \<Rightarrow> api_error \<Rightarrow> unit flow" where
  "consume_token me tid now err = (\<lambda>d.
     let P = (\<lambda>t. tk_user t = me \<and> tk_id t = tid \<and> tk_consumed t = None)
     in if rowcount P (tokens d) \<noteq> 1 then (Inl err, d)
        else (Inr (), upd_tokens P (\<lambda>t. t\<lparr>tk_consumed := Some now\<rparr>) d))"

text \<open>\<open>_INVALIDATE_PRIOR_SQL\<close>: the unconsumed tokens of one purpose.\<close>

definition void_tokens :: "purpose \<Rightarrow> uuid \<Rightarrow> time \<Rightarrow> idb \<Rightarrow> idb" where
  "void_tokens p me now =
     upd_tokens (\<lambda>t. tk_user t = me \<and> tk_purpose t = p \<and> tk_consumed t = None) (\<lambda>t. t\<lparr>tk_consumed := Some now\<rparr>)"

text \<open>A new token and its mail, in the caller's transaction.\<close>

definition issue_token ::
  "env \<Rightarrow> purpose \<Rightarrow> uuid \<Rightarrow> pystr \<Rightarrow> uuid \<Rightarrow> pystr \<Rightarrow> uuid \<Rightarrow> time \<Rightarrow> unit flow" where
  "issue_token E p me recipient tid tok oid now =
     bindF (insert_token \<lparr>tk_id = tid, tk_user = me, tk_purpose = p, tk_hash = hash_token E tok,
         tk_expires = now + token_ttl p, tk_consumed = None\<rparr>) (\<lambda>_.
     enqueue_mail E (purpose_name p) (Some me) recipient tok oid now)"

text \<open>\<open>subject_user\<close> and \<open>subject_token\<close>.\<close>

definition subject_user :: "env \<Rightarrow> uuid \<Rightarrow> string" where "subject_user E u = hash_token E (uuid_text E u)"
definition subject_token :: "env \<Rightarrow> pystr \<Rightarrow> string" where "subject_token E t = hash_token E t"

abbreviation field :: "string \<Rightarrow> json \<Rightarrow> pystr \<times> json" where "field k v \<equiv> (pystr_of k, v)"
abbreviation text_field :: "string \<Rightarrow> string \<Rightarrow> pystr \<times> json" where "text_field k v \<equiv> (pystr_of k, JStr (pystr_of v))"

section \<open>E-mail verification\<close>

definition confirm_email_verification ::
  "env \<Rightarrow> pystr \<Rightarrow> pystr \<Rightarrow> string \<Rightarrow> time \<Rightarrow> json answer flow" where
  "confirm_email_verification E tok key h now =
     (let err = app_error EMAIL_NOT_VERIFIED 400;
          route = ''/api/auth/email-verification/confirm'';
          body = JObj [field ''data'' (JObj [text_field ''status'' ''active''])]
      in once (subject_token E tok) route key h now (
         bindF (asks (token_owner EmailVerify (hash_token E tok))) (\<lambda>who.
         case who of
           None \<Rightarrow> throw err
         | Some me \<Rightarrow> atomically (
             bindF (live_token EmailVerify (hash_token E tok) me now err) (\<lambda>t.
             bindF (asks (\<lambda>d. rowcount (\<lambda>u. us_id u = me \<and> us_status u = APending) (users d))) (\<lambda>n.
             bindF (change (upd_users (\<lambda>u. us_id u = me \<and> us_status u = APending)
                      (\<lambda>u. u\<lparr>us_status := AActive\<rparr>))) (\<lambda>_.
             bindF (if n = 0
                    then bindF (asks (find_user me)) (\<lambda>u.
                         case u of None \<Rightarrow> throw NoResultFound | Some u \<Rightarrow> require (us_status u = AActive) err)
                    else ret ()) (\<lambda>_.
             bindF (consume_token me (tk_id t) now err) (\<lambda>_.
             bindF (idem_store (subject_token E tok) route key h 200 body now) (\<lambda>_.
             ret body)))))))))) "

definition resend_email_verification ::
  "env \<Rightarrow> uuid \<Rightarrow> pystr \<Rightarrow> acct_status \<Rightarrow> uuid \<Rightarrow> pystr \<Rightarrow> uuid \<Rightarrow> time \<Rightarrow> unit flow" where
  "resend_email_verification E me recipient st tid tok oid now =
     bindF (limit_to ''email_verify_resend'' [hmac_of E ''user'' (uuid_text E me)] now) (\<lambda>_.
     bindF (require (st = APending) (HttpDetail ''VALIDATION_ERROR'' 409)) (\<lambda>_.
     atomically (
       bindF (change (void_tokens EmailVerify me now)) (\<lambda>_.
       issue_token E EmailVerify me recipient tid tok oid now))))"

section \<open>Accepting an invitation\<close>

definition normalize_email :: "env \<Rightarrow> pystr \<Rightarrow> pystr option" where
  "normalize_email E email = map_option (lower E) (address E (py_strip email))"

text \<open>
  \<open>_lock_and_validate\<close>: the mismatch is audited in a transaction of its own, which survives the
  refusal; the lookup holds the row lock, so it is one step with the transaction that follows.
\<close>

definition lock_and_validate :: "env \<Rightarrow> pystr \<Rightarrow> pystr \<Rightarrow> time \<Rightarrow> invite_row flow" where
  "lock_and_validate E tok email now =
     bindF (asks (\<lambda>d. find (\<lambda>i. in_hash i = hash_token E tok) (invites d))) (\<lambda>r.
     case r of
       None \<Rightarrow> throw (app_error INVITATION_INVALID 409)
     | Some i \<Rightarrow>
         if open_invite i \<and> now < in_expires i
         then if in_email i \<noteq> email
              then bindF (add_audit None ''invitation.email_mismatch'' (in_id i) (pystr_of ''accept email mismatch'')) (\<lambda>_.
                   throw (app_error INVITATION_INVALID 409))
              else ret i
         else throw (app_error INVITATION_INVALID 409))"

text \<open>A taken address is answered like an invalid invitation.\<close>

definition persist_account :: "env \<Rightarrow> uuid \<Rightarrow> pystr \<Rightarrow> string \<Rightarrow> pystr \<Rightarrow> uuid \<Rightarrow> pystr \<Rightarrow> pystr \<Rightarrow> time \<Rightarrow> unit flow" where
  "persist_account E me email pw_hash label sid stok ctok now =
     bindF (\<lambda>d. case insert_user \<lparr>us_id = me, us_email = email, us_password = pw_hash, us_role = RUser,
                us_status = APending, us_mfa = None, us_deleted = None, us_deadline = None, us_created = now\<rparr> d of
              (Inl _, d') \<Rightarrow> (Inl (app_error INVITATION_INVALID 409), d')
            | (Inr x, d') \<Rightarrow> (Inr x, d')) (\<lambda>_.
     create_session E me label False sid stok ctok now)"

definition consume_invite :: "uuid \<Rightarrow> time \<Rightarrow> unit flow" where
  "consume_invite iid now = (\<lambda>d.
     let P = (\<lambda>i. in_id i = iid \<and> in_consumed i = None \<and> in_revoked i = None)
     in if rowcount P (invites d) \<noteq> 1 then (Inl (app_error INVITATION_INVALID 409), d)
        else (Inr (), d\<lparr>invites := upd P (\<lambda>i. i\<lparr>in_consumed := Some now\<rparr>) (invites d)\<rparr>))"

text \<open>What the request generates: identifiers, the four plain tokens and the password hash.\<close>

record fresh =
  f_user :: uuid
  f_session :: uuid
  f_token :: uuid
  f_mail :: uuid
  f_stok :: pystr
  f_ctok :: pystr
  f_vtok :: pystr
  f_hash :: string

definition accept_invitation ::
  "env \<Rightarrow> pystr \<Rightarrow> pystr \<Rightarrow> pystr \<Rightarrow> string \<Rightarrow> pystr \<Rightarrow> pystr \<Rightarrow> fresh \<Rightarrow> time \<Rightarrow> (json \<times> pystr) answer flow" where
  "accept_invitation E tok email key h ip label g now =
     (let route = ''/api/auth/invitations/accept'' in
      bindF (limit_to ''invitation_accept'' [hmac_of E ''ip'' ip] now) (\<lambda>_.
      once (subject_token E tok) route key h now (
        case normalize_email E email of
          None \<Rightarrow> throw ValueError
        | Some addr \<Rightarrow>
        bindF (lock_and_validate E tok addr now) (\<lambda>i. atomically (
          bindF (persist_account E (f_user g) addr (f_hash g) label (f_session g) (f_stok g) (f_ctok g) now) (\<lambda>_.
          bindF (consume_invite (in_id i) now) (\<lambda>_.
          bindF (issue_token E EmailVerify (f_user g) addr (f_token g) (f_vtok g) (f_mail g) now) (\<lambda>_.
          let body = JObj [field ''data'' (JObj [field ''user_id'' (JStr (uuid_text E (f_user g))),
                field ''email'' (JStr addr), text_field ''status'' ''pending'',
                field ''csrf_token'' (JStr (f_ctok g))])] in
          bindF (idem_store (subject_token E tok) route key h 200 body now) (\<lambda>_.
          ret (body, f_stok g))))))))))"

section \<open>Invitations of the administrator\<close>

text \<open>The invitation mail has no user; its payload is built by the outbox.\<close>

definition invitation_mail :: "env \<Rightarrow> pystr \<Rightarrow> pystr \<Rightarrow> uuid \<Rightarrow> time \<Rightarrow> unit flow" where
  "invitation_mail E recipient tok oid now = (\<lambda>d.
     case build_payload (address E) ''invitation'' recipient tok [] of
       None \<Rightarrow> (Inl ValueError, d)
     | Some p \<Rightarrow>
         if list_ex (\<lambda>m. o_id m = oid) (outbox d) then (Inl (IntegrityError ''pk_email_outbox''), d)
         else (Inr (), d\<lparr>outbox := outbox d @ [\<lparr>o_id = oid, o_user = None, o_purpose = ''invitation'', o_payload = p,
                o_state = MPending, o_attempts = 0, o_next = None, o_lease_owner = None, o_lease_exp = None, o_created = now\<rparr>]\<rparr>))"

text \<open>The single flush: any violated unique index is the duplicate answer.\<close>

definition flush_or :: "api_error \<Rightarrow> ('s, 'a) prog \<Rightarrow> ('s, 'a) prog" where
  "flush_or err m = (\<lambda>d. case m d of (Inl (IntegrityError _), d') \<Rightarrow> (Inl err, d') | r \<Rightarrow> r)"

definition create_invitation ::
  "env \<Rightarrow> uuid \<Rightarrow> pystr \<Rightarrow> int \<Rightarrow> pystr \<Rightarrow> uuid \<Rightarrow> pystr \<Rightarrow> uuid \<Rightarrow> time \<Rightarrow> (uuid \<times> pystr \<times> time) flow" where
  "create_invitation E admin email days reason iid tok oid now = atomically (
     bindF (require (1 \<le> days \<and> days \<le> 7) validation_error) (\<lambda>_.
     case normalize_email E email of
       None \<Rightarrow> throw validation_error
     | Some addr \<Rightarrow>
     bindF (asks (\<lambda>d. list_ex (\<lambda>i. in_email i = addr \<and> in_consumed i = None \<and> in_revoked i = None) (invites d))) (\<lambda>taken.
     bindF (require (\<not> taken) (app_error INVITATION_INVALID 409)) (\<lambda>_.
     bindF (flush_or (app_error INVITATION_INVALID 409) (
       bindF (insert_invite \<lparr>in_id = iid, in_hash = hash_token E tok, in_email = addr, in_expires = now + days * 86400,
            in_consumed = None, in_revoked = None, in_by = Some admin, in_created = now\<rparr>) (\<lambda>_.
       bindF (invitation_mail E addr tok oid now) (\<lambda>_.
       add_audit (Some admin) ''invitation.create'' iid reason)))) (\<lambda>_.
     ret (iid, addr, now + days * 86400))))))"

text \<open>The status expression of the list, evaluated at the time of the query.\<close>

definition invite_status :: "time \<Rightarrow> invite_row \<Rightarrow> string" where
  "invite_status now i =
     (if in_consumed i \<noteq> None then ''consumed'' else if in_revoked i \<noteq> None then ''revoked''
      else if now < in_expires i then ''open'' else ''expired'')"

definition list_invitations ::
  "string option \<Rightarrow> int \<Rightarrow> int \<Rightarrow> time \<Rightarrow> idb \<Rightarrow> api_error + (invite_row \<times> string) list \<times> nat" where
  "list_invitations st page sz now d =
     (if page < 1 \<or> sz < 1 \<or> 100 < sz then Inl validation_error
      else if (case st of None \<Rightarrow> False | Some s \<Rightarrow> s \<notin> {''open'', ''consumed'', ''expired'', ''revoked''}) then Inl validation_error
      else (let hit = filter (\<lambda>i. case st of None \<Rightarrow> True | Some s \<Rightarrow> invite_status now i = s) (invites d);
                rows = rev (sort_key in_created (sort_key in_id hit))
            in Inr (map (\<lambda>i. (i, invite_status now i)) (take (nat sz) (drop (nat ((page - 1) * sz)) rows)), length hit)))"

definition revoke_invitation :: "uuid \<Rightarrow> raw_id \<Rightarrow> pystr \<Rightarrow> time \<Rightarrow> invite_row flow" where
  "revoke_invitation admin rid reason now = atomically (
     case parse_id rid of
       Inl e \<Rightarrow> throw e
     | Inr iid \<Rightarrow>
     bindF (asks (\<lambda>d. find (\<lambda>i. in_id i = iid) (invites d))) (\<lambda>r.
     case r of
       None \<Rightarrow> throw (HttpDetail ''NOT_FOUND'' 404)
     | Some i \<Rightarrow>
         if in_consumed i \<noteq> None then throw (app_error INVITATION_CONSUMED 409)
         else if in_revoked i \<noteq> None then throw (app_error INVITATION_INVALID 409)
         else
           bindF (change (\<lambda>d. d\<lparr>invites := upd (\<lambda>i. in_id i = iid) (\<lambda>i. i\<lparr>in_revoked := Some now\<rparr>) (invites d)\<rparr>)) (\<lambda>_.
           bindF (add_audit (Some admin) ''invitation.revoke'' iid reason) (\<lambda>_.
           ret (i\<lparr>in_revoked := Some now\<rparr>)))))"

end
