(* ===== verification/Passwords.thy ===== *)
theory Passwords
  imports Accounts "HOL-Library.AList"
begin

text \<open>
  Password reset and change (\<open>backend/v2/password_service.py\<close>) and the login service
  (\<open>login_service.py\<close>): the limiter before any lookup, the status gate, the TOTP challenge with its
  five attempts, enrolment and step-up. Password hashes and secrets generated by the code are
  arguments; the timing equalisation has no effect on the state.
\<close>

section \<open>Reset\<close>

definition resettable :: "acct_status set" where "resettable = {AActive, ASuspended, ADeleting}"

definition request_password_reset ::
  "env \<Rightarrow> pystr \<Rightarrow> pystr \<Rightarrow> uuid \<Rightarrow> pystr \<Rightarrow> uuid \<Rightarrow> time \<Rightarrow> unit flow" where
  "request_password_reset E email ip tid tok oid now =
     (let addr = lower E (py_strip email) in
      bindF (limit_to ''password_reset_request'' [hmac_of E ''email'' addr, hmac_of E ''ip'' ip] now) (\<lambda>_.
      bindF (asks (user_by_email addr)) (\<lambda>r.
      case r of
        None \<Rightarrow> ret ()
      | Some u \<Rightarrow>
          if us_status u \<notin> resettable then ret ()
          else atomically (
            bindF (change (void_tokens PasswordReset (us_id u) now)) (\<lambda>_.
            issue_token E PasswordReset (us_id u) (us_email u) tid tok oid now)))))"

definition confirm_password_reset ::
  "env \<Rightarrow> pystr \<Rightarrow> string \<Rightarrow> pystr \<Rightarrow> string \<Rightarrow> time \<Rightarrow> json answer flow" where
  "confirm_password_reset E tok new_hash key h now =
     (let err = app_error EMAIL_NOT_VERIFIED 400;
          route = ''/api/auth/password-reset/confirm'';
          body = JObj [field ''data'' (JObj [field ''ok'' (JBool True)])]
      in once (subject_token E tok) route key h now (
         bindF (asks (token_owner PasswordReset (hash_token E tok))) (\<lambda>who.
         case who of
           None \<Rightarrow> throw err
         | Some me \<Rightarrow> atomically (
             bindF (live_token PasswordReset (hash_token E tok) me now err) (\<lambda>t.
             bindF (consume_token me (tk_id t) now err) (\<lambda>_.
             bindF (asks (\<lambda>d. rowcount (\<lambda>u. us_id u = me \<and> us_status u \<in> resettable) (users d))) (\<lambda>n.
             bindF (change (upd_users (\<lambda>u. us_id u = me \<and> us_status u \<in> resettable)
                      (\<lambda>u. u\<lparr>us_password := new_hash\<rparr>))) (\<lambda>_.
             bindF (require (n = 1) err) (\<lambda>_.
             bindF (change (revoke_all me now)) (\<lambda>_.
             bindF (idem_store (subject_token E tok) route key h 200 body now) (\<lambda>_.
             ret body)))))))))))"

section \<open>Change\<close>

definition change_totp_failure :: "env \<Rightarrow> uuid \<Rightarrow> time \<Rightarrow> unit flow" where
  "change_totp_failure E me now = limit_to ''password_change_totp'' [hmac_of E ''user'' (uuid_text E me)] now"

definition verify_change_totp :: "env \<Rightarrow> uuid \<Rightarrow> string \<Rightarrow> pystr option \<Rightarrow> time \<Rightarrow> unit flow" where
  "verify_change_totp E me envelope code now =
     (let bad = app_error MFA_INVALID 400 in
      case code of
        None \<Rightarrow> bindF (change_totp_failure E me now) (\<lambda>_. throw bad)
      | Some c \<Rightarrow>
          (case decrypt_mfa E me envelope of
             None \<Rightarrow> throw bad
           | Some secret \<Rightarrow>
               if \<not> totp_ok E secret c now then bindF (change_totp_failure E me now) (\<lambda>_. throw bad)
               else ret ()))"

definition change_password ::
  "env \<Rightarrow> uuid \<Rightarrow> uuid \<Rightarrow> string \<Rightarrow> string option \<Rightarrow> pystr \<Rightarrow> string \<Rightarrow> pystr option \<Rightarrow> time \<Rightarrow> json flow" where
  "change_password E me sid current_hash mfa current new_hash code now =
     bindF (case mfa of None \<Rightarrow> ret () | Some envelope \<Rightarrow> verify_change_totp E me envelope code now) (\<lambda>_.
     bindF (require (verify_password E current current_hash) (app_error INVALID_CREDENTIALS 401)) (\<lambda>_.
     bindF (atomically (
       bindF (change (upd_users (\<lambda>u. us_id u = me) (\<lambda>u. u\<lparr>us_password := new_hash\<rparr>))) (\<lambda>_.
       change (upd_sessions (\<lambda>s. se_user s = me \<and> se_id s \<noteq> sid \<and> se_revoked s = None)
         (\<lambda>s. s\<lparr>se_revoked := Some now\<rparr>))))) (\<lambda>_.
     ret (JObj [field ''data'' (JObj [field ''ok'' (JBool True)])]))))"

section \<open>The in-memory stores of the login service\<close>

definition challenge_ttl :: int where "challenge_ttl = 300"
definition challenge_attempts :: nat where "challenge_attempts = 5"
definition pending_ttl :: int where "pending_ttl = 600"

definition prune_challenges :: "time \<Rightarrow> idb \<Rightarrow> idb" where
  "prune_challenges now d = d\<lparr>challenges := filter (\<lambda>(k, c). \<not> challenge_ttl \<le> now - ch_created c) (challenges d)\<rparr>"

definition challenge_create :: "pystr \<Rightarrow> uuid \<Rightarrow> time \<Rightarrow> idb \<Rightarrow> idb" where
  "challenge_create cid u now d =
     (let d1 = prune_challenges now d
      in d1\<lparr>challenges := AList.update cid \<lparr>ch_user = u, ch_created = now, ch_attempts = 0\<rparr> (challenges d1)\<rparr>)"

definition challenge_get :: "pystr \<Rightarrow> time \<Rightarrow> challenge option flow" where
  "challenge_get cid now = (\<lambda>d. let d1 = prune_challenges now d in (Inr (map_of (challenges d1) cid), d1))"

definition challenge_destroy :: "pystr \<Rightarrow> idb \<Rightarrow> idb" where
  "challenge_destroy cid d = d\<lparr>challenges := AList.delete cid (challenges d)\<rparr>"

definition record_failure :: "pystr \<Rightarrow> idb \<Rightarrow> idb" where
  "record_failure cid d =
     (case map_of (challenges d) cid of
        None \<Rightarrow> d
      | Some c \<Rightarrow>
          if challenge_attempts \<le> ch_attempts c + 1 then challenge_destroy cid d
          else d\<lparr>challenges := AList.update cid (c\<lparr>ch_attempts := ch_attempts c + 1\<rparr>) (challenges d)\<rparr>)"

definition prune_pending :: "time \<Rightarrow> idb \<Rightarrow> idb" where
  "prune_pending now d = d\<lparr>pendings := filter (\<lambda>(u, s, t). \<not> pending_ttl \<le> now - t) (pendings d)\<rparr>"

definition pending_put :: "uuid \<Rightarrow> pystr \<Rightarrow> time \<Rightarrow> idb \<Rightarrow> idb" where
  "pending_put u secret now d =
     (let d1 = prune_pending now d in d1\<lparr>pendings := AList.update u (secret, now) (pendings d1)\<rparr>)"

definition pending_get :: "uuid \<Rightarrow> time \<Rightarrow> pystr option flow" where
  "pending_get u now = (\<lambda>d. let d1 = prune_pending now d in (Inr (map_option fst (map_of (pendings d1) u)), d1))"

definition pending_pop :: "uuid \<Rightarrow> idb \<Rightarrow> idb" where
  "pending_pop u d = d\<lparr>pendings := AList.delete u (pendings d)\<rparr>"

section \<open>Login\<close>

datatype login_result =
    MfaRequired pystr
  | LoginSuccess user_row pystr   \<comment> \<open>the user of the body and the plain session token\<close>

definition start_session ::
  "env \<Rightarrow> user_row \<Rightarrow> pystr \<Rightarrow> bool \<Rightarrow> uuid \<Rightarrow> pystr \<Rightarrow> pystr \<Rightarrow> time \<Rightarrow> login_result flow" where
  "start_session E u label mfa sid stok ctok now =
     bindF (atomically (create_session E (us_id u) label mfa sid stok ctok now)) (\<lambda>_.
     ret (LoginSuccess u stok))"

definition login ::
  "env \<Rightarrow> pystr \<Rightarrow> pystr \<Rightarrow> pystr \<Rightarrow> pystr \<Rightarrow> pystr \<Rightarrow> uuid \<Rightarrow> pystr \<Rightarrow> pystr \<Rightarrow> time \<Rightarrow> login_result flow" where
  "login E email password ip label cid sid stok ctok now =
     (let addr = lower E (py_strip email) in
      bindF (limit_to ''login'' [hmac_of E ''email'' addr, hmac_of E ''ip'' ip] now) (\<lambda>_.
      bindF (asks (user_by_email addr)) (\<lambda>r.
      case r of
        None \<Rightarrow> throw (app_error INVALID_CREDENTIALS 401)
      | Some u \<Rightarrow>
          if us_status u = ADeleted then throw (app_error INVALID_CREDENTIALS 401)
          else
      bindF (require (verify_password E password (us_password u)) (app_error INVALID_CREDENTIALS 401)) (\<lambda>_.
      bindF (require (us_status u \<noteq> ASuspended) (app_error ACCOUNT_SUSPENDED 403)) (\<lambda>_.
      bindF (require (us_status u \<noteq> ADeleting) (app_error ACCOUNT_DELETING 403)) (\<lambda>_.
      if us_mfa u \<noteq> None
      then bindF (change (challenge_create cid (us_id u) now)) (\<lambda>_. ret (MfaRequired cid))
      else start_session E u label False sid stok ctok now))))))"

definition enforce_mfa_failure :: "env \<Rightarrow> uuid \<Rightarrow> time \<Rightarrow> unit flow" where
  "enforce_mfa_failure E u now = limit_to ''mfa_failure'' [hmac_of E ''user'' (uuid_text E u)] now"

definition login_mfa ::
  "env \<Rightarrow> pystr \<Rightarrow> pystr \<Rightarrow> pystr \<Rightarrow> uuid \<Rightarrow> pystr \<Rightarrow> pystr \<Rightarrow> time \<Rightarrow> login_result flow" where
  "login_mfa E cid code label sid stok ctok now =
     (let bad = app_error MFA_INVALID 401 in
      bindF (challenge_get cid now) (\<lambda>c.
      case c of
        None \<Rightarrow> throw bad
      | Some c \<Rightarrow>
      bindF (asks (find_user (ch_user c))) (\<lambda>r.
      case (case r of None \<Rightarrow> None | Some u \<Rightarrow> map_option (Pair u) (us_mfa u)) of
        None \<Rightarrow> throw bad
      | Some (u, envelope) \<Rightarrow>
          (case decrypt_mfa E (us_id u) envelope of
             None \<Rightarrow> throw bad
           | Some secret \<Rightarrow>
               if \<not> totp_ok E secret code now
               then bindF (enforce_mfa_failure E (ch_user c) now) (\<lambda>_.
                    bindF (change (record_failure cid)) (\<lambda>_. throw bad))
               else bindF (change (challenge_destroy cid)) (\<lambda>_.
                    start_session E u label True sid stok ctok now)))))"

definition stamp_mfa :: "uuid \<Rightarrow> uuid \<Rightarrow> time \<Rightarrow> idb \<Rightarrow> idb" where
  "stamp_mfa me sid now =
     upd_sessions (\<lambda>s. se_user s = me \<and> se_id s = sid \<and> se_revoked s = None) (\<lambda>s. s\<lparr>se_mfa := Some now\<rparr>)"

definition verify_mfa :: "env \<Rightarrow> uuid \<Rightarrow> uuid \<Rightarrow> pystr \<Rightarrow> time \<Rightarrow> unit flow" where
  "verify_mfa E me sid code now =
     bindF (asks (find_user me)) (\<lambda>r.
     case (case r of None \<Rightarrow> None | Some u \<Rightarrow> us_mfa u) of
       None \<Rightarrow> throw (app_error MFA_NOT_CONFIGURED 400)
     | Some envelope \<Rightarrow>
         (case decrypt_mfa E me envelope of
            None \<Rightarrow> throw (app_error MFA_INVALID 401)
          | Some secret \<Rightarrow>
              if \<not> totp_ok E secret code now
              then bindF (enforce_mfa_failure E me now) (\<lambda>_. throw (app_error MFA_INVALID 401))
              else atomically (change (stamp_mfa me sid now))))"

definition setup_mfa :: "uuid \<Rightarrow> pystr \<Rightarrow> time \<Rightarrow> pystr flow" where
  "setup_mfa me secret now = bindF (change (pending_put me secret now)) (\<lambda>_. ret secret)"

text \<open>\<open>envelope\<close> is the cipher text of the pending secret.\<close>

definition activate_mfa :: "env \<Rightarrow> uuid \<Rightarrow> uuid \<Rightarrow> pystr \<Rightarrow> (pystr \<Rightarrow> string) \<Rightarrow> time \<Rightarrow> unit flow" where
  "activate_mfa E me sid code encrypt now =
     bindF (pending_get me now) (\<lambda>r.
     case r of
       None \<Rightarrow> throw (app_error MFA_INVALID 400)
     | Some secret \<Rightarrow>
         if \<not> totp_ok E secret code now
         then bindF (enforce_mfa_failure E me now) (\<lambda>_. throw (app_error MFA_INVALID 400))
         else
           bindF (atomically (
             bindF (change (upd_users (\<lambda>u. us_id u = me) (\<lambda>u. u\<lparr>us_mfa := Some (encrypt secret)\<rparr>))) (\<lambda>_.
             change (stamp_mfa me sid now)))) (\<lambda>_.
           change (pending_pop me)))"

definition disable_mfa :: "uuid \<Rightarrow> user_role \<Rightarrow> unit flow" where
  "disable_mfa me role =
     bindF (require (role \<noteq> RAdmin) (HttpDetail ''FORBIDDEN'' 403)) (\<lambda>_.
     atomically (change (upd_users (\<lambda>u. us_id u = me) (\<lambda>u. u\<lparr>us_mfa := None\<rparr>))))"

end
