(* ===== verification/Deletion.thy ===== *)
theory Deletion
  imports Passwords "HOL-Library.Sublist"
begin

text \<open>
  Account deletion (\<open>backend/v2/deletion_service.py\<close>) with its grace period, its cancellation and
  the final anonymisation. The task purge it triggers (\<open>terminate_tasks_hook\<close>) is in \<open>Task_Executor\<close>.
\<close>

section \<open>Requesting deletion\<close>

definition grace_days :: int where "grace_days = 14"

definition days_until :: "time \<Rightarrow> time \<Rightarrow> int" where
  "days_until deadline now = ceil_div (deadline - now) 86400"

fun gate_active :: "acct_status \<Rightarrow> api_error + unit" where
  "gate_active AActive = Inr ()"
| "gate_active APending = Inl (app_error ACCOUNT_PENDING 409)"
| "gate_active ASuspended = Inl (app_error ACCOUNT_SUSPENDED 403)"
| "gate_active ADeleting = Inl (app_error ACCOUNT_DELETING 409)"
| "gate_active ADeleted = Inl (app_error ACCOUNT_DELETING 409)"

definition deletion_status_view :: "acct_status \<Rightarrow> time option \<Rightarrow> time \<Rightarrow> acct_status \<times> (int \<times> time) option" where
  "deletion_status_view st deadline now =
     (case deadline of
        Some t \<Rightarrow> if st = ADeleting then (st, Some (days_until t now, t)) else (st, None)
      | None \<Rightarrow> (st, None))"

definition on_work :: "(db \<Rightarrow> db) \<Rightarrow> idb \<Rightarrow> idb" where
  "on_work f d = d\<lparr>work_db := f (work_db d)\<rparr>"

definition work_call :: "(db \<Rightarrow> api_error + 'a \<times> db) \<Rightarrow> 'a flow" where
  "work_call f = (\<lambda>d. case f (work_db d) of Inl e \<Rightarrow> (Inl e, d) | Inr (x, w) \<Rightarrow> (Inr x, d\<lparr>work_db := w\<rparr>))"

text \<open>\<open>status\<close>, \<open>password_hash\<close>, \<open>mfa\<close> and \<open>email\<close> are those of the authenticated request.\<close>

definition request_deletion ::
  "env \<Rightarrow> uuid \<Rightarrow> acct_status \<Rightarrow> string \<Rightarrow> string option \<Rightarrow> pystr \<Rightarrow> pystr \<Rightarrow> pystr option \<Rightarrow>
     pystr \<Rightarrow> string \<Rightarrow> uuid \<Rightarrow> pystr \<Rightarrow> uuid \<Rightarrow> time \<Rightarrow> json answer flow" where
  "request_deletion E me st pw_hash mfa email password code key h tid tok oid now =
     (let route = ''/api/account/deletion/request'' in
      case gate_active st of
        Inl e \<Rightarrow> throw e
      | Inr _ \<Rightarrow>
      bindF (case mfa of None \<Rightarrow> ret () | Some envelope \<Rightarrow> verify_change_totp E me envelope code now) (\<lambda>_.
      bindF (require (verify_password E password pw_hash) (app_error INVALID_CREDENTIALS 401)) (\<lambda>_.
      once (subject_user E me) route key h now (atomically (
        bindF (asks (\<lambda>d. rowcount (\<lambda>u. us_id u = me \<and> us_status u = AActive) (users d))) (\<lambda>n.
        bindF (require (n \<noteq> 0) (app_error ACCOUNT_DELETING 409)) (\<lambda>_.
        bindF (change (upd_users (\<lambda>u. us_id u = me \<and> us_status u = AActive)
                 (\<lambda>u. u\<lparr>us_status := ADeleting, us_deadline := Some (now + grace_days * 86400)\<rparr>))) (\<lambda>_.
        let body = JObj [field ''data'' (JObj [text_field ''status'' ''deleting'',
              field ''days_remaining'' (JInt (days_until (now + grace_days * 86400) now))])] in
        bindF (change (revoke_all me now)) (\<lambda>_.
        bindF (change (on_work (terminate_tasks_hook me))) (\<lambda>_.
        bindF (issue_token E DeletionCancel me email tid tok oid now) (\<lambda>_.
        bindF (idem_store (subject_user E me) route key h 200 body now) (\<lambda>_.
        ret body))))))))))))"

section \<open>Cancelling it\<close>

definition cancel_deletion ::
  "env \<Rightarrow> pystr \<Rightarrow> pystr \<Rightarrow> pystr \<Rightarrow> pystr \<Rightarrow> pystr \<Rightarrow> string \<Rightarrow> uuid \<Rightarrow> pystr \<Rightarrow> pystr \<Rightarrow> time \<Rightarrow> (json \<times> pystr) answer flow" where
  "cancel_deletion E tok password ip label key h sid stok ctok now =
     (let err = app_error ACCOUNT_DELETING 409;
          route = ''/api/account/deletion/cancel''
      in once (subject_token E tok) route key h now (
         bindF (asks (token_owner DeletionCancel (hash_token E tok))) (\<lambda>who.
         case who of
           None \<Rightarrow> bindF (limit_to ''deletion_cancel_invalid'' [hmac_of E ''ip'' ip] now) (\<lambda>_. throw err)
         | Some me \<Rightarrow>
         bindF (limit_to ''deletion_cancel_attempt'' [hmac_of E ''user'' (uuid_text E me), hmac_of E ''ip'' ip] now) (\<lambda>_.
         atomically (
           bindF (live_token DeletionCancel (hash_token E tok) me now err) (\<lambda>t.
           bindF (asks (find_user me)) (\<lambda>r.
           case r of
             None \<Rightarrow> throw err
           | Some u \<Rightarrow>
           bindF (require (us_status u = ADeleting) err) (\<lambda>_.
           bindF (require (verify_password E password (us_password u)) (app_error INVALID_CREDENTIALS 401)) (\<lambda>_.
           bindF (change (upd_users (\<lambda>u. us_id u = me \<and> us_status u = ADeleting)
                    (\<lambda>u. u\<lparr>us_status := AActive, us_deadline := None\<rparr>))) (\<lambda>_.
           bindF (consume_token me (tk_id t) now err) (\<lambda>_.
           bindF (create_session E me label False sid stok ctok now) (\<lambda>_.
           let body = JObj [field ''data'' (JObj [field ''user'' (JObj [field ''id'' (JStr (uuid_text E me)),
                 field ''email'' (JStr (us_email u)),
                 text_field ''role'' (case us_role u of RUser \<Rightarrow> ''user'' | RAdmin \<Rightarrow> ''admin''),
                 text_field ''status'' ''active'']), field ''csrf_token'' (JStr ctok)])] in
           bindF (idem_store (subject_token E tok) route key h 200 body now) (\<lambda>_.
           ret (body, stok))))))))))))))"

section \<open>The final sweep\<close>

definition anonymous_email :: "env \<Rightarrow> uuid \<Rightarrow> pystr" where
  "anonymous_email E u = pystr_of ''deleted+'' @ uuid_text E u @ pystr_of ''@users.invalid''"

definition expired_users :: "time \<Rightarrow> idb \<Rightarrow> uuid list" where
  "expired_users now d =
     map us_id (filter (\<lambda>u. us_status u = ADeleting \<and> (case us_deadline u of None \<Rightarrow> False | Some t \<Rightarrow> t \<le> now)) (users d))"

text \<open>
  One user's transaction. The unique address and the foreign key of \<open>tasks.provider_id\<close> are what can
  refuse it; a user no longer deleting is skipped.
\<close>

definition sweep_user :: "env \<Rightarrow> (uuid \<Rightarrow> string) \<Rightarrow> time \<Rightarrow> uuid \<Rightarrow> nat flow" where
  "sweep_user E random_hash now me = atomically (
     bindF (asks (\<lambda>d. rowcount (\<lambda>u. us_id u = me \<and> us_status u = ADeleting) (users d))) (\<lambda>n.
     bindF (asks (\<lambda>d. list_ex (\<lambda>u. us_id u \<noteq> me \<and> us_email u = anonymous_email E me) (users d))) (\<lambda>taken.
     bindF (require (n = 0 \<or> \<not> taken) (IntegrityError ''uq_users_email'')) (\<lambda>_.
     bindF (change (upd_users (\<lambda>u. us_id u = me \<and> us_status u = ADeleting)
              (\<lambda>u. u\<lparr>us_status := ADeleted, us_deleted := Some now, us_deadline := None,
                     us_password := random_hash me, us_mfa := None, us_email := anonymous_email E me\<rparr>))) (\<lambda>_.
     if n \<noteq> 1 then ret 0
     else
       bindF (asks (\<lambda>d. list_ex (\<lambda>p. p_user p = me \<and> list_ex (\<lambda>t. t_provider t = p_id p) (tasks (work_db d)))
                (providers (work_db d)))) (\<lambda>used.
       bindF (require (\<not> used) (IntegrityError ''tasks_provider_id_fkey'')) (\<lambda>_.
       bindF (change (on_work (\<lambda>w. w\<lparr>providers := filter (\<lambda>p. p_user p \<noteq> me) (providers w)\<rparr>))) (\<lambda>_.
       bindF (change (revoke_all me now)) (\<lambda>_. ret 1)))))))))"

fun sweep_users :: "env \<Rightarrow> (uuid \<Rightarrow> string) \<Rightarrow> time \<Rightarrow> uuid list \<Rightarrow> nat flow" where
  "sweep_users E random_hash now [] = ret 0"
| "sweep_users E random_hash now (u # us) =
     bindF (sweep_user E random_hash now u) (\<lambda>n.
     bindF (sweep_users E random_hash now us) (\<lambda>m. ret (n + m)))"

definition sweep_expired :: "env \<Rightarrow> (uuid \<Rightarrow> string) \<Rightarrow> time \<Rightarrow> nat flow" where
  "sweep_expired E random_hash now = bindF (asks (expired_users now)) (sweep_users E random_hash now)"

end
