(* ===== verification/Admin_Users.thy ===== *)
theory Admin_Users
  imports Deletion Task_Views
begin

text \<open>
  The administrator's user management (\<open>backend/v2/admin_user_service.py\<close>): the user list and the
  detail view, quota changes, entitlements, suspension with its cascade over sessions, tokens and
  tasks, and its lifting. Business change and audit row share the administrator's transaction; the
  cascade runs after it, in transactions of the user.
\<close>

section \<open>Reading\<close>

definition require_user :: "raw_id \<Rightarrow> idb \<Rightarrow> api_error + uuid" where
  "require_user rid d =
     bindE (parse_id rid) (\<lambda>u. if find_user u d = None then Inl (HttpDetail ''NOT_FOUND'' 404) else Inr u)"

text \<open>The e-mail filter is a case-insensitive prefix test; wildcards in it are escaped.\<close>

definition email_matches :: "env \<Rightarrow> pystr option \<Rightarrow> user_row \<Rightarrow> bool" where
  "email_matches E pre u = (case pre of None \<Rightarrow> True | Some p \<Rightarrow> prefix (lower E p) (lower E (us_email u)))"

definition list_users ::
  "env \<Rightarrow> pystr option \<Rightarrow> acct_status option \<Rightarrow> int \<Rightarrow> int \<Rightarrow> idb \<Rightarrow> api_error + user_row list \<times> nat" where
  "list_users E pre st page sz d =
     (if page < 1 \<or> sz < 1 \<or> 100 < sz then Inl validation_error
      else (let hit = filter (\<lambda>u. email_matches E pre u \<and> (case st of None \<Rightarrow> True | Some s \<Rightarrow> us_status u = s)) (users d);
                rows = rev (sort_key us_created (sort_key us_id hit))
            in Inr (take (nat sz) (drop (nat ((page - 1) * sz)) rows), length hit)))"

definition get_user_detail ::
  "raw_id \<Rightarrow> idb \<Rightarrow> api_error + user_row \<times> quota_row \<times> usage_row \<times> nat \<times> (status \<times> nat) list" where
  "get_user_detail rid d =
     bindE (parse_id rid) (\<lambda>u.
     case find_user u d of
       None \<Rightarrow> Inl (HttpDetail ''NOT_FOUND'' 404)
     | Some r \<Rightarrow>
         (let mine = filter (\<lambda>t. t_owner t = u) (tasks (work_db d));
              by_status = map (\<lambda>s. (s, rowcount (\<lambda>t. t_status t = s) mine)) (remdups (map t_status mine))
          in Inr (r, case quotas (work_db d) u of None \<Rightarrow> default_quota | Some q \<Rightarrow> q,
                  case usage (work_db d) u of None \<Rightarrow> default_usage | Some x \<Rightarrow> x,
                  sum_list (map snd by_status), by_status)))"

section \<open>Quotas\<close>

definition quota_dims :: "pystr list" where
  "quota_dims = map pystr_of [''max_daily_tasks'', ''max_active_tasks'', ''max_running_tasks'', ''max_retained_storage_bytes'']"

text \<open>A JSON value that is a non-negative \<open>int\<close> and not a \<open>bool\<close>.\<close>

fun quota_value :: "json \<Rightarrow> nat option" where
  "quota_value (JInt n) = (if n < 0 then None else Some (nat n))"
| "quota_value _ = None"

definition validate_quotas :: "(pystr \<times> json) list \<Rightarrow> api_error + unit" where
  "validate_quotas qs =
     (if \<not> set (map fst qs) \<subseteq> set quota_dims then Inl validation_error
      else if qs = [] then Inl validation_error
      else if list_ex (\<lambda>(k, v). quota_value v = None) qs then Inl validation_error
      else Inr ())"

definition quota_of :: "string \<Rightarrow> (pystr \<times> json) list \<Rightarrow> nat \<Rightarrow> nat" where
  "quota_of k qs old = (case map_of qs (pystr_of k) of None \<Rightarrow> old
     | Some v \<Rightarrow> (case quota_value v of None \<Rightarrow> old | Some n \<Rightarrow> n))"

definition merge_quotas :: "quota_row \<Rightarrow> (pystr \<times> json) list \<Rightarrow> quota_row" where
  "merge_quotas q qs = \<lparr>q_daily = quota_of ''max_daily_tasks'' qs (q_daily q),
     q_active = quota_of ''max_active_tasks'' qs (q_active q),
     q_running = quota_of ''max_running_tasks'' qs (q_running q),
     q_storage = quota_of ''max_retained_storage_bytes'' qs (q_storage q)\<rparr>"

definition update_quotas :: "uuid \<Rightarrow> raw_id \<Rightarrow> (pystr \<times> json) list \<Rightarrow> pystr \<Rightarrow> quota_row flow" where
  "update_quotas admin rid qs reason = atomically (
     case validate_quotas qs of
       Inl e \<Rightarrow> throw e
     | Inr _ \<Rightarrow>
     bindF (asks (require_user rid)) (\<lambda>r.
     case r of
       Inl e \<Rightarrow> throw e
     | Inr u \<Rightarrow>
     bindF (asks (\<lambda>d. case quotas (work_db d) u of None \<Rightarrow> default_quota | Some q \<Rightarrow> q)) (\<lambda>before.
     bindF (change (on_work (\<lambda>w. w\<lparr>quotas := (quotas w)(u \<mapsto> merge_quotas before qs)\<rparr>))) (\<lambda>_.
     bindF (add_audit (Some admin) ''user.quotas.update'' u reason) (\<lambda>_.
     ret (merge_quotas before qs))))))"

section \<open>Entitlements\<close>

definition entitlements :: "string list" where "entitlements = [''expert_author'']"

text \<open>The partial unique index \<open>one_active_entitlement\<close>.\<close>

definition active_ent :: "uuid \<Rightarrow> string \<Rightarrow> ent_row \<Rightarrow> bool" where
  "active_ent u k e \<longleftrightarrow> en_user e = u \<and> en_kind e = k \<and> en_revoked e = None"

definition insert_ent :: "ent_row \<Rightarrow> unit flow" where
  "insert_ent e = (\<lambda>d.
     if list_ex (\<lambda>r. en_id r = en_id e \<or> (en_revoked e = None \<and> active_ent (en_user e) (en_kind e) r)) (ents d)
     then (Inl (IntegrityError ''one_active_entitlement''), d) else (Inr (), d\<lparr>ents := ents d @ [e]\<rparr>))"

definition grant_entitlement :: "uuid \<Rightarrow> raw_id \<Rightarrow> string \<Rightarrow> pystr \<Rightarrow> uuid \<Rightarrow> time \<Rightarrow> (uuid \<times> time) flow" where
  "grant_entitlement admin rid k reason eid now = atomically (
     bindF (require (k \<in> set entitlements) validation_error) (\<lambda>_.
     bindF (asks (require_user rid)) (\<lambda>r.
     case r of
       Inl e \<Rightarrow> throw e
     | Inr u \<Rightarrow>
     bindF (asks (\<lambda>d. list_ex (active_ent u k) (ents d))) (\<lambda>taken.
     bindF (require (\<not> taken) (HttpDetail ''ENTITLEMENT_ACTIVE'' 409)) (\<lambda>_.
     bindF (flush_or (HttpDetail ''ENTITLEMENT_ACTIVE'' 409)
       (insert_ent \<lparr>en_id = eid, en_user = u, en_kind = k, en_by = Some admin, en_at = now, en_revoked = None\<rparr>)) (\<lambda>_.
     bindF (add_audit (Some admin) ''user.entitlement.grant'' u reason) (\<lambda>_.
     ret (eid, now))))))))"

definition drop_ent :: "uuid \<Rightarrow> idb \<Rightarrow> idb" where
  "drop_ent eid d = d\<lparr>ents := filter (\<lambda>e. en_id e \<noteq> eid) (ents d)\<rparr>"

definition revoke_entitlement :: "uuid \<Rightarrow> raw_id \<Rightarrow> string \<Rightarrow> pystr \<Rightarrow> uuid flow" where
  "revoke_entitlement admin rid k reason = atomically (
     bindF (require (k \<in> set entitlements) validation_error) (\<lambda>_.
     bindF (asks (require_user rid)) (\<lambda>r.
     case r of
       Inl e \<Rightarrow> throw e
     | Inr u \<Rightarrow>
     bindF (asks (\<lambda>d. find (active_ent u k) (ents d))) (\<lambda>f.
     case f of
       None \<Rightarrow> throw (HttpDetail ''NOT_FOUND'' 404)
     | Some e \<Rightarrow>
     bindF (change (drop_ent (en_id e))) (\<lambda>_.
     bindF (add_audit (Some admin) ''user.entitlement.revoke'' u reason) (\<lambda>_.
     ret (en_id e)))))))"

section \<open>Suspension\<close>

text \<open>The result: the status before, whether a deadline was cleared, whether an entitlement went.\<close>

definition suspend_user_atomic :: "raw_id \<Rightarrow> bool \<Rightarrow> (uuid \<times> acct_status \<times> bool) flow" where
  "suspend_user_atomic rid revoke =
     (case parse_id rid of
        Inl e \<Rightarrow> throw e
      | Inr u \<Rightarrow>
      bindF (asks (find_user u)) (\<lambda>r.
      case r of
        None \<Rightarrow> throw (HttpDetail ''NOT_FOUND'' 404)
      | Some row \<Rightarrow>
      bindF (asks (\<lambda>d. rowcount (\<lambda>x. us_id x = u \<and> us_status x \<in> {AActive, ADeleting}) (users d))) (\<lambda>n.
      bindF (require (n \<noteq> 0) (HttpDetail ''USER_STATUS_CONFLICT'' 409)) (\<lambda>_.
      bindF (change (upd_users (\<lambda>x. us_id x = u \<and> us_status x \<in> {AActive, ADeleting})
               (\<lambda>x. x\<lparr>us_status := ASuspended, us_deadline := (if us_status x = ADeleting then None else us_deadline x)\<rparr>))) (\<lambda>_.
      bindF (asks (\<lambda>d. if revoke then find (active_ent u ''expert_author'') (ents d) else None)) (\<lambda>f.
      bindF (case f of None \<Rightarrow> ret () | Some e \<Rightarrow> change (drop_ent (en_id e))) (\<lambda>_.
      ret (u, us_status row, f \<noteq> None))))))))"

definition suspend_user :: "uuid \<Rightarrow> raw_id \<Rightarrow> pystr \<Rightarrow> (uuid \<times> acct_status \<times> bool) flow" where
  "suspend_user admin rid reason = atomically (
     bindF (suspend_user_atomic rid False) (\<lambda>(u, st, gone).
     bindF (add_audit (Some admin) ''user.suspend'' u reason) (\<lambda>_. ret (u, st, gone))))"

definition unsuspend_user :: "uuid \<Rightarrow> raw_id \<Rightarrow> pystr \<Rightarrow> (uuid \<times> acct_status) flow" where
  "unsuspend_user admin rid reason = atomically (
     case parse_id rid of
       Inl e \<Rightarrow> throw e
     | Inr u \<Rightarrow>
     bindF (asks (find_user u)) (\<lambda>r.
     case r of
       None \<Rightarrow> throw (HttpDetail ''NOT_FOUND'' 404)
     | Some row \<Rightarrow>
     bindF (asks (\<lambda>d. rowcount (\<lambda>x. us_id x = u \<and> us_status x = ASuspended) (users d))) (\<lambda>n.
     bindF (require (n \<noteq> 0) (HttpDetail ''USER_STATUS_CONFLICT'' 409)) (\<lambda>_.
     bindF (change (upd_users (\<lambda>x. us_id x = u \<and> us_status x = ASuspended) (\<lambda>x. x\<lparr>us_status := AActive\<rparr>))) (\<lambda>_.
     bindF (add_audit (Some admin) ''user.unsuspend'' u reason) (\<lambda>_.
     ret (u, us_status row)))))))"

text \<open>
  The cascade: sessions and cancellation tokens in one transaction, then one transaction per task.
  The executor's \<open>stop_round\<close> touches no row.
\<close>

record receipts =
  rc_sessions :: nat
  rc_tokens :: nat
  rc_tasks :: nat
  rc_rounds :: nat

fun suspend_tasks :: "(uuid \<times> uuid) list \<Rightarrow> (nat \<times> nat) flow" where
  "suspend_tasks [] = ret (0, 0)"
| "suspend_tasks ((tid, me) # cs) =
     bindF (work_call (suspend_one_task tid me)) (\<lambda>(cancelled, _).
     bindF (suspend_tasks cs) (\<lambda>(n, m).
     ret (case cancelled of None \<Rightarrow> (n, m) | Some rs \<Rightarrow> (n + 1, m + length rs))))"

definition run_suspension_cascade :: "raw_id \<Rightarrow> time \<Rightarrow> receipts flow" where
  "run_suspension_cascade rid now =
     (case parse_id rid of
        Inl e \<Rightarrow> throw e
      | Inr u \<Rightarrow>
      bindF (asks (\<lambda>d. rowcount (\<lambda>s. se_user s = u \<and> se_revoked s = None) (sessions d))) (\<lambda>ns.
      bindF (asks (\<lambda>d. rowcount (\<lambda>t. tk_user t = u \<and> tk_purpose t = DeletionCancel \<and> tk_consumed t = None) (tokens d))) (\<lambda>nt.
      bindF (atomically (bindF (change (revoke_all u now)) (\<lambda>_. change (void_tokens DeletionCancel u now)))) (\<lambda>_.
      bindF (asks (\<lambda>d. suspend_candidates u (work_db d))) (\<lambda>cs.
      bindF (suspend_tasks cs) (\<lambda>(n, m).
      ret \<lparr>rc_sessions = ns, rc_tokens = nt, rc_tasks = n, rc_rounds = m\<rparr>))))))"

end
