(* ===== verification/Identity_Rules.thy ===== *)
theory Identity_Rules
  imports Admin_Users
begin

text \<open>
  What every request of the account services may do to the database. \<open>acct_rel\<close> is the contract of
  one request: rows of the users, tokens, sessions and invitations stay in place and only move along
  their life cycles, the audit log only grows, and the well-formed tables stay well-formed. The
  contract is proved statement by statement; the rules of \<open>flow_contract\<close> carry it to the requests.
\<close>

section \<open>Tables that only grow\<close>

definition grows :: "('a \<Rightarrow> 'a \<Rightarrow> bool) \<Rightarrow> 'a list \<Rightarrow> 'a list \<Rightarrow> bool" where
  "grows R xs ys \<longleftrightarrow> (\<exists>zs us. ys = zs @ us \<and> list_all2 R xs zs)"

lemma grows_refl: "(\<And>x. R x x) \<Longrightarrow> grows R xs xs"
  unfolding grows_def by (intro exI [of _ xs] exI [of _ "[]"]) (simp add: list.rel_refl)

lemma grows_trans:
  assumes "grows R xs ys" and "grows R ys zs" and "\<And>a b c. R a b \<Longrightarrow> R b c \<Longrightarrow> R a c"
  shows "grows R xs zs"
proof -
  obtain y1 y2 where y: "ys = y1 @ y2" "list_all2 R xs y1" using assms(1) unfolding grows_def by blast
  obtain z1 z2 where z: "zs = z1 @ z2" "list_all2 R ys z1" using assms(2) unfolding grows_def by blast
  obtain w1 w2 where w: "z1 = w1 @ w2" "list_all2 R y1 w1"
    using z(2) unfolding y(1) by (auto simp: list_all2_append1)
  have "list_all2 R xs w1" by (rule list_all2_trans [OF _ y(2) w(2)]) (rule assms(3))
  then show ?thesis unfolding grows_def z(1) w(1) by (metis append.assoc)
qed

lemma grows_upd: "(\<And>x. R x x) \<Longrightarrow> (\<And>x. P x \<Longrightarrow> R x (f x)) \<Longrightarrow> grows R xs (upd P f xs)"
  unfolding grows_def upd_def
  by (rule exI [of _ "map (\<lambda>x. if P x then f x else x) xs"], rule exI [of _ "[]"])
    (simp add: list_all2_map2 list_all2_same)

lemma grows_snoc: "(\<And>x. R x x) \<Longrightarrow> grows R xs (xs @ [y])"
  unfolding grows_def by (intro exI [of _ xs] exI [of _ "[y]"]) (simp add: list.rel_refl)

lemma grows_mem: "grows R xs ys \<Longrightarrow> x \<in> set xs \<Longrightarrow> \<exists>y \<in> set ys. R x y"
  unfolding grows_def by (metis UnCI in_set_conv_nth list_all2_conv_all_nth set_append)

section \<open>Life cycles\<close>

text \<open>What a run of requests can make of an account: nobody returns to pending, nobody leaves deleted.\<close>

definition may_become :: "acct_status \<Rightarrow> acct_status \<Rightarrow> bool" where
  "may_become a b \<longleftrightarrow> a = b \<or> (a \<noteq> ADeleted \<and> b \<noteq> APending)"

definition user_moves :: "user_row \<Rightarrow> user_row \<Rightarrow> bool" where
  "user_moves u v \<longleftrightarrow> us_id v = us_id u \<and> us_role v = us_role u \<and> us_created v = us_created u
     \<and> may_become (us_status u) (us_status v)
     \<and> (us_email v = us_email u \<or> (us_status u \<noteq> ADeleted \<and> us_status v = ADeleted))"

definition token_moves :: "token_row \<Rightarrow> token_row \<Rightarrow> bool" where
  "token_moves t v \<longleftrightarrow> tk_id v = tk_id t \<and> tk_user v = tk_user t \<and> tk_purpose v = tk_purpose t \<and> tk_hash v = tk_hash t
     \<and> tk_expires v = tk_expires t \<and> (tk_consumed t \<noteq> None \<longrightarrow> tk_consumed v = tk_consumed t)"

definition session_moves :: "session_row \<Rightarrow> session_row \<Rightarrow> bool" where
  "session_moves s v \<longleftrightarrow> se_id v = se_id s \<and> se_hash v = se_hash s \<and> se_user v = se_user s \<and> se_csrf v = se_csrf s
     \<and> se_created v = se_created s \<and> (se_revoked s \<noteq> None \<longrightarrow> v = s)"

definition invite_moves :: "invite_row \<Rightarrow> invite_row \<Rightarrow> bool" where
  "invite_moves i v \<longleftrightarrow> in_id v = in_id i \<and> in_hash v = in_hash i \<and> in_email v = in_email i \<and> in_expires v = in_expires i
     \<and> in_created v = in_created i \<and> (\<not> open_invite i \<longrightarrow> v = i)"

named_theorems moves_defs
declare user_moves_def [moves_defs] token_moves_def [moves_defs] session_moves_def [moves_defs]
declare invite_moves_def [moves_defs] may_become_def [moves_defs]

lemma moves_refl: "user_moves u u" "token_moves t t" "session_moves s s" "invite_moves i i"
  by (simp_all add: moves_defs)

lemma moves_trans:
  "user_moves u v \<Longrightarrow> user_moves v w \<Longrightarrow> user_moves u w"
  "token_moves t t1 \<Longrightarrow> token_moves t1 t2 \<Longrightarrow> token_moves t t2"
  "session_moves s s1 \<Longrightarrow> session_moves s1 s2 \<Longrightarrow> session_moves s s2"
  "invite_moves i i1 \<Longrightarrow> invite_moves i1 i2 \<Longrightarrow> invite_moves i i2"
  by (auto simp: moves_defs)

section \<open>Well-formed tables\<close>

text \<open>The two CHECK constraints, strengthened to equivalences.\<close>

definition user_checks :: "user_row \<Rightarrow> bool" where
  "user_checks u \<longleftrightarrow> (us_deleted u \<noteq> None \<longleftrightarrow> us_status u = ADeleted) \<and> (us_deadline u \<noteq> None \<longleftrightarrow> us_status u = ADeleting)"

definition users_ok :: "user_row list \<Rightarrow> bool" where
  "users_ok us \<longleftrightarrow> distinct (map us_id us) \<and> distinct (map us_email us) \<and> (\<forall>u \<in> set us. user_checks u)"

definition tokens_ok :: "token_row list \<Rightarrow> bool" where
  "tokens_ok ts \<longleftrightarrow> distinct (map tk_id ts) \<and> distinct (map tk_hash ts)"

definition sessions_ok :: "session_row list \<Rightarrow> bool" where
  "sessions_ok ss \<longleftrightarrow> distinct (map se_id ss) \<and> distinct (map se_hash ss) \<and> (\<forall>s \<in> set ss. capped s)"

definition invites_ok :: "invite_row list \<Rightarrow> bool" where
  "invites_ok xs \<longleftrightarrow> distinct (map in_id xs) \<and> distinct (map in_hash xs) \<and> distinct (map in_email (filter open_invite xs))"

definition ents_ok :: "ent_row list \<Rightarrow> bool" where
  "ents_ok es \<longleftrightarrow> distinct (map en_id es)
     \<and> distinct (map (\<lambda>e. (en_user e, en_kind e)) (filter (\<lambda>e. en_revoked e = None) es))"

definition challenges_ok :: "(pystr \<times> challenge) list \<Rightarrow> bool" where
  "challenges_ok cs \<longleftrightarrow> (\<forall>(k, c) \<in> set cs. ch_attempts c < challenge_attempts)"

definition tables_ok :: "idb \<Rightarrow> bool" where
  "tables_ok d \<longleftrightarrow> users_ok (users d) \<and> tokens_ok (tokens d) \<and> sessions_ok (sessions d)
     \<and> invites_ok (invites d) \<and> ents_ok (ents d) \<and> challenges_ok (challenges d)"

definition acct_rel :: "idb \<Rightarrow> idb \<Rightarrow> bool" where
  "acct_rel d d' \<longleftrightarrow> (tables_ok d \<longrightarrow> tables_ok d'
     \<and> grows user_moves (users d) (users d') \<and> grows token_moves (tokens d) (tokens d')
     \<and> grows session_moves (sessions d) (sessions d') \<and> grows invite_moves (invites d) (invites d')
     \<and> prefix (audits d) (audits d'))"

lemma acct_rel_refl: "acct_rel d d"
  by (simp add: acct_rel_def grows_refl moves_refl)

lemma acct_rel_trans: "acct_rel d d1 \<Longrightarrow> acct_rel d1 d2 \<Longrightarrow> acct_rel d d2"
  unfolding acct_rel_def by (blast intro: grows_trans moves_trans prefix_order.trans)

interpretation acct: flow_contract acct_rel
  by unfold_locales (fact acct_rel_refl, fact acct_rel_trans)

section \<open>Statements that keep the contract\<close>

text \<open>A statement that touches none of the tables.\<close>

lemma acct_rel_frame:
  assumes "users d' = users d" "tokens d' = tokens d" "sessions d' = sessions d" "invites d' = invites d"
    "ents d' = ents d" "challenges d' = challenges d" "prefix (audits d) (audits d')"
  shows "acct_rel d d'"
  using assms by (simp add: acct_rel_def tables_ok_def grows_refl moves_refl)

lemma distinct_upd_key: "(\<And>x. P x \<Longrightarrow> g (f x) = g x) \<Longrightarrow> distinct (map g (upd P f xs)) = distinct (map g xs)"
  by (simp add: map_upd)

lemma acct_rel_upd_users:
  assumes "\<And>u. P u \<Longrightarrow> user_moves u (f u) \<and> us_email (f u) = us_email u \<and> (user_checks u \<longrightarrow> user_checks (f u))"
  shows "acct_rel d (upd_users P f d)"
proof -
  have k: "\<And>u. P u \<Longrightarrow> us_id (f u) = us_id u" using assms by (simp add: user_moves_def)
  have "users_ok (users d) \<Longrightarrow> users_ok (upd P f (users d))"
    using assms by (auto simp: users_ok_def map_upd k)
  moreover have "grows user_moves (users d) (upd P f (users d))" using assms by (simp add: grows_upd moves_refl)
  ultimately show ?thesis by (simp add: acct_rel_def tables_ok_def upd_users_def grows_refl moves_refl)
qed

lemma acct_rel_upd_tokens:
  assumes "\<And>t. P t \<Longrightarrow> token_moves t (f t)"
  shows "acct_rel d (upd_tokens P f d)"
proof -
  have k: "\<And>t. P t \<Longrightarrow> tk_id (f t) = tk_id t" "\<And>t. P t \<Longrightarrow> tk_hash (f t) = tk_hash t"
    using assms by (simp_all add: token_moves_def)
  have "tokens_ok (tokens d) \<Longrightarrow> tokens_ok (upd P f (tokens d))" by (simp add: tokens_ok_def map_upd k)
  moreover have "grows token_moves (tokens d) (upd P f (tokens d))" using assms by (simp add: grows_upd moves_refl)
  ultimately show ?thesis by (simp add: acct_rel_def tables_ok_def upd_tokens_def grows_refl moves_refl)
qed

lemma acct_rel_upd_sessions:
  assumes "\<And>s. P s \<Longrightarrow> session_moves s (f s) \<and> (capped s \<longrightarrow> capped (f s))"
  shows "acct_rel d (upd_sessions P f d)"
proof -
  have k: "\<And>s. P s \<Longrightarrow> se_id (f s) = se_id s" "\<And>s. P s \<Longrightarrow> se_hash (f s) = se_hash s"
    using assms by (simp_all add: session_moves_def)
  have "sessions_ok (sessions d) \<Longrightarrow> sessions_ok (upd P f (sessions d))" using assms by (auto simp: sessions_ok_def map_upd k)
  moreover have "grows session_moves (sessions d) (upd P f (sessions d))" using assms by (simp add: grows_upd moves_refl)
  ultimately show ?thesis by (simp add: acct_rel_def tables_ok_def upd_sessions_def grows_refl moves_refl)
qed

lemma distinct_open_close:
  assumes "\<And>i. P i \<Longrightarrow> in_email (f i) = in_email i" and "\<And>i. P i \<Longrightarrow> \<not> open_invite (f i)"
    and "distinct (map in_email (filter open_invite xs))"
  shows "distinct (map in_email (filter open_invite (upd P f xs)))"
proof -
  have "filter open_invite (upd P f xs) = filter (\<lambda>i. \<not> P i) (filter open_invite xs)"
    using assms(2) by (induction xs) auto
  then show ?thesis using assms(3) by (metis distinct_map_filter)
qed

lemma acct_rel_close_invites:
  assumes "\<And>i. P i \<Longrightarrow> open_invite i \<and> invite_moves i (f i) \<and> \<not> open_invite (f i)"
  shows "acct_rel d (d\<lparr>invites := upd P f (invites d)\<rparr>)"
proof -
  have k: "\<And>i. P i \<Longrightarrow> in_id (f i) = in_id i" "\<And>i. P i \<Longrightarrow> in_hash (f i) = in_hash i" "\<And>i. P i \<Longrightarrow> in_email (f i) = in_email i"
    using assms by (simp_all add: invite_moves_def)
  have "invites_ok (invites d) \<Longrightarrow> invites_ok (upd P f (invites d))"
    using assms by (simp add: invites_ok_def map_upd k distinct_open_close)
  moreover have "grows invite_moves (invites d) (upd P f (invites d))" using assms by (simp add: grows_upd moves_refl)
  ultimately show ?thesis by (simp add: acct_rel_def tables_ok_def grows_refl moves_refl)
qed

text \<open>The statements and sub-flows the services are made of.\<close>

named_theorems stmt_keeps

lemma keeps_frame:
  assumes "\<And>d. users (snd (m d)) = users d \<and> tokens (snd (m d)) = tokens d \<and> sessions (snd (m d)) = sessions d
      \<and> invites (snd (m d)) = invites d \<and> ents (snd (m d)) = ents d \<and> challenges (snd (m d)) = challenges d
      \<and> prefix (audits d) (audits (snd (m d)))"
  shows "acct.keeps m"
  by (rule acct.keepsI, rule acct_rel_frame) (use assms in auto)

lemma keeps_limit_to [stmt_keeps]: "acct.keeps (limit_to scope subjects now)"
  by (rule keeps_frame) (simp add: limit_to_def split: sum.splits rl_error.splits)

lemma keeps_idem_begin [stmt_keeps]: "acct.keeps (idem_begin sub route key h now)"
  by (rule keeps_frame) (simp add: idem_begin_def split: prod.splits)

lemma keeps_idem_store [stmt_keeps]: "acct.keeps (idem_store sub route key h st body now)"
  by (rule keeps_frame) (simp add: idem_store_def split: sum.splits)

lemma keeps_enqueue_mail [stmt_keeps]: "acct.keeps (enqueue_mail E p u r t oid now)"
  by (rule keeps_frame) (simp add: enqueue_mail_def split: option.splits)

lemma keeps_invitation_mail [stmt_keeps]: "acct.keeps (invitation_mail E r t oid now)"
  by (rule keeps_frame) (simp add: invitation_mail_def split: option.splits)

lemma keeps_add_audit [stmt_keeps]: "acct.keeps (add_audit a b c r)"
  by (rule keeps_frame) (simp add: add_audit_def change_def)

lemma keeps_on_work [stmt_keeps]: "acct.keeps (change (on_work f))"
  by (rule keeps_frame) (simp add: on_work_def change_def)

lemma keeps_work_call [stmt_keeps]: "acct.keeps (work_call f)"
  by (rule keeps_frame) (auto simp: work_call_def split: sum.splits prod.splits)

lemma keeps_pending [stmt_keeps]:
  "acct.keeps (pending_get u now)" "acct.keeps (change (pending_put u sec now))" "acct.keeps (change (pending_pop u))"
  by (rule keeps_frame, simp add: pending_get_def pending_put_def pending_pop_def prune_pending_def change_def Let_def)+

lemma keeps_flush_or [stmt_keeps]: "acct.keeps m \<Longrightarrow> acct.keeps (flush_or e m)"
  unfolding acct.keeps_def flush_or_def by (auto split: prod.splits sum.splits api_error.splits) (metis snd_conv)+

text \<open>Inserts: the check is the unique index.\<close>

lemma keeps_insert_user:
  assumes "user_checks u"
  shows "acct.keeps (insert_user u)"
proof (rule acct.keepsI)
  fix d
  show "acct_rel d (snd (insert_user u d))"
  proof (cases "list_ex (\<lambda>r. us_id r = us_id u \<or> us_email r = us_email u) (users d)")
    case False
    then have "users_ok (users d) \<Longrightarrow> users_ok (users d @ [u])"
      using assms by (auto simp: users_ok_def list_ex_iff)
    then show ?thesis using False
      by (simp add: insert_user_def acct_rel_def tables_ok_def grows_refl grows_snoc moves_refl)
  qed (simp add: insert_user_def acct_rel_refl)
qed

lemma keeps_insert_token [stmt_keeps]: "acct.keeps (insert_token t)"
proof (rule acct.keepsI)
  fix d
  show "acct_rel d (snd (insert_token t d))"
  proof (cases "list_ex (\<lambda>r. tk_id r = tk_id t \<or> tk_hash r = tk_hash t) (tokens d)")
    case False
    then have "tokens_ok (tokens d) \<Longrightarrow> tokens_ok (tokens d @ [t])" by (auto simp: tokens_ok_def list_ex_iff)
    then show ?thesis using False
      by (simp add: insert_token_def acct_rel_def tables_ok_def grows_refl grows_snoc moves_refl)
  qed (simp add: insert_token_def acct_rel_refl)
qed

lemma keeps_insert_session:
  assumes "capped s"
  shows "acct.keeps (insert_session s)"
proof (rule acct.keepsI)
  fix d
  show "acct_rel d (snd (insert_session s d))"
  proof (cases "list_ex (\<lambda>r. se_id r = se_id s \<or> se_hash r = se_hash s) (sessions d)")
    case False
    then have "sessions_ok (sessions d) \<Longrightarrow> sessions_ok (sessions d @ [s])"
      using assms by (auto simp: sessions_ok_def list_ex_iff)
    then show ?thesis using False
      by (simp add: insert_session_def acct_rel_def tables_ok_def grows_refl grows_snoc moves_refl)
  qed (simp add: insert_session_def acct_rel_refl)
qed

lemma keeps_insert_invite [stmt_keeps]: "acct.keeps (insert_invite i)"
proof (rule acct.keepsI)
  fix d
  show "acct_rel d (snd (insert_invite i d))"
  proof (cases "list_ex (\<lambda>r. in_id r = in_id i \<or> in_hash r = in_hash i
           \<or> (open_invite r \<and> open_invite i \<and> in_email r = in_email i)) (invites d)")
    case False
    then have "invites_ok (invites d) \<Longrightarrow> invites_ok (invites d @ [i])"
      by (auto simp: invites_ok_def list_ex_iff)
    then show ?thesis using False
      by (simp add: insert_invite_def acct_rel_def tables_ok_def grows_refl grows_snoc moves_refl)
  qed (simp add: insert_invite_def acct_rel_refl)
qed

lemma keeps_insert_ent [stmt_keeps]: "acct.keeps (insert_ent e)"
proof (rule acct.keepsI)
  fix d
  show "acct_rel d (snd (insert_ent e d))"
  proof (cases "list_ex (\<lambda>r. en_id r = en_id e \<or> (en_revoked e = None \<and> active_ent (en_user e) (en_kind e) r)) (ents d)")
    case False
    then have "ents_ok (ents d) \<Longrightarrow> ents_ok (ents d @ [e])"
      by (auto simp: ents_ok_def list_ex_iff active_ent_def)
    then show ?thesis using False
      by (simp add: insert_ent_def acct_rel_def tables_ok_def grows_refl moves_refl)
  qed (simp add: insert_ent_def acct_rel_refl)
qed

lemma keeps_drop_ent [stmt_keeps]: "acct.keeps (change (drop_ent e))"
proof (rule acct.keepsI)
  fix d :: idb
  have "ents_ok (ents d) \<Longrightarrow> ents_ok (filter (\<lambda>x. en_id x \<noteq> e) (ents d))"
    unfolding ents_ok_def by (auto intro: distinct_map_filter simp: filter_filter conj_commute distinct_map inj_on_def)
  then show "acct_rel d (snd (change (drop_ent e) d))"
    by (simp add: change_def drop_ent_def acct_rel_def tables_ok_def grows_refl moves_refl)
qed

lemma keeps_create_session [stmt_keeps]: "acct.keeps (create_session E me label mfa sid stok ctok now)"
  unfolding create_session_def
  by (rule keeps_insert_session) (simp add: capped_def session_ttl_def session_absolute_def)

text \<open>Guarded updates.\<close>

lemma keeps_consume_token [stmt_keeps]: "acct.keeps (consume_token me tid now err)"
  by (rule acct.keepsI) (auto simp: consume_token_def Let_def acct_rel_refl intro!: acct_rel_upd_tokens simp: token_moves_def)

lemma keeps_void_tokens [stmt_keeps]: "acct.keeps (change (void_tokens p me now))"
  by (rule acct.keeps_change) (auto simp: void_tokens_def token_moves_def intro!: acct_rel_upd_tokens)

lemma keeps_revoke_all [stmt_keeps]: "acct.keeps (change (revoke_all me now))"
  by (rule acct.keeps_change) (auto simp: revoke_all_def session_moves_def capped_def intro!: acct_rel_upd_sessions)

lemma keeps_refresh [stmt_keeps]: "acct.keeps (change (refresh_if_needed me sid now))"
  by (rule acct.keeps_change) (auto simp: refresh_if_needed_def session_moves_def capped_def intro!: acct_rel_upd_sessions)

lemma keeps_stamp_mfa [stmt_keeps]: "acct.keeps (change (stamp_mfa me sid now))"
  by (rule acct.keeps_change) (auto simp: stamp_mfa_def session_moves_def capped_def intro!: acct_rel_upd_sessions)

lemma keeps_revoke_session [stmt_keeps]: "acct.keeps (revoke_session me sid now)"
  by (rule acct.keepsI)
    (auto simp: revoke_session_def Let_def session_moves_def capped_def intro!: acct_rel_upd_sessions)

lemma keeps_revoke_others [stmt_keeps]:
  "acct.keeps (change (upd_sessions (\<lambda>s. se_user s = me \<and> se_id s \<noteq> sid \<and> se_revoked s = None) (\<lambda>s. s\<lparr>se_revoked := Some now\<rparr>)))"
  by (rule acct.keeps_change) (auto simp: session_moves_def capped_def intro!: acct_rel_upd_sessions)

lemma keeps_consume_invite [stmt_keeps]: "acct.keeps (consume_invite i now)"
  by (rule acct.keepsI)
    (auto simp: consume_invite_def Let_def acct_rel_refl open_invite_def invite_moves_def intro!: acct_rel_close_invites)

lemma keeps_upd_users:
  assumes "\<And>u. P u \<Longrightarrow> user_moves u (f u) \<and> us_email (f u) = us_email u \<and> (user_checks u \<longrightarrow> user_checks (f u))"
  shows "acct.keeps (change (upd_users P f))"
  by (rule acct.keeps_change) (rule acct_rel_upd_users [OF assms])

text \<open>The challenge store: a challenge dies with its fifth failure.\<close>

lemma acct_rel_challenges:
  assumes "challenges_ok (challenges d) \<Longrightarrow> challenges_ok cs"
  shows "acct_rel d (d\<lparr>challenges := cs\<rparr>)"
  using assms by (simp add: acct_rel_def tables_ok_def grows_refl moves_refl)

lemma challenges_ok_update:
  "challenges_ok cs \<Longrightarrow> ch_attempts c < challenge_attempts \<Longrightarrow> challenges_ok (AList.update k c cs)"
  by (induction cs) (auto simp: challenges_ok_def)

lemma challenges_ok_filter: "challenges_ok cs \<Longrightarrow> challenges_ok (filter P cs)"
  by (auto simp: challenges_ok_def)

lemma challenges_ok_delete: "challenges_ok cs \<Longrightarrow> challenges_ok (AList.delete k cs)"
  by (simp add: AList.delete_eq challenges_ok_filter)

lemma keeps_challenge [stmt_keeps]:
  "acct.keeps (challenge_get k now)" "acct.keeps (change (challenge_create k u now))"
  "acct.keeps (change (challenge_destroy k))" "acct.keeps (change (record_failure k))"
proof -
  show "acct.keeps (challenge_get k now)"
    by (rule acct.keepsI)
      (auto simp: challenge_get_def prune_challenges_def Let_def intro!: acct_rel_challenges challenges_ok_filter)
  show "acct.keeps (change (challenge_create k u now))"
    by (rule acct.keeps_change)
      (auto simp: challenge_create_def prune_challenges_def Let_def challenge_attempts_def
        intro!: acct_rel_challenges challenges_ok_filter challenges_ok_update)
  show "acct.keeps (change (challenge_destroy k))"
    by (rule acct.keeps_change) (auto simp: challenge_destroy_def intro!: acct_rel_challenges challenges_ok_delete)
  show "acct.keeps (change (record_failure k))"
    by (rule acct.keeps_change)
      (auto simp: record_failure_def challenge_destroy_def acct_rel_refl split: option.splits
        intro!: acct_rel_challenges challenges_ok_delete challenges_ok_update)
qed

end
