(* ===== verification/Identity_System.thy ===== *)
theory Identity_System
  imports Identity_Rules
begin

text \<open>
  The account services as one transition system: a step is one request of any of them, with any
  arguments, whether it succeeds or fails, or one pass of the deletion sweep. Every step keeps the
  contract of \<open>Identity_Rules\<close>; the properties are its consequences for all runs.
\<close>

section \<open>Every request keeps the contract\<close>

lemma keeps_limiters [stmt_keeps]:
  "acct.keeps (change_totp_failure E me now)" "acct.keeps (enforce_mfa_failure E me now)"
  by (simp_all add: change_totp_failure_def enforce_mfa_failure_def keeps_limit_to)

lemma keeps_once_any: "acct.keeps m \<Longrightarrow> acct.keeps (once sub route key h now m)"
  unfolding once_def by (intro acct.keeps_bind acct.keeps_option acct.keeps_prod acct.keeps_ret keeps_idem_begin)

lemma keeps_live_token [stmt_keeps]: "acct.keeps (live_token p h me now err)"
  unfolding live_token_def by (intro acct.keeps_rules)

lemma keeps_issue_token [stmt_keeps]: "acct.keeps (issue_token E p me r tid tok oid now)"
  unfolding issue_token_def by (intro acct.keeps_rules stmt_keeps)

lemma keeps_totp [stmt_keeps]: "acct.keeps (verify_change_totp E me env c now)"
  unfolding verify_change_totp_def Let_def by (intro acct.keeps_rules stmt_keeps)

lemma keeps_authenticate: "acct.keeps (authenticate E w cookie csrf now)"
  unfolding authenticate_def by (intro acct.keeps_rules stmt_keeps)

lemma keeps_confirm_email: "acct.keeps (confirm_email_verification E tok key h now)"
  unfolding confirm_email_verification_def Let_def
  by (intro acct.keeps_rules stmt_keeps keeps_once_any keeps_upd_users) (auto simp: moves_defs user_checks_def)

lemma keeps_resend: "acct.keeps (resend_email_verification E me r st tid tok oid now)"
  unfolding resend_email_verification_def by (intro acct.keeps_rules stmt_keeps)

lemma keeps_lock_and_validate [stmt_keeps]: "acct.keeps (lock_and_validate E tok email now)"
  unfolding lock_and_validate_def by (intro acct.keeps_rules stmt_keeps)

lemma keeps_persist_account [stmt_keeps]: "acct.keeps (persist_account E me email pw label sid stok ctok now)"
proof -
  let ?u = "\<lparr>us_id = me, us_email = email, us_password = pw, us_role = RUser,
      us_status = APending, us_mfa = None, us_deleted = None, us_deadline = None, us_created = now\<rparr>"
  have "acct.keeps (insert_user ?u)" by (rule keeps_insert_user) (simp add: user_checks_def)
  then have "acct.keeps (\<lambda>d. case insert_user ?u d of
      (Inl _, d') \<Rightarrow> (Inl (app_error INVITATION_INVALID 409), d') | (Inr x, d') \<Rightarrow> (Inr x, d'))"
    unfolding acct.keeps_def by (auto split: prod.splits sum.splits) (metis snd_conv)+
  then show ?thesis unfolding persist_account_def by (intro acct.keeps_bind stmt_keeps)
qed

lemma keeps_accept: "acct.keeps (accept_invitation E tok email key h ip label g now)"
  unfolding accept_invitation_def Let_def by (intro acct.keeps_rules stmt_keeps keeps_once_any)

lemma keeps_create_invitation: "acct.keeps (create_invitation E admin email days reason iid tok oid now)"
  unfolding create_invitation_def by (intro acct.keeps_rules stmt_keeps)

lemma keeps_reset_request: "acct.keeps (request_password_reset E email ip tid tok oid now)"
  unfolding request_password_reset_def Let_def by (intro acct.keeps_rules stmt_keeps)

lemma keeps_reset_confirm: "acct.keeps (confirm_password_reset E tok nh key h now)"
  unfolding confirm_password_reset_def Let_def
  by (intro acct.keeps_rules stmt_keeps keeps_once_any keeps_upd_users) (auto simp: moves_defs user_checks_def)

lemma keeps_change_password: "acct.keeps (change_password E me sid ch mfa cur nh code now)"
  unfolding change_password_def
  by (intro acct.keeps_rules stmt_keeps keeps_upd_users) (auto simp: moves_defs user_checks_def)

lemma keeps_start_session [stmt_keeps]: "acct.keeps (start_session E u label mfa sid stok ctok now)"
  unfolding start_session_def by (intro acct.keeps_rules stmt_keeps)

lemma keeps_login: "acct.keeps (login E email pw ip label cid sid stok ctok now)"
  unfolding login_def Let_def by (intro acct.keeps_rules stmt_keeps)

lemma keeps_login_mfa: "acct.keeps (login_mfa E cid code label sid stok ctok now)"
  unfolding login_mfa_def Let_def by (intro acct.keeps_rules stmt_keeps)

lemma keeps_verify_mfa: "acct.keeps (verify_mfa E me sid code now)"
  unfolding verify_mfa_def by (intro acct.keeps_rules stmt_keeps)

lemma keeps_setup_mfa: "acct.keeps (setup_mfa me sec now)"
  unfolding setup_mfa_def by (intro acct.keeps_rules stmt_keeps)

lemma keeps_activate_mfa: "acct.keeps (activate_mfa E me sid code enc now)"
  unfolding activate_mfa_def
  by (intro acct.keeps_rules stmt_keeps keeps_upd_users) (auto simp: moves_defs user_checks_def)

lemma keeps_disable_mfa: "acct.keeps (disable_mfa me role)"
  unfolding disable_mfa_def
  by (intro acct.keeps_rules stmt_keeps keeps_upd_users) (auto simp: moves_defs user_checks_def)

lemma keeps_request_deletion: "acct.keeps (request_deletion E me st ph mfa email pw code key h tid tok oid now)"
  unfolding request_deletion_def Let_def
  by (intro acct.keeps_rules stmt_keeps keeps_once_any keeps_upd_users) (auto simp: moves_defs user_checks_def)

lemma keeps_cancel_deletion: "acct.keeps (cancel_deletion E tok pw ip label key h sid stok ctok now)"
  unfolding cancel_deletion_def Let_def
  by (intro acct.keeps_rules stmt_keeps keeps_once_any keeps_upd_users) (auto simp: moves_defs user_checks_def)

lemma keeps_update_quotas: "acct.keeps (update_quotas admin rid qs reason)"
  unfolding update_quotas_def by (intro acct.keeps_rules stmt_keeps)

lemma keeps_grant: "acct.keeps (grant_entitlement admin rid k reason eid now)"
  unfolding grant_entitlement_def by (intro acct.keeps_rules stmt_keeps)

lemma keeps_revoke_ent: "acct.keeps (revoke_entitlement admin rid k reason)"
  unfolding revoke_entitlement_def by (intro acct.keeps_rules stmt_keeps)

lemma keeps_suspend_atomic [stmt_keeps]: "acct.keeps (suspend_user_atomic rid revoke)"
  unfolding suspend_user_atomic_def
  by (intro acct.keeps_rules stmt_keeps keeps_upd_users) (auto simp: moves_defs user_checks_def)

lemma keeps_suspend: "acct.keeps (suspend_user admin rid reason)"
  unfolding suspend_user_def by (intro acct.keeps_rules stmt_keeps)

lemma keeps_unsuspend: "acct.keeps (unsuspend_user admin rid reason)"
  unfolding unsuspend_user_def
  by (intro acct.keeps_rules stmt_keeps keeps_upd_users) (auto simp: moves_defs user_checks_def)

lemma keeps_suspend_tasks [stmt_keeps]: "acct.keeps (suspend_tasks cs)"
proof (induction cs)
  case (Cons c cs)
  obtain tid me where "c = (tid, me)" by fastforce
  then show ?case using Cons.IH by (simp, intro acct.keeps_rules stmt_keeps)
qed (simp add: acct.keeps_ret)

lemma keeps_cascade: "acct.keeps (run_suspension_cascade rid now)"
  unfolding run_suspension_cascade_def by (intro acct.keeps_rules stmt_keeps)

lemma upd_one:
  assumes "distinct (map g xs)" and "x \<in> set xs"
  shows "upd (\<lambda>y. g y = g x) f xs = upd (\<lambda>y. y = x) f xs"
  using assms by (auto simp: upd_def distinct_map inj_on_def)

lemma distinct_upd_one:
  assumes "distinct (map g xs)" and "\<And>y. y \<in> set xs \<Longrightarrow> y \<noteq> x \<Longrightarrow> g y \<noteq> g (f x)"
  shows "distinct (map g (upd (\<lambda>y. y = x) f xs))"
  using assms by (auto simp: upd_def distinct_map inj_on_def) blast

lemma revoke_invite_rel:
  assumes "i \<in> set (invites d)" and "open_invite i"
  shows "acct_rel d (d\<lparr>invites := upd (\<lambda>j. in_id j = in_id i) (\<lambda>j. j\<lparr>in_revoked := Some now\<rparr>) (invites d)\<rparr>)"
proof (cases "tables_ok d")
  case True
  then have "distinct (map in_id (invites d))" by (simp add: tables_ok_def invites_ok_def)
  from upd_one [OF this assms(1)] show ?thesis
    using assms(2) by (auto simp: invite_moves_def open_invite_def intro!: acct_rel_close_invites)
qed (simp add: acct_rel_def)

lemma keeps_revoke_invitation: "acct.keeps (revoke_invitation admin rid reason now)"
proof (rule acct.keepsI)
  fix d
  have "acct_rel d (d\<lparr>invites := upd (\<lambda>j. in_id j = in_id i) (\<lambda>j. j\<lparr>in_revoked := Some now\<rparr>) (invites d), audits := audits d @ [a]\<rparr>)"
    if "i \<in> set (invites d)" "open_invite i" for i a
    by (rule acct_rel_trans [OF revoke_invite_rel [OF that]]) (rule acct_rel_frame, simp_all)
  then show "acct_rel d (snd (revoke_invitation admin rid reason now d))"
    by (cases rid)
      (auto simp: revoke_invitation_def atomically_def bindF_def asks_def throw_def change_def ret_def add_audit_def
        acct_rel_refl open_invite_def dest: find_Some_D split: option.splits)
qed

lemma anonymise_rel:
  assumes free: "\<not> list_ex (\<lambda>u. us_id u \<noteq> me \<and> us_email u = addr) (users d)"
  shows "acct_rel d (upd_users (\<lambda>u. us_id u = me \<and> us_status u = ADeleting)
     (\<lambda>u. u\<lparr>us_status := ADeleted, us_deleted := Some now, us_deadline := None, us_password := pw, us_mfa := None,
            us_email := addr\<rparr>) d)"
    (is "acct_rel d (upd_users ?P ?f d)")
proof (cases "tables_ok d")
  case True
  then have ok: "users_ok (users d)" and ids: "distinct (map us_id (users d))"
    by (simp_all add: tables_ok_def users_ok_def)
  have g: "grows user_moves (users d) (upd ?P ?f (users d))"
    by (rule grows_upd) (auto simp: moves_defs)
  have "users_ok (upd ?P ?f (users d))"
  proof (cases "\<exists>u \<in> set (users d). ?P u")
    case True
    then obtain u where u: "u \<in> set (users d)" "?P u" by blast
    have one: "upd ?P ?f (users d) = upd (\<lambda>y. y = u) ?f (users d)"
      using ids u by (auto simp: upd_def distinct_map inj_on_def)
    have "distinct (map us_email (upd (\<lambda>y. y = u) ?f (users d)))"
    proof (rule distinct_upd_one)
      fix y assume "y \<in> set (users d)" "y \<noteq> u"
      then have "us_id y \<noteq> me" using ids u by (auto simp: distinct_map inj_on_def)
      then show "us_email y \<noteq> us_email (?f u)" using free \<open>y \<in> set (users d)\<close> by (auto simp: list_ex_iff)
    qed (use ok in \<open>simp add: users_ok_def\<close>)
    then show ?thesis using ok unfolding one [symmetric]
      by (auto simp: users_ok_def map_upd user_checks_def)
  next
    case False
    then have "upd ?P ?f (users d) = users d" by (intro upd_False) blast
    then show ?thesis using ok by simp
  qed
  then show ?thesis using g True by (simp add: acct_rel_def tables_ok_def upd_users_def grows_refl moves_refl)
qed (simp add: acct_rel_def)

lemma keeps_sweep_user [stmt_keeps]: "acct.keeps (sweep_user E rh now me)"
proof (rule acct.keepsI)
  fix d :: idb
  let ?n = "rowcount (\<lambda>u. us_id u = me \<and> us_status u = ADeleting) (users d)"
  let ?d1 = "upd_users (\<lambda>u. us_id u = me \<and> us_status u = ADeleting)
     (\<lambda>u. u\<lparr>us_status := ADeleted, us_deleted := Some now, us_deadline := None, us_password := rh me, us_mfa := None,
            us_email := anonymous_email E me\<rparr>) d"
  let ?taken = "list_ex (\<lambda>u. us_id u \<noteq> me \<and> us_email u = anonymous_email E me) (users d)"
  have 1: "acct_rel d ?d1" if "?n = 0 \<or> \<not> ?taken"
  proof (cases "?taken")
    case True
    then have "?n = 0" using that by blast
    then have "upd (\<lambda>u. us_id u = me \<and> us_status u = ADeleting) f (users d) = users d" for f
      by (intro upd_False) (auto simp: rowcount_0_iff)
    then show ?thesis by (simp add: upd_users_def acct_rel_refl)
  qed (rule anonymise_rel)
  have tail: "acct_rel ?d1 (revoke_all me now (on_work f ?d1))" for f
    using acct.keepsD [OF keeps_on_work] acct.keepsD [OF keeps_revoke_all] acct_rel_trans
    unfolding change_def by blast
  show "acct_rel d (snd (sweep_user E rh now me d))"
    using 1 acct_rel_trans [OF 1 tail]
    by (auto simp: sweep_user_def atomically_def bindF_def asks_def require_def throw_def change_def ret_def acct_rel_refl)
qed

lemma keeps_sweep_users [stmt_keeps]: "acct.keeps (sweep_users E rh now us)"
  by (induction us) (auto intro!: acct.keeps_rules stmt_keeps)

lemma keeps_sweep: "acct.keeps (sweep_expired E rh now)"
  unfolding sweep_expired_def by (intro acct.keeps_rules stmt_keeps)

section \<open>The system\<close>

text \<open>
  Besides the requests: the mail dispatcher and the task services write their own tables, and a
  restart of the process loses the two in-memory stores.
\<close>

inductive acct_step :: "env \<Rightarrow> idb \<Rightarrow> idb \<Rightarrow> bool" for E :: env where
  authenticate: "acct_step E d (snd (authenticate E w cookie csrf now d))"
| confirm_email: "acct_step E d (snd (confirm_email_verification E tok key h now d))"
| resend_email: "acct_step E d (snd (resend_email_verification E me r st tid tok oid now d))"
| accept: "acct_step E d (snd (accept_invitation E tok email key h ip label g now d))"
| create_invitation: "acct_step E d (snd (create_invitation E admin email days reason iid tok oid now d))"
| revoke_invitation: "acct_step E d (snd (revoke_invitation admin rid reason now d))"
| reset_request: "acct_step E d (snd (request_password_reset E email ip tid tok oid now d))"
| reset_confirm: "acct_step E d (snd (confirm_password_reset E tok nh key h now d))"
| change_password: "acct_step E d (snd (change_password E me sid ch mfa cur nh code now d))"
| login: "acct_step E d (snd (login E email pw ip label cid sid stok ctok now d))"
| login_mfa: "acct_step E d (snd (login_mfa E cid code label sid stok ctok now d))"
| verify_mfa: "acct_step E d (snd (verify_mfa E me sid code now d))"
| setup_mfa: "acct_step E d (snd (setup_mfa me sec now d))"
| activate_mfa: "acct_step E d (snd (activate_mfa E me sid code enc now d))"
| disable_mfa: "acct_step E d (snd (disable_mfa me role d))"
| revoke_session: "acct_step E d (snd (revoke_session me sid now d))"
| request_deletion: "acct_step E d (snd (request_deletion E me st ph mfa email pw code key h tid tok oid now d))"
| cancel_deletion: "acct_step E d (snd (cancel_deletion E tok pw ip label key h sid stok ctok now d))"
| sweep: "acct_step E d (snd (sweep_expired E rh now d))"
| update_quotas: "acct_step E d (snd (update_quotas admin rid qs reason d))"
| grant: "acct_step E d (snd (grant_entitlement admin rid k reason eid now d))"
| revoke_ent: "acct_step E d (snd (revoke_entitlement admin rid k reason d))"
| suspend: "acct_step E d (snd (suspend_user admin rid reason d))"
| cascade: "acct_step E d (snd (run_suspension_cascade rid now d))"
| unsuspend: "acct_step E d (snd (unsuspend_user admin rid reason d))"
| mail: "acct_step E d (d\<lparr>outbox := ms\<rparr>)"
| work: "acct_step E d (d\<lparr>work_db := w\<rparr>)"
| restart: "acct_step E d (d\<lparr>challenges := [], pendings := []\<rparr>)"

lemmas service_keeps = keeps_authenticate keeps_confirm_email keeps_resend keeps_accept keeps_create_invitation
  keeps_revoke_invitation keeps_reset_request keeps_reset_confirm keeps_change_password keeps_login keeps_login_mfa
  keeps_verify_mfa keeps_setup_mfa keeps_activate_mfa keeps_disable_mfa keeps_revoke_session keeps_request_deletion
  keeps_cancel_deletion keeps_sweep keeps_update_quotas keeps_grant keeps_revoke_ent keeps_suspend keeps_cascade
  keeps_unsuspend

lemma keeps_snd: "acct.keeps m \<Longrightarrow> acct_rel d (snd (m d))"
  by (simp add: acct.keeps_def)

lemma restart_rel: "acct_rel d (d\<lparr>challenges := [], pendings := []\<rparr>)"
  by (simp add: acct_rel_def tables_ok_def challenges_ok_def grows_refl moves_refl)

lemma step_rel: "acct_step E d d' \<Longrightarrow> acct_rel d d'"
  by (erule acct_step.cases; hypsubst)
    (rule keeps_snd, rule service_keeps | rule restart_rel | (rule acct_rel_frame, simp_all))+

lemma steps_rel: "(acct_step E)\<^sup>*\<^sup>* d d' \<Longrightarrow> acct_rel d d'"
  by (induction rule: rtranclp_induct) (auto intro: acct_rel_refl acct_rel_trans step_rel)

text \<open>A fresh installation has its administrators and nothing else.\<close>

definition acct_start :: "idb \<Rightarrow> bool" where
  "acct_start d \<longleftrightarrow> users_ok (users d) \<and> (\<forall>u \<in> set (users d). us_role u = RAdmin \<and> us_status u = AActive)
     \<and> tokens d = [] \<and> sessions d = [] \<and> invites d = [] \<and> ents d = [] \<and> challenges d = []"

interpretation accounts: transition_system acct_start "acct_step E" tables_ok for E
proof
  show "tables_ok d" if "acct_start d" for d
    using that by (simp add: acct_start_def tables_ok_def tokens_ok_def sessions_ok_def invites_ok_def ents_ok_def challenges_ok_def)
  show "tables_ok d'" if "tables_ok d" "acct_step E d d'" for d d'
    using step_rel [OF that(2)] that(1) by (simp add: acct_rel_def)
qed

lemma run_rel:
  assumes "acct_start d0" and "(acct_step E)\<^sup>*\<^sup>* d0 d" and "(acct_step E)\<^sup>*\<^sup>* d d'"
  shows "tables_ok d" and "tables_ok d'" and "grows user_moves (users d) (users d')"
    and "grows token_moves (tokens d) (tokens d')" and "grows session_moves (sessions d) (sessions d')"
    and "grows invite_moves (invites d) (invites d')" and "prefix (audits d) (audits d')"
proof -
  have ok: "tables_ok d" by (rule accounts.good_reachable [OF assms(1,2)])
  with steps_rel [OF assms(3)] show "tables_ok d" "tables_ok d'" "grows user_moves (users d) (users d')"
    "grows token_moves (tokens d) (tokens d')" "grows session_moves (sessions d) (sessions d')"
    "grows invite_moves (invites d) (invites d')" "prefix (audits d) (audits d')"
    by (simp_all add: acct_rel_def)
qed

end
