(* ===== verification/Identity_Outcomes.thy ===== *)
theory Identity_Outcomes
  imports Identity_System Task_Examples "HOL-Library.Code_Target_Numeral"
begin

text \<open>
  What successful account requests do: reading a successful flow backwards gives the guards it
  passed and the rows it wrote. From these and the contract of the system follow the properties of
  links, passwords, invitations and deletion.
\<close>

section \<open>Reading a flow backwards\<close>

named_theorems flow_simps

lemma bindF_Inr [flow_simps]: "bindF m f d = (Inr y, d') \<longleftrightarrow> (\<exists>x d1. m d = (Inr x, d1) \<and> f x d1 = (Inr y, d'))"
  by (auto simp: bindF_def split: prod.splits sum.splits)

lemma flow_Inr [flow_simps]:
  "atomically m d = (Inr x, d') \<longleftrightarrow> m d = (Inr x, d')"
  "require b e d = (Inr u, d') \<longleftrightarrow> b \<and> d' = d"
  "ret x d = (Inr y, d') \<longleftrightarrow> y = x \<and> d' = d"
  "throw e d \<noteq> (Inr y, d')"
  "asks f d = (Inr z, d') \<longleftrightarrow> z = f d \<and> d' = d"
  "change g d = (Inr u, d') \<longleftrightarrow> d' = g d"
  by (auto simp: atomically_def require_def ret_def throw_def asks_def change_def split: prod.splits sum.splits)

lemma case_Inr [flow_simps]:
  "(case v of None \<Rightarrow> m | Some a \<Rightarrow> f a) d = (Inr y, d') \<longleftrightarrow>
     (v = None \<and> m d = (Inr y, d')) \<or> (\<exists>a. v = Some a \<and> f a d = (Inr y, d'))"
  "(case w of Inl e \<Rightarrow> n e | Inr b \<Rightarrow> g b) d = (Inr y, d') \<longleftrightarrow>
     (\<exists>e. w = Inl e \<and> n e d = (Inr y, d')) \<or> (\<exists>b. w = Inr b \<and> g b d = (Inr y, d'))"
  "(if c then m else m') d = (Inr y, d') \<longleftrightarrow> (c \<and> m d = (Inr y, d')) \<or> (\<not> c \<and> m' d = (Inr y, d'))"
  "(case q of (i, j) \<Rightarrow> k i j) d = (Inr y, d') \<longleftrightarrow> (\<exists>i j. q = (i, j) \<and> k i j d = (Inr y, d'))"
  by (auto split: option.splits sum.splits prod.splits)

lemma once_Fresh:
  "once s r k h now m d = (Inr (Fresh x), d') \<longleftrightarrow> (\<exists>d1. idem_begin s r k h now d = (Inr None, d1) \<and> m d1 = (Inr x, d'))"
  by (auto simp: once_def flow_simps)

lemma idem_begin_tables:
  "idem_begin s r k h now d = (x, d1) \<Longrightarrow> users d1 = users d \<and> tokens d1 = tokens d \<and> sessions d1 = sessions d
     \<and> invites d1 = invites d \<and> ents d1 = ents d \<and> work_db d1 = work_db d \<and> (\<forall>u. find_user u d1 = find_user u d)"
  by (auto simp: find_user_def idem_begin_def split: prod.splits)

lemma idem_store_tables:
  "idem_store s r k h st b now d = (x, d1) \<Longrightarrow> users d1 = users d \<and> tokens d1 = tokens d \<and> sessions d1 = sessions d
     \<and> invites d1 = invites d \<and> ents d1 = ents d \<and> work_db d1 = work_db d \<and> (\<forall>u. find_user u d1 = find_user u d)"
  by (auto simp: find_user_def idem_store_def split: sum.splits)

lemma limit_to_tables:
  "limit_to s subs now d = (x, d1) \<Longrightarrow> users d1 = users d \<and> tokens d1 = tokens d \<and> sessions d1 = sessions d
     \<and> invites d1 = invites d \<and> ents d1 = ents d \<and> work_db d1 = work_db d \<and> (\<forall>u. find_user u d1 = find_user u d)"
  by (auto simp: find_user_def limit_to_def split: sum.splits rl_error.splits)

lemma live_token_Inr [flow_simps]:
  "live_token p h me now err d = (Inr t, d') \<longleftrightarrow>
     find (\<lambda>t. tk_hash t = h \<and> tk_purpose t = p \<and> tk_user t = me) (tokens d) = Some t
     \<and> tk_consumed t = None \<and> now < tk_expires t \<and> d' = d"
  by (auto simp: live_token_def flow_simps split: option.splits)

lemma consume_token_Inr [flow_simps]:
  "consume_token me tid now err d = (Inr u, d') \<longleftrightarrow>
     rowcount (\<lambda>t. tk_user t = me \<and> tk_id t = tid \<and> tk_consumed t = None) (tokens d) = 1
     \<and> d' = upd_tokens (\<lambda>t. tk_user t = me \<and> tk_id t = tid \<and> tk_consumed t = None) (\<lambda>t. t\<lparr>tk_consumed := Some now\<rparr>) d"
  by (auto simp: consume_token_def Let_def)

section \<open>Links are single use\<close>

definition unspent :: "string \<Rightarrow> idb \<Rightarrow> bool" where
  "unspent h d \<longleftrightarrow> (\<exists>t \<in> set (tokens d). tk_hash t = h \<and> tk_consumed t = None)"

definition spent :: "string \<Rightarrow> idb \<Rightarrow> bool" where
  "spent h d \<longleftrightarrow> (\<exists>t \<in> set (tokens d). tk_hash t = h \<and> tk_consumed t \<noteq> None)"

lemma spent_upd:
  assumes "t \<in> set ts" and "tk_hash t = h" and "tk_user t = me" and "tk_consumed t = None"
  shows "\<exists>x \<in> set (upd (\<lambda>s. tk_user s = me \<and> tk_id s = tk_id t \<and> tk_consumed s = None) (\<lambda>s. s\<lparr>tk_consumed := Some now\<rparr>) ts).
     tk_hash x = h \<and> tk_consumed x \<noteq> None"
  by (rule bexI [of _ "t\<lparr>tk_consumed := Some now\<rparr>"]) (use assms in \<open>auto simp: upd_def\<close>)

lemma not_both:
  assumes "tables_ok d" and "spent h d"
  shows "\<not> unspent h d"
  using assms by (auto simp: tables_ok_def tokens_ok_def spent_def unspent_def distinct_map inj_on_def)

lemma spent_grows: "grows token_moves (tokens d) (tokens d') \<Longrightarrow> spent h d \<Longrightarrow> spent h d'"
  unfolding spent_def by (metis grows_mem token_moves_def)

text \<open>The rows behind a consumed token, for the three services that consume one.\<close>

definition consumes :: "purpose \<Rightarrow> string \<Rightarrow> time \<Rightarrow> token_row \<Rightarrow> idb \<Rightarrow> idb \<Rightarrow> bool" where
  "consumes p h now t d d' \<longleftrightarrow> t \<in> set (tokens d) \<and> tk_hash t = h \<and> tk_purpose t = p \<and> tk_consumed t = None \<and> now < tk_expires t
     \<and> tokens d' = upd (\<lambda>s. tk_user s = tk_user t \<and> tk_id s = tk_id t \<and> tk_consumed s = None)
         (\<lambda>s. s\<lparr>tk_consumed := Some now\<rparr>) (tokens d)"

lemma consumes_spends: "consumes p h now t d d' \<Longrightarrow> unspent h d \<and> spent h d'"
  using spent_upd [of t "tokens d" h "tk_user t" now] unfolding consumes_def unspent_def spent_def by fastforce

lemmas table_dests = idem_begin_tables idem_store_tables limit_to_tables find_Some_D

lemma confirm_email_outcome:
  assumes "confirm_email_verification E tok key h now d = (Inr (Fresh b), d')"
  shows "\<exists>t. consumes EmailVerify (hash_token E tok) now t d d'
     \<and> users d' = upd (\<lambda>u. us_id u = tk_user t \<and> us_status u = APending) (\<lambda>u. u\<lparr>us_status := AActive\<rparr>) (users d)"
  unfolding consumes_def
  using assms
  by (auto simp: confirm_email_verification_def Let_def once_Fresh flow_simps upd_users_def upd_tokens_def token_owner_def
      dest!: table_dests)

lemma reset_outcome:
  assumes "confirm_password_reset E tok nh key h now d = (Inr (Fresh b), d')"
  shows "\<exists>t. consumes PasswordReset (hash_token E tok) now t d d'
     \<and> rowcount (\<lambda>u. us_id u = tk_user t \<and> us_status u \<in> resettable) (users d) = 1
     \<and> users d' = upd (\<lambda>u. us_id u = tk_user t \<and> us_status u \<in> resettable) (\<lambda>u. u\<lparr>us_password := nh\<rparr>) (users d)
     \<and> sessions d' = upd (\<lambda>s. se_user s = tk_user t \<and> se_revoked s = None) (\<lambda>s. s\<lparr>se_revoked := Some now\<rparr>) (sessions d)"
  unfolding consumes_def
  using assms
  by (auto simp: confirm_password_reset_def Let_def once_Fresh flow_simps upd_users_def upd_tokens_def upd_sessions_def
      revoke_all_def token_owner_def dest!: table_dests)

lemma cancel_outcome:
  assumes "cancel_deletion E tok pw ip label key h sid stok ctok now d = (Inr (Fresh b), d')"
  shows "\<exists>t u. consumes DeletionCancel (hash_token E tok) now t d d'
     \<and> find_user (tk_user t) d = Some u \<and> us_status u = ADeleting \<and> verify_password E pw (us_password u)
     \<and> users d' = upd (\<lambda>v. us_id v = tk_user t \<and> us_status v = ADeleting) (\<lambda>v. v\<lparr>us_status := AActive, us_deadline := None\<rparr>) (users d)
     \<and> sessions d' = sessions d @ [\<lparr>se_id = sid, se_hash = hash_token E stok, se_user = tk_user t, se_csrf = hash_token E ctok,
         se_expires = now + session_ttl, se_revoked = None, se_mfa = None, se_label = label, se_created = now\<rparr>]"
  unfolding consumes_def
  using assms
  by (auto simp: cancel_deletion_def Let_def once_Fresh flow_simps upd_users_def upd_tokens_def create_session_def
      insert_session_def token_owner_def dest!: table_dests split: if_splits)

lemma accept_outcome:
  assumes "accept_invitation E tok email key h ip label g now d = (Inr (Fresh b), d')"
  shows "\<exists>i addr. i \<in> set (invites d) \<and> in_hash i = hash_token E tok \<and> open_invite i \<and> now < in_expires i
     \<and> normalize_email E email = Some addr \<and> in_email i = addr
     \<and> (\<forall>u \<in> set (users d). us_email u \<noteq> addr)
     \<and> users d' = users d @ [\<lparr>us_id = f_user g, us_email = addr, us_password = f_hash g, us_role = RUser,
           us_status = APending, us_mfa = None, us_deleted = None, us_deadline = None, us_created = now\<rparr>]
     \<and> invites d' = upd (\<lambda>j. in_id j = in_id i \<and> open_invite j) (\<lambda>j. j\<lparr>in_consumed := Some now\<rparr>) (invites d)
     \<and> (\<exists>s. sessions d' = sessions d @ [s] \<and> se_user s = f_user g \<and> se_hash s = hash_token E (f_stok g) \<and> se_revoked s = None)
     \<and> (\<exists>t. tokens d' = tokens d @ [t] \<and> tk_user t = f_user g \<and> tk_purpose t = EmailVerify \<and> tk_hash t = hash_token E (f_vtok g))"
  using assms
  by (auto simp: accept_invitation_def Let_def once_Fresh flow_simps lock_and_validate_def persist_account_def
      insert_user_def create_session_def insert_session_def consume_invite_def issue_token_def insert_token_def
      enqueue_mail_def list_ex_iff open_invite_def
      dest!: table_dests split: if_splits option.splits)

lemma request_outcome:
  assumes "request_deletion E me st ph mfa email pw code key h tid tok oid now d = (Inr (Fresh b), d')"
  shows "st = AActive \<and> verify_password E pw ph
     \<and> rowcount (\<lambda>u. us_id u = me \<and> us_status u = AActive) (users d) \<noteq> 0
     \<and> users d' = upd (\<lambda>u. us_id u = me \<and> us_status u = AActive)
         (\<lambda>u. u\<lparr>us_status := ADeleting, us_deadline := Some (now + grace_days * 86400)\<rparr>) (users d)
     \<and> sessions d' = upd (\<lambda>s. se_user s = me \<and> se_revoked s = None) (\<lambda>s. s\<lparr>se_revoked := Some now\<rparr>) (sessions d)
     \<and> tokens d' = tokens d @ [\<lparr>tk_id = tid, tk_user = me, tk_purpose = DeletionCancel, tk_hash = hash_token E tok,
         tk_expires = now + token_ttl DeletionCancel, tk_consumed = None\<rparr>]
     \<and> work_db d' = terminate_tasks_hook me (work_db d)"
proof -
  have totp: "users d2 = users d1 \<and> tokens d2 = tokens d1 \<and> sessions d2 = sessions d1 \<and> work_db d2 = work_db d1"
    if "verify_change_totp E me en code now d1 = (Inr u, d2)" for en u d1 d2
    using that by (auto simp: verify_change_totp_def Let_def change_totp_failure_def flow_simps split: if_splits)
  show ?thesis
    using assms
    by (cases st; cases mfa)
      (auto simp: request_deletion_def Let_def once_Fresh flow_simps upd_users_def upd_sessions_def revoke_all_def
        on_work_def issue_token_def insert_token_def enqueue_mail_def
        dest!: table_dests totp split: if_splits option.splits)
qed

section \<open>Properties\<close>

text \<open>C37: No run of the account services undoes what must stay: no user row disappears or changes its role, a
  deleted account stays deleted and an activated one never returns to pending, an address changes only
  by the final anonymisation, consumed tokens, closed invitations and revoked sessions stay exactly as
  they are, and the audit log only grows.\<close>

theorem account_lifecycle:
  assumes "acct_start d0" and "(acct_step E)\<^sup>*\<^sup>* d0 d" and "(acct_step E)\<^sup>*\<^sup>* d d'"
  shows "(\<forall>u \<in> set (users d). \<exists>v \<in> set (users d'). us_id v = us_id u \<and> us_role v = us_role u
        \<and> (us_status v = us_status u \<or> (us_status u \<noteq> ADeleted \<and> us_status v \<noteq> APending))
        \<and> (us_email v = us_email u \<or> (us_status u \<noteq> ADeleted \<and> us_status v = ADeleted)))
     \<and> (\<forall>t \<in> set (tokens d). tk_consumed t \<noteq> None \<longrightarrow> t \<in> set (tokens d'))
     \<and> (\<forall>s \<in> set (sessions d). se_revoked s \<noteq> None \<longrightarrow> s \<in> set (sessions d'))
     \<and> (\<forall>i \<in> set (invites d). \<not> open_invite i \<longrightarrow> i \<in> set (invites d'))
     \<and> prefix (audits d) (audits d')"
proof (intro conjI ballI impI)
  note run = run_rel [OF assms]
  fix u assume "u \<in> set (users d)"
  from grows_mem [OF run(3) this] show "\<exists>v \<in> set (users d'). us_id v = us_id u \<and> us_role v = us_role u
        \<and> (us_status v = us_status u \<or> (us_status u \<noteq> ADeleted \<and> us_status v \<noteq> APending))
        \<and> (us_email v = us_email u \<or> (us_status u \<noteq> ADeleted \<and> us_status v = ADeleted))"
    unfolding user_moves_def may_become_def by metis
next
  note run = run_rel [OF assms]
  fix t assume "t \<in> set (tokens d)" "tk_consumed t \<noteq> None"
  from grows_mem [OF run(4) this(1)] this(2) show "t \<in> set (tokens d')"
    unfolding token_moves_def by (metis token_row.equality unit.exhaust)
next
  note run = run_rel [OF assms]
  fix s assume "s \<in> set (sessions d)" "se_revoked s \<noteq> None"
  from grows_mem [OF run(5) this(1)] this(2) show "s \<in> set (sessions d')" unfolding session_moves_def by metis
next
  note run = run_rel [OF assms]
  fix i assume "i \<in> set (invites d)" "\<not> open_invite i"
  from grows_mem [OF run(6) this(1)] this(2) show "i \<in> set (invites d')" unfolding invite_moves_def by metis
next
  show "prefix (audits d) (audits d')" by (rule run_rel(7) [OF assms])
qed

definition ex_admin :: user_row where
  "ex_admin = \<lparr>us_id = 1, us_email = pystr_of ''a@b'', us_password = ''pw'', us_role = RAdmin, us_status = AActive,
     us_mfa = None, us_deleted = None, us_deadline = None, us_created = 0\<rparr>"

definition ex_accounts :: idb where
  "ex_accounts = \<lparr>users = [ex_admin], ents = [], invites = [], tokens = [], sessions = [], audits = [],
     outbox = [], idem = [], limiter = [], challenges = [], pendings = [], work_db = ex0\<rparr>"

definition ex_asked :: idb where
  "ex_asked = snd (request_password_reset ex_env (pystr_of ''a@b'') [1] 7 (pystr_of ''t'') 8 100 ex_accounts)"

definition ex_reset :: idb where
  "ex_reset = snd (confirm_password_reset ex_env (pystr_of ''t'') ''new'' [107] ''h'' 200 ex_asked)"

lemma ex_reset_Fresh:
  "confirm_password_reset ex_env (pystr_of ''t'') ''new'' [107] ''h'' 200 ex_asked
     = (Inr (Fresh (JObj [field ''data'' (JObj [field ''ok'' (JBool True)])])), ex_reset)"
proof -
  have "fst (confirm_password_reset ex_env (pystr_of ''t'') ''new'' [107] ''h'' 200 ex_asked)
    = Inr (Fresh (JObj [field ''data'' (JObj [field ''ok'' (JBool True)])]))" by code_simp
  then show ?thesis unfolding ex_reset_def by (simp add: prod_eq_iff)
qed

lemma ex_start_accounts: "acct_start ex_accounts"
  by (simp add: acct_start_def ex_accounts_def ex_admin_def users_ok_def user_checks_def)

lemma ex_account_runs:
  "(acct_step ex_env)\<^sup>*\<^sup>* ex_accounts ex_asked" "(acct_step ex_env)\<^sup>*\<^sup>* ex_asked ex_reset"
  unfolding ex_asked_def ex_reset_def
  by (rule r_into_rtranclp, rule acct_step.reset_request) (rule r_into_rtranclp, rule acct_step.reset_confirm)

theorem account_lifecycle_witness:
  "\<exists>v \<in> set (users ex_reset). us_id v = us_id ex_admin \<and> us_role v = RAdmin \<and> us_status v \<noteq> APending"
proof -
  have "users ex_asked = [ex_admin]" by code_simp
  then have "ex_admin \<in> set (users ex_asked)" by simp
  with account_lifecycle [OF ex_start_accounts ex_account_runs] obtain v where "v \<in> set (users ex_reset)"
    "us_id v = us_id ex_admin" "us_role v = us_role ex_admin"
    "us_status v = us_status ex_admin \<or> us_status v \<noteq> APending" by blast
  then show ?thesis by (intro bexI [of _ v]) (auto simp: ex_admin_def)
qed



lemma email_spends:
  "confirm_email_verification E tok key h now d = (Inr (Fresh b), d1) \<Longrightarrow> unspent (hash_token E tok) d \<and> spent (hash_token E tok) d1"
  using confirm_email_outcome consumes_spends by blast

lemma reset_spends:
  "confirm_password_reset E tok nh key h now d = (Inr (Fresh b), d1) \<Longrightarrow> unspent (hash_token E tok) d \<and> spent (hash_token E tok) d1"
  using reset_outcome consumes_spends by blast

lemma cancel_spends:
  "cancel_deletion E tok pw ip label key h sid stok ctok now d = (Inr (Fresh b), d1) \<Longrightarrow>
     unspent (hash_token E tok) d \<and> spent (hash_token E tok) d1"
  using cancel_outcome consumes_spends by blast

text \<open>C39: A mailed link works once: after one of the three link services has accepted a token, no later request with
  that token is accepted by any of them, whatever key, password or code it carries; at most the
  recorded answer is replayed.\<close>

theorem links_single_use:
  assumes "acct_start d0" and "(acct_step E)\<^sup>*\<^sup>* d0 d" and "(acct_step E)\<^sup>*\<^sup>* d1 d2"
    and "(\<exists>b key h. confirm_email_verification E tok key h now d = (Inr (Fresh b), d1))
      \<or> (\<exists>b nh key h. confirm_password_reset E tok nh key h now d = (Inr (Fresh b), d1))
      \<or> (\<exists>b pw ip label key h sid stok ctok. cancel_deletion E tok pw ip label key h sid stok ctok now d = (Inr (Fresh b), d1))"
  shows "fst (confirm_email_verification E tok key' h' now' d2) \<noteq> Inr (Fresh b')
     \<and> fst (confirm_password_reset E tok nh' key' h' now' d2) \<noteq> Inr (Fresh b')
     \<and> fst (cancel_deletion E tok pw' ip' label' key' h' sid' stok' ctok' now' d2) \<noteq> Inr (Fresh c')"
proof -
  have d: "acct_step E d d1 \<and> spent (hash_token E tok) d1"
    using assms(4)
  proof (elim disjE exE)
    fix b key h assume a: "confirm_email_verification E tok key h now d = (Inr (Fresh b), d1)"
    show ?thesis using email_spends [OF a] acct_step.confirm_email [of E d tok key h now] a by simp
  next
    fix b nh key h assume a: "confirm_password_reset E tok nh key h now d = (Inr (Fresh b), d1)"
    show ?thesis using reset_spends [OF a] acct_step.reset_confirm [of E d tok nh key h now] a by simp
  next
    fix b pw ip label key h sid stok ctok
    assume a: "cancel_deletion E tok pw ip label key h sid stok ctok now d = (Inr (Fresh b), d1)"
    show ?thesis
      using cancel_spends [OF a] acct_step.cancel_deletion [of E d tok pw ip label key h sid stok ctok now] a by simp
  qed
  then have d1: "(acct_step E)\<^sup>*\<^sup>* d0 d1" using rtranclp.rtrancl_into_rtrancl [OF assms(2)] by blast
  have "spent (hash_token E tok) d2" using spent_grows [OF run_rel(4) [OF assms(1) d1 assms(3)]] d by blast
  then have no: "\<not> unspent (hash_token E tok) d2" using not_both [OF run_rel(2) [OF assms(1) d1 assms(3)]] by blast
  show ?thesis
  proof (intro conjI notI)
    assume "fst (confirm_email_verification E tok key' h' now' d2) = Inr (Fresh b')"
    then show False using no by (metis prod.collapse email_spends)
  next
    assume "fst (confirm_password_reset E tok nh' key' h' now' d2) = Inr (Fresh b')"
    then show False using no by (metis prod.collapse reset_spends)
  next
    assume "fst (cancel_deletion E tok pw' ip' label' key' h' sid' stok' ctok' now' d2) = Inr (Fresh c')"
    then show False using no by (metis prod.collapse cancel_spends)
  qed
qed

theorem links_single_use_witness:
  "fst (confirm_password_reset ex_env (pystr_of ''t'') ''newer'' [108] ''h'' 300 ex_reset) \<noteq> Inr (Fresh JNull)"
proof -
  have used: "(\<exists>b key h. confirm_email_verification ex_env (pystr_of ''t'') key h 200 ex_asked = (Inr (Fresh b), ex_reset))
      \<or> (\<exists>b nh key h. confirm_password_reset ex_env (pystr_of ''t'') nh key h 200 ex_asked = (Inr (Fresh b), ex_reset))
      \<or> (\<exists>b pw ip label key h sid stok ctok.
           cancel_deletion ex_env (pystr_of ''t'') pw ip label key h sid stok ctok 200 ex_asked = (Inr (Fresh b), ex_reset))"
    using ex_reset_Fresh by blast
  show ?thesis using links_single_use [OF ex_start_accounts ex_account_runs(1) rtranclp.rtrancl_refl used] by blast
qed

lemma revoked_after:
  "\<forall>s \<in> set (upd (\<lambda>s. se_user s = me \<and> se_revoked s = None) (\<lambda>s. s\<lparr>se_revoked := Some now\<rparr>) ss).
     se_user s = me \<longrightarrow> se_revoked s \<noteq> None"
  by (induction ss) auto

text \<open>C40: A password reset locks everybody out: when a reset is accepted, its account gets the new password and no
  other account changes, every session of the account is revoked and no session token of any device
  resolves to it any more, while the sessions of other accounts are untouched.\<close>

theorem reset_ends_sessions:
  assumes "confirm_password_reset E tok nh key h now d = (Inr (Fresh b), d')"
  shows "\<exists>me. (\<exists>u \<in> set (users d). us_id u = me \<and> us_status u \<in> resettable \<and> u\<lparr>us_password := nh\<rparr> \<in> set (users d'))
     \<and> filter (\<lambda>u. us_id u \<noteq> me) (users d') = filter (\<lambda>u. us_id u \<noteq> me) (users d)
     \<and> (\<forall>s \<in> set (sessions d'). se_user s = me \<longrightarrow> se_revoked s \<noteq> None)
     \<and> filter (\<lambda>s. se_user s \<noteq> me) (sessions d') = filter (\<lambda>s. se_user s \<noteq> me) (sessions d)
     \<and> (\<forall>stok t s v. resolve_session E stok t d' = Some (s, v) \<longrightarrow> us_id v \<noteq> me)"
proof -
  obtain t :: token_row where t: "rowcount (\<lambda>u. us_id u = tk_user t \<and> us_status u \<in> resettable) (users d) = 1"
    "users d' = upd (\<lambda>u. us_id u = tk_user t \<and> us_status u \<in> resettable) (\<lambda>u. u\<lparr>us_password := nh\<rparr>) (users d)"
    "sessions d' = upd (\<lambda>s. se_user s = tk_user t \<and> se_revoked s = None) (\<lambda>s. s\<lparr>se_revoked := Some now\<rparr>) (sessions d)"
    using reset_outcome [OF assms] by blast
  obtain u where u: "u \<in> set (users d)" "us_id u = tk_user t" "us_status u \<in> resettable"
    using t(1) by (metis (mono_tags, lifting) rowcount_0_iff zero_neq_one)
  then have 1: "u\<lparr>us_password := nh\<rparr> \<in> set (users d')" unfolding t(2) upd_def by force
  have 2: "\<forall>s \<in> set (sessions d'). se_user s = tk_user t \<longrightarrow> se_revoked s \<noteq> None" unfolding t(3) by (rule revoked_after)
  have 3: "us_id v \<noteq> tk_user t" if "resolve_session E stok time s' = Some (s, v)" "s' = d'" for stok time s v s'
  proof -
    have "us_id v = se_user s" using resolve_Some_D [OF that(1)] unfolding find_user_def by (blast dest: find_Some_D)
    then show ?thesis using resolve_Some_D [OF that(1)] 2 that(2) by auto
  qed
  have "filter (\<lambda>u. us_id u \<noteq> tk_user t) (users d') = filter (\<lambda>u. us_id u \<noteq> tk_user t) (users d)"
    "filter (\<lambda>s. se_user s \<noteq> tk_user t) (sessions d') = filter (\<lambda>s. se_user s \<noteq> tk_user t) (sessions d)"
    unfolding t(2,3) by (rule filter_upd_frame, simp)+
  then show ?thesis using u 1 2 3 by blast
qed

theorem reset_ends_sessions_witness:
  "\<exists>me. \<forall>stok t s v. resolve_session ex_env stok t ex_reset \<noteq> Some (s, v) \<or> us_id v \<noteq> me"
  using reset_ends_sessions [OF ex_reset_Fresh] by blast

text \<open>Deletion can be taken back, and only in time: if a requested deletion is later cancelled with the mailed
  token, no matter what happened in between, the cancellation came within the fourteen days of grace,
  the account is active again with no deadline, and every session of before is still revoked: the
  account is reachable only through the new session.\<close>

theorem deletion_cancel_restores:
  assumes "acct_start d0" and "(acct_step E)\<^sup>*\<^sup>* d0 d" and "(acct_step E)\<^sup>*\<^sup>* d1 d2"
    and "request_deletion E me st ph mfa email pw code key h tid tok oid now d = (Inr (Fresh b), d1)"
    and "cancel_deletion E tok pw' ip label key' h' sid stok ctok now' d2 = (Inr (Fresh c), d3)"
  shows "now' < now + 14 * 86400
     \<and> (\<exists>u \<in> set (users d3). us_id u = me \<and> us_status u = AActive \<and> us_deadline u = None)
     \<and> (\<forall>s \<in> set (sessions d1). se_user s = me \<longrightarrow> s \<in> set (sessions d3) \<and> se_revoked s \<noteq> None)
     \<and> (\<exists>s. sessions d3 = sessions d2 @ [s] \<and> se_user s = me \<and> se_revoked s = None)"
proof -
  note req = request_outcome [OF assms(4)]
  have "acct_step E d d1" using acct_step.request_deletion [of E d me st ph mfa email pw code key h tid tok oid now] assms(4) by simp
  then have d1: "(acct_step E)\<^sup>*\<^sup>* d0 d1" using rtranclp.rtrancl_into_rtrancl [OF assms(2)] by blast
  note run = run_rel [OF assms(1) d1 assms(3)]
  obtain t u where c: "consumes DeletionCancel (hash_token E tok) now' t d2 d3" "find_user (tk_user t) d2 = Some u"
    "us_status u = ADeleting"
    "users d3 = upd (\<lambda>v. us_id v = tk_user t \<and> us_status v = ADeleting) (\<lambda>v. v\<lparr>us_status := AActive, us_deadline := None\<rparr>) (users d2)"
    "sessions d3 = sessions d2 @ [\<lparr>se_id = sid, se_hash = hash_token E stok, se_user = tk_user t, se_csrf = hash_token E ctok,
       se_expires = now' + session_ttl, se_revoked = None, se_mfa = None, se_label = label, se_created = now'\<rparr>]"
    using cancel_outcome [OF assms(5)] by blast
  let ?t = "\<lparr>tk_id = tid, tk_user = me, tk_purpose = DeletionCancel, tk_hash = hash_token E tok,
         tk_expires = now + token_ttl DeletionCancel, tk_consumed = None\<rparr>"
  have "?t \<in> set (tokens d1)" using req by simp
  then obtain t' where t': "t' \<in> set (tokens d2)" "token_moves ?t t'" using grows_mem [OF run(4)] by blast
  have "distinct (map tk_hash (tokens d2))" using run(2) by (simp add: tables_ok_def tokens_ok_def)
  moreover have "t \<in> set (tokens d2)" "tk_hash t = tk_hash t'" using c(1) t'(2) by (simp_all add: consumes_def token_moves_def)
  ultimately have "t' = t" using t'(1) by (metis distinct_key)
  then have t: "tk_user t = me" "tk_expires t = now + token_ttl DeletionCancel" using t' by (auto simp: token_moves_def)
  have "now' < now + 14 * 86400" using c(1) t(2) by (simp add: consumes_def)
  moreover have restored: "u\<lparr>us_status := AActive, us_deadline := None\<rparr> \<in> set (users d3)" "us_id u = me"
    using c(2,3,4) t(1) by (auto simp: find_user_def upd_def image_iff dest!: find_Some_D intro!: bexI [of _ u])
  moreover have "s \<in> set (sessions d3) \<and> se_revoked s \<noteq> None" if s: "s \<in> set (sessions d1)" "se_user s = me" for s
  proof -
    have "sessions d1 = upd (\<lambda>s. se_user s = me \<and> se_revoked s = None) (\<lambda>s. s\<lparr>se_revoked := Some now\<rparr>) (sessions d)"
      using req by blast
    then have "\<forall>s \<in> set (sessions d1). se_user s = me \<longrightarrow> se_revoked s \<noteq> None"
      by (rule ssubst) (rule revoked_after)
    with s have "se_revoked s \<noteq> None" by blast
    moreover obtain s' where "s' \<in> set (sessions d2)" "session_moves s s'" using grows_mem [OF run(5) s(1)] by blast
    ultimately show ?thesis unfolding c(5) session_moves_def by (metis Un_iff set_append)
  qed
  moreover have "\<exists>s. sessions d3 = sessions d2 @ [s] \<and> se_user s = me \<and> se_revoked s = None"
    unfolding c(5) by (rule exI, rule conjI, rule refl) (simp add: t(1))
  moreover have "\<exists>v \<in> set (users d3). us_id v = me \<and> us_status v = AActive \<and> us_deadline v = None"
    by (rule bexI [OF _ restored(1)]) (simp add: restored(2))
  ultimately show ?thesis by blast
qed

definition ex_leaving :: idb where
  "ex_leaving = snd (request_deletion ex_env 1 AActive ''pw'' None (pystr_of ''a@b'') (pystr_of ''pw'') None
     [1] ''h'' 7 (pystr_of ''c'') 8 100 ex_accounts)"

definition ex_back :: idb where
  "ex_back = snd (cancel_deletion ex_env (pystr_of ''c'') (pystr_of ''pw'') [1] [2] [3] ''h2'' 9 (pystr_of ''s'') (pystr_of ''k'') 500 ex_leaving)"

theorem deletion_cancel_restores_witness:
  "\<exists>u \<in> set (users ex_back). us_id u = 1 \<and> us_status u = AActive"
proof -
  have "\<exists>b. fst (request_deletion ex_env 1 AActive ''pw'' None (pystr_of ''a@b'') (pystr_of ''pw'') None
     [1] ''h'' 7 (pystr_of ''c'') 8 100 ex_accounts) = Inr (Fresh b)" by (rule exI) code_simp
  then obtain b where b: "request_deletion ex_env 1 AActive ''pw'' None (pystr_of ''a@b'') (pystr_of ''pw'') None
     [1] ''h'' 7 (pystr_of ''c'') 8 100 ex_accounts = (Inr (Fresh b), ex_leaving)"
    unfolding ex_leaving_def by (metis prod.collapse)
  have "\<exists>c. fst (cancel_deletion ex_env (pystr_of ''c'') (pystr_of ''pw'') [1] [2] [3] ''h2'' 9 (pystr_of ''s'') (pystr_of ''k'') 500 ex_leaving)
     = Inr (Fresh c)" by (rule exI) code_simp
  then obtain c where "cancel_deletion ex_env (pystr_of ''c'') (pystr_of ''pw'') [1] [2] [3] ''h2'' 9 (pystr_of ''s'') (pystr_of ''k'') 500 ex_leaving
     = (Inr (Fresh c), ex_back)" unfolding ex_back_def by (metis prod.collapse)
  from deletion_cancel_restores [OF ex_start_accounts rtranclp.rtrancl_refl rtranclp.rtrancl_refl b this]
  show ?thesis by blast
qed

text \<open>An invitation makes exactly one account: an accepted invitation was open, unexpired and addressed to the
  given (normalised) e-mail, which no account had; acceptance appends one pending user with that
  address and touches no other, and the same link is never accepted again.\<close>

theorem invitation_accepted_once:
  assumes "acct_start d0" and "(acct_step E)\<^sup>*\<^sup>* d0 d" and "(acct_step E)\<^sup>*\<^sup>* d1 d2"
    and "accept_invitation E tok email key h ip label g now d = (Inr (Fresh b), d1)"
  shows "(\<exists>i \<in> set (invites d). in_hash i = hash_token E tok \<and> open_invite i \<and> now < in_expires i
        \<and> normalize_email E email = Some (in_email i) \<and> in_email i \<notin> us_email ` set (users d)
        \<and> (\<exists>u. users d1 = users d @ [u] \<and> us_email u = in_email i \<and> us_status u = APending \<and> us_role u = RUser))
     \<and> fst (accept_invitation E tok email' key' h' ip' label' g' now' d2) \<noteq> Inr (Fresh b')"
proof -
  obtain i where i: "i \<in> set (invites d)" "in_hash i = hash_token E tok" "open_invite i" "now < in_expires i"
    "normalize_email E email = Some (in_email i)" "\<forall>u \<in> set (users d). us_email u \<noteq> in_email i"
    "users d1 = users d @ [\<lparr>us_id = f_user g, us_email = in_email i, us_password = f_hash g, us_role = RUser,
           us_status = APending, us_mfa = None, us_deleted = None, us_deadline = None, us_created = now\<rparr>]"
    "invites d1 = upd (\<lambda>j. in_id j = in_id i \<and> open_invite j) (\<lambda>j. j\<lparr>in_consumed := Some now\<rparr>) (invites d)"
    using accept_outcome [OF assms(4)] by auto
  have "acct_step E d d1" using acct_step.accept [of E d tok email key h ip label g now] assms(4) by simp
  then have d1: "(acct_step E)\<^sup>*\<^sup>* d0 d1" using rtranclp.rtrancl_into_rtrancl [OF assms(2)] by blast
  note run = run_rel [OF assms(1) d1 assms(3)]
  let ?i = "i\<lparr>in_consumed := Some now\<rparr>"
  have "?i \<in> set (invites d1)" using i(1,3) unfolding i(8) by (force simp: upd_def)
  moreover have closed: "\<not> open_invite ?i" by (simp add: open_invite_def)
  ultimately have "?i \<in> set (invites d2)" using grows_mem [OF run(6)] unfolding invite_moves_def by metis
  then have no: "\<not> (\<exists>j \<in> set (invites d2). in_hash j = hash_token E tok \<and> open_invite j)"
    using run(2) closed i(2) by (metis distinct_key invite_row.simps(2) invite_row.update_convs(5) invites_ok_def tables_ok_def
        invite_row.select_convs(2) invite_row.surjective)
  have "fst (accept_invitation E tok email' key' h' ip' label' g' now' d2) \<noteq> Inr (Fresh b')"
  proof
    assume "fst (accept_invitation E tok email' key' h' ip' label' g' now' d2) = Inr (Fresh b')"
    then have "accept_invitation E tok email' key' h' ip' label' g' now' d2
        = (Inr (Fresh b'), snd (accept_invitation E tok email' key' h' ip' label' g' now' d2))" by (metis prod.collapse)
    from accept_outcome [OF this] no show False by blast
  qed
  moreover have "in_email i \<notin> us_email ` set (users d)" using i(6) by auto
  ultimately show ?thesis using i(1-5,7) by (intro conjI bexI [of _ i]) auto
qed

definition ex_invited :: idb where
  "ex_invited = snd (create_invitation ex_env 1 (pystr_of ''n@b'') 7 [1] 20 (pystr_of ''inv'') 21 100 ex_accounts)"

definition ex_fresh :: fresh where
  "ex_fresh = \<lparr>f_user = 30, f_session = 31, f_token = 32, f_mail = 33, f_stok = pystr_of ''s'', f_ctok = pystr_of ''k'',
     f_vtok = pystr_of ''v'', f_hash = ''pw''\<rparr>"

definition ex_joined :: idb where
  "ex_joined = snd (accept_invitation ex_env (pystr_of ''inv'') (pystr_of ''n@b'') [1] ''h'' [2] [3] ex_fresh 200 ex_invited)"

theorem invitation_accepted_once_witness:
  "fst (accept_invitation ex_env (pystr_of ''inv'') (pystr_of ''n@b'') [9] ''h'' [2] [3] ex_fresh 300 ex_joined)
     \<noteq> Inr (Fresh (JNull, []))"
proof -
  have "\<exists>b. fst (accept_invitation ex_env (pystr_of ''inv'') (pystr_of ''n@b'') [1] ''h'' [2] [3] ex_fresh 200 ex_invited)
     = Inr (Fresh b)" by (rule exI) code_simp
  then obtain b where b: "accept_invitation ex_env (pystr_of ''inv'') (pystr_of ''n@b'') [1] ''h'' [2] [3] ex_fresh 200 ex_invited
     = (Inr (Fresh b), ex_joined)" unfolding ex_joined_def by (metis prod.collapse)
  have "(acct_step ex_env)\<^sup>*\<^sup>* ex_accounts ex_invited" unfolding ex_invited_def
    by (rule r_into_rtranclp, rule acct_step.create_invitation)
  from invitation_accepted_once [OF ex_start_accounts this rtranclp.rtrancl_refl b] show ?thesis by blast
qed

end
