(* ===== verification/Content_Store.thy ===== *)
theory Content_Store
  imports Admin_Users
begin

text \<open>
  The database of the content services (\<open>backend/v2/models/content.py\<close>): experts and skills with their
  revisions, reviews and reports, beside the account database, whose task part holds the tool
  catalogue and the tools of the revisions. The two content domains have the same shape and are one
  family of tables indexed by the domain. The row-level security of the app role and the owner
  guards of the migrations 0006, 0007 and 0011 are part of the store.
\<close>

section \<open>Rows\<close>

datatype domain = Experts | Skills

datatype entity_status = EDraft | EPublished | EArchived

datatype revision_status = RvDraft | RvPending | RvApproved | RvRejected | RvPublished | RvArchived

datatype report_status = RpOpen | RpDismissed | RpActioned

record entity_row =
  ct_id :: uuid
  ct_owner :: uuid
  ct_published :: "uuid option"
  ct_status :: entity_status
  ct_created :: time

record rev_row =
  rv_id :: uuid
  rv_entity :: uuid
  rv_owner :: uuid
  rv_no :: nat
  rv_content :: json
  rv_sha :: string
  rv_status :: revision_status
  rv_created :: time

record review_row =
  rw_domain :: domain
  rw_revision :: uuid
  rw_sha :: string
  rw_approved :: bool
  rw_reviewer :: uuid

record report_row =
  rp_id :: uuid
  rp_reporter :: uuid
  rp_target_type :: string
  rp_target :: uuid
  rp_hash :: "string option"
  rp_status :: report_status
  rp_reason :: pystr
  rp_created :: time

record cdb =
  acc_db :: idb
  entities :: "domain \<Rightarrow> entity_row list"
  revs :: "domain \<Rightarrow> rev_row list"
  reviews :: "review_row list"
  reports :: "report_row list"

text \<open>
  What the content code takes from outside: the account environment, SHA-256, \<open>uuid.UUID\<close> on a text,
  and for each group of scanner expressions how many of them a text matches.
\<close>

record cenv =
  acct_env :: env
  digest :: "pystr \<Rightarrow> string"
  parse_uuid :: "pystr \<Rightarrow> uuid option"
  has_api_key :: "pystr \<Rightarrow> nat"
  has_danger :: "pystr \<Rightarrow> nat"
  has_code :: "pystr \<Rightarrow> nat"
  has_jailbreak :: "pystr \<Rightarrow> nat"

section \<open>Statements\<close>

definition upd_entities :: "domain \<Rightarrow> (entity_row \<Rightarrow> bool) \<Rightarrow> (entity_row \<Rightarrow> entity_row) \<Rightarrow> cdb \<Rightarrow> cdb" where
  "upd_entities dm P f c = c\<lparr>entities := (entities c)(dm := upd P f (entities c dm))\<rparr>"

definition upd_revs :: "domain \<Rightarrow> (rev_row \<Rightarrow> bool) \<Rightarrow> (rev_row \<Rightarrow> rev_row) \<Rightarrow> cdb \<Rightarrow> cdb" where
  "upd_revs dm P f c = c\<lparr>revs := (revs c)(dm := upd P f (revs c dm))\<rparr>"

definition add_entity :: "domain \<Rightarrow> entity_row \<Rightarrow> cdb \<Rightarrow> cdb" where
  "add_entity dm e c = c\<lparr>entities := (entities c)(dm := entities c dm @ [e])\<rparr>"

definition add_rev :: "domain \<Rightarrow> rev_row \<Rightarrow> cdb \<Rightarrow> cdb" where
  "add_rev dm r c = c\<lparr>revs := (revs c)(dm := revs c dm @ [r])\<rparr>"

definition on_acct :: "'a flow \<Rightarrow> (cdb, 'a) prog" where
  "on_acct m = (\<lambda>c. case m (acc_db c) of (r, a) \<Rightarrow> (r, c\<lparr>acc_db := a\<rparr>))"

definition rev_of :: "domain \<Rightarrow> uuid \<Rightarrow> cdb \<Rightarrow> rev_row option" where
  "rev_of dm rid c = find (\<lambda>r. rv_id r = rid) (revs c dm)"

definition entity_of :: "domain \<Rightarrow> uuid \<Rightarrow> cdb \<Rightarrow> entity_row option" where
  "entity_of dm eid c = find (\<lambda>e. ct_id e = eid) (entities c dm)"

text \<open>Tables of the task database the content services read and write.\<close>

abbreviation tool_rows :: "cdb \<Rightarrow> tool_row list" where "tool_rows c \<equiv> tool_catalog (work_db (acc_db c))"
abbreviation tool_links :: "cdb \<Rightarrow> (uuid \<times> string \<times> string) list" where "tool_links c \<equiv> rev_tools (work_db (acc_db c))"

definition upd_work :: "(db \<Rightarrow> db) \<Rightarrow> cdb \<Rightarrow> cdb" where
  "upd_work f c = c\<lparr>acc_db := (acc_db c)\<lparr>work_db := f (work_db (acc_db c))\<rparr>\<rparr>"

section \<open>Row-level security\<close>

text \<open>An entity is visible to its owner and, when published, to everybody; a revision to its owner and
  when a visible entity points at it. Locking an entity row needs ownership.\<close>

definition sees_entity :: "uuid option \<Rightarrow> entity_row \<Rightarrow> bool" where
  "sees_entity me e \<longleftrightarrow> ct_status e = EPublished \<or> me = Some (ct_owner e)"

definition sees_rev :: "uuid option \<Rightarrow> domain \<Rightarrow> cdb \<Rightarrow> rev_row \<Rightarrow> bool" where
  "sees_rev me dm c r \<longleftrightarrow> me = Some (rv_owner r)
     \<or> list_ex (\<lambda>e. sees_entity me e \<and> ct_published e = Some (rv_id r)) (entities c dm)"

definition lock_entity :: "uuid \<Rightarrow> domain \<Rightarrow> uuid \<Rightarrow> cdb \<Rightarrow> entity_row option" where
  "lock_entity me dm eid c = find (\<lambda>e. ct_id e = eid \<and> ct_owner e = me) (entities c dm)"

definition visible_rev :: "uuid option \<Rightarrow> domain \<Rightarrow> uuid \<Rightarrow> cdb \<Rightarrow> rev_row option" where
  "visible_rev me dm rid c = find (\<lambda>r. rv_id r = rid \<and> sees_rev me dm c r) (revs c dm)"

section \<open>Writing under an owner\<close>

text \<open>
  \<open>guard_owner_content_writes\<close> (as 0011 left it), \<open>guard_owner_content_inserts\<close> and
  \<open>guard_owner_revision_tools\<close>: triggers that speak under an owner, never to the administrator and
  never about the cascades of a delete.
\<close>

definition guard_entity_write :: "entity_row \<Rightarrow> entity_row \<Rightarrow> bool" where
  "guard_entity_write old new \<longleftrightarrow> ct_published new = ct_published old
     \<and> (ct_status new = ct_status old \<or> (ct_status old = EPublished \<and> ct_status new = EDraft))"

definition guard_rev_write :: "rev_row \<Rightarrow> rev_row \<Rightarrow> bool" where
  "guard_rev_write old new \<longleftrightarrow> rv_owner new = rv_owner old \<and> rv_no new = rv_no old
     \<and> (rv_status new = rv_status old \<or> (rv_status old = RvDraft \<and> rv_status new = RvPending))
     \<and> (rv_status old = RvDraft \<or> (rv_content new = rv_content old \<and> rv_sha new = rv_sha old))"

definition guard_rev_insert :: "rev_row \<Rightarrow> bool" where "guard_rev_insert r \<longleftrightarrow> rv_status r = RvDraft"

definition guard_entity_insert :: "entity_row \<Rightarrow> bool" where "guard_entity_insert e \<longleftrightarrow> ct_status e = EDraft"

definition guard_tool_link :: "cdb \<Rightarrow> uuid \<Rightarrow> bool" where
  "guard_tool_link c rid \<longleftrightarrow> \<not> list_ex (\<lambda>r. rv_id r = rid \<and> rv_status r \<noteq> RvDraft) (revs c Experts)"

text \<open>An update of one row the session holds: no visible row to update is SQLAlchemy's
  \<open>StaleDataError\<close>.\<close>

definition save_entity :: "uuid \<Rightarrow> domain \<Rightarrow> uuid \<Rightarrow> (entity_row \<Rightarrow> entity_row) \<Rightarrow> (cdb, unit) prog" where
  "save_entity me dm eid f = (\<lambda>c.
     case lock_entity me dm eid c of
       None \<Rightarrow> (Inl (DatabaseError ''stale''), c)
     | Some e \<Rightarrow>
         if ct_owner (f e) \<noteq> me then (Inl (DatabaseError ''policy''), c)
         else if \<not> guard_entity_write e (f e) then (Inl (DatabaseError ''owner_guard''), c)
         else (Inr (), upd_entities dm (\<lambda>x. ct_id x = eid \<and> ct_owner x = me) f c))"

definition save_rev :: "uuid \<Rightarrow> domain \<Rightarrow> uuid \<Rightarrow> (rev_row \<Rightarrow> rev_row) \<Rightarrow> (cdb, unit) prog" where
  "save_rev me dm rid f = (\<lambda>c.
     case find (\<lambda>r. rv_id r = rid \<and> rv_owner r = me) (revs c dm) of
       None \<Rightarrow> (Inl (DatabaseError ''stale''), c)
     | Some r \<Rightarrow>
         if rv_owner (f r) \<noteq> me then (Inl (DatabaseError ''policy''), c)
         else if \<not> guard_rev_write r (f r) then (Inl (DatabaseError ''owner_guard''), c)
         else (Inr (), upd_revs dm (\<lambda>x. rv_id x = rid \<and> rv_owner x = me) f c))"

definition insert_entity :: "uuid \<Rightarrow> domain \<Rightarrow> entity_row \<Rightarrow> (cdb, unit) prog" where
  "insert_entity me dm e = (\<lambda>c.
     if ct_owner e \<noteq> me then (Inl (DatabaseError ''policy''), c)
     else if \<not> guard_entity_insert e then (Inl (DatabaseError ''draft_birth_guard''), c)
     else if entity_of dm (ct_id e) c \<noteq> None then (Inl (IntegrityError ''pk''), c)
     else if find_user me (acc_db c) = None then (Inl (IntegrityError ''owner_id_fkey''), c)
     else (Inr (), add_entity dm e c))"

definition insert_rev :: "uuid \<Rightarrow> domain \<Rightarrow> rev_row \<Rightarrow> (cdb, unit) prog" where
  "insert_rev me dm r = (\<lambda>c.
     if rv_owner r \<noteq> me then (Inl (DatabaseError ''policy''), c)
     else if \<not> guard_rev_insert r then (Inl (DatabaseError ''draft_birth_guard''), c)
     else if list_ex (\<lambda>x. rv_id x = rv_id r \<or> (rv_entity x = rv_entity r \<and> rv_no x = rv_no r)) (revs c dm)
     then (Inl (IntegrityError ''revision_no''), c)
     else if entity_of dm (rv_entity r) c = None then (Inl (IntegrityError ''entity_id_fkey''), c)
     else (Inr (), add_rev dm r c))"

definition insert_link :: "uuid \<Rightarrow> uuid \<Rightarrow> string \<times> string \<Rightarrow> (cdb, unit) prog" where
  "insert_link me rid tool = (\<lambda>c.
     if \<not> list_ex (\<lambda>r. rv_id r = rid \<and> rv_owner r = me) (revs c Experts) then (Inl (DatabaseError ''policy''), c)
     else if \<not> guard_tool_link c rid then (Inl (DatabaseError ''freeze_guard''), c)
     else if (rid, tool) \<in> set (tool_links c) then (Inl (IntegrityError ''uq_revision_tools_row''), c)
     else (Inr (), upd_work (\<lambda>w. w\<lparr>rev_tools := rev_tools w @ [(rid, tool)]\<rparr>) c))"

text \<open>
  A delete of an entity and its cascades: the revisions, their tools, and pointers to them. The
  foreign key of the tasks restricts it.
\<close>

definition delete_rows :: "domain \<Rightarrow> uuid \<Rightarrow> (cdb, unit) prog" where
  "delete_rows dm eid = (\<lambda>c.
     let gone = map rv_id (filter (\<lambda>r. rv_entity r = eid) (revs c dm)) in
     if dm = Experts \<and> list_ex (\<lambda>t. t_revision t \<in> set gone) (tasks (work_db (acc_db c)))
     then (Inl (IntegrityError ''tasks_expert_revision_id_fkey''), c)
     else (Inr (),
       (let c1 = c\<lparr>entities := (entities c)(dm := upd (\<lambda>e. \<exists>r \<in> set gone. ct_published e = Some r)
                    (\<lambda>e. e\<lparr>ct_published := None\<rparr>) (filter (\<lambda>e. ct_id e \<noteq> eid) (entities c dm))),
                  revs := (revs c)(dm := filter (\<lambda>r. rv_entity r \<noteq> eid) (revs c dm))\<rparr>
        in if dm = Experts then upd_work (\<lambda>w. w\<lparr>rev_tools := filter (\<lambda>(r, _). r \<notin> set gone) (rev_tools w)\<rparr>) c1
           else c1)))"

section \<open>Requests\<close>

definition entity_path :: "domain \<Rightarrow> string" where
  "entity_path dm = (case dm of Experts \<Rightarrow> ''/api/experts'' | Skills \<Rightarrow> ''/api/skills'')"

definition entity_type :: "domain \<Rightarrow> string" where
  "entity_type dm = (case dm of Experts \<Rightarrow> ''expert'' | Skills \<Rightarrow> ''skill'')"

definition revision_type :: "domain \<Rightarrow> string" where
  "revision_type dm = (case dm of Experts \<Rightarrow> ''expert_revision'' | Skills \<Rightarrow> ''skill_revision'')"

definition once_content :: "cenv \<Rightarrow> uuid \<Rightarrow> string \<Rightarrow> pystr \<Rightarrow> string \<Rightarrow> time \<Rightarrow> (cdb, 'a) prog \<Rightarrow> (cdb, 'a answer) prog" where
  "once_content C me route key h now body =
     bindF (on_acct (idem_begin (subject_user (acct_env C) me) route key h now)) (\<lambda>r.
     case r of Some (st, j) \<Rightarrow> ret (Replay st j) | None \<Rightarrow> bindF body (\<lambda>x. ret (Fresh x)))"

definition keep_answer :: "cenv \<Rightarrow> uuid \<Rightarrow> string \<Rightarrow> pystr \<Rightarrow> string \<Rightarrow> json \<Rightarrow> time \<Rightarrow> (cdb, unit) prog" where
  "keep_answer C me route key h body now =
     on_acct (idem_store (subject_user (acct_env C) me) route key h 200 (JObj [field ''data'' body]) now)"

definition raised :: "api_error + 'a \<Rightarrow> ('s, 'a) prog" where
  "raised r = (case r of Inl e \<Rightarrow> throw e | Inr x \<Rightarrow> ret x)"

definition some_or :: "api_error \<Rightarrow> 'a option \<Rightarrow> ('s, 'a) prog" where
  "some_or e v = (case v of None \<Rightarrow> throw e | Some x \<Rightarrow> ret x)"

definition some_uuid :: "cenv \<Rightarrow> pystr \<Rightarrow> ('s, uuid) prog" where
  "some_uuid C s = some_or validation_error (parse_uuid C s)"

end
