(* ===== verification/Content_Author.thy ===== *)
theory Content_Author
  imports Content_Store
begin

text \<open>
  The author's side of the content domain (\<open>backend/v2/author_service.py\<close>,
  \<open>backend/v2/content_autocheck.py\<close>, \<open>harness/mcp/validate_skill.py\<close>): creating and editing
  experts and skills, submitting a revision for review, taking an entity off line and deleting it.
  A request is the idempotency transaction followed by one transaction of the owner.
\<close>

section \<open>Automatic checks\<close>

text \<open>An issue: the field, the rule, and whether its level is \<open>ERROR\<close>.\<close>

type_synonym issue = "pystr \<times> string \<times> bool"

definition text_of :: "json option \<Rightarrow> pystr" where
  "text_of v = (case v of Some (JStr s) \<Rightarrow> s | _ \<Rightarrow> [])"

definition scan_text :: "cenv \<Rightarrow> pystr \<Rightarrow> pystr \<Rightarrow> issue list" where
  "scan_text C f s =
     replicate (has_api_key C s) (f, ''api_key'', True)
     @ replicate (has_danger C s) (f, ''dangerous_command'', True)
     @ replicate (has_code C s) (f, ''executable_code'', False)
     @ replicate (has_jailbreak C s) (f, ''jailbreak_template'', False)"

definition blocking :: "issue list \<Rightarrow> bool" where
  "blocking iss \<longleftrightarrow> list_ex (\<lambda>(_, rule, err). err \<or> rule = ''jailbreak_template'') iss"

definition required_fields :: "pystr list" where
  "required_fields = map pystr_of [''role'', ''goal'', ''steps'', ''output_requirements'', ''constraints'']"

definition scan_fields :: "pystr list" where
  "scan_fields = map pystr_of [''name'', ''description'', ''use_case'', ''role'', ''goal'', ''steps'',
     ''input_requirements'', ''output_requirements'', ''constraints'']"

definition max_field_length :: nat where "max_field_length = 5000"

definition scan_field :: "cenv \<Rightarrow> pystr \<Rightarrow> pystr \<Rightarrow> issue list" where
  "scan_field C f s = scan_text C f s"

definition validate_skill :: "cenv \<Rightarrow> (pystr \<times> json) list \<Rightarrow> bool \<times> issue list" where
  "validate_skill C skill =
     (let missing = map (\<lambda>f. (f, ''required'', True))
            (filter (\<lambda>f. py_strip (text_of (map_of skill f)) = []) required_fields);
          scanned = concat (map (\<lambda>f. let s = text_of (map_of skill f) in
            if s = [] then []
            else (if max_field_length < length s then [(f, ''max_length'', False)] else []) @ scan_field C f s) scan_fields);
          iss = missing @ scanned
      in (\<not> blocking iss, iss))"

definition expert_text_fields :: "pystr list" where
  "expert_text_fields = map pystr_of [''name'', ''description'', ''persona'', ''methodology'']"

definition list_field :: "string \<Rightarrow> (pystr \<times> json) list \<Rightarrow> json list" where
  "list_field k content = (case map_of content (pystr_of k) of Some (JArr xs) \<Rightarrow> xs | _ \<Rightarrow> [])"

definition run_auto_check :: "cenv \<Rightarrow> domain \<Rightarrow> (pystr \<times> json) list \<Rightarrow> bool \<times> issue list" where
  "run_auto_check C dm content =
     (case dm of
        Skills \<Rightarrow> validate_skill C content
      | Experts \<Rightarrow>
          (let fs = concat (map (\<lambda>f. let s = text_of (map_of content f) in if s = [] then [] else scan_text C f s)
                 expert_text_fields);
               exs = concat (map (\<lambda>(i, x). let s = text_of (Some x) in
                 if s = [] then [] else scan_text C (pystr_of ''task_examples['' @ digits i @ pystr_of '']'') s)
                 (enumerate 0 (list_field ''task_examples'' content)));
               iss = fs @ exs
           in (\<not> blocking iss, iss)))"

definition fields_of :: "json \<Rightarrow> (pystr \<times> json) list" where
  "fields_of j = (case j of JObj fs \<Rightarrow> fs | _ \<Rightarrow> [])"

section \<open>Gates\<close>

definition assert_expert_author :: "uuid \<Rightarrow> (cdb, unit) prog" where
  "assert_expert_author me =
     bindF (asks (\<lambda>c. list_ex (active_ent me ''expert_author'') (ents (acc_db c)))) (\<lambda>ok.
     require ok (HttpDetail ''FORBIDDEN'' 403))"

text \<open>A reference of \<open>skill_refs\<close>: the request model types it as a pair of texts.\<close>

definition ref_ids :: "json \<Rightarrow> (pystr \<times> pystr) option" where
  "ref_ids j = (case (map_of (fields_of j) (pystr_of ''skill_id''), map_of (fields_of j) (pystr_of ''revision_id'')) of
       (Some (JStr s), Some (JStr r)) \<Rightarrow> Some (s, r) | _ \<Rightarrow> None)"

fun validate_skill_refs :: "cenv \<Rightarrow> uuid \<Rightarrow> json list \<Rightarrow> (cdb, unit) prog" where
  "validate_skill_refs C me [] = ret ()"
| "validate_skill_refs C me (ref # refs) =
     bindF (some_or KeyError (ref_ids ref)) (\<lambda>(s, t).
     bindF (some_uuid C s) (\<lambda>skill_id.
     bindF (some_uuid C t) (\<lambda>revision_id.
     bindF (asks (visible_rev (Some me) Skills revision_id)) (\<lambda>v.
     bindF (some_or validation_error v) (\<lambda>r.
     bindF (require (rv_entity r = skill_id) validation_error) (\<lambda>_.
     bindF (require (rv_owner r = me \<or> rv_status r = RvPublished) validation_error) (\<lambda>_.
     validate_skill_refs C me refs)))))))"

definition content_gate :: "cenv \<Rightarrow> uuid \<Rightarrow> (pystr \<times> json) list \<Rightarrow> (cdb, unit) prog" where
  "content_gate C me content =
     bindF (assert_expert_author me) (\<lambda>_.
     bindF (case assert_content_size (JObj content) of Inl _ \<Rightarrow> throw validation_error | Inr _ \<Rightarrow> ret ()) (\<lambda>_.
     validate_skill_refs C me (list_field ''skill_refs'' content)))"

definition not_found :: api_error where "not_found = HttpDetail ''NOT_FOUND'' 404"

text \<open>The entity under its row lock (\<open>FOR UPDATE\<close>), or 404.\<close>

definition locked :: "uuid \<Rightarrow> domain \<Rightarrow> uuid \<Rightarrow> (cdb, entity_row) prog" where
  "locked me dm eid = bindF (asks (lock_entity me dm eid)) (some_or not_found)"

section \<open>Briefs\<close>

text \<open>Without the time stamps.\<close>

definition status_name :: "entity_status \<Rightarrow> string" where
  "status_name s = (case s of EDraft \<Rightarrow> ''draft'' | EPublished \<Rightarrow> ''published'' | EArchived \<Rightarrow> ''archived'')"

definition rev_status_name :: "revision_status \<Rightarrow> string" where
  "rev_status_name s = (case s of RvDraft \<Rightarrow> ''draft'' | RvPending \<Rightarrow> ''pending_review'' | RvApproved \<Rightarrow> ''approved''
     | RvRejected \<Rightarrow> ''rejected'' | RvPublished \<Rightarrow> ''published'' | RvArchived \<Rightarrow> ''archived'')"

definition uuid_json :: "cenv \<Rightarrow> uuid \<Rightarrow> json" where "uuid_json C u = JStr (uuid_text (acct_env C) u)"

definition entity_brief :: "cenv \<Rightarrow> entity_row \<Rightarrow> json" where
  "entity_brief C e = JObj [
     field ''id'' (uuid_json C (ct_id e)),
     text_field ''status'' (status_name (ct_status e)),
     field ''published_revision_id'' (case ct_published e of None \<Rightarrow> JNull | Some r \<Rightarrow> uuid_json C r)]"

definition revision_brief :: "cenv \<Rightarrow> rev_row \<Rightarrow> json" where
  "revision_brief C r = JObj [
     field ''revision_id'' (uuid_json C (rv_id r)),
     field ''revision_no'' (JInt (int (rv_no r))),
     text_field ''status'' (rev_status_name (rv_status r)),
     text_field ''content_sha256'' (rv_sha r),
     field ''content_json'' (rv_content r)]"

section \<open>Create and edit\<close>

definition draft_rev :: "cenv \<Rightarrow> uuid \<Rightarrow> uuid \<Rightarrow> uuid \<Rightarrow> nat \<Rightarrow> (pystr \<times> json) list \<Rightarrow> time \<Rightarrow> rev_row" where
  "draft_rev C me eid rid n content now =
     \<lparr>rv_id = rid, rv_entity = eid, rv_owner = me, rv_no = n, rv_content = JObj content,
      rv_sha = content_sha256 (digest C) (JObj content), rv_status = RvDraft, rv_created = now\<rparr>"

definition create_entity ::
  "cenv \<Rightarrow> uuid \<Rightarrow> domain \<Rightarrow> (pystr \<times> json) list \<Rightarrow> pystr \<Rightarrow> string \<Rightarrow> uuid \<Rightarrow> uuid \<Rightarrow> time
   \<Rightarrow> (cdb, json answer) prog" where
  "create_entity C me dm content key h eid rid now =
     once_content C me (entity_path dm) key h now (atomically (
       bindF (content_gate C me content) (\<lambda>_.
       let e = \<lparr>ct_id = eid, ct_owner = me, ct_published = None, ct_status = EDraft, ct_created = now\<rparr>;
           r = draft_rev C me eid rid 1 content now;
           body = JObj [field ''entity'' (entity_brief C e), field ''revision'' (revision_brief C r)] in
       bindF (insert_entity me dm e) (\<lambda>_.
       bindF (insert_rev me dm r) (\<lambda>_.
       bindF (keep_answer C me (entity_path dm) key h body now) (\<lambda>_.
       ret body))))))"

definition visible_revs :: "uuid option \<Rightarrow> domain \<Rightarrow> uuid \<Rightarrow> cdb \<Rightarrow> rev_row list" where
  "visible_revs me dm eid c = filter (\<lambda>r. rv_entity r = eid \<and> sees_rev me dm c r) (revs c dm)"

definition max_no :: "rev_row list \<Rightarrow> nat" where "max_no rs = foldl max 0 (map rv_no rs)"

definition latest_rev :: "rev_row list \<Rightarrow> rev_row option" where
  "latest_rev rs = find (\<lambda>r. rv_no r = max_no rs) rs"

definition write_draft ::
  "cenv \<Rightarrow> uuid \<Rightarrow> domain \<Rightarrow> uuid \<Rightarrow> uuid \<Rightarrow> (pystr \<times> json) list \<Rightarrow> time \<Rightarrow> (cdb, uuid) prog" where
  "write_draft C me dm eid rid content now =
     bindF (asks (visible_revs (Some me) dm eid)) (\<lambda>rs.
     let fresh = bindF (insert_rev me dm (draft_rev C me eid rid (max_no rs + 1) content now)) (\<lambda>_. ret rid) in
     case latest_rev rs of
       None \<Rightarrow> fresh
     | Some r \<Rightarrow>
         if rv_status r = RvDraft then
           bindF (save_rev me dm (rv_id r) (\<lambda>x. x\<lparr>rv_content := JObj content,
             rv_sha := content_sha256 (digest C) (JObj content)\<rparr>)) (\<lambda>_. ret (rv_id r))
         else fresh)"

definition edit_entity ::
  "cenv \<Rightarrow> uuid \<Rightarrow> domain \<Rightarrow> string \<Rightarrow> (pystr \<times> json) list \<Rightarrow> pystr \<Rightarrow> string \<Rightarrow> uuid \<Rightarrow> time
   \<Rightarrow> (cdb, json answer) prog" where
  "edit_entity C me dm entity_id content key h rid now =
     bindF (some_uuid C (pystr_of entity_id)) (\<lambda>eid.
     let route = entity_path dm @ ''/'' @ entity_id in
     once_content C me route key h now (atomically (
       bindF (content_gate C me content) (\<lambda>_.
       bindF (locked me dm eid) (\<lambda>e.
       bindF (write_draft C me dm eid rid content now) (\<lambda>written.
       bindF (asks (rev_of dm written)) (\<lambda>row.
       bindF (some_or (DatabaseError ''refresh'') row) (\<lambda>r.
       let body = JObj [field ''entity'' (entity_brief C e), field ''revision'' (revision_brief C r)] in
       bindF (keep_answer C me route key h body now) (\<lambda>_.
       ret body)))))))))"

section \<open>Reading\<close>

definition parse_entity_status :: "string option \<Rightarrow> api_error + entity_status option" where
  "parse_entity_status st = (case st of
       None \<Rightarrow> Inr None
     | Some s \<Rightarrow> if s = ''draft'' then Inr (Some EDraft) else if s = ''published'' then Inr (Some EPublished)
         else if s = ''archived'' then Inr (Some EArchived) else Inl validation_error)"

definition name_of :: "json \<Rightarrow> json" where
  "name_of j = (case map_of (fields_of j) (pystr_of ''name'') of None \<Rightarrow> JNull | Some v \<Rightarrow> v)"

definition by_number :: "rev_row list \<Rightarrow> rev_row list" where
  "by_number rs = sort_key rv_no (sort_key rv_id rs)"

definition list_entities :: "uuid \<Rightarrow> domain \<Rightarrow> string option \<Rightarrow> cdb
    \<Rightarrow> api_error + (entity_row \<times> nat \<times> rev_row option \<times> json) list" where
  "list_entities me dm st c =
     bindE (parse_entity_status st) (\<lambda>want.
     let mine = sort_key ct_created (sort_key ct_id (filter (\<lambda>e. ct_owner e = me
            \<and> (case want of None \<Rightarrow> True | Some s \<Rightarrow> ct_status e = s)) (entities c dm)))
     in Inr (map (\<lambda>e.
          let rs = by_number (visible_revs (Some me) dm (ct_id e) c);
              newest = (if rs = [] then None else Some (List.last rs))
          in (e, length rs, newest, case newest of None \<Rightarrow> JNull | Some r \<Rightarrow> name_of (rv_content r))) mine))"

definition get_entity :: "cenv \<Rightarrow> uuid \<Rightarrow> domain \<Rightarrow> string \<Rightarrow> cdb \<Rightarrow> api_error + entity_row \<times> rev_row list" where
  "get_entity C me dm entity_id c =
     (case parse_uuid C (pystr_of entity_id) of
        None \<Rightarrow> Inl validation_error
      | Some eid \<Rightarrow>
          (case lock_entity me dm eid c of
             None \<Rightarrow> Inl not_found
           | Some e \<Rightarrow> Inr (e, by_number (visible_revs (Some me) dm eid c))))"

section \<open>Submitting for review\<close>

definition max_tools :: nat where "max_tools = 20"

text \<open>An item of \<open>tools\<close>: \<open>None\<close> stands for a missing or non-text value.\<close>

fun tool_pairs :: "(string option \<times> string option) list \<Rightarrow> (string \<times> string) list \<Rightarrow> api_error + (string \<times> string) list" where
  "tool_pairs [] acc = Inr acc"
| "tool_pairs ((t, v) # items) acc =
     (case (t, v) of
        (Some tool, Some version) \<Rightarrow>
          if tool = [] \<or> version = [] then Inl validation_error
          else tool_pairs items (if (tool, version) \<in> set acc then acc else acc @ [(tool, version)])
      | _ \<Rightarrow> Inl validation_error)"

definition normalize_tools :: "(string option \<times> string option) list \<Rightarrow> bool \<Rightarrow> api_error + (string \<times> string) list" where
  "normalize_tools tools allow =
     (if \<not> allow \<and> tools \<noteq> [] then Inl validation_error
      else bindE (tool_pairs tools []) (\<lambda>ps. if max_tools < length ps then Inl validation_error else Inr ps))"

text \<open>The keys of \<open>PLATFORM_TOOLS\<close> whose kind is \<open>harness\<close>.\<close>

definition harness_tool_keys :: "(string \<times> string) list" where
  "harness_tool_keys = [(''check_code_style'', ''1'')]"

definition in_catalog :: "cdb \<Rightarrow> string \<times> string \<Rightarrow> bool" where
  "in_catalog c tool \<longleftrightarrow> list_ex (\<lambda>r. (tool_name r, tool_version r) = tool) (tool_rows c)"

fun insert_links :: "uuid \<Rightarrow> uuid \<Rightarrow> (string \<times> string) list \<Rightarrow> (cdb, unit) prog" where
  "insert_links me rid [] = ret ()"
| "insert_links me rid (p # ps) = bindF (insert_link me rid p) (\<lambda>_. insert_links me rid ps)"

definition submit_revision ::
  "cenv \<Rightarrow> uuid \<Rightarrow> domain \<Rightarrow> string \<Rightarrow> string \<Rightarrow> (string option \<times> string option) list \<Rightarrow> pystr \<Rightarrow> string \<Rightarrow> time
   \<Rightarrow> (cdb, json answer) prog" where
  "submit_revision C me dm entity_id revision_id tools key h now =
     bindF (some_uuid C (pystr_of entity_id)) (\<lambda>eid.
     bindF (some_uuid C (pystr_of revision_id)) (\<lambda>rid.
     let route = entity_path dm @ ''/'' @ entity_id @ ''/revisions/'' @ revision_id @ ''/submit'' in
     once_content C me route key h now (
       bindF (raised (normalize_tools tools (dm = Experts))) (\<lambda>clean.
       bindF (require (\<not> list_ex (\<lambda>p. p \<in> set harness_tool_keys) clean) validation_error) (\<lambda>_.
       atomically (
         bindF (assert_expert_author me) (\<lambda>_.
         bindF (locked me dm eid) (\<lambda>e.
         bindF (asks (\<lambda>c. find (\<lambda>r. rv_id r = rid \<and> rv_entity r = eid \<and> sees_rev (Some me) dm c r) (revs c dm))) (\<lambda>v.
         bindF (some_or not_found v) (\<lambda>r.
         bindF (require (rv_status r = RvDraft) (app_error REVIEW_PENDING 409)) (\<lambda>_.
         bindF (require (fst (run_auto_check C dm (fields_of (rv_content r)))) validation_error) (\<lambda>_.
         bindF (asks (\<lambda>c. list_all (in_catalog c) clean)) (\<lambda>known.
         bindF (require known validation_error) (\<lambda>_.
         bindF (insert_links me (rv_id r) clean) (\<lambda>_.
         bindF (save_rev me dm (rv_id r) (\<lambda>x. x\<lparr>rv_status := RvPending\<rparr>)) (\<lambda>_.
         let body = JObj [field ''revision'' (revision_brief C (r\<lparr>rv_status := RvPending\<rparr>))] in
         bindF (keep_answer C me route key h body now) (\<lambda>_.
         ret body)))))))))))))))))"

section \<open>Off line and delete\<close>

definition offline_entity ::
  "cenv \<Rightarrow> uuid \<Rightarrow> domain \<Rightarrow> string \<Rightarrow> pystr \<Rightarrow> string \<Rightarrow> time \<Rightarrow> (cdb, json answer) prog" where
  "offline_entity C me dm entity_id key h now =
     bindF (some_uuid C (pystr_of entity_id)) (\<lambda>eid.
     let route = entity_path dm @ ''/'' @ entity_id @ ''/offline'' in
     once_content C me route key h now (atomically (
       bindF (assert_expert_author me) (\<lambda>_.
       bindF (locked me dm eid) (\<lambda>e.
       bindF (case ct_status e of
                EPublished \<Rightarrow> save_entity me dm eid (\<lambda>x. x\<lparr>ct_status := EDraft\<rparr>)
              | EArchived \<Rightarrow> throw (app_error REVISION_NOT_PUBLISHED 409)
              | EDraft \<Rightarrow> ret ()) (\<lambda>_.
       let body = JObj [field ''entity'' (entity_brief C (e\<lparr>ct_status := EDraft\<rparr>))] in
       bindF (on_acct (add_audit (Some me) (entity_type dm @ ''.offline'') eid (pystr_of ''author offline''))) (\<lambda>_.
       bindF (keep_answer C me route key h body now) (\<lambda>_.
       ret body))))))))"

text \<open>
  The references, read by the administrator: tasks over any revision of an expert, or the experts one
  of whose revisions has, in its \<open>skill_refs\<close>, an object with the skill's identifier as \<open>str\<close>
  prints it (the containment operator of JSONB).
\<close>

definition names_skill :: "pystr \<Rightarrow> json \<Rightarrow> bool" where
  "names_skill s content \<longleftrightarrow>
     list_ex (\<lambda>ref. map_of (fields_of ref) (pystr_of ''skill_id'') = Some (JStr s)) (list_field ''skill_refs'' (fields_of content))"

definition count_references :: "cenv \<Rightarrow> domain \<Rightarrow> uuid \<Rightarrow> cdb \<Rightarrow> nat" where
  "count_references C dm eid c =
     (case dm of
        Experts \<Rightarrow> rowcount (\<lambda>t. list_ex (\<lambda>r. rv_id r = t_revision t \<and> rv_entity r = eid) (revs c Experts))
                     (tasks (work_db (acc_db c)))
      | Skills \<Rightarrow> length (remdups (map rv_entity
                     (filter (\<lambda>r. names_skill (uuid_text (acct_env C) eid) (rv_content r)) (revs c Experts)))))"

definition delete_entity ::
  "cenv \<Rightarrow> uuid \<Rightarrow> domain \<Rightarrow> string \<Rightarrow> pystr \<Rightarrow> string \<Rightarrow> time \<Rightarrow> (cdb, json answer) prog" where
  "delete_entity C me dm entity_id key h now =
     bindF (some_uuid C (pystr_of entity_id)) (\<lambda>eid.
     let route = entity_path dm @ ''/'' @ entity_id in
     once_content C me route key h now (atomically (
       bindF (assert_expert_author me) (\<lambda>_.
       bindF (locked me dm eid) (\<lambda>e.
       bindF (asks (count_references C dm eid)) (\<lambda>n.
       bindF (require (n = 0) (app_error ENTITY_IN_USE 409)) (\<lambda>_.
       bindF (flush_or (app_error ENTITY_IN_USE 409) (delete_rows dm eid)) (\<lambda>_.
       let body = JObj [field ''deleted'' (JBool True), field ''entity'' (entity_brief C e)] in
       bindF (on_acct (add_audit (Some me) (entity_type dm @ ''.delete'') eid (pystr_of ''author delete''))) (\<lambda>_.
       bindF (keep_answer C me route key h body now) (\<lambda>_.
       ret body))))))))))"

end
