(* ===== verification/Content_Review.thy ===== *)
theory Content_Review
  imports Content_Author
begin

text \<open>
  The governing side of the content domain: approving and rejecting revisions
  (\<open>backend/v2/review_service.py\<close>), reports and their resolution
  (\<open>backend/v2/report_service.py\<close>), the tool switch (\<open>backend/v2/tool_service.py\<close>), and the public
  directory (\<open>backend/api/v2/discover.py\<close>). The administrator sees every row; business rows, review
  and audit row share one transaction.
\<close>

section \<open>Reasons\<close>

definition require_reason :: "pystr option \<Rightarrow> api_error + pystr" where
  "require_reason r = (case r of
       None \<Rightarrow> Inl (app_error ADMIN_REASON_REQUIRED 400)
     | Some s \<Rightarrow> if py_strip s = [] then Inl (app_error ADMIN_REASON_REQUIRED 400) else Inr (py_strip s))"

definition reason_gate :: "pystr option \<Rightarrow> api_error + pystr" where
  "reason_gate r = (case r of
       None \<Rightarrow> Inl (app_error ADMIN_REASON_REQUIRED 400)
     | Some s \<Rightarrow> if py_strip s = [] then Inl (app_error ADMIN_REASON_REQUIRED 400) else Inr (py_strip s))"

section \<open>Review\<close>

definition domain_of :: "string \<Rightarrow> api_error + domain" where
  "domain_of target_type =
     (if target_type = ''expert_revision'' then Inr Experts
      else if target_type = ''skill_revision'' then Inr Skills else Inl ValueError)"

text \<open>The entity row is locked first; the revision is read again under the lock.\<close>

definition lock_for_review :: "domain \<Rightarrow> uuid \<Rightarrow> (cdb, entity_row \<times> rev_row) prog" where
  "lock_for_review dm rid =
     bindF (asks (rev_of dm rid)) (\<lambda>v.
     bindF (some_or not_found v) (\<lambda>seen.
     bindF (asks (entity_of dm (rv_entity seen))) (\<lambda>v.
     bindF (some_or NoResultFound v) (\<lambda>e.
     bindF (asks (rev_of dm rid)) (\<lambda>v.
     bindF (some_or NoResultFound v) (\<lambda>r.
     ret (e, r)))))))"

definition review_gate :: "cenv \<Rightarrow> entity_row \<Rightarrow> rev_row \<Rightarrow> (cdb, unit) prog" where
  "review_gate C e r =
     (let err = app_error REVIEW_PENDING 409 in
      bindF (require (rv_owner r = ct_owner e) err) (\<lambda>_.
      bindF (require (rv_status r = RvPending) err) (\<lambda>_.
      require (content_sha256 (digest C) (rv_content r) = rv_sha r) err)))"

definition tool_is_enabled :: "cdb \<Rightarrow> string \<times> string \<Rightarrow> bool" where
  "tool_is_enabled c tool \<longleftrightarrow> (case find (\<lambda>r. (tool_name r, tool_version r) = tool) (tool_rows c) of
       None \<Rightarrow> False | Some r \<Rightarrow> tool_enabled r)"

definition assert_tools_enabled :: "uuid \<Rightarrow> (cdb, unit) prog" where
  "assert_tools_enabled rid =
     bindF (asks (\<lambda>c. list_all (\<lambda>(r, tool). r \<noteq> rid \<or> tool_is_enabled c tool) (tool_links c))) (\<lambda>ok.
     require ok (app_error TOOL_REVOKED 409))"

fun assert_skill_refs_published :: "cenv \<Rightarrow> json list \<Rightarrow> (cdb, unit) prog" where
  "assert_skill_refs_published C [] = ret ()"
| "assert_skill_refs_published C (ref # refs) =
     bindF (some_or KeyError (ref_ids ref)) (\<lambda>(_, t).
     bindF (some_or ValueError (parse_uuid C t)) (\<lambda>rid.
     bindF (asks (rev_of Skills rid)) (\<lambda>v.
     bindF (require (map_option rv_status v = Some RvPublished) (app_error REVISION_NOT_PUBLISHED 409)) (\<lambda>_.
     assert_skill_refs_published C refs))))"

definition add_review :: "domain \<Rightarrow> uuid \<Rightarrow> string \<Rightarrow> bool \<Rightarrow> uuid \<Rightarrow> (cdb, unit) prog" where
  "add_review dm rid sha ok reviewer = change (\<lambda>c. c\<lparr>reviews := reviews c @
     [\<lparr>rw_domain = dm, rw_revision = rid, rw_sha = sha, rw_approved = ok, rw_reviewer = reviewer\<rparr>]\<rparr>)"

text \<open>The compare-and-set of the publication pointer.\<close>

definition set_published :: "domain \<Rightarrow> uuid \<Rightarrow> uuid option \<Rightarrow> uuid \<Rightarrow> (cdb, unit) prog" where
  "set_published dm eid previous rid =
     bindF (asks (\<lambda>c. rowcount (\<lambda>e. ct_id e = eid \<and> ct_published e = previous) (entities c dm))) (\<lambda>n.
     bindF (require (n \<noteq> 0) (app_error REVIEW_PENDING 409)) (\<lambda>_.
     change (upd_entities dm (\<lambda>e. ct_id e = eid \<and> ct_published e = previous)
       (\<lambda>e. e\<lparr>ct_published := Some rid, ct_status := EPublished\<rparr>))))"

definition set_rev_status :: "domain \<Rightarrow> uuid \<Rightarrow> revision_status \<Rightarrow> (cdb, unit) prog" where
  "set_rev_status dm rid st = change (upd_revs dm (\<lambda>r. rv_id r = rid) (\<lambda>r. r\<lparr>rv_status := st\<rparr>))"

definition archive_previous :: "domain \<Rightarrow> uuid option \<Rightarrow> uuid \<Rightarrow> (cdb, unit) prog" where
  "archive_previous dm previous rid =
     (case previous of
        None \<Rightarrow> ret ()
      | Some p \<Rightarrow>
          if p = rid then ret ()
          else bindF (asks (rev_of dm p)) (\<lambda>v.
               bindF (some_or NoResultFound v) (\<lambda>_. set_rev_status dm p RvArchived)))"

record approval =
  ap_entity :: uuid
  ap_published :: uuid
  ap_previous :: "uuid option"
  ap_no :: nat
  ap_sha :: string

definition approve_revision ::
  "cenv \<Rightarrow> string \<Rightarrow> raw_id \<Rightarrow> uuid \<Rightarrow> pystr option \<Rightarrow> (cdb, approval) prog" where
  "approve_revision C target_type revision_id reviewer reason = atomically (
     bindF (raised (require_reason reason)) (\<lambda>why.
     bindF (raised (domain_of target_type)) (\<lambda>dm.
     bindF (raised (parse_id revision_id)) (\<lambda>rid.
     bindF (lock_for_review dm rid) (\<lambda>(e, r).
     bindF (review_gate C e r) (\<lambda>_.
     bindF (if dm = Experts then
              bindF (assert_tools_enabled (rv_id r)) (\<lambda>_.
              assert_skill_refs_published C (list_field ''skill_refs'' (fields_of (rv_content r))))
            else ret ()) (\<lambda>_.
     bindF (set_published dm (ct_id e) (ct_published e) (rv_id r)) (\<lambda>_.
     bindF (set_rev_status dm (rv_id r) RvPublished) (\<lambda>_.
     bindF (archive_previous dm (ct_published e) (rv_id r)) (\<lambda>_.
     bindF (add_review dm (rv_id r) (rv_sha r) True reviewer) (\<lambda>_.
     bindF (on_acct (add_audit (Some reviewer) (entity_type dm @ ''.approve_publish'') (rv_id r) why)) (\<lambda>_.
     ret \<lparr>ap_entity = ct_id e, ap_published = rv_id r, ap_previous = ct_published e,
           ap_no = rv_no r, ap_sha = rv_sha r\<rparr>))))))))))))"

definition reject_revision ::
  "cenv \<Rightarrow> string \<Rightarrow> raw_id \<Rightarrow> uuid \<Rightarrow> pystr option \<Rightarrow> (cdb, uuid) prog" where
  "reject_revision C target_type revision_id reviewer reason = atomically (
     bindF (raised (require_reason reason)) (\<lambda>why.
     bindF (raised (domain_of target_type)) (\<lambda>dm.
     bindF (raised (parse_id revision_id)) (\<lambda>rid.
     bindF (lock_for_review dm rid) (\<lambda>(e, r).
     bindF (review_gate C e r) (\<lambda>_.
     bindF (set_rev_status dm (rv_id r) RvRejected) (\<lambda>_.
     bindF (add_review dm (rv_id r) (rv_sha r) False reviewer) (\<lambda>_.
     bindF (on_acct (add_audit (Some reviewer) (entity_type dm @ ''.reject'') (rv_id r) why)) (\<lambda>_.
     ret (rv_id r))))))))))"

section \<open>Reports\<close>

definition validate_target :: "uuid \<Rightarrow> string \<Rightarrow> uuid \<Rightarrow> (cdb, unit) prog" where
  "validate_target me target_type tid =
     (if target_type = ''expert_revision'' \<or> target_type = ''skill_revision'' then
        bindF (asks (visible_rev (Some me) (if target_type = ''expert_revision'' then Experts else Skills) tid)) (\<lambda>v.
        bindF (some_or not_found v) (\<lambda>r.
        require (rv_status r = RvPublished) (HttpDetail ''REPORT_INVALID_TARGET'' 400)))
      else if target_type = ''message'' then
        bindF (asks (\<lambda>c. find (\<lambda>m. m_id m = tid \<and> m_owner m = me) (messages (work_db (acc_db c))))) (\<lambda>v.
        bindF (some_or not_found v) (\<lambda>m.
        require (m_author m = Assistant) (HttpDetail ''REPORT_INVALID_TARGET'' 400)))
      else throw validation_error)"

definition report_status_name :: "report_status \<Rightarrow> string" where
  "report_status_name s = (case s of RpOpen \<Rightarrow> ''open'' | RpDismissed \<Rightarrow> ''dismissed'' | RpActioned \<Rightarrow> ''actioned'')"

definition report_brief :: "cenv \<Rightarrow> report_row \<Rightarrow> json" where
  "report_brief C r = JObj [
     field ''id'' (uuid_json C (rp_id r)),
     text_field ''target_type'' (rp_target_type r),
     field ''target_id'' (uuid_json C (rp_target r)),
     text_field ''status'' (report_status_name (rp_status r)),
     field ''reason'' (JStr (rp_reason r))]"

definition create_report ::
  "cenv \<Rightarrow> uuid \<Rightarrow> string \<Rightarrow> pystr \<Rightarrow> string option \<Rightarrow> pystr \<Rightarrow> pystr \<Rightarrow> string \<Rightarrow> uuid \<Rightarrow> time
   \<Rightarrow> (cdb, json answer) prog" where
  "create_report C me target_type target_id target_hash reason key h pid now =
     once_content C me ''/api/reports'' key h now (
       bindF (some_uuid C target_id) (\<lambda>tid.
       atomically (
         bindF (validate_target me target_type tid) (\<lambda>_.
         let r = \<lparr>rp_id = pid, rp_reporter = me, rp_target_type = target_type, rp_target = tid,
                  rp_hash = target_hash, rp_status = RpOpen, rp_reason = reason, rp_created = now\<rparr> in
         bindF (asks (\<lambda>c. list_ex (\<lambda>x. rp_id x = pid) (reports c))) (\<lambda>taken.
         bindF (require (\<not> taken) (IntegrityError ''pk_reports'')) (\<lambda>_.
         bindF (change (\<lambda>c. c\<lparr>reports := reports c @ [r]\<rparr>)) (\<lambda>_.
         bindF (keep_answer C me ''/api/reports'' key h (report_brief C r) now) (\<lambda>_.
         ret (report_brief C r)))))))))"

definition valid_actions :: "string list" where
  "valid_actions = [''dismiss'', ''takedown_revision'', ''ban_author'']"

definition set_report_status :: "uuid \<Rightarrow> report_status \<Rightarrow> (cdb, unit) prog" where
  "set_report_status pid st = change (\<lambda>c. c\<lparr>reports := upd (\<lambda>r. rp_id r = pid) (\<lambda>r. r\<lparr>rp_status := st\<rparr>) (reports c)\<rparr>)"

definition report_domain :: "report_row \<Rightarrow> domain" where
  "report_domain r = (if rp_target_type r = ''expert_revision'' then Experts else Skills)"

text \<open>What a resolution answers: the status, the suspended author, the revision taken down.\<close>

record resolution =
  re_status :: report_status
  re_banned :: "uuid option"
  re_down :: "uuid option"

definition resolve_ban_author :: "report_row \<Rightarrow> uuid \<Rightarrow> pystr \<Rightarrow> (cdb, resolution) prog" where
  "resolve_ban_author rp admin why =
     bindF (require (rp_target_type rp \<noteq> ''message'') validation_error) (\<lambda>_.
     bindF (asks (rev_of (report_domain rp) (rp_target rp))) (\<lambda>v.
     bindF (some_or not_found v) (\<lambda>r.
     bindF (asks (entity_of (report_domain rp) (rv_entity r))) (\<lambda>v.
     bindF (some_or NoResultFound v) (\<lambda>e.
     bindF (on_acct (suspend_user_atomic (Uuid (ct_owner e)) True)) (\<lambda>_.
     bindF (set_report_status (rp_id rp) RpActioned) (\<lambda>_.
     bindF (on_acct (add_audit (Some admin) ''report.ban_author'' (rp_id rp) why)) (\<lambda>_.
     ret \<lparr>re_status = RpActioned, re_banned = Some (ct_owner e), re_down = None\<rparr>))))))))"

definition takedown :: "report_row \<Rightarrow> uuid \<Rightarrow> pystr \<Rightarrow> (cdb, resolution) prog" where
  "takedown rp admin why =
     (let dm = report_domain rp in
      bindF (require (rp_target_type rp \<noteq> ''message'') validation_error) (\<lambda>_.
      bindF (asks (rev_of dm (rp_target rp))) (\<lambda>v.
      bindF (some_or not_found v) (\<lambda>r.
      bindF (asks (entity_of dm (rv_entity r))) (\<lambda>v.
      bindF (some_or NoResultFound v) (\<lambda>e.
      bindF (some_or (app_error REVISION_NOT_PUBLISHED 409) (ct_published e)) (\<lambda>current.
      bindF (asks (rev_of dm current)) (\<lambda>v.
      bindF (some_or NoResultFound v) (\<lambda>_.
      bindF (set_rev_status dm current RvArchived) (\<lambda>_.
      bindF (change (upd_entities dm (\<lambda>x. ct_id x = ct_id e) (\<lambda>x. x\<lparr>ct_published := None, ct_status := EDraft\<rparr>))) (\<lambda>_.
      bindF (set_report_status (rp_id rp) RpActioned) (\<lambda>_.
      bindF (on_acct (add_audit (Some admin) ''report.takedown'' (rp_id rp) why)) (\<lambda>_.
      ret \<lparr>re_status = RpActioned, re_banned = None, re_down = Some current\<rparr>)))))))))))))"

definition resolve_report ::
  "raw_id \<Rightarrow> string \<Rightarrow> uuid \<Rightarrow> pystr option \<Rightarrow> (cdb, resolution) prog" where
  "resolve_report report_id action admin reason = atomically (
     bindF (raised (reason_gate reason)) (\<lambda>why.
     bindF (require (action \<in> set valid_actions) validation_error) (\<lambda>_.
     bindF (raised (parse_id report_id)) (\<lambda>pid.
     bindF (asks (\<lambda>c. find (\<lambda>r. rp_id r = pid) (reports c))) (\<lambda>v.
     bindF (some_or not_found v) (\<lambda>rp.
     bindF (require (rp_status rp = RpOpen) (app_error REPORT_ALREADY_RESOLVED 409)) (\<lambda>_.
     if action = ''dismiss'' then
       bindF (set_report_status pid RpDismissed) (\<lambda>_.
       bindF (on_acct (add_audit (Some admin) ''report.dismiss'' pid why)) (\<lambda>_.
       ret \<lparr>re_status = RpDismissed, re_banned = None, re_down = None\<rparr>))
     else if action = ''ban_author'' then resolve_ban_author rp admin why
     else takedown rp admin why)))))))"

section \<open>The tool switch\<close>

text \<open>The result says whether the row was already in the wanted state; \<open>row_id\<close> gives the primary keys of
  the catalogue rows.\<close>

definition set_tool_enabled ::
  "(string \<times> string \<Rightarrow> uuid) \<Rightarrow> string \<Rightarrow> string \<Rightarrow> bool \<Rightarrow> uuid \<Rightarrow> pystr option \<Rightarrow> (cdb, bool) prog" where
  "set_tool_enabled row_id tool version enabled admin reason =
     bindF (raised (reason_gate reason)) (\<lambda>why.
     bindF (asks (\<lambda>c. find (\<lambda>r. tool_name r = tool \<and> tool_version r = version) (tool_rows c))) (\<lambda>v.
     bindF (some_or not_found v) (\<lambda>row.
     if tool_enabled row = enabled then ret True
     else
       bindF (change (upd_work (\<lambda>w. w\<lparr>tool_catalog := upd (\<lambda>r. tool_name r = tool \<and> tool_version r = version)
                (\<lambda>r. r\<lparr>tool_enabled := enabled\<rparr>) (tool_catalog w)\<rparr>))) (\<lambda>_.
       bindF (on_acct (add_audit (Some admin) ''tool_catalog.set_enabled'' (row_id (tool, version)) why)) (\<lambda>_.
       ret False)))))"

text \<open>The terminator runs after the commit; without one the tool is only switched off.\<close>

definition kill_tool ::
  "(string \<times> string \<Rightarrow> uuid) \<Rightarrow> (string \<Rightarrow> string \<Rightarrow> (cdb, 'r) prog) option \<Rightarrow> string \<Rightarrow> string
   \<Rightarrow> uuid \<Rightarrow> pystr option \<Rightarrow> (cdb, bool \<times> 'r option) prog" where
  "kill_tool row_id terminator tool version admin reason =
     bindF (atomically (set_tool_enabled row_id tool version False admin reason)) (\<lambda>already.
     case terminator of
       None \<Rightarrow> ret (already, None)
     | Some stop \<Rightarrow> bindF (stop tool version) (\<lambda>x. ret (already, Some x)))"

section \<open>The public directory\<close>

text \<open>A session without an owner: the published experts joined with the revision they point at.\<close>

definition published_pairs :: "cdb \<Rightarrow> (entity_row \<times> rev_row) list" where
  "published_pairs c = concat (map (\<lambda>e.
     (case ct_published e of
        None \<Rightarrow> []
      | Some rid \<Rightarrow> (case visible_rev None Experts rid c of None \<Rightarrow> [] | Some r \<Rightarrow> [(e, r)])))
     (filter (\<lambda>e. sees_entity None e) (entities c Experts)))"

definition field_text :: "string \<Rightarrow> rev_row \<Rightarrow> pystr option" where
  "field_text k r = (case map_of (fields_of (rv_content r)) (pystr_of k) of Some (JStr s) \<Rightarrow> Some s | _ \<Rightarrow> None)"

text \<open>\<open>ILIKE\<close> on an escaped pattern: the folded text contains the folded search.\<close>

definition contains :: "cenv \<Rightarrow> pystr \<Rightarrow> pystr option \<Rightarrow> bool" where
  "contains C s t = (case t of None \<Rightarrow> False | Some x \<Rightarrow> sublist (lower (acct_env C) s) (lower (acct_env C) x))"

definition list_discover_experts ::
  "cenv \<Rightarrow> string \<Rightarrow> pystr option \<Rightarrow> pystr option \<Rightarrow> nat \<Rightarrow> nat \<Rightarrow> time
   \<Rightarrow> (cdb, (entity_row \<times> rev_row) list \<times> nat) prog" where
  "list_discover_experts C ip search category page page_size now =
     bindF (require (1 \<le> page \<and> 1 \<le> page_size \<and> page_size \<le> 50) validation_error) (\<lambda>_.
     bindF (on_acct (limit_to ''discover'' [ip] now)) (\<lambda>_.
     bindF (asks published_pairs) (\<lambda>pairs.
     let hits = filter (\<lambda>(e, r).
           (case category of None \<Rightarrow> True | Some g \<Rightarrow> field_text ''category'' r = Some g)
           \<and> (case search of None \<Rightarrow> True | Some s \<Rightarrow>
                s = [] \<or> contains C s (field_text ''name'' r) \<or> contains C s (field_text ''description'' r))) pairs;
         newest_first = rev (sort_key (\<lambda>(e, _). ct_created e) (rev hits))
     in ret (take page_size (drop ((page - 1) * page_size) newest_first), length hits))))"

fun public_skills :: "cenv \<Rightarrow> json list \<Rightarrow> cdb \<Rightarrow> (uuid \<times> json \<times> nat) list" where
  "public_skills C [] c = []"
| "public_skills C (ref # refs) c =
     (case ref_ids ref of
        None \<Rightarrow> public_skills C refs c
      | Some (_, t) \<Rightarrow>
          (case parse_uuid C t of
             None \<Rightarrow> public_skills C refs c
           | Some rid \<Rightarrow>
               (case visible_rev None Skills rid c of
                  None \<Rightarrow> public_skills C refs c
                | Some r \<Rightarrow> (rv_entity r, name_of (rv_content r), rv_no r) # public_skills C refs c)))"

definition discover_expert_detail ::
  "cenv \<Rightarrow> string \<Rightarrow> string \<Rightarrow> time
   \<Rightarrow> (cdb, entity_row \<times> rev_row \<times> (string \<times> string) list \<times> (uuid \<times> json \<times> nat) list) prog" where
  "discover_expert_detail C ip expert_id now =
     bindF (some_uuid C (pystr_of expert_id)) (\<lambda>eid.
     bindF (on_acct (limit_to ''discover'' [ip] now)) (\<lambda>_.
     bindF (asks (\<lambda>c. find (\<lambda>(e, _). ct_id e = eid) (published_pairs c))) (\<lambda>v.
     bindF (some_or not_found v) (\<lambda>(e, r).
     bindF (asks (\<lambda>c. map snd (filter (\<lambda>(x, _). x = rv_id r) (tool_links c)))) (\<lambda>tools.
     bindF (asks (public_skills C (list_field ''skill_refs'' (fields_of (rv_content r))))) (\<lambda>skills.
     ret (e, r, tools, skills)))))))"

end
