(* ===== verification/Content_Rules.thy ===== *)
theory Content_Rules
  imports Content_Review Identity_Outcomes
begin

text \<open>
  The well-formed content tables and the public catalogue they stand for. \<open>domain_ok\<close> is the invariant
  of one domain: revisions belong to an entity of the same owner, carry the hash of their content,
  and a published one is the one its entity points at and was approved with exactly this hash. The
  catalogue (\<open>shown\<close>) is the abstract state: what everybody can read. The lemmas give the effect of
  every kind of table change on both.
\<close>

section \<open>The invariant\<close>

definition reviewed :: "domain \<Rightarrow> review_row list \<Rightarrow> rev_row \<Rightarrow> bool" where
  "reviewed dm rws r \<longleftrightarrow>
     list_ex (\<lambda>w. rw_domain w = dm \<and> rw_revision w = rv_id r \<and> rw_sha w = rv_sha r \<and> rw_approved w) rws"

definition rev_ok :: "cenv \<Rightarrow> domain \<Rightarrow> entity_row list \<Rightarrow> review_row list \<Rightarrow> rev_row \<Rightarrow> bool" where
  "rev_ok C dm es rws r \<longleftrightarrow>
     (\<exists>e \<in> set es. ct_id e = rv_entity r \<and> ct_owner e = rv_owner r
        \<and> (rv_status r = RvPublished \<longrightarrow> ct_published e = Some (rv_id r)))
     \<and> rv_sha r = content_sha256 (digest C) (rv_content r)
     \<and> (rv_status r = RvPublished \<longrightarrow> reviewed dm rws r)"

definition entity_ok :: "rev_row list \<Rightarrow> entity_row \<Rightarrow> bool" where
  "entity_ok rs e \<longleftrightarrow> ct_status e \<noteq> EArchived
     \<and> (case ct_published e of
          None \<Rightarrow> ct_status e = EDraft
        | Some p \<Rightarrow> \<exists>r \<in> set rs. rv_id r = p \<and> rv_entity r = ct_id e \<and> rv_status r = RvPublished)"

definition domain_ok :: "cenv \<Rightarrow> domain \<Rightarrow> entity_row list \<Rightarrow> rev_row list \<Rightarrow> review_row list \<Rightarrow> bool" where
  "domain_ok C dm es rs rws \<longleftrightarrow> distinct (map ct_id es) \<and> distinct (map rv_id rs)
     \<and> distinct (map (\<lambda>r. (rv_entity r, rv_no r)) rs)
     \<and> (\<forall>r \<in> set rs. rev_ok C dm es rws r) \<and> (\<forall>e \<in> set es. entity_ok rs e)"

definition content_ok :: "cenv \<Rightarrow> cdb \<Rightarrow> bool" where
  "content_ok C c \<longleftrightarrow> (\<forall>dm. domain_ok C dm (entities c dm) (revs c dm) (reviews c))"

section \<open>The catalogue\<close>

type_synonym catalogue = "domain \<Rightarrow> uuid \<Rightarrow> (uuid \<times> json) option"

definition shown :: "entity_row list \<Rightarrow> rev_row list \<Rightarrow> uuid \<Rightarrow> (uuid \<times> json) option" where
  "shown es rs eid = (case find (\<lambda>e. ct_id e = eid) es of
       None \<Rightarrow> None
     | Some e \<Rightarrow>
         if ct_status e \<noteq> EPublished then None
         else (case ct_published e of
             None \<Rightarrow> None
           | Some p \<Rightarrow> map_option (\<lambda>r. (ct_owner e, rv_content r)) (find (\<lambda>r. rv_id r = p) rs)))"

definition public_content :: "cdb \<Rightarrow> catalogue" where
  "public_content c dm = shown (entities c dm) (revs c dm)"

lemma find_by_key: "distinct (map k xs) \<Longrightarrow> find (\<lambda>x. k x = a) xs = Some y \<longleftrightarrow> y \<in> set xs \<and> k y = a"
  using find_key [of k xs y "\<lambda>_. True"] find_Some_D [of "\<lambda>x. k x = a" xs y] by auto

lemma shown_Some:
  assumes "distinct (map ct_id es)" and "distinct (map rv_id rs)"
  shows "shown es rs eid = Some x \<longleftrightarrow>
     (\<exists>e \<in> set es. \<exists>r \<in> set rs. ct_id e = eid \<and> ct_status e = EPublished \<and> ct_published e = Some (rv_id r)
        \<and> x = (ct_owner e, rv_content r))"
proof
  assume "shown es rs eid = Some x"
  then show "\<exists>e \<in> set es. \<exists>r \<in> set rs. ct_id e = eid \<and> ct_status e = EPublished \<and> ct_published e = Some (rv_id r)
        \<and> x = (ct_owner e, rv_content r)"
    by (auto simp: shown_def find_by_key [OF assms(1)] find_by_key [OF assms(2)] split: option.splits if_splits)
next
  assume "\<exists>e \<in> set es. \<exists>r \<in> set rs. ct_id e = eid \<and> ct_status e = EPublished \<and> ct_published e = Some (rv_id r)
        \<and> x = (ct_owner e, rv_content r)"
  then obtain e r where e: "e \<in> set es" "ct_id e = eid" and r: "r \<in> set rs"
    and p: "ct_status e = EPublished" "ct_published e = Some (rv_id r)" "x = (ct_owner e, rv_content r)" by blast
  have "find (\<lambda>e. ct_id e = eid) es = Some e" using e by (simp add: find_by_key [OF assms(1)])
  moreover have "find (\<lambda>s. rv_id s = rv_id r) rs = Some r" using r by (simp add: find_by_key [OF assms(2)])
  ultimately show "shown es rs eid = Some x" using p by (simp add: shown_def)
qed

lemma shown_eqI:
  assumes "distinct (map ct_id es)" "distinct (map rv_id rs)" "distinct (map ct_id es')" "distinct (map rv_id rs')"
    and "\<And>x. (\<exists>e \<in> set es. \<exists>r \<in> set rs. ct_id e = eid \<and> ct_status e = EPublished \<and> ct_published e = Some (rv_id r)
        \<and> x = (ct_owner e, rv_content r)) \<longleftrightarrow>
      (\<exists>e \<in> set es'. \<exists>r \<in> set rs'. ct_id e = eid \<and> ct_status e = EPublished \<and> ct_published e = Some (rv_id r)
        \<and> x = (ct_owner e, rv_content r))"
  shows "shown es rs eid = shown es' rs' eid"
  using assms(5) unfolding shown_Some [OF assms(1,2), symmetric] shown_Some [OF assms(3,4), symmetric]
  by (metis option.exhaust)

lemma domain_okD:
  assumes "domain_ok C dm es rs rws"
  shows "distinct (map ct_id es)" "distinct (map rv_id rs)" "distinct (map (\<lambda>r. (rv_entity r, rv_no r)) rs)"
    "\<And>r. r \<in> set rs \<Longrightarrow> rev_ok C dm es rws r" "\<And>e. e \<in> set es \<Longrightarrow> entity_ok rs e"
  using assms by (auto simp: domain_ok_def)

lemma entity_unique:
  "domain_ok C dm es rs rws \<Longrightarrow> e \<in> set es \<Longrightarrow> x \<in> set es \<Longrightarrow> ct_id e = ct_id x \<Longrightarrow> e = x"
  by (metis domain_okD(1) distinct_key)

lemma rev_unique:
  "domain_ok C dm es rs rws \<Longrightarrow> r \<in> set rs \<Longrightarrow> x \<in> set rs \<Longrightarrow> rv_id r = rv_id x \<Longrightarrow> r = x"
  by (metis domain_okD(2) distinct_key)

lemma published_by:
  assumes "domain_ok C dm es rs rws" and "r \<in> set rs" and "rv_status r = RvPublished"
    and "e \<in> set es" and "rv_entity r = ct_id e"
  shows "ct_published e = Some (rv_id r) \<and> reviewed dm rws r"
proof -
  obtain x where "x \<in> set es" "ct_id x = rv_entity r" "ct_published x = Some (rv_id r)"
    using domain_okD(4) [OF assms(1,2)] assms(3) by (auto simp: rev_ok_def)
  then show ?thesis
    using entity_unique [OF assms(1) _ assms(4)] domain_okD(4) [OF assms(1,2)] assms(3,5) by (auto simp: rev_ok_def)
qed

section \<open>Changes of the tables\<close>

lemma reviewed_grows: "reviewed dm rws r \<Longrightarrow> reviewed dm (rws @ ws) r"
  by (simp add: reviewed_def)

lemma domain_ok_reviews: "domain_ok C dm es rs rws \<Longrightarrow> domain_ok C dm es rs (rws @ ws)"
  unfolding domain_ok_def rev_ok_def using reviewed_grows by blast

lemma add_entity_ok:
  assumes "domain_ok C dm es rs rws" and "ct_id e \<notin> ct_id ` set es" and "ct_published e = None" and "ct_status e = EDraft"
  shows "domain_ok C dm (es @ [e]) rs rws \<and> shown (es @ [e]) rs = shown es rs"
proof
  show "domain_ok C dm (es @ [e]) rs rws"
    using assms unfolding domain_ok_def by (auto simp: rev_ok_def entity_ok_def)
  then show "shown (es @ [e]) rs = shown es rs"
    by (intro ext shown_eqI) (use assms in \<open>auto simp: domain_okD\<close>)
qed

lemma add_rev_ok:
  assumes ok: "domain_ok C dm es rs rws" and new: "rv_id r \<notin> rv_id ` set rs"
    and no: "(rv_entity r, rv_no r) \<notin> (\<lambda>r. (rv_entity r, rv_no r)) ` set rs"
    and e: "e \<in> set es" "ct_id e = rv_entity r" "ct_owner e = rv_owner r"
    and r: "rv_sha r = content_sha256 (digest C) (rv_content r)" "rv_status r \<noteq> RvPublished"
  shows "domain_ok C dm es (rs @ [r]) rws \<and> shown es (rs @ [r]) = shown es rs"
proof
  have ents: "entity_ok (rs @ [r]) x" if "x \<in> set es" for x
    using domain_okD(5) [OF ok that] by (auto simp: entity_ok_def split: option.splits)
  have "rev_ok C dm es rws r" using e r by (auto simp: rev_ok_def)
  then show ok': "domain_ok C dm es (rs @ [r]) rws"
    using ok new no ents unfolding domain_ok_def by auto
  have old: "\<exists>s \<in> set rs. rv_id s = p" if "x \<in> set es" "ct_published x = Some p" for x p
    using domain_okD(5) [OF ok that(1)] that(2) by (auto simp: entity_ok_def)
  show "shown es (rs @ [r]) = shown es rs"
  proof (intro ext shown_eqI domain_okD [OF ok] domain_okD [OF ok'])
    fix eid x
    have "ct_published y \<noteq> Some (rv_id r)" if "y \<in> set es" for y using old [OF that] new by (metis image_eqI)
    then show "(\<exists>e \<in> set es. \<exists>s \<in> set (rs @ [r]). ct_id e = eid \<and> ct_status e = EPublished \<and> ct_published e = Some (rv_id s)
        \<and> x = (ct_owner e, rv_content s)) \<longleftrightarrow>
      (\<exists>e \<in> set es. \<exists>s \<in> set rs. ct_id e = eid \<and> ct_status e = EPublished \<and> ct_published e = Some (rv_id s)
        \<and> x = (ct_owner e, rv_content s))" by auto
  qed
qed

text \<open>Rewriting revisions that are not published, and stay so.\<close>

lemma upd_revs_ok:
  assumes ok: "domain_ok C dm es rs rws"
    and f: "\<And>r. r \<in> set rs \<Longrightarrow> P r \<Longrightarrow> rv_id (f r) = rv_id r \<and> rv_entity (f r) = rv_entity r \<and> rv_owner (f r) = rv_owner r
        \<and> rv_no (f r) = rv_no r \<and> rv_status r \<noteq> RvPublished \<and> rv_status (f r) \<noteq> RvPublished
        \<and> rv_sha (f r) = content_sha256 (digest C) (rv_content (f r))"
  shows "domain_ok C dm es (upd P f rs) rws \<and> shown es (upd P f rs) = shown es rs"
proof
  have m: "map g (upd P f rs) = map g rs" if "\<And>r. r \<in> set rs \<Longrightarrow> P r \<Longrightarrow> g (f r) = g r" for g :: "rev_row \<Rightarrow> 'x"
    using that by (simp add: upd_def)
  have ents: "entity_ok (upd P f rs) x" if "x \<in> set es" for x
    using domain_okD(5) [OF ok that] f by (fastforce simp: entity_ok_def split: option.splits)
  have rv: "rev_ok C dm es rws (if P r then f r else r)" if "r \<in> set rs" for r
    using domain_okD(4) [OF ok that] f [OF that] by (auto simp: rev_ok_def)
  show ok': "domain_ok C dm es (upd P f rs) rws"
    using domain_okD(1,2,3) [OF ok] ents rv f unfolding domain_ok_def by (auto simp: m)
  have pub: "rv_status s = RvPublished"
    if e: "e \<in> set es" and p: "ct_published e = Some (rv_id s)" and s: "s \<in> set rs" for e s
  proof -
    obtain r where "r \<in> set rs" "rv_id r = rv_id s" "rv_status r = RvPublished"
      using domain_okD(5) [OF ok e] p by (auto simp: entity_ok_def)
    then show ?thesis using rev_unique [OF ok] s by blast
  qed
  show "shown es (upd P f rs) = shown es rs"
  proof (intro ext shown_eqI domain_okD [OF ok] domain_okD [OF ok'])
    fix eid x
    have "(\<exists>s \<in> set (upd P f rs). ct_published e = Some (rv_id s) \<and> x = (ct_owner e, rv_content s)) \<longleftrightarrow>
        (\<exists>s \<in> set rs. ct_published e = Some (rv_id s) \<and> x = (ct_owner e, rv_content s))" if e: "e \<in> set es" for e
      unfolding bex_upd using pub [OF e] f by (metis (mono_tags))
    then show "(\<exists>e \<in> set es. \<exists>s \<in> set (upd P f rs). ct_id e = eid \<and> ct_status e = EPublished \<and> ct_published e = Some (rv_id s)
        \<and> x = (ct_owner e, rv_content s)) \<longleftrightarrow>
      (\<exists>e \<in> set es. \<exists>s \<in> set rs. ct_id e = eid \<and> ct_status e = EPublished \<and> ct_published e = Some (rv_id s)
        \<and> x = (ct_owner e, rv_content s))" by blast
  qed
qed

text \<open>Rewriting entities, and the statuses of revisions.\<close>

lemma find_map: "find P (map f xs) = map_option f (find (P \<circ> f) xs)"
  by (induction xs) auto

lemma shown_map:
  assumes "\<And>e. ct_id (fe e) = ct_id e" and "\<And>e. ct_owner (fe e) = ct_owner e"
  shows "shown (map fe es) (map (\<lambda>r. r\<lparr>rv_status := h r\<rparr>) rs) eid =
    (case find (\<lambda>e. ct_id e = eid) es of
       None \<Rightarrow> None
     | Some e \<Rightarrow>
         if ct_status (fe e) \<noteq> EPublished then None
         else (case ct_published (fe e) of
             None \<Rightarrow> None
           | Some p \<Rightarrow> map_option (\<lambda>r. (ct_owner e, rv_content r)) (find (\<lambda>r. rv_id r = p) rs)))"
  using assms by (auto simp: shown_def find_map o_def option.map_comp split: option.splits)

lemma restatus_ok:
  assumes ok: "domain_ok C dm es rs rws"
    and fe: "\<And>e. ct_id (fe e) = ct_id e" "\<And>e. ct_owner (fe e) = ct_owner e"
    and pub: "\<And>r. r \<in> set rs \<Longrightarrow> h r = RvPublished \<Longrightarrow>
      (\<exists>e \<in> set es. ct_id e = rv_entity r \<and> ct_published (fe e) = Some (rv_id r)) \<and> reviewed dm (rws @ ws) r"
    and ents: "\<And>e. e \<in> set es \<Longrightarrow> entity_ok (map (\<lambda>r. r\<lparr>rv_status := h r\<rparr>) rs) (fe e)"
  shows "domain_ok C dm (map fe es) (map (\<lambda>r. r\<lparr>rv_status := h r\<rparr>) rs) (rws @ ws)"
proof -
  have rv: "rev_ok C dm (map fe es) (rws @ ws) (r\<lparr>rv_status := h r\<rparr>)" if r: "r \<in> set rs" for r
  proof -
    obtain e where e: "e \<in> set es" "ct_id e = rv_entity r" "ct_owner e = rv_owner r"
      using domain_okD(4) [OF ok r] by (auto simp: rev_ok_def)
    have "ct_published (fe e) = Some (rv_id r) \<and> reviewed dm (rws @ ws) (r\<lparr>rv_status := h r\<rparr>)" if "h r = RvPublished"
      using pub [OF r that] entity_unique [OF ok e(1)] e(2) by (auto simp: reviewed_def)
    then show ?thesis using e fe domain_okD(4) [OF ok r] by (auto simp: rev_ok_def)
  qed
  show ?thesis
    using domain_okD(1,2,3) [OF ok] rv ents unfolding domain_ok_def by (auto simp: o_def fe)
qed

lemma upd_as_map: "upd (\<lambda>e. ct_id e = i \<and> Q e) f es = map (\<lambda>e. if ct_id e = i \<and> Q e then f e else e) es"
  by (simp add: upd_def)

lemma find_entity: "domain_ok C dm es rs rws \<Longrightarrow> e \<in> set es \<Longrightarrow> find (\<lambda>x. ct_id x = ct_id e) es = Some e"
  by (simp add: find_by_key [OF domain_okD(1)])

lemma find_rev: "domain_ok C dm es rs rws \<Longrightarrow> r \<in> set rs \<Longrightarrow> find (\<lambda>x. rv_id x = rv_id r) rs = Some r"
  by (simp add: find_by_key [OF domain_okD(2)])

text \<open>One entity and its revisions: \<open>e\<close> becomes \<open>e'\<close>, the revisions in \<open>h\<close> change status.\<close>

lemma one_entity_ok:
  assumes ok: "domain_ok C dm es rs rws" and e: "e \<in> set es"
    and e': "ct_id e' = ct_id e" "ct_owner e' = ct_owner e"
    and es': "es' = map (\<lambda>x. if x = e then e' else x) es"
    and other: "\<And>r. r \<in> set rs \<Longrightarrow> rv_entity r \<noteq> ct_id e \<Longrightarrow> h r = rv_status r"
    and pub: "\<And>r. r \<in> set rs \<Longrightarrow> rv_entity r = ct_id e \<Longrightarrow> h r = RvPublished \<Longrightarrow>
      ct_published e' = Some (rv_id r) \<and> reviewed dm (rws @ ws) r"
    and ent: "entity_ok (map (\<lambda>r. r\<lparr>rv_status := h r\<rparr>) rs) e'"
  shows "domain_ok C dm es' (map (\<lambda>r. r\<lparr>rv_status := h r\<rparr>) rs) (rws @ ws)
    \<and> shown es' (map (\<lambda>r. r\<lparr>rv_status := h r\<rparr>) rs) = (shown es rs)(ct_id e :=
        (if ct_status e' \<noteq> EPublished then None
         else (case ct_published e' of None \<Rightarrow> None
           | Some p \<Rightarrow> map_option (\<lambda>r. (ct_owner e, rv_content r)) (find (\<lambda>r. rv_id r = p) rs))))"
proof
  have ents: "entity_ok (map (\<lambda>r. r\<lparr>rv_status := h r\<rparr>) rs) x" if x: "x \<in> set es" "x \<noteq> e" for x
  proof -
    have "ct_id x \<noteq> ct_id e" using entity_unique [OF ok x(1) e] x(2) by blast
    then show ?thesis using domain_okD(5) [OF ok x(1)] other
      by (fastforce simp: entity_ok_def split: option.splits)
  qed
  have pubs: "(\<exists>x \<in> set es. ct_id x = rv_entity r \<and> ct_published (if x = e then e' else x) = Some (rv_id r)) \<and> reviewed dm (rws @ ws) r"
    if r: "r \<in> set rs" and h: "h r = RvPublished" for r
  proof (cases "rv_entity r = ct_id e")
    case True
    then show ?thesis using pub [OF r _ h] e by (intro conjI bexI [of _ e]) auto
  next
    case False
    then have "rv_status r = RvPublished" using other [OF r] h by simp
    then show ?thesis using domain_okD(4) [OF ok r] False reviewed_grows unfolding rev_ok_def
      by (intro conjI) force+
  qed
  show "domain_ok C dm es' (map (\<lambda>r. r\<lparr>rv_status := h r\<rparr>) rs) (rws @ ws)" unfolding es'
    by (rule restatus_ok [OF ok]) (use e' pubs ent ents in auto)
  show "shown es' (map (\<lambda>r. r\<lparr>rv_status := h r\<rparr>) rs) = (shown es rs)(ct_id e :=
        (if ct_status e' \<noteq> EPublished then None
         else (case ct_published e' of None \<Rightarrow> None
           | Some p \<Rightarrow> map_option (\<lambda>r. (ct_owner e, rv_content r)) (find (\<lambda>r. rv_id r = p) rs))))"
  proof
    fix eid
    have "shown es' (map (\<lambda>r. r\<lparr>rv_status := h r\<rparr>) rs) eid =
      (case find (\<lambda>x. ct_id x = eid) es of None \<Rightarrow> None
       | Some x \<Rightarrow> if ct_status (if x = e then e' else x) \<noteq> EPublished then None
         else (case ct_published (if x = e then e' else x) of None \<Rightarrow> None
           | Some p \<Rightarrow> map_option (\<lambda>r. (ct_owner x, rv_content r)) (find (\<lambda>r. rv_id r = p) rs)))"
      unfolding es' by (rule shown_map) (use e' in auto)
    then show "shown es' (map (\<lambda>r. r\<lparr>rv_status := h r\<rparr>) rs) eid = ((shown es rs)(ct_id e :=
        (if ct_status e' \<noteq> EPublished then None
         else (case ct_published e' of None \<Rightarrow> None
           | Some p \<Rightarrow> map_option (\<lambda>r. (ct_owner e, rv_content r)) (find (\<lambda>r. rv_id r = p) rs))))) eid"
      using find_entity [OF ok e] by (auto simp: shown_def dest: find_Some_D split: option.splits)
  qed
qed

lemma upd_only:
  assumes "\<And>x. x \<in> set xs \<Longrightarrow> P x \<longleftrightarrow> x = a"
  shows "upd P f xs = map (\<lambda>x. if x = a then f a else x) xs"
  using assms by (auto simp: upd_def)

lemma map_same_status: "map (\<lambda>r. r\<lparr>rv_status := rv_status r\<rparr>) rs = rs"
  by simp

lemma offline_ok:
  assumes ok: "domain_ok C dm es rs rws" and e: "e \<in> set es" and p: "ct_status e = EPublished"
  shows "domain_ok C dm (upd (\<lambda>x. ct_id x = ct_id e \<and> ct_owner x = ct_owner e) (\<lambda>x. x\<lparr>ct_status := EDraft\<rparr>) es) rs rws
    \<and> shown (upd (\<lambda>x. ct_id x = ct_id e \<and> ct_owner x = ct_owner e) (\<lambda>x. x\<lparr>ct_status := EDraft\<rparr>) es) rs
        = (shown es rs)(ct_id e := None)"
proof -
  have u: "upd (\<lambda>x. ct_id x = ct_id e \<and> ct_owner x = ct_owner e) (\<lambda>x. x\<lparr>ct_status := EDraft\<rparr>) es
      = map (\<lambda>x. if x = e then e\<lparr>ct_status := EDraft\<rparr> else x) es"
    by (rule upd_only) (use entity_unique [OF ok _ e] in auto)
  have "entity_ok rs (e\<lparr>ct_status := EDraft\<rparr>)"
    using domain_okD(5) [OF ok e] by (auto simp: entity_ok_def split: option.splits)
  moreover have "ct_published e = Some (rv_id r) \<and> reviewed dm rws r"
    if "r \<in> set rs" "rv_entity r = ct_id e" "rv_status r = RvPublished" for r
    using published_by [OF ok that(1,3) e that(2)] .
  ultimately show ?thesis
    using one_entity_ok [OF ok e, of "e\<lparr>ct_status := EDraft\<rparr>" _ rv_status "[]"] unfolding u map_same_status by simp
qed

definition publish_revs :: "uuid \<Rightarrow> uuid option \<Rightarrow> rev_row list \<Rightarrow> rev_row list" where
  "publish_revs rid previous rs = map (\<lambda>r. r\<lparr>rv_status :=
     (if rv_id r = rid then RvPublished else if previous = Some (rv_id r) then RvArchived else rv_status r)\<rparr>) rs"

lemma publish_ok:
  assumes ok: "domain_ok C dm es rs rws" and e: "e \<in> set es" and r: "r \<in> set rs"
    and er: "rv_entity r = ct_id e" and p: "rv_status r = RvPending"
    and ws: "reviewed dm (rws @ ws) r"
  shows "domain_ok C dm (upd (\<lambda>x. ct_id x = ct_id e \<and> ct_published x = ct_published e)
        (\<lambda>x. x\<lparr>ct_published := Some (rv_id r), ct_status := EPublished\<rparr>) es)
      (publish_revs (rv_id r) (ct_published e) rs) (rws @ ws)
    \<and> shown (upd (\<lambda>x. ct_id x = ct_id e \<and> ct_published x = ct_published e)
        (\<lambda>x. x\<lparr>ct_published := Some (rv_id r), ct_status := EPublished\<rparr>) es)
      (publish_revs (rv_id r) (ct_published e) rs) = (shown es rs)(ct_id e := Some (ct_owner e, rv_content r))"
proof -
  let ?e = "e\<lparr>ct_published := Some (rv_id r), ct_status := EPublished\<rparr>"
  let ?es = "map (\<lambda>x. if x = e then ?e else x) es"
  let ?h = "\<lambda>x. if rv_id x = rv_id r then RvPublished
     else if ct_published e = Some (rv_id x) then RvArchived else rv_status x"
  have u: "upd (\<lambda>x. ct_id x = ct_id e \<and> ct_published x = ct_published e)
        (\<lambda>x. x\<lparr>ct_published := Some (rv_id r), ct_status := EPublished\<rparr>) es = map (\<lambda>x. if x = e then ?e else x) es"
    by (rule upd_only) (use entity_unique [OF ok _ e] in auto)
  have mine: "rv_entity x = ct_id e" if x: "x \<in> set rs" "ct_published e = Some (rv_id x)" for x
  proof -
    obtain y where "y \<in> set rs" "rv_id y = rv_id x" "rv_entity y = ct_id e"
      using domain_okD(5) [OF ok e] x(2) by (auto simp: entity_ok_def)
    then show ?thesis using rev_unique [OF ok] x(1) by blast
  qed
  have pub: "ct_published ?e = Some (rv_id x) \<and> reviewed dm (rws @ ws) x"
    if x: "x \<in> set rs" "rv_entity x = ct_id e" "?h x = RvPublished" for x
  proof (cases "rv_id x = rv_id r")
    case True
    then show ?thesis using rev_unique [OF ok x(1) r] ws by simp
  next
    case False
    then have "rv_status x = RvPublished" "ct_published e \<noteq> Some (rv_id x)" using x(3) by (auto split: if_splits)
    then show ?thesis using published_by [OF ok x(1) _ e x(2)] by simp
  qed
  have other: "?h x = rv_status x" if x: "x \<in> set rs" "rv_entity x \<noteq> ct_id e" for x
    using x mine [OF x(1)] rev_unique [OF ok x(1) r] er by auto
  have "entity_ok (map (\<lambda>x. x\<lparr>rv_status := ?h x\<rparr>) rs) ?e" using r er by (auto simp: entity_ok_def)
  with other pub have "domain_ok C dm ?es (map (\<lambda>x. x\<lparr>rv_status := ?h x\<rparr>) rs) (rws @ ws)
    \<and> shown ?es (map (\<lambda>x. x\<lparr>rv_status := ?h x\<rparr>) rs) = (shown es rs)(ct_id e :=
        (if ct_status ?e \<noteq> EPublished then None
         else (case ct_published ?e of None \<Rightarrow> None
           | Some p \<Rightarrow> map_option (\<lambda>r. (ct_owner e, rv_content r)) (find (\<lambda>r. rv_id r = p) rs))))"
    by (intro one_entity_ok [OF ok e _ _ refl]) simp_all
  moreover have "(if ct_status ?e \<noteq> EPublished then None
      else (case ct_published ?e of None \<Rightarrow> None
        | Some p \<Rightarrow> map_option (\<lambda>r. (ct_owner e, rv_content r)) (find (\<lambda>r. rv_id r = p) rs))) = Some (ct_owner e, rv_content r)"
    by (simp add: find_rev [OF ok r])
  ultimately show ?thesis unfolding u publish_revs_def by (simp only:)
qed

lemma takedown_ok:
  assumes ok: "domain_ok C dm es rs rws" and e: "e \<in> set es" and p: "ct_published e = Some p"
  shows "domain_ok C dm (upd (\<lambda>x. ct_id x = ct_id e) (\<lambda>x. x\<lparr>ct_published := None, ct_status := EDraft\<rparr>) es)
      (upd (\<lambda>r. rv_id r = p) (\<lambda>r. r\<lparr>rv_status := RvArchived\<rparr>) rs) rws
    \<and> shown (upd (\<lambda>x. ct_id x = ct_id e) (\<lambda>x. x\<lparr>ct_published := None, ct_status := EDraft\<rparr>) es)
      (upd (\<lambda>r. rv_id r = p) (\<lambda>r. r\<lparr>rv_status := RvArchived\<rparr>) rs) = (shown es rs)(ct_id e := None)"
proof -
  let ?e = "e\<lparr>ct_published := None, ct_status := EDraft\<rparr>"
  let ?es = "map (\<lambda>x. if x = e then ?e else x) es"
  let ?h = "\<lambda>x. if rv_id x = p then RvArchived else rv_status x"
  have u: "upd (\<lambda>x. ct_id x = ct_id e) (\<lambda>x. x\<lparr>ct_published := None, ct_status := EDraft\<rparr>) es
      = map (\<lambda>x. if x = e then ?e else x) es"
    by (rule upd_only) (use entity_unique [OF ok _ e] in auto)
  have v: "upd (\<lambda>r. rv_id r = p) (\<lambda>r. r\<lparr>rv_status := RvArchived\<rparr>) rs = map (\<lambda>x. x\<lparr>rv_status := ?h x\<rparr>) rs"
    by (auto simp: upd_def)
  have mine: "rv_entity x = ct_id e" if x: "x \<in> set rs" "rv_id x = p" for x
  proof -
    obtain y where "y \<in> set rs" "rv_id y = p" "rv_entity y = ct_id e"
      using domain_okD(5) [OF ok e] p by (auto simp: entity_ok_def)
    then show ?thesis using rev_unique [OF ok x(1)] x(2) by blast
  qed
  have other: "?h x = rv_status x" if x: "x \<in> set rs" "rv_entity x \<noteq> ct_id e" for x
    using mine x by auto
  have "?h x \<noteq> RvPublished" if x: "x \<in> set rs" "rv_entity x = ct_id e" for x
    using published_by [OF ok x(1) _ e x(2)] p by auto
  then have pub: "ct_published ?e = Some (rv_id x) \<and> reviewed dm (rws @ []) x"
    if x: "x \<in> set rs" "rv_entity x = ct_id e" "?h x = RvPublished" for x
    using x by blast
  have "entity_ok (map (\<lambda>x. x\<lparr>rv_status := ?h x\<rparr>) rs) ?e" by (simp add: entity_ok_def)
  with other pub have "domain_ok C dm ?es (map (\<lambda>x. x\<lparr>rv_status := ?h x\<rparr>) rs) (rws @ [])
    \<and> shown ?es (map (\<lambda>x. x\<lparr>rv_status := ?h x\<rparr>) rs) = (shown es rs)(ct_id e :=
        (if ct_status ?e \<noteq> EPublished then None
         else (case ct_published ?e of None \<Rightarrow> None
           | Some p \<Rightarrow> map_option (\<lambda>r. (ct_owner e, rv_content r)) (find (\<lambda>r. rv_id r = p) rs))))"
    by (intro one_entity_ok [OF ok e _ _ refl]) simp_all
  moreover have "(if ct_status ?e \<noteq> EPublished then None
      else (case ct_published ?e of None \<Rightarrow> None
        | Some p \<Rightarrow> map_option (\<lambda>r. (ct_owner e, rv_content r)) (find (\<lambda>r. rv_id r = p) rs))) = None"
    by simp
  ultimately show ?thesis unfolding u v by (simp only: append_Nil2)
qed

lemma delete_ok:
  assumes ok: "domain_ok C dm es rs rws"
  shows "domain_ok C dm (filter (\<lambda>e. ct_id e \<noteq> eid) es) (filter (\<lambda>r. rv_entity r \<noteq> eid) rs) rws
    \<and> shown (filter (\<lambda>e. ct_id e \<noteq> eid) es) (filter (\<lambda>r. rv_entity r \<noteq> eid) rs) = (shown es rs)(eid := None)"
proof
  have rv: "rev_ok C dm (filter (\<lambda>e. ct_id e \<noteq> eid) es) rws r" if "r \<in> set rs" "rv_entity r \<noteq> eid" for r
    using domain_okD(4) [OF ok that(1)] that(2) by (auto simp: rev_ok_def)
  have ent: "entity_ok (filter (\<lambda>r. rv_entity r \<noteq> eid) rs) e" if "e \<in> set es" "ct_id e \<noteq> eid" for e
    using domain_okD(5) [OF ok that(1)] that(2) by (auto simp: entity_ok_def split: option.splits)
  show ok': "domain_ok C dm (filter (\<lambda>e. ct_id e \<noteq> eid) es) (filter (\<lambda>r. rv_entity r \<noteq> eid) rs) rws"
    using domain_okD(1,2,3) [OF ok] rv ent unfolding domain_ok_def by (simp add: distinct_map_filter)
  show "shown (filter (\<lambda>e. ct_id e \<noteq> eid) es) (filter (\<lambda>r. rv_entity r \<noteq> eid) rs) = (shown es rs)(eid := None)"
  proof
    fix i
    show "shown (filter (\<lambda>e. ct_id e \<noteq> eid) es) (filter (\<lambda>r. rv_entity r \<noteq> eid) rs) i = ((shown es rs)(eid := None)) i"
    proof (cases "i = eid")
      case True
      have "find (\<lambda>e. ct_id e = eid) (filter (\<lambda>e. ct_id e \<noteq> eid) es) = None" by (simp add: find_None_iff)
      then show ?thesis using True by (simp add: shown_def)
    next
      case False
      have keep: "rv_entity r = ct_id e" if "e \<in> set es" "r \<in> set rs" "ct_published e = Some (rv_id r)" for e r
        using domain_okD(5) [OF ok that(1)] that rev_unique [OF ok] by (auto simp: entity_ok_def)
      show ?thesis unfolding fun_upd_other [OF False]
        by (rule shown_eqI [OF domain_okD(1,2) [OF ok'] domain_okD(1,2) [OF ok]]) (use False keep in \<open>auto; metis\<close>)
    qed
  qed
qed

lemma delete_pointers:
  assumes ok: "domain_ok C dm es rs rws"
  shows "upd (\<lambda>e. \<exists>r \<in> set (map rv_id (filter (\<lambda>r. rv_entity r = eid) rs)). ct_published e = Some r) f
      (filter (\<lambda>e. ct_id e \<noteq> eid) es) = filter (\<lambda>e. ct_id e \<noteq> eid) es"
proof (rule upd_False)
  fix e assume e: "e \<in> set (filter (\<lambda>e. ct_id e \<noteq> eid) es)"
  then have "entity_ok rs e" using domain_okD(5) [OF ok] by simp
  then show "\<not> (\<exists>r \<in> set (map rv_id (filter (\<lambda>r. rv_entity r = eid) rs)). ct_published e = Some r)"
    using e rev_unique [OF ok] by (fastforce simp: entity_ok_def)
qed

end
