(* ===== verification/Content_System.thy ===== *)
theory Content_System
  imports Content_Rules
begin

text \<open>
  The content services as a labelled transition system over the abstract catalogue. Every request,
  with any arguments and whether it succeeds or fails, is a step; its label says what it does to the
  public: nothing, show a content under an entity, or hide the entity. The simulation shows that the
  detailed tables follow the labels and stay well-formed.
\<close>

section \<open>Effects\<close>

datatype effect = Silent | Show domain uuid "uuid \<times> json" | Hide domain uuid

fun apply_effect :: "effect \<Rightarrow> catalogue \<Rightarrow> catalogue" where
  "apply_effect Silent K = K"
| "apply_effect (Show dm i x) K = K(dm := (K dm)(i \<mapsto> x))"
| "apply_effect (Hide dm i) K = K(dm := (K dm)(i := None))"

definition effect_ok :: "cenv \<Rightarrow> effect \<Rightarrow> cdb \<Rightarrow> cdb \<Rightarrow> bool" where
  "effect_ok C a c c' \<longleftrightarrow> (content_ok C c \<longrightarrow>
     content_ok C c' \<and> public_content c' = apply_effect a (public_content c))"

lemma effect_okI:
  "(content_ok C c \<Longrightarrow> content_ok C c' \<and> public_content c' = apply_effect a (public_content c)) \<Longrightarrow> effect_ok C a c c'"
  by (simp add: effect_ok_def)

definition same_core :: "cdb \<Rightarrow> cdb \<Rightarrow> bool" where
  "same_core c c' \<longleftrightarrow> entities c' = entities c \<and> revs c' = revs c \<and> reviews c' = reviews c"

lemma same_core_refl: "same_core c c"
  by (simp add: same_core_def)

lemma same_core_trans: "same_core a b \<Longrightarrow> same_core b c \<Longrightarrow> same_core a c"
  by (simp add: same_core_def)

lemma silent_core: "same_core c c' \<Longrightarrow> effect_ok C Silent c c'"
  by (simp add: effect_ok_def content_ok_def public_content_def fun_eq_iff same_core_def)

lemma effect_after_silent: "effect_ok C Silent c c1 \<Longrightarrow> effect_ok C a c1 c' \<Longrightarrow> effect_ok C a c c'"
  by (auto simp: effect_ok_def)

lemma effect_before_silent: "effect_ok C a c c1 \<Longrightarrow> effect_ok C Silent c1 c' \<Longrightarrow> effect_ok C a c c'"
  by (auto simp: effect_ok_def)

lemma effect_at:
  assumes "entities c' = (entities c)(dm := es')" and "revs c' = (revs c)(dm := rs')" and "reviews c' = reviews c @ ws"
    and "domain_ok C dm (entities c dm) (revs c dm) (reviews c) \<Longrightarrow>
      domain_ok C dm es' rs' (reviews c @ ws) \<and> shown es' rs' = F (shown (entities c dm) (revs c dm))"
    and "\<And>K. apply_effect a K = K(dm := F (K dm))"
  shows "effect_ok C a c c'"
proof (rule effect_okI)
  assume "content_ok C c"
  then have ok: "domain_ok C x (entities c x) (revs c x) (reviews c)" for x by (simp add: content_ok_def)
  have "content_ok C c'"
    using ok assms(1-3) assms(4) [OF ok] domain_ok_reviews [OF ok] by (simp add: content_ok_def)
  moreover have "public_content c' = apply_effect a (public_content c)"
    unfolding assms(5) using assms(1,2) assms(4) [OF ok] by (auto simp: public_content_def fun_eq_iff)
  ultimately show "content_ok C c' \<and> public_content c' = apply_effect a (public_content c)" by blast
qed

lemmas effect_silent_at = effect_at [where F = "\<lambda>x. x" and a = Silent]
lemmas effect_hide_at = effect_at [where F = "\<lambda>x. x(i := None)" and a = "Hide dm i" for i dm]

section \<open>Reading the primitives backwards\<close>

lemma raised_Inr [flow_simps]: "raised r c = (Inr x, c') \<longleftrightarrow> r = Inr x \<and> c' = c"
  by (auto simp: raised_def throw_def ret_def split: sum.splits)

lemma some_or_Inr [flow_simps]: "some_or e v c = (Inr x, c') \<longleftrightarrow> v = Some x \<and> c' = c"
  by (auto simp: some_or_def throw_def ret_def split: option.splits)

lemma some_uuid_Inr [flow_simps]: "some_uuid C s c = (Inr x, c') \<longleftrightarrow> parse_uuid C s = Some x \<and> c' = c"
  by (simp add: some_uuid_def some_or_Inr)

lemma locked_Inr [flow_simps]: "locked me dm eid c = (Inr e, c') \<longleftrightarrow> lock_entity me dm eid c = Some e \<and> c' = c"
  by (auto simp: locked_def flow_simps)

lemma let_Inr [flow_simps]: "(let x = a in m x) c = r \<longleftrightarrow> m a c = r"
  by simp

lemma lock_entityD: "lock_entity me dm eid c = Some e \<Longrightarrow> e \<in> set (entities c dm) \<and> ct_id e = eid \<and> ct_owner e = me"
  using find_Some_D unfolding lock_entity_def by force

lemma on_acct_core: "on_acct m c = (x, c') \<Longrightarrow> same_core c c'"
  by (auto simp: on_acct_def same_core_def split: prod.splits)

lemma keep_answer_core: "keep_answer C me route key h body now c = (x, c') \<Longrightarrow> same_core c c'"
  unfolding keep_answer_def by (rule on_acct_core)

lemma assert_author_read: "assert_expert_author me c = (x, c') \<Longrightarrow> c' = c"
  by (auto simp: assert_expert_author_def bindF_def asks_def require_def ret_def throw_def split: if_splits)

lemma validate_refs_read: "validate_skill_refs C me refs c = (Inr u, c') \<Longrightarrow> c' = c"
  by (induction refs) (auto simp: flow_simps split: prod.splits)

lemma gate_read: "content_gate C me content c = (Inr u, c') \<Longrightarrow> c' = c"
  by (auto simp: content_gate_def flow_simps dest!: validate_refs_read assert_author_read split: sum.splits)

lemma published_refs_read: "assert_skill_refs_published C refs c = (Inr u, c') \<Longrightarrow> c' = c"
  by (induction refs) (auto simp: flow_simps split: prod.splits)

lemma insert_links_core: "insert_links me rid ps c = (Inr u, c') \<Longrightarrow> same_core c c'"
proof (induction ps arbitrary: c)
  case (Cons p ps)
  then obtain c1 where 1: "insert_link me rid p c = (Inr (), c1)" and 2: "insert_links me rid ps c1 = (Inr u, c')"
    by (auto simp: flow_simps)
  from 1 have "same_core c c1" by (auto simp: insert_link_def same_core_def upd_work_def split: if_splits)
  with Cons.IH [OF 2] show ?case by (rule same_core_trans [rotated])
qed (auto simp: flow_simps same_core_refl)

text \<open>A body that leaves nothing behind when it fails.\<close>

definition rolls_back :: "('s, 'a) prog \<Rightarrow> bool" where
  "rolls_back m \<longleftrightarrow> (\<forall>c e c'. m c = (Inl e, c') \<longrightarrow> c' = c)"

lemma atomically_Inl: "atomically m c = (Inl e, c') \<Longrightarrow> c' = c"
  by (auto simp: atomically_def split: prod.splits sum.splits)

lemma rolls_atomically: "rolls_back (atomically m)"
  by (auto simp: rolls_back_def dest: atomically_Inl)

lemma rolls_after_read:
  assumes "\<And>c x c'. m c = (x, c') \<Longrightarrow> c' = c" and "\<And>x. rolls_back (f x)"
  shows "rolls_back (bindF m f)"
  using assms unfolding rolls_back_def bindF_def by (fastforce split: prod.splits sum.splits)

lemma once_content_cases:
  assumes "once_content C me route k h now m c = (x, c')" and "rolls_back m"
  shows "(same_core c c' \<and> (\<forall>y. x \<noteq> Inr (Fresh y)))
    \<or> (\<exists>c1 y. same_core c c1 \<and> x = Inr (Fresh y) \<and> m c1 = (Inr y, c'))"
proof -
  obtain r c1 where 1: "on_acct (idem_begin (subject_user (acct_env C) me) route k h now) c = (r, c1)" by fastforce
  note core = on_acct_core [OF 1]
  consider (no) e where "r = Inl e" | (old) p where "r = Inr (Some p)" | (fresh) "r = Inr None"
    by (metis sum.exhaust option.exhaust)
  then show ?thesis
  proof cases
    case fresh
    obtain z c2 where m: "m c1 = (z, c2)" by fastforce
    then have x: "(x, c') = (case z of Inl e \<Rightarrow> (Inl e, c2) | Inr y \<Rightarrow> (Inr (Fresh y), c2))"
      using assms(1) 1 fresh by (auto simp: once_content_def bindF_def ret_def split: sum.splits)
    show ?thesis
    proof (cases z)
      case (Inl e)
      then have "c2 = c1" using assms(2) m by (simp add: rolls_back_def)
      then show ?thesis using x Inl core by simp
    next
      case (Inr y)
      then show ?thesis using x m core by auto
    qed
  qed (use assms(1) 1 core in \<open>auto simp: once_content_def bindF_def ret_def\<close>)
qed

lemma once_silent:
  assumes "once_content C me route k h now m c = (x, c')" and "rolls_back m"
    and "\<And>c1 y. m c1 = (Inr y, c') \<Longrightarrow> effect_ok C Silent c1 c'"
  shows "effect_ok C Silent c c'"
  using once_content_cases [OF assms(1,2)] assms(3) silent_core effect_after_silent by blast

lemma once_effect:
  assumes "once_content C me route k h now m c = (x, c')" and "rolls_back m"
    and "\<And>c1 y. m c1 = (Inr y, c') \<Longrightarrow> effect_ok C a c1 c'"
  shows "effect_ok C (case x of Inr (Fresh y) \<Rightarrow> a | _ \<Rightarrow> Silent) c c'"
  using once_content_cases [OF assms(1,2)]
proof
  assume "same_core c c' \<and> (\<forall>y. x \<noteq> Inr (Fresh y))"
  then show ?thesis using silent_core by (auto split: sum.splits answer.splits)
next
  assume "\<exists>c1 y. same_core c c1 \<and> x = Inr (Fresh y) \<and> m c1 = (Inr y, c')"
  then show ?thesis using assms(3) silent_core effect_after_silent by fastforce
qed

lemma with_uuid:
  assumes "bindF (some_uuid C s) f c = (x, c')"
  shows "(\<exists>e. x = Inl e \<and> c' = c) \<or> (\<exists>u. parse_uuid C s = Some u \<and> f u c = (x, c'))"
  using assms by (auto simp: bindF_def some_uuid_def some_or_def throw_def ret_def split: option.splits)

section \<open>The author's requests\<close>

lemma insert_entity_effect:
  assumes "insert_entity me dm e c = (Inr u, c')" and "ct_published e = None"
  shows "effect_ok C Silent c c' \<and> e \<in> set (entities c' dm)"
proof
  from assms(1) have e: "ct_status e = EDraft" "ct_id e \<notin> ct_id ` set (entities c dm)" and c': "c' = add_entity dm e c"
    by (auto simp: insert_entity_def guard_entity_insert_def entity_of_def find_None_iff split: if_splits)
  show "effect_ok C Silent c c'"
    by (rule effect_silent_at [where dm = dm and ws = "[]" and es' = "entities c dm @ [e]" and rs' = "revs c dm"])
      (use add_entity_ok e assms(2) in \<open>auto simp: c' add_entity_def\<close>)
  show "e \<in> set (entities c' dm)" by (simp add: c' add_entity_def)
qed

lemma insert_rev_effect:
  assumes "insert_rev me dm r c = (Inr u, c')" and "e \<in> set (entities c dm)" and "ct_id e = rv_entity r" and "ct_owner e = rv_owner r"
    and "rv_sha r = content_sha256 (digest C) (rv_content r)"
  shows "effect_ok C Silent c c'"
proof -
  from assms(1) have r: "rv_status r = RvDraft" "rv_id r \<notin> rv_id ` set (revs c dm)"
      "(rv_entity r, rv_no r) \<notin> (\<lambda>r. (rv_entity r, rv_no r)) ` set (revs c dm)"
    and c': "c' = add_rev dm r c"
    by (auto simp: insert_rev_def guard_rev_insert_def list_ex_iff split: if_splits)
  show ?thesis
    by (rule effect_silent_at [where dm = dm and ws = "[]" and es' = "entities c dm" and rs' = "revs c dm @ [r]"])
      (use add_rev_ok [OF _ r(2,3) assms(2,3,4,5)] r(1) in \<open>auto simp: c' add_rev_def\<close>)
qed

lemma save_rev_effect:
  assumes "save_rev me dm rid f c = (Inr u, c')" and "r \<in> set (revs c dm)" and "rv_id r = rid" and "rv_status r \<noteq> RvPublished"
    and "\<And>x. rv_id (f x) = rv_id x \<and> rv_entity (f x) = rv_entity x \<and> rv_owner (f x) = rv_owner x \<and> rv_no (f x) = rv_no x"
    and "rv_status (f r) \<noteq> RvPublished" and "rv_sha r = content_sha256 (digest C) (rv_content r) \<Longrightarrow>
      rv_sha (f r) = content_sha256 (digest C) (rv_content (f r))"
  shows "effect_ok C Silent c c'"
proof -
  let ?P = "\<lambda>x. rv_id x = rid \<and> rv_owner x = me"
  from assms(1) have c': "c' = upd_revs dm ?P f c"
    by (auto simp: save_rev_def split: option.splits if_splits)
  show ?thesis
  proof (rule effect_silent_at [where dm = dm and ws = "[]" and es' = "entities c dm" and rs' = "upd ?P f (revs c dm)"])
    assume ok: "domain_ok C dm (entities c dm) (revs c dm) (reviews c)"
    have "x = r" if "x \<in> set (revs c dm)" "?P x" for x using rev_unique [OF ok that(1) assms(2)] that(2) assms(3) by simp
    moreover have "rv_sha r = content_sha256 (digest C) (rv_content r)"
      using domain_okD(4) [OF ok assms(2)] by (simp add: rev_ok_def)
    ultimately show "domain_ok C dm (entities c dm) (upd ?P f (revs c dm)) (reviews c @ [])
      \<and> shown (entities c dm) (upd ?P f (revs c dm)) = shown (entities c dm) (revs c dm)"
      using upd_revs_ok [OF ok, of ?P f] assms(4-7) by auto
  qed (simp_all add: c' upd_revs_def)
qed

lemma create_silent:
  assumes "create_entity C me dm content key h eid rid now c = (x, c')"
  shows "effect_ok C Silent c c'"
  using assms unfolding create_entity_def
proof (rule once_silent [OF _ rolls_atomically], goal_cases)
  case (1 c1 y)
  let ?e = "\<lparr>ct_id = eid, ct_owner = me, ct_published = None, ct_status = EDraft, ct_created = now\<rparr>"
  let ?r = "draft_rev C me eid rid 1 content now"
  from 1 obtain c2 c3 body where 1: "insert_entity me dm ?e c1 = (Inr (), c2)" and 2: "insert_rev me dm ?r c2 = (Inr (), c3)"
    and 3: "keep_answer C me (entity_path dm) key h body now c3 = (Inr (), c')"
    by (auto simp: flow_simps Let_def dest!: gate_read)
  from insert_entity_effect [OF 1] have s: "effect_ok C Silent c1 c2" and e: "?e \<in> set (entities c2 dm)" by auto
  have "effect_ok C Silent c2 c3" by (rule insert_rev_effect [OF 2 e]) (simp_all add: draft_rev_def)
  then show ?case
    using s silent_core [OF keep_answer_core [OF 3]] effect_after_silent by blast
qed

lemma write_draft_effect:
  assumes "write_draft C me dm eid rid content now c = (Inr w, c')" and "lock_entity me dm eid c = Some e"
  shows "effect_ok C Silent c c'"
proof -
  let ?rs = "visible_revs (Some me) dm eid c"
  let ?f = "\<lambda>x. x\<lparr>rv_content := JObj content, rv_sha := content_sha256 (digest C) (JObj content)\<rparr>"
  note e = lock_entityD [OF assms(2)]
  from assms(1) consider
      (fresh) n where "insert_rev me dm (draft_rev C me eid rid n content now) c = (Inr (), c')"
    | (old) r where "latest_rev ?rs = Some r" "rv_status r = RvDraft" "save_rev me dm (rv_id r) ?f c = (Inr (), c')"
    by (auto simp: write_draft_def flow_simps Let_def split: if_splits)
  then show ?thesis
  proof cases
    case fresh
    show ?thesis by (rule insert_rev_effect [OF fresh]) (use e in \<open>auto simp: draft_rev_def\<close>)
  next
    case old
    have "r \<in> set (revs c dm)" using find_Some_D old(1) unfolding latest_rev_def visible_revs_def by fastforce
    from save_rev_effect [OF old(3) this] show ?thesis using old(2) by simp
  qed
qed

lemma edit_silent:
  assumes "edit_entity C me dm entity_id content key h rid now c = (x, c')"
  shows "effect_ok C Silent c c'"
  using with_uuid [OF assms [unfolded edit_entity_def Let_def]]
proof (elim disjE exE conjE, goal_cases)
  case (2 eid)
  from this(2) show ?case
  proof (rule once_silent [OF _ rolls_atomically], goal_cases)
    case (1 c1 y)
    then obtain e w c2 body where 1: "lock_entity me dm eid c1 = Some e" and 2: "write_draft C me dm eid rid content now c1 = (Inr w, c2)"
      and 3: "keep_answer C me (entity_path dm @ ''/'' @ entity_id) key h body now c2 = (Inr (), c')"
      by (auto simp: flow_simps dest!: gate_read)
    show ?case
      using write_draft_effect [OF 2 1] silent_core [OF keep_answer_core [OF 3]] effect_after_silent by blast
  qed
qed (simp add: silent_core same_core_refl)

lemma submit_silent:
  assumes "submit_revision C me dm entity_id revision_id tools key h now c = (x, c')"
  shows "effect_ok C Silent c c'"
  using with_uuid [OF assms [unfolded submit_revision_def Let_def]]
proof (elim disjE exE conjE, goal_cases)
  case (2 eid)
  from with_uuid [OF this(2)] show ?case
  proof (elim disjE exE conjE, goal_cases)
    case (2 rid)
    from this(2) show ?case
    proof (rule once_silent, goal_cases)
      case 1
      show ?case
        by (intro rolls_after_read rolls_atomically) (auto simp: raised_def require_def throw_def ret_def split: sum.splits if_splits)
    next
      case (2 c1 y)
      let ?f = "\<lambda>r. r\<lparr>rv_status := RvPending\<rparr>"
      from 2 obtain r clean c2 c3 body where 1: "r \<in> set (revs c1 dm)" "rv_status r = RvDraft"
        and 2: "insert_links me (rv_id r) clean c1 = (Inr (), c2)" and 3: "save_rev me dm (rv_id r) ?f c2 = (Inr (), c3)"
        and 4: "keep_answer C me (entity_path dm @ ''/'' @ entity_id @ ''/revisions/'' @ revision_id @ ''/submit'') key h body now c3
          = (Inr (), c')"
        by (auto simp: flow_simps dest!: assert_author_read find_Some_D)
      note core = insert_links_core [OF 2]
      then have "r \<in> set (revs c2 dm)" using 1(1) by (simp add: same_core_def)
      from save_rev_effect [OF 3 this] have "effect_ok C Silent c2 c3" using 1(2) by simp
      then show ?case
        using silent_core [OF core] silent_core [OF keep_answer_core [OF 4]] effect_after_silent by blast
    qed
  qed (simp add: silent_core same_core_refl)
qed (simp add: silent_core same_core_refl)

text \<open>The label of a request whose answer is fresh.\<close>

definition on_fresh :: "effect \<Rightarrow> api_error + 'a answer \<Rightarrow> effect" where
  "on_fresh a x = (case x of Inr (Fresh y) \<Rightarrow> a | _ \<Rightarrow> Silent)"

lemmas once_effect' = once_effect [folded on_fresh_def]

lemma hide_unpublished:
  assumes "e \<in> set (entities c dm)" and "ct_status e \<noteq> EPublished"
  shows "effect_ok C (Hide dm (ct_id e)) c c"
proof (rule effect_okI)
  assume ok: "content_ok C c"
  then have "shown (entities c dm) (revs c dm) (ct_id e) = None"
    using find_entity assms unfolding content_ok_def shown_def by fastforce
  with ok show "content_ok C c \<and> public_content c = apply_effect (Hide dm (ct_id e)) (public_content c)"
    by (auto simp: public_content_def fun_eq_iff)
qed

lemma offline_case_Inr [flow_simps]:
  "(case s of EPublished \<Rightarrow> m | EArchived \<Rightarrow> throw err | EDraft \<Rightarrow> ret ()) c = (Inr u, c') \<longleftrightarrow>
     (s = EPublished \<and> m c = (Inr u, c')) \<or> (s = EDraft \<and> c' = c)"
  by (cases s) (auto simp: throw_def ret_def)

lemma offline_effect:
  assumes "offline_entity C me dm entity_id key h now c = (x, c')"
  shows "\<exists>eid. (parse_uuid C (pystr_of entity_id) = Some eid \<or> (\<exists>e. x = Inl e)) \<and> effect_ok C (on_fresh (Hide dm eid) x) c c'"
  using with_uuid [OF assms [unfolded offline_entity_def Let_def]]
proof (elim disjE exE conjE, goal_cases)
  case (2 eid)
  from this(2) have "effect_ok C (on_fresh (Hide dm eid) x) c c'"
  proof (rule once_effect' [OF _ rolls_atomically], goal_cases)
    case (1 c1 y)
    let ?f = "\<lambda>x. x\<lparr>ct_status := EDraft\<rparr>"
    from 1 obtain e c2 c3 body where 1: "lock_entity me dm eid c1 = Some e"
      and 2: "(ct_status e = EPublished \<and> save_entity me dm eid ?f c1 = (Inr (), c2)) \<or> (ct_status e = EDraft \<and> c2 = c1)"
      and 3: "on_acct (add_audit (Some me) (entity_type dm @ ''.offline'') eid (pystr_of ''author offline'')) c2 = (Inr (), c3)"
      and 4: "keep_answer C me (entity_path dm @ ''/'' @ entity_id @ ''/offline'') key h body now c3 = (Inr (), c')"
      by (auto simp: flow_simps dest!: assert_author_read)
    note e = lock_entityD [OF 1]
    have "effect_ok C (Hide dm eid) c1 c2" using 2
    proof
      assume s: "ct_status e = EPublished \<and> save_entity me dm eid ?f c1 = (Inr (), c2)"
      then have c2: "c2 = upd_entities dm (\<lambda>x. ct_id x = eid \<and> ct_owner x = me) ?f c1"
        by (auto simp: save_entity_def split: option.splits if_splits)
      show ?thesis
        by (rule effect_hide_at [where ws = "[]" and rs' = "revs c1 dm"])
          (use offline_ok [of C dm "entities c1 dm" "revs c1 dm" "reviews c1" e] s e in \<open>auto simp: c2 upd_entities_def\<close>)
    next
      assume "ct_status e = EDraft \<and> c2 = c1"
      then show ?thesis using hide_unpublished [of e c1 dm] e by simp
    qed
    then show ?case
      using silent_core [OF on_acct_core [OF 3]] silent_core [OF keep_answer_core [OF 4]] effect_before_silent by blast
  qed
  with 2(1) show ?case by blast
qed (auto simp: silent_core same_core_refl on_fresh_def)

lemma flush_or_Inr [flow_simps]: "flush_or e m c = (Inr u, c') \<longleftrightarrow> m c = (Inr u, c')"
  by (auto simp: flush_or_def split: prod.splits sum.splits api_error.splits)

lemma delete_effect:
  assumes "delete_entity C me dm entity_id key h now c = (x, c')"
  shows "\<exists>eid. (parse_uuid C (pystr_of entity_id) = Some eid \<or> (\<exists>e. x = Inl e)) \<and> effect_ok C (on_fresh (Hide dm eid) x) c c'"
  using with_uuid [OF assms [unfolded delete_entity_def Let_def]]
proof (elim disjE exE conjE, goal_cases)
  case (2 eid)
  from this(2) have "effect_ok C (on_fresh (Hide dm eid) x) c c'"
  proof (rule once_effect' [OF _ rolls_atomically], goal_cases)
    case (1 c1 y)
    then obtain c2 c3 body where 1: "delete_rows dm eid c1 = (Inr (), c2)"
      and 3: "on_acct (add_audit (Some me) (entity_type dm @ ''.delete'') eid (pystr_of ''author delete'')) c2 = (Inr (), c3)"
      and 4: "keep_answer C me (entity_path dm @ ''/'' @ entity_id) key h body now c3 = (Inr (), c')"
      by (auto simp: flow_simps dest!: assert_author_read)
    have "effect_ok C (Hide dm eid) c1 c2"
    proof (rule effect_okI)
      assume ok: "content_ok C c1"
      then have d: "domain_ok C dm (entities c1 dm) (revs c1 dm) (reviews c1)" by (simp add: content_ok_def)
      have "entities c2 = (entities c1)(dm := filter (\<lambda>e. ct_id e \<noteq> eid) (entities c1 dm)) \<and>
          revs c2 = (revs c1)(dm := filter (\<lambda>r. rv_entity r \<noteq> eid) (revs c1 dm)) \<and> reviews c2 = reviews c1 @ []"
        using 1 unfolding delete_rows_def Let_def delete_pointers [OF d] by (auto simp: upd_work_def split: if_splits)
      then have "effect_ok C (Hide dm eid) c1 c2"
        by (intro effect_hide_at [where ws = "[]"]) (use delete_ok in auto)
      with ok show "content_ok C c2 \<and> public_content c2 = apply_effect (Hide dm eid) (public_content c1)"
        by (simp add: effect_ok_def)
    qed
    then show ?case
      using silent_core [OF on_acct_core [OF 3]] silent_core [OF keep_answer_core [OF 4]] effect_before_silent by blast
  qed
  with 2(1) show ?case by blast
qed (auto simp: silent_core same_core_refl on_fresh_def)

section \<open>The administrator's requests\<close>

lemma lock_for_review_Inr [flow_simps]:
  "lock_for_review dm rid c = (Inr z, c') \<longleftrightarrow>
     (\<exists>e r. z = (e, r) \<and> rev_of dm rid c = Some r \<and> entity_of dm (rv_entity r) c = Some e \<and> c' = c)"
  by (auto simp: lock_for_review_def flow_simps)

lemma review_gate_Inr [flow_simps]:
  "review_gate C e r c = (Inr u, c') \<longleftrightarrow> rv_owner r = ct_owner e \<and> rv_status r = RvPending
     \<and> content_sha256 (digest C) (rv_content r) = rv_sha r \<and> c' = c"
  by (auto simp: review_gate_def flow_simps Let_def)

lemma tools_enabled_Inr [flow_simps]:
  "assert_tools_enabled rid c = (Inr u, c') \<longleftrightarrow> list_all (\<lambda>(r, tool). r \<noteq> rid \<or> tool_is_enabled c tool) (tool_links c) \<and> c' = c"
  by (auto simp: assert_tools_enabled_def flow_simps)

lemma entity_ofD: "entity_of dm eid c = Some e \<Longrightarrow> e \<in> set (entities c dm) \<and> ct_id e = eid"
  unfolding entity_of_def by (rule find_Some_D)

lemma rev_ofD: "rev_of dm rid c = Some r \<Longrightarrow> r \<in> set (revs c dm) \<and> rv_id r = rid"
  unfolding rev_of_def by (rule find_Some_D)

lemma archive_steps:
  assumes "archive_previous dm previous rid c = (Inr u, c')" and "revs c dm = upd (\<lambda>r. rv_id r = rid) (\<lambda>r. r\<lparr>rv_status := RvPublished\<rparr>) rs"
  shows "revs c' = (revs c)(dm := publish_revs rid previous rs) \<and> entities c' = entities c \<and> reviews c' = reviews c"
proof -
  have "publish_revs rid previous rs = revs c dm" if "previous = None \<or> previous = Some rid"
    using that by (auto simp: assms(2) publish_revs_def upd_def)
  moreover have "publish_revs rid previous rs = upd (\<lambda>r. rv_id r = p) (\<lambda>r. r\<lparr>rv_status := RvArchived\<rparr>) (revs c dm)"
    if "previous = Some p" "p \<noteq> rid" for p
    using that by (auto simp: assms(2) publish_revs_def upd_def)
  ultimately show ?thesis
    using assms(1) by (auto simp: archive_previous_def set_rev_status_def upd_revs_def flow_simps)
qed

text \<open>A successful approval, read backwards.\<close>

lemma approve_outcome:
  assumes "approve_revision C tt (rid) reviewer why c = (Inr a, c')"
  shows "\<exists>dm e r. domain_of tt = Inr dm \<and> rid = Uuid (rv_id r) \<and> rev_of dm (rv_id r) c = Some r \<and> entity_of dm (rv_entity r) c = Some e
    \<and> rv_owner r = ct_owner e \<and> rv_status r = RvPending
    \<and> (dm = Experts \<longrightarrow> list_all (\<lambda>(x, tool). x \<noteq> rv_id r \<or> tool_is_enabled c tool) (tool_links c))
    \<and> a = \<lparr>ap_entity = ct_id e, ap_published = rv_id r, ap_previous = ct_published e, ap_no = rv_no r, ap_sha = rv_sha r\<rparr>
    \<and> entities c' = (entities c)(dm := upd (\<lambda>x. ct_id x = ct_id e \<and> ct_published x = ct_published e)
        (\<lambda>x. x\<lparr>ct_published := Some (rv_id r), ct_status := EPublished\<rparr>) (entities c dm))
    \<and> revs c' = (revs c)(dm := publish_revs (rv_id r) (ct_published e) (revs c dm))
    \<and> reviews c' = reviews c @ [\<lparr>rw_domain = dm, rw_revision = rv_id r, rw_sha = rv_sha r, rw_approved = True, rw_reviewer = reviewer\<rparr>]"
proof -
  from assms obtain dm e r w c1 c2 c3 c4 i where d: "domain_of tt = Inr dm" and i: "rid = Uuid i"
    and ri: "rev_of dm i c = Some r" and e: "entity_of dm (rv_entity r) c = Some e"
    and g: "rv_owner r = ct_owner e" "rv_status r = RvPending"
    and t: "dm = Experts \<longrightarrow> list_all (\<lambda>(x, tool). x \<noteq> rv_id r \<or> tool_is_enabled c tool) (tool_links c)"
    and 1: "set_published dm (ct_id e) (ct_published e) (rv_id r) c = (Inr (), c1)"
    and 2: "set_rev_status dm (rv_id r) RvPublished c1 = (Inr (), c2)"
    and 3: "archive_previous dm (ct_published e) (rv_id r) c2 = (Inr (), c3)"
    and 4: "add_review dm (rv_id r) (rv_sha r) True reviewer c3 = (Inr (), c4)"
    and 5: "on_acct (add_audit (Some reviewer) (entity_type dm @ ''.approve_publish'') (rv_id r) w) c4 = (Inr (), c')"
    and a: "a = \<lparr>ap_entity = ct_id e, ap_published = rv_id r, ap_previous = ct_published e, ap_no = rv_no r, ap_sha = rv_sha r\<rparr>"
    by (auto simp: approve_revision_def flow_simps dest!: published_refs_read split: prod.splits)
  from rev_ofD [OF ri] i ri have rid: "rid = Uuid (rv_id r)" and r: "rev_of dm (rv_id r) c = Some r" by auto
  have c1: "c1 = upd_entities dm (\<lambda>x. ct_id x = ct_id e \<and> ct_published x = ct_published e)
        (\<lambda>x. x\<lparr>ct_published := Some (rv_id r), ct_status := EPublished\<rparr>) c"
    using 1 by (auto simp: set_published_def flow_simps)
  have c2: "c2 = upd_revs dm (\<lambda>x. rv_id x = rv_id r) (\<lambda>x. x\<lparr>rv_status := RvPublished\<rparr>) c1"
    using 2 by (simp add: set_rev_status_def flow_simps)
  note c3 = archive_steps [OF 3, of "revs c dm"]
  have c4: "c4 = c3\<lparr>reviews := reviews c3 @ [\<lparr>rw_domain = dm, rw_revision = rv_id r, rw_sha = rv_sha r,
      rw_approved = True, rw_reviewer = reviewer\<rparr>]\<rparr>"
    using 4 by (simp add: add_review_def flow_simps)
  show ?thesis
    using d rid r e g t a c1 c2 c3 c4 on_acct_core [OF 5] by (auto simp: same_core_def upd_revs_def upd_entities_def)
qed

lemma approve_effect:
  assumes "approve_revision C tt rid reviewer why c = (Inr a, c')"
  shows "\<exists>dm r. domain_of tt = Inr dm \<and> rev_of dm (ap_published a) c = Some r
    \<and> effect_ok C (Show dm (ap_entity a) (rv_owner r, rv_content r)) c c'"
proof -
  from approve_outcome [OF assms] obtain dm e r where d: "domain_of tt = Inr dm" and r: "rev_of dm (rv_id r) c = Some r"
    and e: "entity_of dm (rv_entity r) c = Some e" and g: "rv_owner r = ct_owner e" "rv_status r = RvPending"
    and a: "ap_entity a = ct_id e" "ap_published a = rv_id r"
    and c': "entities c' = (entities c)(dm := upd (\<lambda>x. ct_id x = ct_id e \<and> ct_published x = ct_published e)
        (\<lambda>x. x\<lparr>ct_published := Some (rv_id r), ct_status := EPublished\<rparr>) (entities c dm))"
      "revs c' = (revs c)(dm := publish_revs (rv_id r) (ct_published e) (revs c dm))"
      "reviews c' = reviews c @ [\<lparr>rw_domain = dm, rw_revision = rv_id r, rw_sha = rv_sha r, rw_approved = True, rw_reviewer = reviewer\<rparr>]"
    by auto
  note e = entity_ofD [OF e] and r' = rev_ofD [OF r]
  have "effect_ok C (Show dm (ct_id e) (rv_owner r, rv_content r)) c c'"
    by (rule effect_at [OF c', where F = "\<lambda>x. x(ct_id e := Some (ct_owner e, rv_content r))"], rule publish_ok)
      (use e r' g in \<open>auto simp: reviewed_def\<close>)
  then show ?thesis using d r a by auto
qed

lemma reject_silent:
  assumes "reject_revision C tt rid reviewer why c = (x, c')"
  shows "effect_ok C Silent c c'"
proof (cases x)
  case (Inl e)
  then have "c' = c" using assms by (auto simp: reject_revision_def dest: atomically_Inl)
  then show ?thesis by (simp add: silent_core same_core_refl)
next
  case (Inr a)
  with assms obtain dm r w c2 c3 i where ri: "rev_of dm i c = Some r" "rv_status r = RvPending"
    and 1: "set_rev_status dm (rv_id r) RvRejected c = (Inr (), c2)"
    and 2: "add_review dm (rv_id r) (rv_sha r) False reviewer c2 = (Inr (), c3)"
    and 3: "on_acct (add_audit (Some reviewer) (entity_type dm @ ''.reject'') (rv_id r) w) c3 = (Inr (), c')"
    by (auto simp: reject_revision_def flow_simps split: prod.splits)
  from rev_ofD [OF ri(1)] ri have r: "rev_of dm (rv_id r) c = Some r" "rv_status r = RvPending" by auto
  let ?f = "\<lambda>x. x\<lparr>rv_status := RvRejected\<rparr>"
  have "effect_ok C Silent c c3"
  proof (rule effect_silent_at [where dm = dm and es' = "entities c dm" and rs' = "upd (\<lambda>x. rv_id x = rv_id r) ?f (revs c dm)"])
    assume ok: "domain_ok C dm (entities c dm) (revs c dm) (reviews c)"
    have "domain_ok C dm (entities c dm) (upd (\<lambda>x. rv_id x = rv_id r) ?f (revs c dm)) (reviews c)
      \<and> shown (entities c dm) (upd (\<lambda>x. rv_id x = rv_id r) ?f (revs c dm)) = shown (entities c dm) (revs c dm)"
    proof (rule upd_revs_ok [OF ok])
      fix x assume x: "x \<in> set (revs c dm)" "rv_id x = rv_id r"
      then have "x = r" using rev_unique [OF ok] rev_ofD [OF r(1)] by blast
      then show "rv_id (?f x) = rv_id x \<and> rv_entity (?f x) = rv_entity x \<and> rv_owner (?f x) = rv_owner x
        \<and> rv_no (?f x) = rv_no x \<and> rv_status x \<noteq> RvPublished \<and> rv_status (?f x) \<noteq> RvPublished
        \<and> rv_sha (?f x) = content_sha256 (digest C) (rv_content (?f x))"
        using r(2) domain_okD(4) [OF ok x(1)] by (simp add: rev_ok_def)
    qed
    then show "domain_ok C dm (entities c dm) (upd (\<lambda>x. rv_id x = rv_id r) ?f (revs c dm))
        (reviews c @ [\<lparr>rw_domain = dm, rw_revision = rv_id r, rw_sha = rv_sha r, rw_approved = False, rw_reviewer = reviewer\<rparr>])
      \<and> shown (entities c dm) (upd (\<lambda>x. rv_id x = rv_id r) ?f (revs c dm)) = shown (entities c dm) (revs c dm)"
      using domain_ok_reviews by blast
  qed (use 1 2 in \<open>simp_all add: set_rev_status_def add_review_def flow_simps upd_revs_def\<close>)
  then show ?thesis using silent_core [OF on_acct_core [OF 3]] effect_after_silent by blast
qed

lemma approve_failed: "approve_revision C tt rid reviewer why c = (Inl e, c') \<Longrightarrow> c' = c"
  unfolding approve_revision_def by (rule atomically_Inl)

lemma resolve_failed: "resolve_report pid action admin why c = (Inl e, c') \<Longrightarrow> c' = c"
  unfolding resolve_report_def by (rule atomically_Inl)

lemma set_report_status_core: "set_report_status pid st c = (x, c') \<Longrightarrow> same_core c c'"
  by (auto simp: set_report_status_def change_def same_core_def)

lemma takedown_effect:
  assumes "takedown rp admin why c = (Inr x, c')"
  shows "\<exists>p r. re_down x = Some p \<and> rev_of (report_domain rp) (rp_target rp) c = Some r
    \<and> effect_ok C (Hide (report_domain rp) (rv_entity r)) c c'"
proof -
  let ?dm = "report_domain rp"
  from assms obtain r e p c1 c2 c3 where r: "rev_of ?dm (rp_target rp) c = Some r" and e: "entity_of ?dm (rv_entity r) c = Some e"
    and p: "ct_published e = Some p" and 1: "set_rev_status ?dm p RvArchived c = (Inr (), c1)"
    and c2: "c2 = upd_entities ?dm (\<lambda>x. ct_id x = ct_id e) (\<lambda>x. x\<lparr>ct_published := None, ct_status := EDraft\<rparr>) c1"
    and 3: "set_report_status (rp_id rp) RpActioned c2 = (Inr (), c3)"
    and 4: "on_acct (add_audit (Some admin) ''report.takedown'' (rp_id rp) why) c3 = (Inr (), c')"
    and x: "re_down x = Some p"
    by (auto simp: takedown_def Let_def flow_simps)
  note e = entity_ofD [OF e]
  have "effect_ok C (Hide ?dm (ct_id e)) c c2"
    by (rule effect_hide_at [where ws = "[]" and dm = ?dm
          and es' = "upd (\<lambda>x. ct_id x = ct_id e) (\<lambda>x. x\<lparr>ct_published := None, ct_status := EDraft\<rparr>) (entities c ?dm)"
          and rs' = "upd (\<lambda>r. rv_id r = p) (\<lambda>r. r\<lparr>rv_status := RvArchived\<rparr>) (revs c ?dm)"])
      (use 1 c2 takedown_ok [OF _ conjunct1 [OF e] p] in
        \<open>auto simp: set_rev_status_def flow_simps upd_revs_def upd_entities_def\<close>)
  then have "effect_ok C (Hide ?dm (ct_id e)) c c'"
    using silent_core [OF set_report_status_core [OF 3]] silent_core [OF on_acct_core [OF 4]] effect_before_silent by blast
  then show ?thesis using x r e by auto
qed

lemma resolve_effect:
  assumes "resolve_report pid action admin why c = (Inr x, c')"
  shows "(re_down x = None \<and> effect_ok C Silent c c')
    \<or> (\<exists>p rp r. re_down x = Some p \<and> rp \<in> set (reports c) \<and> pid = Uuid (rp_id rp)
         \<and> rev_of (report_domain rp) (rp_target rp) c = Some r \<and> effect_ok C (Hide (report_domain rp) (rv_entity r)) c c')"
proof -
  consider (dismiss) i w c1 where "set_report_status i RpDismissed c = (Inr (), c1)"
      "on_acct (add_audit (Some admin) ''report.dismiss'' i w) c1 = (Inr (), c')" "re_down x = None"
    | (ban) rp w where "resolve_ban_author rp admin w c = (Inr x, c')"
    | (down) i rp w where "pid = Uuid i" "find (\<lambda>r. rp_id r = i) (reports c) = Some rp" "takedown rp admin w c = (Inr x, c')"
    using assms unfolding resolve_report_def by (auto simp: flow_simps)
  then show ?thesis
  proof cases
    case dismiss
    then show ?thesis
      using silent_core [OF set_report_status_core] silent_core [OF on_acct_core] effect_after_silent by blast
  next
    case ban
    then obtain u z c1 c2 where "on_acct (suspend_user_atomic (Uuid u) True) c = (Inr z, c1)"
        "set_report_status (rp_id rp) RpActioned c1 = (Inr (), c2)"
        "on_acct (add_audit (Some admin) ''report.ban_author'' (rp_id rp) w) c2 = (Inr (), c')" "re_down x = None"
      unfolding resolve_ban_author_def flow_simps by (elim exE conjE) auto
    then show ?thesis
      using silent_core [OF set_report_status_core] silent_core [OF on_acct_core] effect_after_silent by meson
  next
    case down
    then show ?thesis using takedown_effect [OF down(3), of C] by (auto dest!: find_Some_D)
  qed
qed

lemma validate_target_read: "validate_target me tt tid c = (Inr u, c') \<Longrightarrow> c' = c"
  by (auto simp: validate_target_def flow_simps)

lemma create_report_silent:
  assumes "create_report C me tt tid th reason key h pid now c = (x, c')"
  shows "effect_ok C Silent c c'"
  using assms unfolding create_report_def
proof (rule once_silent, goal_cases)
  case 1
  show ?case
    by (intro rolls_after_read rolls_atomically) (auto simp: some_uuid_def some_or_def throw_def ret_def split: option.splits)
next
  case (2 c1 y)
  then obtain r where "keep_answer C me ''/api/reports'' key h (report_brief C r) now (c1\<lparr>reports := reports c1 @ [r]\<rparr>) = (Inr (), c')"
    unfolding flow_simps Let_def by (elim exE conjE) (auto dest!: validate_target_read)
  from keep_answer_core [OF this] show ?case by (intro silent_core) (simp add: same_core_def)
qed

lemma set_tool_core: "set_tool_enabled row_id tool version on admin why c = (x, c') \<Longrightarrow> same_core c c'"
  by (auto simp: set_tool_enabled_def bindF_def raised_def some_or_def ret_def throw_def asks_def change_def upd_work_def
      on_acct_def same_core_def split: sum.splits option.splits prod.splits if_splits)

lemma kill_tool_core:
  assumes "kill_tool row_id stop tool version admin why c = (x, c')"
    and "\<And>m a r a'. stop = Some m \<Longrightarrow> m tool version a = (r, a') \<Longrightarrow> same_core a a'"
  shows "same_core c c'"
proof -
  obtain r c1 where 1: "atomically (set_tool_enabled row_id tool version False admin why) c = (r, c1)" by fastforce
  then have core: "same_core c c1"
    by (auto simp: atomically_def same_core_refl dest: set_tool_core split: prod.splits sum.splits)
  show ?thesis
  proof (cases stop)
    case None
    then show ?thesis using assms(1) 1 core by (auto simp: kill_tool_def bindF_def ret_def split: sum.splits)
  next
    case (Some m)
    then show ?thesis using assms(1) 1 core assms(2) [OF Some]
      by (fastforce simp: kill_tool_def bindF_def ret_def intro: same_core_trans split: sum.splits prod.splits)
  qed
qed

section \<open>The system\<close>

text \<open>
  One step is one request. \<open>elsewhere\<close> stands for the rest of the program and for the requests that
  only read here (the directory, lists, the tool switch): none writes an entity, a revision or a
  review.
\<close>

inductive content_step :: "cenv \<Rightarrow> effect \<Rightarrow> cdb \<Rightarrow> cdb \<Rightarrow> bool" for C where
  elsewhere: "same_core c c' \<Longrightarrow> content_step C Silent c c'"
| create: "create_entity C me dm content key h eid rid now c = (x, c') \<Longrightarrow> content_step C Silent c c'"
| edit: "edit_entity C me dm entity_id content key h rid now c = (x, c') \<Longrightarrow> content_step C Silent c c'"
| submit: "submit_revision C me dm entity_id revision_id tools key h now c = (x, c') \<Longrightarrow> content_step C Silent c c'"
| offline: "offline_entity C me dm entity_id key h now c = (Inr (Fresh b), c') \<Longrightarrow>
    parse_uuid C (pystr_of entity_id) = Some eid \<Longrightarrow> content_step C (Hide dm eid) c c'"
| offline_quiet: "offline_entity C me dm entity_id key h now c = (x, c') \<Longrightarrow> on_fresh (Hide dm eid) x = Silent \<Longrightarrow>
    content_step C Silent c c'"
| delete: "delete_entity C me dm entity_id key h now c = (Inr (Fresh b), c') \<Longrightarrow>
    parse_uuid C (pystr_of entity_id) = Some eid \<Longrightarrow> content_step C (Hide dm eid) c c'"
| delete_quiet: "delete_entity C me dm entity_id key h now c = (x, c') \<Longrightarrow> on_fresh (Hide dm eid) x = Silent \<Longrightarrow>
    content_step C Silent c c'"
| approve: "approve_revision C tt rid reviewer why c = (Inr a, c') \<Longrightarrow> domain_of tt = Inr dm \<Longrightarrow>
    rev_of dm (ap_published a) c = Some r \<Longrightarrow> content_step C (Show dm (ap_entity a) (rv_owner r, rv_content r)) c c'"
| approve_fails: "approve_revision C tt rid reviewer why c = (Inl e, c') \<Longrightarrow> content_step C Silent c c'"
| reject: "reject_revision C tt rid reviewer why c = (x, c') \<Longrightarrow> content_step C Silent c c'"
| report: "create_report C me tt tid th reason key h pid now c = (x, c') \<Longrightarrow> content_step C Silent c c'"
| resolve: "resolve_report pid action admin why c = (Inr x, c') \<Longrightarrow> re_down x = None \<Longrightarrow> content_step C Silent c c'"
| takedown: "resolve_report (Uuid (rp_id rp)) action admin why c = (Inr x, c') \<Longrightarrow> re_down x = Some p \<Longrightarrow>
    rp \<in> set (reports c) \<Longrightarrow> distinct (map rp_id (reports c)) \<Longrightarrow>
    rev_of (report_domain rp) (rp_target rp) c = Some r \<Longrightarrow> content_step C (Hide (report_domain rp) (rv_entity r)) c c'"
| resolve_fails: "resolve_report pid action admin why c = (Inl e, c') \<Longrightarrow> content_step C Silent c c'"
| tool_switch: "set_tool_enabled row_id tool version on admin why c = (x, c') \<Longrightarrow> content_step C Silent c c'"

lemma content_step_ok: "content_step C a c c' \<Longrightarrow> effect_ok C a c c'"
proof (induction rule: content_step.induct)
  case (offline me dm entity_id key h now c b c' eid)
  then show ?case using offline_effect [OF offline(1)] by (auto simp: on_fresh_def)
next
  case (offline_quiet me dm entity_id key h now c x c' eid)
  have "on_fresh (Hide dm i) x = Silent" for i using offline_quiet(2) by (auto simp: on_fresh_def split: sum.splits answer.splits)
  then show ?case using offline_effect [OF offline_quiet(1)] by auto
next
  case (delete me dm entity_id key h now c b c' eid)
  then show ?case using delete_effect [OF delete(1)] by (auto simp: on_fresh_def)
next
  case (delete_quiet me dm entity_id key h now c x c' eid)
  have "on_fresh (Hide dm i) x = Silent" for i using delete_quiet(2) by (auto simp: on_fresh_def split: sum.splits answer.splits)
  then show ?case using delete_effect [OF delete_quiet(1)] by auto
next
  case (approve tt rid reviewer why c a c' dm r)
  then show ?case using approve_effect [OF approve(1)] by auto
next
  case (takedown rp action admin why c x c' p r)
  from resolve_effect [OF takedown(1), of C] takedown(2) obtain rp' r' where "rp' \<in> set (reports c)" "rp_id rp' = rp_id rp"
    and r': "rev_of (report_domain rp') (rp_target rp') c = Some r'" "effect_ok C (Hide (report_domain rp') (rv_entity r')) c c'"
    by auto
  then have "rp' = rp" using takedown(3,4) by (metis distinct_key)
  then show ?case using r' takedown(5) by simp
next
  case (resolve pid action admin why c x c')
  then show ?case using resolve_effect [OF resolve(1), of C] by auto
qed (auto simp: silent_core same_core_refl dest: create_silent edit_silent submit_silent reject_silent create_report_silent
    approve_failed resolve_failed set_tool_core)

text \<open>A fresh database has no content; a run is a sequence of labelled steps.\<close>

definition content_start :: "cdb \<Rightarrow> bool" where
  "content_start c \<longleftrightarrow> (\<forall>dm. entities c dm = [] \<and> revs c dm = []) \<and> reviews c = []"

inductive content_run :: "cenv \<Rightarrow> effect list \<Rightarrow> cdb \<Rightarrow> cdb \<Rightarrow> bool" for C where
  run_nil: "content_run C [] c c"
| run_snoc: "content_run C tr c c1 \<Longrightarrow> content_step C a c1 c2 \<Longrightarrow> content_run C (tr @ [a]) c c2"

lemma content_start_ok: "content_start c \<Longrightarrow> content_ok C c"
  by (simp add: content_start_def content_ok_def domain_ok_def)

interpretation content: transition_system content_start "\<lambda>c c'. \<exists>a. content_step C a c c'" "content_ok C" for C
  using content_start_ok content_step_ok unfolding effect_ok_def by unfold_locales blast+

lemma run_reaches: "content_run C tr c c' \<Longrightarrow> (\<lambda>c c'. \<exists>a. content_step C a c c')\<^sup>*\<^sup>* c c'"
  by (induction rule: content_run.induct) (blast intro: rtranclp.rtrancl_into_rtrancl)+

lemma run_refines: "content_run C tr c c' \<Longrightarrow> content_ok C c \<Longrightarrow>
    content_ok C c' \<and> public_content c' = fold apply_effect tr (public_content c)"
proof (induction rule: content_run.induct)
  case (run_snoc tr c c1 a c2)
  then show ?case using content_step_ok [OF run_snoc(2)] by (auto simp: effect_ok_def)
qed simp

end
