(* ===== verification/Content_Outcomes.thy ===== *)
theory Content_Outcomes
  imports Content_System
begin

text \<open>
  What the content system promises: the public catalogue follows the labels of the requests, what is
  public was approved as it is, the directory shows exactly the catalogue, and the authors' requests
  never run into the database's owner guards. The examples run one expert from draft to off line.
\<close>

section \<open>Examples\<close>

definition ex_cenv :: cenv where
  "ex_cenv = \<lparr>acct_env = ex_env, digest = (\<lambda>s. map char_of s),
     parse_uuid = (\<lambda>s. case s of [u] \<Rightarrow> Some u | _ \<Rightarrow> None),
     has_api_key = (\<lambda>s. rowcount (\<lambda>c. c = 36) s), has_danger = (\<lambda>_. 0), has_code = (\<lambda>_. 0), has_jailbreak = (\<lambda>_. 0)\<rparr>"

definition ex_c0 :: cdb where
  "ex_c0 = \<lparr>acc_db = ex_accounts\<lparr>ents := [\<lparr>en_id = 50, en_user = 1, en_kind = ''expert_author'', en_by = None, en_at = 0,
       en_revoked = None\<rparr>]\<rparr>, entities = (\<lambda>_. []), revs = (\<lambda>_. []), reviews = [], reports = []\<rparr>"

definition ex_content :: "(pystr \<times> json) list" where
  "ex_content = [text_field ''name'' ''Ada'', text_field ''persona'' ''x'']"

definition ex_c1 :: cdb where "ex_c1 = snd (create_entity ex_cenv 1 Experts ex_content [1] ''h'' 100 101 10 ex_c0)"
definition ex_c2 :: cdb where "ex_c2 = snd (submit_revision ex_cenv 1 Experts ''d'' ''e'' [] [2] ''h'' 20 ex_c1)"
definition ex_c3 :: cdb where
  "ex_c3 = snd (approve_revision ex_cenv ''expert_revision'' (Uuid 101) 1 (Some (pystr_of ''ok'')) ex_c2)"
definition ex_c4 :: cdb where "ex_c4 = snd (offline_entity ex_cenv 1 Experts ''d'' [3] ''h'' 40 ex_c3)"

lemma ex_c0_start: "content_start ex_c0"
  by (simp add: content_start_def ex_c0_def)

lemma snd_eq: "fst z = x \<Longrightarrow> z = (x, snd z)"
  by (simp add: prod_eq_iff)

lemma ex_run:
  "content_run ex_cenv [Silent, Silent, Show Experts 100 (1, JObj ex_content)] ex_c0 ex_c3"
  "content_run ex_cenv [Silent, Silent, Show Experts 100 (1, JObj ex_content), Hide Experts 100] ex_c0 ex_c4"
proof -
  have 1: "content_step ex_cenv Silent ex_c0 ex_c1" unfolding ex_c1_def by (rule content_step.create [OF surjective_pairing])
  have 2: "content_step ex_cenv Silent ex_c1 ex_c2" unfolding ex_c2_def by (rule content_step.submit [OF surjective_pairing])
  have "fst (approve_revision ex_cenv ''expert_revision'' (Uuid 101) 1 (Some (pystr_of ''ok'')) ex_c2)
      = Inr \<lparr>ap_entity = 100, ap_published = 101, ap_previous = None, ap_no = 1,
             ap_sha = content_sha256 (digest ex_cenv) (JObj ex_content)\<rparr>" by code_simp
  note a = snd_eq [OF this, folded ex_c3_def]
  have "map_option (\<lambda>r. (rv_owner r, rv_content r)) (rev_of Experts 101 ex_c2) = Some (1, JObj ex_content)" by code_simp
  then obtain r where r: "rev_of Experts 101 ex_c2 = Some r" "(rv_owner r, rv_content r) = (1, JObj ex_content)" by auto
  have "domain_of ''expert_revision'' = Inr Experts" by (simp add: domain_of_def)
  from content_step.approve [OF a this] r have 3: "content_step ex_cenv (Show Experts 100 (1, JObj ex_content)) ex_c2 ex_c3" by simp
  have "\<exists>b. fst (offline_entity ex_cenv 1 Experts ''d'' [3] ''h'' 40 ex_c3) = Inr (Fresh b)" by (rule exI) code_simp
  then obtain b where b: "fst (offline_entity ex_cenv 1 Experts ''d'' [3] ''h'' 40 ex_c3) = Inr (Fresh b)" by blast
  have "parse_uuid ex_cenv (pystr_of ''d'') = Some 100" by code_simp
  with snd_eq [OF b, folded ex_c4_def] have 4: "content_step ex_cenv (Hide Experts 100) ex_c3 ex_c4" by (rule content_step.offline)
  show r3: "content_run ex_cenv [Silent, Silent, Show Experts 100 (1, JObj ex_content)] ex_c0 ex_c3"
    using run_snoc [OF run_snoc [OF run_snoc [OF run_nil 1] 2] 3] by simp
  show "content_run ex_cenv [Silent, Silent, Show Experts 100 (1, JObj ex_content), Hide Experts 100] ex_c0 ex_c4"
    using run_snoc [OF r3 4] by simp
qed

section \<open>The catalogue follows the labels\<close>

text \<open>C10: The public catalogue: in every run of the content services from an empty database, what the
  tables make public is what the labels of the steps say: an approval shows the approved content
  under its entity, a take-down, an off-line request and a deletion hide the entity, and no other
  request, successful or not, changes what anybody can read.\<close>

theorem catalogue_refinement:
  assumes "content_start c" and "content_run C tr c c'"
  shows "public_content c' = fold apply_effect tr (\<lambda>_ _. None)"
proof -
  have "public_content c = (\<lambda>_ _. None)"
    using assms(1) by (auto simp: content_start_def public_content_def shown_def fun_eq_iff)
  then show ?thesis using run_refines [OF assms(2) content_start_ok [OF assms(1)]] by simp
qed

theorem catalogue_refinement_witness:
  "public_content ex_c3 Experts 100 = Some (1, JObj ex_content) \<and> public_content ex_c4 Experts 100 = None"
  using catalogue_refinement [OF ex_c0_start ex_run(1)] catalogue_refinement [OF ex_c0_start ex_run(2)] by simp

section \<open>Public content was reviewed\<close>

text \<open>C11: No unreviewed content: whatever the content services have done, a public content is that of a
  published revision of the entity's owner for which there is an approving review with exactly the
  hash of this content.\<close>

theorem public_content_reviewed:
  assumes "content_start c" and "content_run C tr c c'" and "public_content c' dm eid = Some (owner, j)"
  shows "\<exists>r \<in> set (revs c' dm). rv_entity r = eid \<and> rv_owner r = owner \<and> rv_content r = j \<and> rv_status r = RvPublished
    \<and> (\<exists>w \<in> set (reviews c'). rw_domain w = dm \<and> rw_revision w = rv_id r \<and> rw_approved w
         \<and> rw_sha w = content_sha256 (digest C) j)"
proof -
  have "content_ok C c'" using run_refines [OF assms(2) content_start_ok [OF assms(1)]] by blast
  then have ok: "domain_ok C dm (entities c' dm) (revs c' dm) (reviews c')" by (simp add: content_ok_def)
  from assms(3) obtain e r where e: "e \<in> set (entities c' dm)" "ct_id e = eid" "ct_published e = Some (rv_id r)" "ct_owner e = owner"
    and r: "r \<in> set (revs c' dm)" "rv_content r = j"
    unfolding public_content_def shown_Some [OF domain_okD(1,2) [OF ok]] by auto
  obtain r' where r': "r' \<in> set (revs c' dm)" "rv_id r' = rv_id r" "rv_entity r' = eid" "rv_status r' = RvPublished"
    using domain_okD(5) [OF ok e(1)] e(2,3) by (auto simp: entity_ok_def)
  then have same: "r' = r" using rev_unique [OF ok] r(1) by blast
  obtain x where x: "x \<in> set (entities c' dm)" "ct_id x = rv_entity r" "ct_owner x = rv_owner r"
    using domain_okD(4) [OF ok r(1)] by (auto simp: rev_ok_def)
  have "x = e" by (rule entity_unique [OF ok x(1) e(1)]) (simp add: x(2) e(2) r'(3) [unfolded same])
  moreover have "reviewed dm (reviews c') r \<and> rv_sha r = content_sha256 (digest C) (rv_content r)"
    using domain_okD(4) [OF ok r(1)] r'(4) same by (simp add: rev_ok_def)
  ultimately show ?thesis
    using r x(3) e(4) r' same by (intro bexI [of _ r]) (auto simp: reviewed_def list_ex_iff)
qed

theorem public_content_reviewed_witness:
  "\<exists>w \<in> set (reviews ex_c3). rw_approved w \<and> rw_sha w = content_sha256 (digest ex_cenv) (JObj ex_content)"
proof -
  have "public_content ex_c3 Experts 100 = Some (1, JObj ex_content)" by code_simp
  from public_content_reviewed [OF ex_c0_start ex_run(1) this] show ?thesis by blast
qed

section \<open>The directory\<close>

lemma published_pairs_iff:
  assumes "content_ok C c"
  shows "(e, r) \<in> set (published_pairs c) \<longleftrightarrow> e \<in> set (entities c Experts) \<and> ct_status e = EPublished
     \<and> r \<in> set (revs c Experts) \<and> ct_published e = Some (rv_id r)"
proof -
  have ok: "domain_ok C Experts (entities c Experts) (revs c Experts) (reviews c)" using assms by (simp add: content_ok_def)
  have sees: "visible_rev None Experts p c = Some r \<longleftrightarrow> r \<in> set (revs c Experts) \<and> rv_id r = p"
    if e: "e \<in> set (entities c Experts)" "ct_status e = EPublished" "ct_published e = Some p" for e p r
  proof
    assume "visible_rev None Experts p c = Some r"
    then show "r \<in> set (revs c Experts) \<and> rv_id r = p" unfolding visible_rev_def by (auto dest!: find_Some_D)
  next
    assume r: "r \<in> set (revs c Experts) \<and> rv_id r = p"
    then have "sees_rev None Experts c r" using e by (auto simp: sees_rev_def sees_entity_def list_ex_iff)
    with r show "visible_rev None Experts p c = Some r"
      using find_key [OF domain_okD(2) [OF ok], of r "sees_rev None Experts c"] unfolding visible_rev_def by simp
  qed
  have "(e, r) \<in> set (published_pairs c) \<longleftrightarrow> e \<in> set (entities c Experts) \<and> ct_status e = EPublished
     \<and> (\<exists>p. ct_published e = Some p \<and> visible_rev None Experts p c = Some r)"
    by (auto simp: published_pairs_def sees_entity_def split: option.splits) force+
  then show ?thesis using sees by (cases "ct_published e") auto
qed

lemma public_iff:
  assumes "content_ok C c"
  shows "public_content c Experts eid = Some x \<longleftrightarrow>
    (\<exists>e r. (e, r) \<in> set (published_pairs c) \<and> ct_id e = eid \<and> x = (ct_owner e, rv_content r))"
proof -
  have ok: "domain_ok C Experts (entities c Experts) (revs c Experts) (reviews c)" using assms by (simp add: content_ok_def)
  show ?thesis
    unfolding public_content_def shown_Some [OF domain_okD(1,2) [OF ok]] published_pairs_iff [OF assms] by blast
qed

lemma on_acct_pairs: "on_acct m c = (x, c') \<Longrightarrow> published_pairs c' = published_pairs c"
proof -
  assume "on_acct m c = (x, c')"
  then have core: "entities c' = entities c" "revs c' = revs c" by (auto simp: same_core_def dest!: on_acct_core)
  then have "visible_rev None Experts rid c' = visible_rev None Experts rid c" for rid
    by (simp add: visible_rev_def sees_rev_def)
  with core show "published_pairs c' = published_pairs c" by (simp add: published_pairs_def cong: option.case_cong)
qed

lemma limit_not_found: "on_acct (limit_to s subs now) c \<noteq> (Inl not_found, c')"
  by (auto simp: on_acct_def limit_to_def not_found_def split: prod.splits sum.splits rl_error.splits)

text \<open>C13: The directory: in every reachable state each expert the anonymous directory lists or details is
  one of the catalogue with its public content, and the detail view answers 404 only for an
  identifier under which the catalogue has nothing.\<close>

theorem directory_shows_catalogue:
  assumes "content_start c0" and "content_run C tr c0 c"
  shows "(\<forall>items total c' e r. list_discover_experts C ip search category page n now c = (Inr (items, total), c')
        \<and> (e, r) \<in> set items \<longrightarrow> public_content c Experts (ct_id e) = Some (ct_owner e, rv_content r))
    \<and> (\<forall>e r ts ss c'. discover_expert_detail C ip expert_id now c = (Inr (e, r, ts, ss), c') \<longrightarrow>
        public_content c Experts (ct_id e) = Some (ct_owner e, rv_content r))
    \<and> (\<forall>eid c'. parse_uuid C (pystr_of expert_id) = Some eid \<and> discover_expert_detail C ip expert_id now c = (Inl not_found, c') \<longrightarrow>
        public_content c Experts eid = None)"
proof -
  have ok: "content_ok C c" using run_refines [OF assms(2) content_start_ok [OF assms(1)]] by blast
  have 1: "(e, r) \<in> set (published_pairs c)"
    if "list_discover_experts C ip search category page n now c = (Inr (items, total), c')" "(e, r) \<in> set items" for items total c' e r
    using that by (auto simp: list_discover_experts_def flow_simps Let_def dest!: on_acct_pairs in_set_takeD in_set_dropD)
  have 2: "(e, r) \<in> set (published_pairs c)"
    if "discover_expert_detail C ip expert_id now c = (Inr (e, r, ts, ss), c')" for e r ts ss c'
    using that by (auto simp: discover_expert_detail_def flow_simps dest!: on_acct_pairs find_Some_D)
  have 3: "\<forall>p \<in> set (published_pairs c). ct_id (fst p) \<noteq> eid"
    if u: "parse_uuid C (pystr_of expert_id) = Some eid" and d: "discover_expert_detail C ip expert_id now c = (Inl not_found, c')" for eid c'
  proof -
    obtain z c1 where l: "on_acct (limit_to ''discover'' [ip] now) c = (z, c1)" by fastforce
    with d u limit_not_found [of "''discover''" "[ip]" now c] have "find (\<lambda>(e, _). ct_id e = eid) (published_pairs c1) = None"
      by (auto simp: discover_expert_detail_def bindF_def some_uuid_def some_or_def ret_def throw_def asks_def
          split: sum.splits option.splits prod.splits)
    then show ?thesis by (auto simp: find_None_iff on_acct_pairs [OF l])
  qed
  have in_catalogue: "public_content c Experts (ct_id e) = Some (ct_owner e, rv_content r)" if "(e, r) \<in> set (published_pairs c)" for e r
    using that public_iff [OF ok] by blast
  have absent: "public_content c Experts eid = None" if "\<forall>p \<in> set (published_pairs c). ct_id (fst p) \<noteq> eid" for eid
    using that public_iff [OF ok, of eid] by (cases "public_content c Experts eid") force+
  show ?thesis
  proof (intro conjI allI impI)
    fix items total c' e r
    assume "list_discover_experts C ip search category page n now c = (Inr (items, total), c') \<and> (e, r) \<in> set items"
    then show "public_content c Experts (ct_id e) = Some (ct_owner e, rv_content r)" using 1 in_catalogue by blast
  next
    fix e r ts ss c' assume "discover_expert_detail C ip expert_id now c = (Inr (e, r, ts, ss), c')"
    then show "public_content c Experts (ct_id e) = Some (ct_owner e, rv_content r)" using 2 in_catalogue by blast
  next
    fix eid c' assume "parse_uuid C (pystr_of expert_id) = Some eid \<and> discover_expert_detail C ip expert_id now c = (Inl not_found, c')"
    then show "public_content c Experts eid = None" using 3 absent by blast
  qed
qed

theorem directory_shows_catalogue_witness:
  "\<exists>e r. (\<exists>t c'. list_discover_experts ex_cenv ''ip'' None None 1 20 50 ex_c3 = (Inr ([(e, r)], t), c'))
     \<and> public_content ex_c3 Experts (ct_id e) = Some (1, JObj ex_content)"
proof -
  let ?z = "fst (list_discover_experts ex_cenv ''ip'' None None 1 20 50 ex_c3)"
  have z: "(case ?z of Inl _ \<Rightarrow> [] | Inr (items, t) \<Rightarrow> map (\<lambda>(e, r). (ct_owner e, rv_content r)) items) = [(1, JObj ex_content)]"
    by code_simp
  then obtain items t where p: "?z = Inr (items, t)" by (cases ?z) auto
  with z obtain e r where er: "items = [(e, r)]" "ct_owner e = 1" "rv_content r = JObj ex_content" by auto
  note l = snd_eq [OF p]
  have "public_content ex_c3 Experts (ct_id e) = Some (ct_owner e, rv_content r)"
    by (rule conjunct1 [OF directory_shows_catalogue [OF ex_c0_start ex_run(1)], rule_format, OF conjI [OF l]]) (simp add: er)
  with l er show ?thesis by auto
qed

section \<open>The owner guards\<close>

text \<open>A program the database does not refuse.\<close>

definition clean :: "('s, 'a) prog \<Rightarrow> 's \<Rightarrow> bool" where
  "clean m c \<longleftrightarrow> (\<forall>s. fst (m c) \<noteq> Inl (DatabaseError s))"

named_theorems clean_rules

lemma clean_bind: "clean m c \<Longrightarrow> (\<And>x c1. m c = (Inr x, c1) \<Longrightarrow> clean (f x) c1) \<Longrightarrow> clean (bindF m f) c"
  by (auto simp: clean_def bindF_def split: prod.splits sum.splits)

lemma clean_basic [clean_rules]:
  "clean (ret x) c" "clean (asks f) c" "clean (change g) c"
  by (simp_all add: clean_def ret_def asks_def change_def)

lemma clean_atomically [clean_rules]: "clean m c \<Longrightarrow> clean (atomically m) c"
  by (auto simp: clean_def atomically_def split: prod.splits sum.splits)

lemma clean_errors [clean_rules]:
  "e \<notin> range DatabaseError \<Longrightarrow> clean (throw e) c" "e \<notin> range DatabaseError \<Longrightarrow> clean (require b e) c"
  "e \<notin> range DatabaseError \<Longrightarrow> clean (some_or e v) c"
  by (auto simp: clean_def throw_def require_def some_or_def ret_def split: option.splits)

lemma clean_flush_or [clean_rules]: "e \<notin> range DatabaseError \<Longrightarrow> clean m c \<Longrightarrow> clean (flush_or e m) c"
  by (auto simp: clean_def flush_or_def split: prod.splits sum.splits api_error.splits)

lemma clean_some_uuid [clean_rules]: "clean (some_uuid C s) c"
  unfolding some_uuid_def by (rule clean_errors) auto

lemma clean_idem_begin [clean_rules]: "clean (on_acct (idem_begin s r k h now)) c"
  by (auto simp: clean_def on_acct_def idem_begin_def begin_request_def lookup_record_def Let_def
      split: prod.splits sum.splits option.splits if_splits)

lemma clean_keep_answer [clean_rules]: "clean (keep_answer C me route key h body now) c"
  by (auto simp: clean_def keep_answer_def on_acct_def idem_store_def store_record_def Let_def
      split: prod.splits sum.splits if_splits)

lemma clean_audit [clean_rules]: "clean (on_acct (add_audit a act t why)) c"
  by (auto simp: clean_def on_acct_def add_audit_def change_def)

lemma clean_author [clean_rules]: "clean (assert_expert_author me) c"
  unfolding assert_expert_author_def by (intro clean_bind clean_rules) auto

lemma clean_refs [clean_rules]: "clean (validate_skill_refs C me refs) c"
proof (induction refs arbitrary: c)
  case (Cons ref refs)
  show ?case
    by (auto intro!: clean_bind clean_rules Cons.IH split: prod.splits)
qed (simp add: clean_rules)

lemma clean_gate [clean_rules]: "clean (content_gate C me content) c"
  unfolding content_gate_def by (intro clean_bind clean_rules) (auto intro: clean_rules split: sum.splits)

lemma clean_locked [clean_rules]: "clean (locked me dm eid) c"
  unfolding locked_def by (intro clean_bind clean_rules) (auto simp: not_found_def)

lemma clean_once:
  assumes "\<And>c1. same_core c c1 \<Longrightarrow> clean m c1"
  shows "clean (once_content C me route k h now m) c"
  unfolding once_content_def
proof (rule clean_bind [OF clean_idem_begin])
  fix r c1 assume "on_acct (idem_begin (subject_user (acct_env C) me) route k h now) c = (Inr r, c1)"
  from assms [OF on_acct_core [OF this]]
  show "clean (case r of Some (st, j) \<Rightarrow> ret (Replay st j) | None \<Rightarrow> bindF m (\<lambda>x. ret (Fresh x))) c1"
    by (auto intro: clean_bind clean_rules split: option.splits)
qed

lemma clean_insert_entity: "ct_owner e = me \<Longrightarrow> ct_status e = EDraft \<Longrightarrow> clean (insert_entity me dm e) c"
  by (simp add: clean_def insert_entity_def guard_entity_insert_def)

lemma clean_insert_rev: "rv_owner r = me \<Longrightarrow> rv_status r = RvDraft \<Longrightarrow> clean (insert_rev me dm r) c"
  by (simp add: clean_def insert_rev_def guard_rev_insert_def)

lemma clean_save_rev:
  assumes ok: "domain_ok C dm (entities c dm) (revs c dm) (reviews c)" and r: "r \<in> set (revs c dm)" "rv_owner r = me"
    and g: "guard_rev_write r (f r)"
  shows "clean (save_rev me dm (rv_id r) f) c"
proof -
  have "find (\<lambda>x. rv_id x = rv_id r \<and> rv_owner x = me) (revs c dm) = Some r"
    using find_key [OF domain_okD(2) [OF ok] r(1), of "\<lambda>x. rv_owner x = me"] r(2) by simp
  then show ?thesis using g r(2) by (simp add: clean_def save_rev_def guard_rev_write_def)
qed

lemma owner_of_rev:
  assumes "domain_ok C dm (entities c dm) (revs c dm) (reviews c)" and "r \<in> set (revs c dm)"
    and "lock_entity me dm (rv_entity r) c = Some e"
  shows "rv_owner r = me"
proof -
  obtain x where "x \<in> set (entities c dm)" "ct_id x = rv_entity r" "ct_owner x = rv_owner r"
    using domain_okD(4) [OF assms(1,2)] by (auto simp: rev_ok_def)
  then show ?thesis using entity_unique [OF assms(1)] lock_entityD [OF assms(3)] by metis
qed

lemma clean_write_draft:
  assumes ok: "domain_ok C dm (entities c dm) (revs c dm) (reviews c)" and e: "lock_entity me dm eid c = Some e"
  shows "clean (write_draft C me dm eid rid content now) c"
  unfolding write_draft_def Let_def
proof (rule clean_bind [OF clean_basic(2)])
  fix rs c1 assume "asks (visible_revs (Some me) dm eid) c = (Inr rs, c1)"
  then have rs: "rs = visible_revs (Some me) dm eid c" "c1 = c" by (auto simp: asks_def)
  have ins: "clean (bindF (insert_rev me dm (draft_rev C me eid rid n content now)) (\<lambda>_. ret rid)) c" for n
    by (intro clean_bind clean_insert_rev clean_rules) (simp_all add: draft_rev_def)
  have ow: "clean (bindF (save_rev me dm (rv_id r) (\<lambda>x. x\<lparr>rv_content := JObj content,
             rv_sha := content_sha256 (digest C) (JObj content)\<rparr>)) (\<lambda>_. ret (rv_id r))) c"
    if r: "latest_rev rs = Some r" "rv_status r = RvDraft" for r
  proof -
    have m: "r \<in> set (revs c dm)" "rv_entity r = eid"
      using r(1) find_Some_D unfolding latest_rev_def rs visible_revs_def by fastforce+
    show ?thesis
      by (intro clean_bind clean_save_rev [OF ok m(1) owner_of_rev [OF ok m(1)]] clean_rules)
        (use e m r(2) in \<open>simp_all add: guard_rev_write_def\<close>)
  qed
  show "clean (case latest_rev rs of None \<Rightarrow>
        bindF (insert_rev me dm (draft_rev C me eid rid (max_no rs + 1) content now)) (\<lambda>_. ret rid)
      | Some r \<Rightarrow> if rv_status r = RvDraft then
          bindF (save_rev me dm (rv_id r) (\<lambda>x. x\<lparr>rv_content := JObj content,
             rv_sha := content_sha256 (digest C) (JObj content)\<rparr>)) (\<lambda>_. ret (rv_id r))
        else bindF (insert_rev me dm (draft_rev C me eid rid (max_no rs + 1) content now)) (\<lambda>_. ret rid)) c1"
    unfolding rs(2) using ins ow by (auto split: option.splits)
qed

lemma save_rev_present:
  assumes "save_rev me dm rid f c = (Inr u, c')" and "\<And>x. rv_id (f x) = rv_id x"
  shows "rev_of dm rid c' \<noteq> None"
proof -
  from assms(1) obtain r where r: "find (\<lambda>r. rv_id r = rid \<and> rv_owner r = me) (revs c dm) = Some r"
    and c': "c' = upd_revs dm (\<lambda>x. rv_id x = rid \<and> rv_owner x = me) f c"
    by (auto simp: save_rev_def split: option.splits if_splits)
  from find_Some_D [OF r] have "\<exists>x \<in> set (revs c' dm). rv_id x = rid" using assms(2) by (auto simp: c' upd_revs_def)
  then show ?thesis by (auto simp: rev_of_def find_None_iff)
qed

lemma insert_rev_present: "insert_rev me dm r c = (Inr u, c') \<Longrightarrow> rev_of dm (rv_id r) c' \<noteq> None"
  by (auto simp: insert_rev_def add_rev_def rev_of_def find_None_iff split: if_splits)

lemma written_present:
  assumes "write_draft C me dm eid rid content now c = (Inr w, c')"
  shows "rev_of dm w c' \<noteq> None"
proof -
  let ?f = "\<lambda>x. x\<lparr>rv_content := JObj content, rv_sha := content_sha256 (digest C) (JObj content)\<rparr>"
  from assms consider n where "w = rid" "insert_rev me dm (draft_rev C me eid rid n content now) c = (Inr (), c')"
    | "save_rev me dm w ?f c = (Inr (), c')"
    by (auto simp: write_draft_def flow_simps Let_def split: if_splits)
  then show ?thesis
    using save_rev_present [of me dm w ?f] insert_rev_present [of me dm "draft_rev C me eid rid _ content now"]
    by cases (auto simp: draft_rev_def)
qed

lemma clean_insert_links:
  assumes "r \<in> set (revs c Experts)" and "rv_owner r = me" and "rv_status r = RvDraft" and "distinct (map rv_id (revs c Experts))"
  shows "clean (insert_links me (rv_id r) ps) c"
  using assms
proof (induction ps arbitrary: c)
  case (Cons p ps)
  have "\<not> list_ex (\<lambda>x. rv_id x = rv_id r \<and> rv_status x \<noteq> RvDraft) (revs c Experts)"
    using Cons.prems distinct_key [OF Cons.prems(4) _ Cons.prems(1)] by (auto simp: list_ex_iff)
  then have 1: "clean (insert_link me (rv_id r) p) c"
    using Cons.prems(1,2) by (auto simp: clean_def insert_link_def guard_tool_link_def list_ex_iff)
  have "revs c1 = revs c" if "insert_link me (rv_id r) p c = (Inr (), c1)" for c1
    using that by (auto simp: insert_link_def upd_work_def split: if_splits)
  then show ?case using 1 Cons.IH Cons.prems by (auto intro!: clean_bind)
qed (simp add: clean_rules)

lemma normalize_skills: "normalize_tools tools False = Inr ps \<Longrightarrow> ps = []"
  by (auto simp: normalize_tools_def split: if_splits)

lemma core_ok: "content_ok C c \<Longrightarrow> same_core c c1 \<Longrightarrow> domain_ok C dm (entities c1 dm) (revs c1 dm) (reviews c1)"
  by (simp add: content_ok_def same_core_def)

lemma clean_create: "clean (create_entity C me dm content key h eid rid now) c"
  unfolding create_entity_def Let_def
  by (intro clean_once clean_bind clean_insert_entity clean_insert_rev clean_rules) (simp_all add: draft_rev_def)

lemma clean_edit:
  assumes "content_ok C c"
  shows "clean (edit_entity C me dm entity_id content key h rid now) c"
  unfolding edit_entity_def Let_def
proof (intro clean_bind clean_once clean_atomically clean_some_uuid clean_gate clean_locked clean_basic, goal_cases)
  case (1 eid c1 c2 u c3 e c4)
  then show ?case
    using clean_write_draft [OF core_ok [OF assms]] by (auto simp: flow_simps dest!: gate_read)
next
  case (2 eid c1 c2 u c3 e c4 w c5 row c6)
  then show ?case using written_present [OF 2(5)] by (auto simp: asks_def some_or_def clean_def ret_def split: option.splits)
qed (rule clean_rules)

lemma clean_offline:
  assumes "content_ok C c"
  shows "clean (offline_entity C me dm entity_id key h now) c"
  unfolding offline_entity_def Let_def
proof (intro clean_bind clean_once clean_atomically clean_some_uuid clean_author clean_locked clean_basic, goal_cases)
  case (1 eid c1 c2 u c3 e c4)
  then have l: "lock_entity me dm eid c4 = Some e" by (simp add: flow_simps)
  then have "clean (save_entity me dm eid (\<lambda>x. x\<lparr>ct_status := EDraft\<rparr>)) c4" if "ct_status e = EPublished"
    using that lock_entityD [OF l] by (simp add: clean_def save_entity_def guard_entity_write_def)
  then show ?case by (auto intro!: clean_rules split: entity_status.splits)
qed (rule clean_rules)+

lemma clean_tools: "clean (raised (normalize_tools tools b)) c"
proof -
  have "tool_pairs items acc \<noteq> Inl (DatabaseError s)" for items acc s
    by (induction items acc rule: tool_pairs.induct) (auto split: option.splits)
  then show ?thesis
    by (auto simp: clean_def raised_def throw_def ret_def normalize_tools_def bindE_def split: sum.splits if_splits)
qed

lemma clean_plain:
  "clean (require b (HttpDetail s n)) c" "clean (require b (AppError x n h)) c" "clean (some_or not_found v) c"
  unfolding not_found_def by (rule clean_errors, force)+

lemma clean_submit:
  assumes "content_ok C c"
  shows "clean (submit_revision C me dm entity_id revision_id tools key h now) c"
  unfolding submit_revision_def Let_def
proof (intro clean_bind clean_once clean_atomically clean_some_uuid clean_author clean_locked clean_tools clean_plain
    clean_keep_answer clean_basic, goal_cases)
  case (1 eid _ rid _ c1 ps _ _ _ _ _ e _ v _ r _ _ _ _ _ known _ _ c2)
  then have core: "same_core c c2" and l: "lock_entity me dm eid c2 = Some e" and r: "r \<in> set (revs c2 dm)" "rv_entity r = eid"
    and draft: "rv_status r = RvDraft" and tools: "normalize_tools tools (dm = Experts) = Inr ps"
    by (auto simp: flow_simps dest!: assert_author_read find_Some_D)
  have own: "rv_owner r = me" using owner_of_rev [OF core_ok [OF assms core] r(1)] l r(2) by simp
  show ?case
  proof (cases dm)
    case Experts
    then show ?thesis
      using clean_insert_links [OF _ own draft, of c2 ps] r(1) domain_okD(2) [OF core_ok [OF assms core]] by simp
  next
    case Skills
    then have "ps = []" using tools normalize_skills by simp
    then show ?thesis by (simp add: clean_rules)
  qed
next
  case (2 eid _ rid _ c1 ps _ _ _ _ _ e _ v _ r _ _ _ _ _ known _ _ c2 _ c3)
  then have core: "same_core c c2" and l: "lock_entity me dm eid c2 = Some e" and r: "r \<in> set (revs c2 dm)" "rv_entity r = eid"
    and draft: "rv_status r = RvDraft" and links: "insert_links me (rv_id r) ps c2 = (Inr (), c3)"
    by (auto simp: flow_simps dest!: assert_author_read find_Some_D)
  note own = owner_of_rev [OF core_ok [OF assms core] r(1)]
  have core3: "same_core c c3" using insert_links_core [OF links] core same_core_trans by blast
  have "r \<in> set (revs c3 dm)" using r(1) insert_links_core [OF links] by (simp add: same_core_def)
  then show ?case
    by (rule clean_save_rev [OF core_ok [OF assms core3]]) (use own l r(2) draft in \<open>simp_all add: guard_rev_write_def\<close>)
qed

text \<open>C12: The service's own gates come first: in every reachable state a create, edit, submit or off-line
  request, whatever its arguments, never reaches a statement that the owner guards, the
  row-level policies or the row lookup of an update would refuse.\<close>

theorem owner_guards_never_fire:
  assumes "content_start c0" and "content_run C tr c0 c"
  shows "clean (create_entity C me dm content key h eid rid now) c
    \<and> clean (edit_entity C me dm entity_id content key h rid now) c
    \<and> clean (submit_revision C me dm entity_id revision_id tools key h now) c
    \<and> clean (offline_entity C me dm entity_id key h now) c"
proof -
  have "content_ok C c" using run_refines [OF assms(2) content_start_ok [OF assms(1)]] by blast
  then show ?thesis by (intro conjI clean_create clean_edit clean_submit clean_offline)
qed

theorem owner_guards_never_fire_witness:
  "\<forall>s. fst (edit_entity ex_cenv 1 Experts ''d'' ex_content [9] ''h'' 102 60 ex_c3) \<noteq> Inl (DatabaseError s)"
  using owner_guards_never_fire [OF ex_c0_start ex_run(1)] unfolding clean_def by blast

end
