(* ===== verification/Spec2Isabelle.thy ===== *)
theory Spec2Isabelle
  imports Provider_Store Task_Files Task_File_Rules Task_File_Outcomes Task_Outcomes Task_Counting Task_Examples Task_Views Task_Streams Content_Hash Base64 Key_Sealing Tool_Callbacks Rate_Limit Idempotency Outbox Identity_Store Sessions Accounts Passwords Deletion Admin_Users Identity_Rules Identity_System Identity_Outcomes Content_Store Content_Author Content_Review Content_Rules Content_System Content_Outcomes
begin

text \<open>
  AgentCraft is a service on which users run expert agents: an author publishes an expert, an owner
  starts a task with it, and every message of the task becomes a round that one executor carries out in
  a container with the owner's model key. This development models the version 2 backend
  (\<open>src/backend/v2\<close>, its routes' gates under \<open>src/backend/api\<close>, its migrations' policies and triggers
  under \<open>src/backend/alembic_v2\<close>) and proves that its parts keep what they promise, for every
  interleaving of their transactions.

  \<^bold>\<open>The parts of the program.\<close> Three databases in one: the task domain (tasks, rounds, events, messages,
  files, reservations, quotas, worker slots, providers), the account domain (users, sessions, tokens,
  invitations, audit, outbox, idempotency records, rate-limit events) and the content domain (experts,
  skills, revisions, reviews, reports). Requests, the dispatcher's background jobs, the round executors
  and the tool callbacks of their containers meet only in these tables: they communicate by guarded
  updates, leases with epochs, and event logs. The development follows that shape: a table is a list of
  records, an operation a function on the database, a system a transition relation whose steps are the
  committed transactions.

  \<^bold>\<open>How the model is built.\<close>
  \<^item> A service function that runs in its caller's transaction is \<open>... \<Rightarrow> db \<Rightarrow> api_error + 'a \<times> db\<close>: \<open>Inl\<close> is the
    exception and with it the rollback. Services that commit several transactions (accounts, content)
    are \<open>flow\<close>s over \<open>idb\<close> that keep what was committed before an error.
  \<^item> The first argument \<open>me\<close> of an operation is the owner the session is bound to; the row-level
    policies are part of every read and write (\<open>upd_tasks me P f\<close> changes rows of \<open>me\<close> only).
  \<^item> Generated identifiers, tokens, the clock, digests, password hashes and sealed keys are arguments;
    Unicode normalisation, the digest of a text and other functions of foreign libraries are parameters
    (\<open>externals\<close>, \<open>env\<close>, \<open>cenv\<close>). Identifiers of a request are \<open>raw_id\<close>s: a UUID or not one.
  \<^item> Counters, lengths and times are unbounded numbers where Python's are; bytes are \<open>8 word\<close>s.
  \<^item> A background job is two steps, its scan and its write, so a write may use a candidate of any earlier
    scan. The lease expiry time is data only: every argument about a stale executor is by the epoch.

  \<^bold>\<open>Theories.\<close>
  \<^item> \<open>AC_Prelude\<close>: results, tables (\<open>upd\<close>, \<open>rowcount\<close>, \<open>sumof\<close>), text, identifiers, the locale
    \<open>transition_system\<close>; every system below interprets it.
  \<^item> \<open>Task_State\<close> (\<open>task_state.py\<close>), \<open>Task_Store\<close> (\<open>models/tasking.py\<close> and the write primitives),
    \<open>Task_Release\<close> (\<open>task_release.py\<close>): states, rows, ledgers. \<open>Task_Invariants\<close> holds the consistency
    \<open>good\<close> of the tables, the footprint \<open>touches\<close> of a transaction and the locales \<open>task_transaction\<close> and
    \<open>job_transaction\<close>, interpreted on every operation.
  \<^item> \<open>Task_Service\<close> (\<open>task_service.py\<close>, \<open>tool_service.py\<close>), \<open>Task_Dispatcher\<close> (\<open>task_dispatcher.py\<close>),
    \<open>Task_Executor\<close> (\<open>task_executor.py\<close>), \<open>Provider_Store\<close> (\<open>provider_service.py\<close>), \<open>Task_Files\<close>
    (\<open>task_file_service.py\<close>, \<open>task_storage.py\<close>, \<open>task_artifacts.py\<close>): the writers, each with the lemma
    that it keeps \<open>good\<close>. \<open>Task_Views\<close> (\<open>task_views.py\<close>) and \<open>Task_Streams\<close> (\<open>task_streams.py\<close>,
    \<open>api/v2/task_sse.py\<close>): the readers.
  \<^item> \<open>Task_System\<close> puts the writers together into \<open>step\<close>; \<open>Task_Outcomes\<close>, \<open>Task_Counting\<close>,
    \<open>Task_File_Rules\<close> and \<open>Task_File_Outcomes\<close> prove what its operations return and its runs keep;
    \<open>Task_Examples\<close> is one concrete run, the input of the witnesses.
  \<^item> \<open>Base64\<close>, \<open>Key_Sealing\<close> (\<open>utils/crypto.py\<close>, \<open>provider_crypto.py\<close>): the envelopes of stored keys.
    \<open>Tool_Callbacks\<close> (\<open>api/internal.py\<close>, \<open>task_token.py\<close>, \<open>engine/platform_tools.py\<close>): what a container may
    ask for with its token, and the provider grant.
  \<^item> \<open>Content_Hash\<close>, \<open>Rate_Limit\<close>, \<open>Idempotency\<close>, \<open>Outbox\<close>: the infrastructure of the same names.
  \<^item> \<open>Identity_Store\<close>, \<open>Sessions\<close>, \<open>Accounts\<close>, \<open>Passwords\<close>, \<open>Deletion\<close>, \<open>Admin_Users\<close>: the account services;
    \<open>Identity_Rules\<close> the contract \<open>acct_rel\<close> each of them keeps, \<open>Identity_System\<close> their system,
    \<open>Identity_Outcomes\<close> its properties.
  \<^item> \<open>Content_Store\<close>, \<open>Content_Author\<close>, \<open>Content_Review\<close>: the content services with the database's policies
    and owner guards; \<open>Content_Rules\<close> the abstract catalogue, \<open>Content_System\<close> the simulation,
    \<open>Content_Outcomes\<close> its properties.

  \<^bold>\<open>What the lemmas show.\<close> For the task domain: the counters agree with the tables and stay within the
  quotas, rounds follow the task's state, the event log is gap-free and replays to the state, a stale
  executor writes nothing, a requested end comes about, one owner never touches another, files keep
  their limits and their bytes, and what each operation returns in each state; a container with a stale token is locked out, and a
  provider key is handed out only for a running round and after an audit row. For the account domain:
  the life cycle of accounts, single use of links, the effect of resets, sessions and deletions. For the
  content domain: the detailed tables refine an abstract catalogue, and what is public was reviewed.

  \<^bold>\<open>Bounds.\<close> No definition uses fuel: every loop of the modelled code runs over a list or a decreasing
  count. Limits of the code (three attempts, ten inputs, five and ten MiB, twenty candidates of a batch,
  the rate limits) are definitions of their own.

  \<^bold>\<open>Not modelled.\<close> The containers and their transport (\<open>engine\<close>), the provider proxy, the MCP sandbox, the version 1 API
  and its tables, the HTTP routes' plumbing, response time stamps and error texts, mail transport, the
  data definition statements of the migrations beyond constraints, policies and triggers, and the
  front end. Within a modelled transaction, interleavings that the row locks exclude are left out; a
  disk operation fails before its effect; message primary keys and the expert and provider display
  fields of the task view are left out; JSON floats are not represented.
\<close>

section \<open>Invariants of the running system\<close>

lemmas reachable_good = task_system.good_reachable [unfolded sys_good_def]

lemma start_within: "start s \<Longrightarrow> within (base s)"
  by (simp add: start_def empty_db_def within_def)

lemma step_within: "sys_good s \<Longrightarrow> step X s s' \<Longrightarrow> within (base s) \<Longrightarrow> within (base s')"
  using exec_ok_job ready_pre provider_batch
  by (erule_tac step.cases) (fastforce simp: ok_job_def ok_batch_def sys_good_def)+

lemma reachable_within:
  assumes "start s" and "(step X)\<^sup>*\<^sup>* s s'"
  shows "within (base s')"
  using task_system.stable_along [where Q = "\<lambda>s. within (base s)", OF assms(2) start_good [OF assms(1)] start_within [OF assms(1)]]
    step_within by blast

text \<open>C1: In every reachable state the counters the code keeps incrementally agree with the tables: a
  user's active tasks are the tasks in no terminal state, the running tasks those with a round in
  flight; the stored bytes, the user's and the platform's, cover the sum of the held reservations, and
  equal it as long as no provider key was revoked or rotated.\<close>

theorem counters_exact:
  assumes "start s" and "(step X)\<^sup>*\<^sup>* s s'" and "usage (base s') u = Some q"
  shows "u_active q = rowcount (\<lambda>t. t_owner t = u \<and> \<not> terminal_status (t_status t)) (tasks (base s'))
    \<and> u_running q = rowcount (\<lambda>t. t_owner t = u \<and> t_status t = Running
           \<and> act_of (base s') (t_id t) \<noteq> []) (tasks (base s'))
    \<and> bytes_user (base s') u \<le> u_storage q \<and> bytes_all (base s') \<le> pl_used (base s')
    \<and> (intact s' \<longrightarrow> u_storage q = bytes_user (base s') u \<and> pl_used (base s') = bytes_all (base s'))"
proof -
  have g: "good (base s')" "intact s' \<longrightarrow> exact (base s')" using reachable_good [OF assms(1,2)] by blast+
  have "acct (base s')" using g(1) by (simp add: good_def)
  then have a: "acct_user (base s') u" "bytes_all (base s') \<le> pl_used (base s')" by (simp_all add: acct_def)
  have "intact s' \<longrightarrow> u_storage q = bytes_user (base s') u \<and> pl_used (base s') = bytes_all (base s')"
    using g(2) assms(3) by (auto simp: exact_def)
  with a show ?thesis
    using assms(3) held_active_count [OF g(1)] held_running_count [OF g(1)] by (simp add: acct_user_def)
qed

theorem counters_exact_witness:
  "\<exists>q. usage (base exs_running) 1 = Some q \<and> u_running q = 1
     \<and> u_running q = rowcount (\<lambda>t. t_owner t = 1 \<and> t_status t = Running
           \<and> act_of (base exs_running) (t_id t) \<noteq> []) (tasks (base exs_running))"
proof -
  have "usage (base exs_running) 1 = Some \<lparr>u_active = 1, u_running = 1, u_storage = 0\<rparr>" by code_simp
  with counters_exact [OF ex_start ex_steps(3) this] show ?thesis by auto
qed



text \<open>C5: In every reachable state a task has at most one active round, and its kind is fixed by the task's
  state: a pending round exactly when the task is queued, a running one exactly when the task is
  running with no terminal intent, none at all in \<open>uploading\<close>, \<open>ready\<close> and the terminal states
  other than \<open>deleted\<close>.\<close>

theorem rounds_follow_status:
  assumes "start s" and "(step X)\<^sup>*\<^sup>* s s'" and "task_at (base s') i = Some t"
  shows "length (act_of (base s') i) \<le> 1
    \<and> (map r_state (act_of (base s') i) = [RPending] \<longleftrightarrow> t_status t = Queued)
    \<and> (map r_state (act_of (base s') i) = [RRunning] \<longleftrightarrow> t_status t = Running \<and> t_pending t = None)
    \<and> (t_status t \<in> {Uploading, Ready, Completed, Failed, Aborted} \<longrightarrow> act_of (base s') i = [])"
proof -
  have "good (base s')" using reachable_good [OF assms(1,2)] by blast
  from good_task(2) [OF this assms(3)]
  have p: "phase_ok (t_status t) (t_pending t) (map r_state (act_of (base s') i))
     (held_task (base s') i KActive) (held_task (base s') i KRunning)" .
  have "length (map r_state (act_of (base s') i)) \<le> 1"
    using p by (cases "t_status t") auto
  then show ?thesis using p by (cases "t_status t") (auto simp: length_Suc_conv)
qed

theorem rounds_follow_status_witness:
  "\<exists>t. task_at (base exs_queued) 100 = Some t \<and> t_status t = Queued
     \<and> map r_state (act_of (base exs_queued) 100) = [RPending]"
proof -
  obtain t where t: "task_at (base exs_queued) 100 = Some t" "t_status t = Queued"
  proof -
    have "map_option t_status (task_at (base exs_queued) 100) = Some Queued" by code_simp
    then show thesis using that by auto
  qed
  with rounds_follow_status [OF ex_start ex_steps(2) t(1)] show ?thesis by auto
qed

text \<open>The platform never runs more rounds at once than it has slots, and every round in flight has its
  slot: the number of running rounds is at most the number of leased slots.\<close>

theorem running_bounded_by_slots:
  assumes "start s" and "(step X)\<^sup>*\<^sup>* s s'"
  shows "rowcount (\<lambda>r. r_state r = RRunning) (rounds (base s')) \<le> rowcount s_leased (slots (base s'))
    \<and> rowcount s_leased (slots (base s')) \<le> length (slots (base s'))"
proof -
  have "good (base s')" using reachable_good [OF assms(1,2)] by blast
  from running_rounds_slots [OF this] show ?thesis by (simp add: rowcount_def)
qed

theorem running_bounded_by_slots_witness:
  "rowcount (\<lambda>r. r_state r = RRunning) (rounds (base exs_running)) = 1
   \<and> 1 \<le> rowcount s_leased (slots (base exs_running))"
proof -
  have "rowcount (\<lambda>r. r_state r = RRunning) (rounds (base exs_running)) = 1" by code_simp
  with running_bounded_by_slots [OF ex_start ex_steps(3)] show ?thesis by simp
qed



text \<open>A round is attempted at most three times: in every reachable state the attempt number is the lease
  epoch and at most 3, and a pending round has an attempt left.\<close>

theorem attempts_bounded:
  assumes "start s" and "(step X)\<^sup>*\<^sup>* s s'" and "r \<in> set (rounds (base s'))"
  shows "r_attempt r = r_epoch r \<and> r_attempt r \<le> attempt_limit
    \<and> (r_state r = RPending \<longrightarrow> r_attempt r < attempt_limit)"
proof -
  have g: "good (base s')" using reachable_good [OF assms(1,2)] by blast
  have m: "r \<in> set (rounds_of (base s') (r_task r))" using assms(3) by (rule round_of_task)
  then obtain t where "task_at (base s') (r_task r) = Some t"
    using none_task(1) [OF g, of "r_task r"] by (cases "task_at (base s') (r_task r)") auto
  from good_task(5) [OF g this m] show ?thesis by (auto simp: round_ok_def attempt_limit_def)
qed

theorem attempts_bounded_witness:
  "\<exists>r. rounds (base exs_requeued) = [r] \<and> r_attempt r = 1 \<and> r_attempt r \<le> attempt_limit"
proof -
  have "map r_attempt (rounds (base exs_requeued)) = [1]" by code_simp
  then obtain r where r: "rounds (base exs_requeued) = [r]" "r_attempt r = 1" by auto
  then have "r \<in> set (rounds (base exs_requeued))" by simp
  from attempts_bounded [OF ex_start ex_steps(9) this] r show ?thesis by blast
qed

section \<open>What an execution can do to one task\<close>

text \<open>C23: Terminal states are absorbing along every execution: a completed, failed or aborted task keeps its
  state until it is deleted, and a deleted one stays deleted.\<close>

theorem terminal_forever:
  assumes "start s0" and "(step X)\<^sup>*\<^sup>* s0 s" and "(step X)\<^sup>*\<^sup>* s s'"
    and "task_at (base s) i = Some t" and "terminal_status (t_status t)"
  shows "\<exists>t'. task_at (base s') i = Some t' \<and> (t_status t' = t_status t \<or> t_status t' = Deleted)"
proof -
  have g: "sys_good s" by (rule task_system.good_reachable [OF assms(1,2)])
  have ab: "b = Deleted" if "b \<in> set (valid_transitions a)" "terminal_status a" for a b
    using terminal_absorbing that by blast
  obtain t' where "task_at (base s') i = Some t'" "t_status t' = t_status t \<or> t_status t' = Deleted"
    by (rule task_along [where P = "\<lambda>u. t_status u = t_status t \<or> t_status u = Deleted", OF assms(3) g assms(4)])
      (use assms(5) ab in \<open>auto simp: evolves_def allowed_flip_def\<close>)
  then show ?thesis by blast
qed

theorem terminal_forever_witness:
  "\<exists>t t'. task_at (base exs_aborted) 100 = Some t \<and> t_status t = Aborted
     \<and> task_at (base (after (Delete 1 (Uuid 100)) exs_aborted)) 100 = Some t'
     \<and> (t_status t' = Aborted \<or> t_status t' = Deleted)"
proof -
  obtain t where t: "task_at (base exs_aborted) 100 = Some t" "t_status t = Aborted"
  proof -
    have "map_option t_status (task_at (base exs_aborted) 100) = Some Aborted" by code_simp
    then show thesis using that by auto
  qed
  have "(step ex_ext)\<^sup>*\<^sup>* exs_aborted (after (Delete 1 (Uuid 100)) exs_aborted)"
    by (rule r_into_rtranclp, rule step_after) simp
  from terminal_forever [OF ex_start ex_steps(7) this t(1)] t show ?thesis by auto
qed

text \<open>A task's snapshot is frozen at creation: no execution changes its owner, skill revision, provider,
  catalog entry, model, key version or MCP mounts, and its event counter never decreases.\<close>

theorem snapshot_frozen:
  assumes "start s0" and "(step X)\<^sup>*\<^sup>* s0 s" and "(step X)\<^sup>*\<^sup>* s s'"
    and "task_at (base s) i = Some t"
  shows "\<exists>t'. task_at (base s') i = Some t' \<and> t_owner t' = t_owner t \<and> t_revision t' = t_revision t
     \<and> t_provider t' = t_provider t \<and> t_catalog t' = t_catalog t \<and> t_model t' = t_model t
     \<and> t_keyver t' = t_keyver t \<and> t_mcp t' = t_mcp t \<and> t_eseq t \<le> t_eseq t'"
proof -
  have g: "sys_good s" by (rule task_system.good_reachable [OF assms(1,2)])
  obtain t' where "task_at (base s') i = Some t'" "t_owner t' = t_owner t \<and> t_revision t' = t_revision t
     \<and> t_provider t' = t_provider t \<and> t_catalog t' = t_catalog t \<and> t_model t' = t_model t
     \<and> t_keyver t' = t_keyver t \<and> t_mcp t' = t_mcp t \<and> t_eseq t \<le> t_eseq t'"
    by (rule task_along [where P = "\<lambda>t'. t_owner t' = t_owner t \<and> t_revision t' = t_revision t
     \<and> t_provider t' = t_provider t \<and> t_catalog t' = t_catalog t \<and> t_model t' = t_model t
     \<and> t_keyver t' = t_keyver t \<and> t_mcp t' = t_mcp t \<and> t_eseq t \<le> t_eseq t'", OF assms(3) g assms(4)])
      (auto simp: evolves_def)
  then show ?thesis by blast
qed

theorem snapshot_frozen_witness:
  "\<exists>t t'. task_at (base exs_running) 100 = Some t \<and> t_keyver t = 1
     \<and> task_at (base exs_ready) 100 = Some t' \<and> t_keyver t' = 1"
proof -
  obtain t where t: "task_at (base exs_running) 100 = Some t" "t_keyver t = 1"
  proof -
    have "map_option t_keyver (task_at (base exs_running) 100) = Some 1" by code_simp
    then show thesis using that by auto
  qed
  have "(step ex_ext)\<^sup>*\<^sup>* exs_running exs_ready"
    unfolding exs_ready_def by (rule r_into_rtranclp, rule step_after [OF ex_ready_calls(4)])
  from snapshot_frozen [OF ex_start ex_steps(3) this t(1)] t show ?thesis by auto
qed

text \<open>C7: Tenant isolation: whatever call runs in a reachable state, the rows of every user other than the one
  it works for, and that user's counters and quotas, are untouched, as are the rounds, reservations,
  log and messages of every other task.\<close>

theorem tenant_isolation:
  assumes "start s0" and "(step X)\<^sup>*\<^sup>* s0 s" and "ready c s" and "u \<noteq> actor c" and "j \<noteq> subject c"
    and "d = base s" and "d' = exec X c (base s)"
  shows "filter (\<lambda>t. t_owner t = u) (tasks d') = filter (\<lambda>t. t_owner t = u) (tasks d)
    \<and> filter (\<lambda>r. r_owner r = u) (rounds d') = filter (\<lambda>r. r_owner r = u) (rounds d)
    \<and> filter (\<lambda>e. e_owner e = u) (events d') = filter (\<lambda>e. e_owner e = u) (events d)
    \<and> filter (\<lambda>m. m_owner m = u) (messages d') = filter (\<lambda>m. m_owner m = u) (messages d)
    \<and> filter (\<lambda>f. f_owner f = u) (files d') = filter (\<lambda>f. f_owner f = u) (files d)
    \<and> usage d' u = usage d u \<and> quotas d' u = quotas d u
    \<and> task_at d' j = task_at d j \<and> rounds_of d' j = rounds_of d j \<and> resvs_of d' j = resvs_of d j
    \<and> log_of d' j = log_of d j \<and> msgs_of d' j = msgs_of d j"
proof -
  have g: "sys_good s" by (rule task_system.good_reachable [OF assms(1,2)])
  have pre: "good d" "call_pre c d" using g ready_pre [OF g assms(3)] assms(6) by (auto simp: sys_good_def)
  note o = calls.other_owner [of d "(X, c)" "()" d' u] and t = calls.other_task [of d "(X, c)" "()" d' j]
  show ?thesis using o t pre assms(4-7) by simp
qed

theorem tenant_isolation_witness:
  "ready (Delete 1 (Uuid 100)) exs_ready
   \<and> usage (exec ex_ext (Delete 1 (Uuid 100)) (base exs_ready)) 2 = usage (base exs_ready) 2"
  using tenant_isolation [OF ex_start ex_steps(4) ex_ready_calls(8), of 2 5] ex_ready_calls(8) by simp

text \<open>Every call except the terminal sweep only appends to event logs: in a reachable state the log of
  each existing task after the call extends the log before it.\<close>

theorem log_append_only:
  assumes "start s0" and "(step X)\<^sup>*\<^sup>* s0 s" and "ready c s" and "task_at (base s) i = Some t"
    and "\<And>k. c \<noteq> SweepTerminal k"
  shows "\<exists>es. log_of (exec X c (base s)) i = log_of (base s) i @ es"
proof -
  have g: "sys_good s" by (rule task_system.good_reachable [OF assms(1,2)])
  then have "good (base s)" by (simp add: sys_good_def)
  from exec_appends [OF this ready_pre [OF g assms(3)] assms(4,5)] show ?thesis .
qed

theorem log_append_only_witness:
  "\<exists>es. log_of (exec ex_ext ex_settle (base exs_running)) 100 = log_of (base exs_running) 100 @ es"
proof -
  obtain t where t: "task_at (base exs_running) 100 = Some t"
  proof -
    have "task_at (base exs_running) 100 \<noteq> None" by code_simp
    then show thesis using that by auto
  qed
  show ?thesis
    by (rule log_append_only [OF ex_start ex_steps(3) ex_ready_calls(4) t]) (simp add: ex_settle_def)
qed

text \<open>C2: Lease fencing: once an executor's fence has failed in a reachable state, it fails for ever, however the
  round is requeued and claimed again; from then on the executor's renewals, facts, settlement and
  deadline write nothing.\<close>

theorem stale_executor_fenced:
  assumes "start s0" and "(step X)\<^sup>*\<^sup>* s0 s" and "x \<in> ctxs s" and "\<not> round_recheck x (base s)"
    and "(step X)\<^sup>*\<^sup>* s s'"
  shows "\<not> round_recheck x (base s') \<and> renew x ttl now (base s') = Inr (False, base s')
     \<and> persist_fact_tx x a content mid (base s') = Inr (None, base s')
     \<and> settle x p finish used mid (base s') = Inr (False, base s')
     \<and> enforce_round_deadline x (base s') = Inr ([], base s')"
proof -
  have g: "sys_good s" by (rule task_system.good_reachable [OF assms(1,2)])
  have "ctx_behind x (base s)" using behind_reachable [OF assms(1,2)] assms(3) by blast
  then have "fence_dead x (base s)"
    using recheck_dead g assms(4) by (auto simp: sys_good_def)
  then have "sel_rounds (x_owner x) (fenced x) (base s') = []"
    using dead_recheck dead_along [OF assms(5) g assms(3)] by blast
  then show ?thesis
    by (simp add: round_recheck_def renew_def persist_fact_tx_def settle_def enforce_round_deadline_def)
qed

theorem stale_executor_fenced_witness:
  "ex_ctx \<in> ctxs exs_requeued
   \<and> settle ex_ctx None ''stop'' [] 201 (base (after ex_claim exs_requeued))
     = Inr (False, base (after ex_claim exs_requeued))"
proof -
  have x: "ex_ctx \<in> ctxs exs_requeued" by code_simp
  have f: "\<not> round_recheck ex_ctx (base exs_requeued)" by code_simp
  have "ready ex_claim exs_requeued" by code_simp
  then have "(step ex_ext)\<^sup>*\<^sup>* exs_requeued (after ex_claim exs_requeued)"
    by (intro r_into_rtranclp step_after)
  from stale_executor_fenced [OF ex_start ex_steps(9) x f this] x show ?thesis by blast
qed

section \<open>Operations on a consistent database\<close>

lemma queued_or_ready_ends:
  assumes "good d" and "terminate_with terminal reason me (Uuid i) d = Inr (out, d')"
    and "terminal \<in> {Completed, Aborted}" and "find_task me i d' = Some t'" and "t_status t' = terminal"
  shows "act_of d' i = [] \<and> held_task d' i KActive = 0 \<and> leased_to d' i = 0"
proof -
  have g: "good d'" using terminate_with_ok [OF assms(1,3,2)] by (auto simp: ok_step_def)
  then have at: "task_at d' i = Some t'" using find_task_task_at assms(4) by (auto simp: good_def)
  have "act_of d' i = []" using good_task(2) [OF g at] assms(3,5) by auto
  then show ?thesis using terminal_holds_nothing [OF g at] assms(3,5) by auto
qed


text \<open>Rows of the example databases, by the state they are in.\<close>

lemma ex_find:
  "\<exists>t. find_task 1 100 ex_uploading = Some t \<and> t_status t = Uploading"
  "\<exists>t. find_task 1 100 ex_queued = Some t \<and> t_status t = Queued"
  "\<exists>t. find_task 1 100 ex_running = Some t \<and> t_status t = Running"
  "\<exists>t. find_task 1 100 ex_ready = Some t \<and> t_status t = Ready"
  "\<exists>t. find_task 1 100 ex_zombie = Some t \<and> t_status t = Running"
proof -
  have st: "\<exists>t. find_task 1 100 d = Some t \<and> t_status t = s" if "map_option t_status (find_task 1 100 d) = Some s" for d s
    using that by auto
  show "\<exists>t. find_task 1 100 ex_uploading = Some t \<and> t_status t = Uploading"
    "\<exists>t. find_task 1 100 ex_queued = Some t \<and> t_status t = Queued"
    "\<exists>t. find_task 1 100 ex_running = Some t \<and> t_status t = Running"
    "\<exists>t. find_task 1 100 ex_ready = Some t \<and> t_status t = Ready"
    "\<exists>t. find_task 1 100 ex_zombie = Some t \<and> t_status t = Running"
    by (rule st, code_simp)+
qed


text \<open>C6: The cancellation protocol runs to its end: aborting (or completing) a running task, then the
  dispatcher's cancellation of its round, then reconciliation leave the task in the requested
  terminal state with no active round, no reservation of quota and no slot; the reconciliation scan
  finds the task in between.\<close>

theorem cancellation_protocol:
  assumes "good d" and "find_task me i d = Some t" and "t_status t = Running" and "act_of d i = [r]"
    and "terminal \<in> {Completed, Aborted}"
  shows "\<exists>v d1 fs d2 gs d3 t'. terminate_with terminal reason me (Uuid i) d = Inr ((v, True), d1)
     \<and> cancel_cancelling_round (cand_of r) d1 = Inr (fs, d2)
     \<and> (i, me, terminal) \<in> set (pending_terminal_candidates d2)
     \<and> reconcile_one (i, me, terminal) d2 = Inr (gs, d3)
     \<and> find_task me i d3 = Some t' \<and> t_status t' = terminal \<and> act_of d3 i = []
     \<and> held_task d3 i KActive = 0 \<and> held_task d3 i KRunning = 0 \<and> leased_to d3 i = 0"
  by (rule cancellation_completes [OF assms])

theorem cancellation_protocol_witness:
  "\<exists>r v d1. act_of ex_running 100 = [r] \<and> terminate_with Aborted (Some UserCancel) 1 (Uuid 100) ex_running = Inr ((v, True), d1)
     \<and> (\<exists>fs d2. cancel_cancelling_round (cand_of r) d1 = Inr (fs, d2)
         \<and> (100, 1, Aborted) \<in> set (pending_terminal_candidates d2))"
proof -
  obtain t where t: "find_task 1 100 ex_running = Some t" "t_status t = Running" using ex_find(3) by blast
  obtain r where r: "act_of ex_running 100 = [r]"
  proof -
    have "length (act_of ex_running 100) = 1" by code_simp
    then show thesis using that by (auto simp: length_Suc_conv)
  qed
  from cancellation_protocol [OF good_exs(3) t r, of Aborted "Some UserCancel"] r show ?thesis by blast
qed

text \<open>C24: Every task that is not yet deleted can be deleted by its owner, in whatever state it is; afterwards it
  holds no reservation of any kind and no slot, and a second delete answers 404.\<close>

theorem delete_always_succeeds:
  assumes "good d" and "find_task me i d = Some t" and "t_status t \<noteq> Deleted"
  shows "\<exists>d' t'. delete_task me (Uuid i) d = Inr (i, d') \<and> find_task me i d' = Some t' \<and> t_status t' = Deleted
     \<and> (\<forall>k. held_task d' i k = 0) \<and> leased_to d' i = 0
     \<and> delete_task me (Uuid i) d' = Inl (app_error TASK_NOT_FOUND 404)"
proof -
  obtain d' t' where 1: "delete_task me (Uuid i) d = Inr (i, d')" "find_task me i d' = Some t'" "t_status t' = Deleted"
    using delete_returns [OF assms(2,3)] by blast
  have g: "good d'" using delete_task_ok [OF assms(1) 1(1)] by (auto simp: ok_step_def)
  then have "task_at d' i = Some t'" using find_task_task_at 1(2) by (auto simp: good_def)
  from terminal_holds_nothing(3) [OF g this] 1(3) have "leased_to d' i = 0" by simp
  moreover have "delete_task me (Uuid i) d' = Inl (app_error TASK_NOT_FOUND 404)"
    using 1(3) by (simp add: delete_task_def lock_task_found [OF 1(2)])
  ultimately show ?thesis using 1 delete_releases_all [OF assms(1) 1(1)] by blast
qed

theorem delete_always_succeeds_witness:
  "\<exists>d'. delete_task 1 (Uuid 100) ex_running = Inr (100, d') \<and> held_task d' 100 KRunning = 0
     \<and> delete_task 1 (Uuid 100) d' = Inl (app_error TASK_NOT_FOUND 404)"
proof -
  obtain t where t: "find_task 1 100 ex_running = Some t" "t_status t = Running" using ex_find(3) by blast
  from delete_always_succeeds [OF good_exs(3) t(1)] t(2) show ?thesis by auto
qed

text \<open>C26: Sending a message: a task with an active round answers 429 with \<open>Retry-After\<close>; otherwise a task that
  is not ready answers 409; a ready task accepts a valid message with fresh identifiers, becomes
  queued with exactly one pending round, and publishes its three frames with the three consecutive
  sequence numbers the log has.\<close>

theorem send_message_outcome:
  assumes "good d" and "find_task me i d = Some t" and "t_status t \<noteq> Deleted"
  shows "(act_of d i \<noteq> [] \<longrightarrow> send_message me (Uuid i) content mid rid now d = Inl round_busy)
    \<and> (act_of d i = [] \<and> t_status t \<noteq> Ready \<longrightarrow>
        send_message me (Uuid i) content mid rid now d = Inl (app_error TASK_INVALID_TRANSITION 409))
    \<and> (t_status t = Ready \<and> validate_initial_message content = Inr ()
        \<and> (\<forall>r\<in>set (rounds d). r_id r \<noteq> rid \<and> r_source r \<noteq> mid) \<longrightarrow>
        (\<exists>fs d' t'. send_message me (Uuid i) content mid rid now d
             = Inr (((mid, t_eseq t + 1, t_eseq t + 3, rid), fs), d')
           \<and> find_task me i d' = Some t' \<and> t_status t' = Queued \<and> t_eseq t' = t_eseq t + 3
           \<and> act_of d' i = [new_round rid i me mid now]
           \<and> map m_content (msgs_of d' i) = map m_content (msgs_of d i) @ [content]
           \<and> map frame_seq fs = [Some (t_eseq t + 1), Some (t_eseq t + 2), Some (t_eseq t + 3)]))"
proof (intro conjI impI)
  show "send_message me (Uuid i) content mid rid now d = Inl round_busy" if "act_of d i \<noteq> []"
    by (rule send_busy [OF assms that])
  show "send_message me (Uuid i) content mid rid now d = Inl (app_error TASK_INVALID_TRANSITION 409)"
    if "act_of d i = [] \<and> t_status t \<noteq> Ready"
    by (rule send_wrong_state [OF assms(1,2)]) (use that assms(3) in auto)
qed (rule send_returns [OF assms(1,2)], auto)

theorem send_message_outcome_witness:
  "\<exists>fs d'. send_message 1 (Uuid 100) [104, 105] 202 301 9 ex_ready = Inr (((202, 9, 11, 301), fs), d')
     \<and> act_of d' 100 = [new_round 301 100 1 202 9]"
proof -
  obtain t where t: "find_task 1 100 ex_ready = Some t" "t_status t = Ready" using ex_find(4) by blast
  have "map_option t_eseq (find_task 1 100 ex_ready) = Some 8" by code_simp
  then have e: "t_eseq t = 8" using t(1) by simp
  have v: "validate_initial_message [104, 105] = Inr ()" by code_simp
  have f: "\<forall>r\<in>set (rounds ex_ready). r_id r \<noteq> 301 \<and> r_source r \<noteq> 202" by code_simp
  from send_message_outcome [OF good_exs(4) t(1), of "[104, 105]" 202 301 9] t(2) e v f show ?thesis by auto
qed

text \<open>A successful input commit queues the task, freezes its input (every staged file of the task becomes
  committed, the manifest digest is stored), and holds a reservation of exactly the committed bytes;
  a second commit is refused with \<open>INPUT_COMMITTED\<close>.\<close>

theorem commit_freezes_input:
  assumes "good d" and "commit_input sha me (Uuid i) manifest rid now d = Inr ((v, h, rd, q), d')"
  shows "rd = rid \<and> h = sha (canonical_json (JArr manifest))
    \<and> (\<exists>t'. find_task me i d' = Some t' \<and> t_status t' = Queued \<and> t_committed t' = Some now \<and> t_manifest t' = Some h)
    \<and> (\<exists>w\<in>set (resvs_of d' i). v_kind w = KTaskRoot \<and> held w \<and> v_bytes w = committed_bytes me i d')
    \<and> filter (\<lambda>f. f_owner f = me \<and> f_task f = i \<and> f_state f = Staged) (files d') = []
    \<and> commit_input sha me (Uuid i) manifest' rid' now' d' = Inl (app_error INPUT_COMMITTED 409)"
proof -
  note e = commit_effect [OF assms]
  then obtain t' where t': "find_task me i d' = Some t'" "t_status t' = Queued" by blast
  have "commit_input sha me (Uuid i) manifest' rid' now' d' = Inl (app_error INPUT_COMMITTED 409)"
    using t'(2) by (simp add: commit_input_def lock_task_found [OF t'(1)] commit_gate_def)
  then show ?thesis using e by blast
qed

theorem commit_freezes_input_witness:
  "\<exists>out d'. commit_input ex_sha 1 (Uuid 100) [] 300 1 ex_uploading = Inr (out, d')
     \<and> commit_input ex_sha 1 (Uuid 100) [] 301 2 d' = Inl (app_error INPUT_COMMITTED 409)"
proof -
  have "\<exists>out d'. commit_input ex_sha 1 (Uuid 100) [] 300 1 ex_uploading = Inr (out, d')"
  proof -
    have "(case commit_input ex_sha 1 (Uuid 100) [] 300 1 ex_uploading of Inl _ \<Rightarrow> False | Inr _ \<Rightarrow> True)" by code_simp
    then show ?thesis by (auto split: sum.splits)
  qed
  then obtain v h rd q d' where c: "commit_input ex_sha 1 (Uuid 100) [] 300 1 ex_uploading = Inr ((v, h, rd, q), d')"
    by auto
  have "commit_input ex_sha 1 (Uuid 100) [] 301 2 d' = Inl (app_error INPUT_COMMITTED 409)"
    by (rule commit_freezes_input [OF good_exs(1) c, THEN conjunct2, THEN conjunct2, THEN conjunct2, THEN conjunct2, THEN conjunct2])
  with c show ?thesis by (intro exI conjI)
qed

text \<open>C27: Reclaiming a lost round gives its slot back; the round is queued again, task and round together, while
  it has an attempt left, and fails the task with \<open>round_failed\<close> after the third.\<close>

theorem reclaim_outcome:
  assumes "good d" and "r \<in> set (rounds d)" and "reclaim_expired_round (cand_of r) lo le d = Inr (out, d')"
  shows "\<exists>t'. task_at d' (r_task r) = Some t' \<and> leased_to d' (r_task r) = 0
     \<and> (if attempt_limit \<le> r_attempt r
        then t_status t' = Failed \<and> t_abort t' = Some RoundFailed \<and> act_of d' (r_task r) = []
        else t_status t' = Queued \<and> map r_state (act_of d' (r_task r)) = [RPending])"
proof -
  have c: "r_id r = c_round (cand_of r)" "r_owner r = c_owner (cand_of r)" "c_task (cand_of r) = r_task r"
    by (simp_all add: cand_of_def)
  show ?thesis
    by (rule reclaim_effect [OF assms(1) scanned_rounds(1) [OF assms(1,2) refl] assms(2) c(1,2) assms(3), unfolded c(3)])
qed

theorem reclaim_outcome_witness:
  "\<exists>r out d' t'. act_of ex_running 100 = [r] \<and> reclaim_expired_round (cand_of r) (Some ''i1'') 1 ex_running = Inr (out, d')
     \<and> task_at d' 100 = Some t' \<and> t_status t' = Queued"
proof -
  obtain r where r: "act_of ex_running 100 = [r]" "r_attempt r = 1" "cand_of r = ex_cand" "r_task r = 100"
  proof -
    have "map (\<lambda>r. (r_attempt r, cand_of r, r_task r)) (act_of ex_running 100) = [(1, ex_cand, 100)]" by code_simp
    then show thesis using that by auto
  qed
  then have "r \<in> set (act_of ex_running 100)" by simp
  then have m: "r \<in> set (rounds ex_running)" by (simp add: act_of_def)
  have "(case reclaim_expired_round ex_cand (Some ''i1'') 1 ex_running of Inl _ \<Rightarrow> False | Inr _ \<Rightarrow> True)" by code_simp
  then obtain out d' where c: "reclaim_expired_round (cand_of r) (Some ''i1'') 1 ex_running = Inr (out, d')"
    using r(3) by (auto split: sum.splits)
  from reclaim_outcome [OF good_exs(3) m c] r c show ?thesis by (auto simp: attempt_limit_def)
qed



section \<open>The background jobs\<close>

text \<open>C29: The dispatcher's batch never ends in an error: from every reachable state one pass over the queued
  rounds, and one pass over the lost and cancelling rounds, handles every candidate (claims, requeues,
  cancels or drops it) and leaves a consistent database, so that no task can block the others.\<close>

theorem dispatcher_never_fails:
  assumes "start s" and "(step X)\<^sup>*\<^sup>* s s'"
  shows "(\<exists>d' xs. dispatch_once has_executor iid now (base s') = (d', xs, None) \<and> good d')
    \<and> (\<exists>d' xs. reclaim_once alive now (base s') = (d', xs, None) \<and> good d')"
proof -
  have "good (base s')" using reachable_good [OF assms] by blast
  then show ?thesis using dispatch_once_total reclaim_once_total by blast
qed

theorem dispatcher_never_fails_witness:
  "\<exists>d' xs. dispatch_once True ''i2'' 5 (base exs_requeued) = (d', xs, None) \<and> good d'"
  using dispatcher_never_fails [OF ex_start ex_steps(9)] by blast

text \<open>C30: Progress: whenever a platform slot is free and the owner is below the running limit, a pending round
  is claimed (its claim commits), from every reachable state.\<close>

theorem pending_round_claimed:
  assumes "start s" and "(step X)\<^sup>*\<^sup>* s s'" and "r \<in> set (rounds (base s'))" and "r_state r = RPending"
    and "usage (base s') (r_owner r) = Some u" and "quotas (base s') (r_owner r) = Some q"
    and "u_running u < q_running q" and "sl \<in> set (slots (base s'))" and "\<not> s_leased sl"
  shows "\<exists>out d'. claim_round iid ttl (cand_of r) now (base s') = Inr (out, d')"
proof -
  have "good (base s')" using reachable_good [OF assms(1,2)] by blast
  from claim_progress [OF this assms(3-9)] show ?thesis .
qed

theorem pending_round_claimed_witness:
  "\<exists>r out d'. act_of (base exs_queued) 100 = [r] \<and> claim_round ''i1'' 90 (cand_of r) 2 (base exs_queued) = Inr (out, d')"
proof -
  obtain r where r: "act_of (base exs_queued) 100 = [r]" "r_state r = RPending" "r_owner r = 1"
  proof -
    have "map (\<lambda>r. (r_state r, r_owner r)) (act_of (base exs_queued) 100) = [(RPending, 1)]" by code_simp
    then show thesis using that by auto
  qed
  then have "r \<in> set (act_of (base exs_queued) 100)" by simp
  then have m: "r \<in> set (rounds (base exs_queued))" by (simp add: act_of_def)
  have u: "usage (base exs_queued) (r_owner r) = Some \<lparr>u_active = 1, u_running = 0, u_storage = 0\<rparr>"
    "quotas (base exs_queued) (r_owner r) = Some \<lparr>q_daily = 5, q_active = 3, q_running = 1, q_storage = 1073741824\<rparr>"
    unfolding r(3) by code_simp+
  have s: "\<lparr>s_no = 1, s_leased = False, s_task = None, s_until = None\<rparr> \<in> set (slots (base exs_queued))" by code_simp
  from pending_round_claimed [OF ex_start ex_steps(2) m r(2) u _ s] r(1) show ?thesis by auto
qed


end
